(* ===== verification/Prelude.thy ===== *)
theory Prelude
  imports Main "HOL-Library.Word"
begin

text \<open>
  Shared vocabulary of the development: the machine integers of the Rust sources, the effect in
  which every fallible or mutating Rust function is modelled, its weakest-precondition rules,
  and the generic word and list lemmas the component theories rely on.
\<close>

unbundle bit_operations_syntax

section \<open>Machine integers\<close>

text \<open>
  Unsigned Rust integers that carry AGC bits keep their width.  Rust's \<open>i64\<close> and
  \<open>i128\<close> are \<open>int\<close> with the range checks of the source written out, and the
  \<open>u64\<close> counters of cycles and sequence numbers are \<open>nat\<close>.
\<close>

type_synonym u8 = "8 word"
type_synonym u16 = "16 word"
type_synonym u32 = "32 word"

section \<open>Fallible, mutating and panicking computations\<close>

text \<open>
  A Rust method that takes \<open>&mut self\<close> and returns \<open>Result<T, E>\<close> is a function
  of the state.  \<open>None\<close> stands for a computation that panics (a failed index, an
  \<open>expect\<close> on an error, an unreachable arm, an overflowing checked operation) or that
  does not return; otherwise the result is paired with the state the method leaves behind,
  also when it reports an error, because Rust keeps the mutations made before the error.
\<close>

type_synonym ('s, 'e, 'a) prog = "'s \<Rightarrow> (('e + 'a) \<times> 's) option"

definition ok :: "'a \<Rightarrow> ('s, 'e, 'a) prog" where
  "ok a = (\<lambda>s. Some (Inr a, s))"

definition fail :: "'e \<Rightarrow> ('s, 'e, 'a) prog" where
  "fail e = (\<lambda>s. Some (Inl e, s))"

definition panic :: "('s, 'e, 'a) prog" where
  "panic = (\<lambda>s. None)"

definition and_then :: "('s, 'e, 'a) prog \<Rightarrow> ('a \<Rightarrow> ('s, 'e, 'b) prog) \<Rightarrow> ('s, 'e, 'b) prog" where
  "and_then m f = (\<lambda>s. case m s of
       None \<Rightarrow> None
     | Some (r, s') \<Rightarrow> (case r of Inl e \<Rightarrow> Some (Inl e, s') | Inr a \<Rightarrow> f a s'))"

abbreviation seq :: "('s, 'e, unit) prog \<Rightarrow> ('s, 'e, 'b) prog \<Rightarrow> ('s, 'e, 'b) prog" where
  "seq m n \<equiv> and_then m (\<lambda>_. n)"

definition gets :: "('s \<Rightarrow> 'a) \<Rightarrow> ('s, 'e, 'a) prog" where
  "gets f = (\<lambda>s. Some (Inr (f s), s))"

definition modify :: "('s \<Rightarrow> 's) \<Rightarrow> ('s, 'e, unit) prog" where
  "modify f = (\<lambda>s. Some (Inr (), f s))"

definition when_do :: "bool \<Rightarrow> ('s, 'e, unit) prog \<Rightarrow> ('s, 'e, unit) prog" where
  "when_do b m = (if b then m else ok ())"

text \<open>\<open>?\<close> on a pure \<open>Result\<close>, and unwrapping of a pure value that may panic.\<close>

definition of_result :: "'e + 'a \<Rightarrow> ('s, 'e, 'a) prog" where
  "of_result r = (case r of Inl e \<Rightarrow> fail e | Inr a \<Rightarrow> ok a)"

definition of_option :: "'a option \<Rightarrow> ('s, 'e, 'a) prog" where
  "of_option r = (case r of None \<Rightarrow> panic | Some a \<Rightarrow> ok a)"

text \<open>\<open>expect\<close>: an error becomes a panic.\<close>

definition expect :: "('s, 'e, 'a) prog \<Rightarrow> ('s, 'f, 'a) prog" where
  "expect m = (\<lambda>s. case m s of
       None \<Rightarrow> None
     | Some (r, s') \<Rightarrow> (case r of Inl e \<Rightarrow> None | Inr a \<Rightarrow> Some (Inr a, s')))"

text \<open>
  Running a computation of a component on the part of the state that holds it, converting its
  error as the \<open>From\<close> implementation of the caller's error type does.
\<close>

definition zoom :: "('t \<Rightarrow> 's) \<Rightarrow> ('s \<Rightarrow> 't \<Rightarrow> 't) \<Rightarrow> ('e \<Rightarrow> 'f) \<Rightarrow> ('s, 'e, 'a) prog \<Rightarrow> ('t, 'f, 'a) prog" where
  "zoom get put conv m = (\<lambda>t. case m (get t) of
       None \<Rightarrow> None
     | Some (r, s') \<Rightarrow> Some (case r of Inl e \<Rightarrow> Inl (conv e) | Inr a \<Rightarrow> Inr a, put s' t))"

fun repeat_do :: "nat \<Rightarrow> ('s, 'e, unit) prog \<Rightarrow> ('s, 'e, unit) prog" where
  "repeat_do 0 m = ok ()"
| "repeat_do (Suc n) m = seq m (repeat_do n m)"

fun for_each :: "'x list \<Rightarrow> ('x \<Rightarrow> ('s, 'e, unit) prog) \<Rightarrow> ('s, 'e, unit) prog" where
  "for_each [] f = ok ()"
| "for_each (x # xs) f = seq (f x) (for_each xs f)"

text \<open>
  A \<open>while\<close> loop with a loop variable.  The fuel bounds the number of iterations;
  running out of it is \<open>None\<close>, like a loop that does not return.
\<close>

fun while_loop :: "nat \<Rightarrow> ('a \<Rightarrow> 's \<Rightarrow> bool) \<Rightarrow> ('a \<Rightarrow> ('s, 'e, 'a) prog) \<Rightarrow> 'a \<Rightarrow> ('s, 'e, 'a) prog" where
  "while_loop 0 c body a = panic"
| "while_loop (Suc n) c body a =
     and_then (gets (c a)) (\<lambda>b. if b then and_then (body a) (while_loop n c body) else ok a)"

text \<open>
  Indexing an array field of the state.  An index out of bounds panics, as Rust's does.
\<close>

definition load :: "('s \<Rightarrow> 'x list) \<Rightarrow> nat \<Rightarrow> ('s, 'e, 'x) prog" where
  "load field i = (\<lambda>s. if i < length (field s) then Some (Inr (field s ! i), s) else None)"

definition store ::
  "('s \<Rightarrow> 'x list) \<Rightarrow> (('x list \<Rightarrow> 'x list) \<Rightarrow> 's \<Rightarrow> 's) \<Rightarrow> nat \<Rightarrow> 'x \<Rightarrow> ('s, 'e, unit) prog" where
  "store field update i x =
     (\<lambda>s. if i < length (field s) then Some (Inr (), update (\<lambda>_. (field s)[i := x]) s) else None)"

section \<open>Weakest preconditions\<close>

text \<open>
  \<open>runs m s Q E\<close>: from \<open>s\<close> the computation returns, without a panic, either a value
  satisfying \<open>Q\<close> or an error satisfying \<open>E\<close>.  It is total correctness, so
  \<open>succeeds\<close> says in particular that the code returns.
\<close>

definition runs :: "('s, 'e, 'a) prog \<Rightarrow> 's \<Rightarrow> ('a \<Rightarrow> 's \<Rightarrow> bool) \<Rightarrow> ('e \<Rightarrow> 's \<Rightarrow> bool) \<Rightarrow> bool" where
  "runs m s Q E \<longleftrightarrow> (case m s of
       None \<Rightarrow> False
     | Some (r, s') \<Rightarrow> (case r of Inl e \<Rightarrow> E e s' | Inr a \<Rightarrow> Q a s'))"

abbreviation succeeds :: "('s, 'e, 'a) prog \<Rightarrow> 's \<Rightarrow> ('a \<Rightarrow> 's \<Rightarrow> bool) \<Rightarrow> bool" where
  "succeeds m s Q \<equiv> runs m s Q (\<lambda>_ _. False)"

named_theorems wp "weakest-precondition equations, one per construct"

lemma runs_ok [wp, simp]: "runs (ok a) s Q E = Q a s"
  by (simp add: runs_def ok_def)

lemma runs_fail [wp, simp]: "runs (fail e) s Q E = E e s"
  by (simp add: runs_def fail_def)

lemma runs_panic [wp, simp]: "runs panic s Q E = False"
  by (simp add: runs_def panic_def)

lemma runs_and_then [wp, simp]:
  "runs (and_then m f) s Q E = runs m s (\<lambda>a s'. runs (f a) s' Q E) E"
  by (auto simp: runs_def and_then_def split: option.splits sum.splits)

lemma runs_gets [wp, simp]: "runs (gets f) s Q E = Q (f s) s"
  by (simp add: runs_def gets_def)

lemma runs_modify [wp, simp]: "runs (modify f) s Q E = Q () (f s)"
  by (simp add: runs_def modify_def)

lemma runs_when_do [wp, simp]: "runs (when_do b m) s Q E = (if b then runs m s Q E else Q () s)"
  by (simp add: when_do_def)

lemma runs_of_result [wp, simp]:
  "runs (of_result r) s Q E = (case r of Inl e \<Rightarrow> E e s | Inr a \<Rightarrow> Q a s)"
  by (simp add: of_result_def split: sum.split)

lemma runs_of_option [wp, simp]:
  "runs (of_option r) s Q E = (case r of None \<Rightarrow> False | Some a \<Rightarrow> Q a s)"
  by (simp add: of_option_def split: option.split)

lemma runs_expect [wp, simp]: "runs (expect m) s Q E = succeeds m s Q"
  by (auto simp: runs_def expect_def split: option.splits sum.splits)

lemma runs_zoom [wp, simp]:
  "runs (zoom get put conv m) t Q E
     = runs m (get t) (\<lambda>a s'. Q a (put s' t)) (\<lambda>e s'. E (conv e) (put s' t))"
  by (auto simp: runs_def zoom_def split: option.splits sum.splits)

lemma runs_load [wp, simp]:
  "runs (load field i) s Q E \<longleftrightarrow> i < length (field s) \<and> Q (field s ! i) s"
  by (simp add: runs_def load_def)

lemma runs_store [wp, simp]:
  "runs (store field update i x) s Q E
     \<longleftrightarrow> i < length (field s) \<and> Q () (update (\<lambda>_. (field s)[i := x]) s)"
  by (simp add: runs_def store_def)

lemma runs_if [wp, simp]:
  "runs (if b then m else n) s Q E = (if b then runs m s Q E else runs n s Q E)"
  by simp

lemma runs_mono:
  assumes "runs m s Q E" "\<And>a s'. Q a s' \<Longrightarrow> Q' a s'" "\<And>e s'. E e s' \<Longrightarrow> E' e s'"
  shows "runs m s Q' E'"
  using assms by (auto simp: runs_def split: option.splits sum.splits)

lemma succeeds_mono:
  assumes "succeeds m s Q" "\<And>a s'. Q a s' \<Longrightarrow> Q' a s'"
  shows "runs m s Q' E'"
  using assms by (rule runs_mono) simp_all

lemma succeeds_conj:
  assumes "succeeds m s Q" "succeeds m s R"
  shows "succeeds m s (\<lambda>a s'. Q a s' \<and> R a s')"
  using assms by (auto simp: runs_def split: option.splits sum.splits)

lemma succeeds_iff: "succeeds m s Q \<longleftrightarrow> (\<exists>a s'. m s = Some (Inr a, s') \<and> Q a s')"
  by (auto simp: runs_def split: option.splits sum.splits)

lemma runs_iff:
  "runs m s Q E \<longleftrightarrow> (\<exists>a s'. m s = Some (Inr a, s') \<and> Q a s') \<or> (\<exists>e s'. m s = Some (Inl e, s') \<and> E e s')"
  by (auto simp: runs_def split: option.splits sum.splits)

lemma runs_repeat_do:
  assumes "\<And>s. I s \<Longrightarrow> runs m s (\<lambda>_. I) E" "I s"
  shows "runs (repeat_do n m) s (\<lambda>_. I) E"
  using assms(2)
proof (induction n arbitrary: s)
  case 0
  then show ?case by simp
next
  case (Suc n)
  have "runs m s (\<lambda>_. I) E" using Suc.prems by (rule assms(1))
  then have "runs m s (\<lambda>_ s'. runs (repeat_do n m) s' (\<lambda>_. I) E) E"
    by (rule runs_mono) (erule Suc.IH)
  then show ?case by simp
qed

lemma runs_for_each:
  assumes "\<And>x s. x \<in> set xs \<Longrightarrow> I s \<Longrightarrow> runs (f x) s (\<lambda>_. I) E" "I s"
  shows "runs (for_each xs f) s (\<lambda>_. I) E"
  using assms
proof (induction xs arbitrary: s)
  case Nil
  then show ?case by simp
next
  case (Cons x xs)
  have "runs (f x) s (\<lambda>_. I) E" using Cons.prems by simp
  then have "runs (f x) s (\<lambda>_ s'. runs (for_each xs f) s' (\<lambda>_. I) E) E"
    by (rule runs_mono) (simp_all add: Cons.IH Cons.prems(1))
  then show ?case by simp
qed

section \<open>Totality and invariants\<close>

text \<open>
  \<open>keeps I m P\<close>: from every state satisfying \<open>I\<close> the computation succeeds, restores
  \<open>I\<close> and returns a value satisfying \<open>P\<close>.  The rules follow the structure of a program, so
  that totality of a routine is one application of them.
\<close>

definition keeps :: "('s \<Rightarrow> bool) \<Rightarrow> ('s, 'e, 'a) prog \<Rightarrow> ('a \<Rightarrow> bool) \<Rightarrow> bool" where
  "keeps I m P \<longleftrightarrow> (\<forall>s. I s \<longrightarrow> succeeds m s (\<lambda>a s'. I s' \<and> P a))"

named_theorems keeps_rules "structural rules for totality and invariants"

lemma keepsI: "(\<And>s. I s \<Longrightarrow> succeeds m s (\<lambda>a s'. I s' \<and> P a)) \<Longrightarrow> keeps I m P"
  by (simp add: keeps_def)

lemma keepsD: "keeps I m P \<Longrightarrow> I s \<Longrightarrow> succeeds m s (\<lambda>a s'. I s' \<and> P a)"
  by (simp add: keeps_def)

lemma keeps_mono:
  assumes "keeps I m P" "\<And>a. P a \<Longrightarrow> Q a"
  shows "keeps I m Q"
proof (rule keepsI)
  fix s
  assume "I s"
  then show "succeeds m s (\<lambda>a s'. I s' \<and> Q a)"
    by (rule succeeds_mono [OF keepsD [OF assms(1)]]) (simp add: assms(2))
qed

lemma keeps_ok [keeps_rules]: "P a \<Longrightarrow> keeps I (ok a) P"
  by (simp add: keeps_def)

lemma keeps_bind [keeps_rules]:
  assumes "keeps I m P" "\<And>a. P a \<Longrightarrow> keeps I (f a) Q"
  shows "keeps I (and_then m f) Q"
proof (rule keepsI)
  fix s
  assume "I s"
  with assms(1) have "succeeds m s (\<lambda>a s'. I s' \<and> P a)" by (rule keepsD)
  then have "runs m s (\<lambda>a s'. succeeds (f a) s' (\<lambda>b t. I t \<and> Q b)) (\<lambda>_ _. False)"
    by (rule succeeds_mono) (elim conjE, rule keepsD [OF assms(2)])
  then show "succeeds (and_then m f) s (\<lambda>b t. I t \<and> Q b)" by simp
qed

lemma keeps_if [keeps_rules]:
  "(b \<Longrightarrow> keeps I m P) \<Longrightarrow> (\<not> b \<Longrightarrow> keeps I n P) \<Longrightarrow> keeps I (if b then m else n) P"
  by simp

lemma keeps_when [keeps_rules]:
  "(b \<Longrightarrow> keeps I m (\<lambda>_. True)) \<Longrightarrow> keeps I (when_do b m) (\<lambda>_. True)"
  by (simp add: when_do_def keeps_ok)

lemma keeps_gets: "(\<And>s. I s \<Longrightarrow> P (f s)) \<Longrightarrow> keeps I (gets f) P"
  by (simp add: keeps_def)

lemma keeps_modify: "(\<And>s. I s \<Longrightarrow> I (f s)) \<Longrightarrow> keeps I (modify f) (\<lambda>_. True)"
  by (simp add: keeps_def)

lemma keeps_expect [keeps_rules]: "keeps I m P \<Longrightarrow> keeps I (expect m) P"
  by (simp add: keeps_def)

lemma keeps_zoom:
  assumes "keeps J m P" "\<And>t. I t \<Longrightarrow> J (get t)" "\<And>t s. I t \<Longrightarrow> J s \<Longrightarrow> I (put s t)"
  shows "keeps I (zoom get put conv m) P"
proof (rule keepsI)
  fix t
  assume t: "I t"
  then have "succeeds m (get t) (\<lambda>a s'. J s' \<and> P a)" using assms(1,2) by (simp add: keepsD)
  then show "succeeds (zoom get put conv m) t (\<lambda>a s'. I s' \<and> P a)"
    unfolding runs_zoom by (rule runs_mono) (use assms(3) t in auto)
qed

lemma keeps_repeat [keeps_rules]:
  assumes "keeps I m (\<lambda>_. True)"
  shows "keeps I (repeat_do n m) (\<lambda>_. True)"
  by (induction n) (auto intro: keeps_rules assms)

lemma keeps_ex:
  assumes "\<And>x. keeps (I x) m P"
  shows "keeps (\<lambda>s. \<exists>x. I x s) m P"
proof (rule keepsI)
  fix s
  assume "\<exists>x. I x s"
  then obtain x where "I x s" by blast
  then show "succeeds m s (\<lambda>a s'. (\<exists>x. I x s') \<and> P a)"
    by (rule succeeds_mono [OF keepsD [OF assms]]) auto
qed

text \<open>The same constructs as equations, for evaluating a run on a concrete state.\<close>

named_theorems run_simps "equations that evaluate a computation on a concrete state"

lemma run_basic [run_simps]:
  "ok a s = Some (Inr a, s)" "fail e s = Some (Inl e, s)" "panic s = None"
  "gets f s = Some (Inr (f s), s)" "modify g s = Some (Inr (), g s)"
  by (simp_all add: ok_def fail_def panic_def gets_def modify_def)

lemma run_and_then [run_simps]:
  "and_then m f s = (case m s of
       None \<Rightarrow> None
     | Some (r, s') \<Rightarrow> (case r of Inl e \<Rightarrow> Some (Inl e, s') | Inr a \<Rightarrow> f a s'))"
  by (simp add: and_then_def)

lemma run_zoom [run_simps]:
  "zoom get put conv m t = (case m (get t) of
       None \<Rightarrow> None
     | Some (r, s') \<Rightarrow> Some (case r of Inl e \<Rightarrow> Inl (conv e) | Inr a \<Rightarrow> Inr a, put s' t))"
  by (simp add: zoom_def)

lemma run_expect [run_simps]:
  "expect m s = (case m s of
       None \<Rightarrow> None
     | Some (r, s') \<Rightarrow> (case r of Inl e \<Rightarrow> None | Inr a \<Rightarrow> Some (Inr a, s')))"
  by (simp add: expect_def)

lemma run_array [run_simps]:
  "load field i s = (if i < length (field s) then Some (Inr (field s ! i), s) else None)"
  "store field update i x s
     = (if i < length (field s) then Some (Inr (), update (\<lambda>_. (field s)[i := x]) s) else None)"
  by (simp_all add: load_def store_def)

lemma run_derived [run_simps]:
  "when_do b m s = (if b then m s else Some (Inr (), s))"
  "of_result r s = (case r of Inl e \<Rightarrow> Some (Inl e, s) | Inr a \<Rightarrow> Some (Inr a, s))"
  "of_option v s = (case v of None \<Rightarrow> None | Some a \<Rightarrow> Some (Inr a, s))"
  by (simp_all add: when_do_def of_result_def of_option_def run_basic split: sum.split option.split)

section \<open>What a computation leaves alone\<close>

text \<open>Whatever the result, the state before and the state after are related.\<close>

definition leaves :: "('s \<Rightarrow> 's \<Rightarrow> bool) \<Rightarrow> ('s, 'e, 'a) prog \<Rightarrow> bool" where
  "leaves R m \<longleftrightarrow> (\<forall>r x r'. m r = Some (x, r') \<longrightarrow> R r r')"

lemma leavesI: "(\<And>r x r'. m r = Some (x, r') \<Longrightarrow> R r r') \<Longrightarrow> leaves R m"
  by (auto simp: leaves_def)

lemma leavesD: "leaves R m \<Longrightarrow> m r = Some (x, r') \<Longrightarrow> R r r'"
  by (auto simp: leaves_def)

lemma leaves_bind: "reflp R \<Longrightarrow> transp R \<Longrightarrow> leaves R m \<Longrightarrow> (\<And>a. leaves R (f a)) \<Longrightarrow> leaves R (and_then m f)"
proof (rule leavesI)
  fix r x r'
  assume R: "reflp R" "transp R" "leaves R m" "\<And>a. leaves R (f a)" and run: "and_then m f r = Some (x, r')"
  then obtain y s where s: "m r = Some (y, s)" by (auto simp: and_then_def split: option.splits)
  then have rs: "R r s" by (rule leavesD [OF R(3)])
  show "R r r'"
  proof (cases y)
    case (Inl e)
    then show ?thesis using run s rs by (simp add: and_then_def)
  next
    case (Inr a)
    then have "f a s = Some (x, r')" using run s by (simp add: and_then_def)
    then show ?thesis using transpD [OF R(2) rs] leavesD [OF R(4)] by blast
  qed
qed

lemma leaves_simple:
  "reflp R \<Longrightarrow> leaves R (ok a)" "reflp R \<Longrightarrow> leaves R (fail e)" "leaves R panic" "reflp R \<Longrightarrow> leaves R (gets f)"
  "reflp R \<Longrightarrow> leaves R (of_option v)" "reflp R \<Longrightarrow> leaves R (of_result w)"
  "(\<And>r. R r (g r)) \<Longrightarrow> leaves R (modify g)"
  by (auto simp: leaves_def run_simps dest: reflpD split: option.splits sum.splits)

lemma leaves_expect: "leaves R m \<Longrightarrow> leaves R (expect m)"
  by (auto simp: leaves_def run_simps split: option.splits sum.splits)

lemma leaves_for_each: "reflp R \<Longrightarrow> transp R \<Longrightarrow> (\<And>x. leaves R (f x)) \<Longrightarrow> leaves R (for_each xs f)"
  by (induction xs) (auto intro: leaves_bind leaves_simple)

end
