(* ===== verification/Word_Facts.thy ===== *)
theory Word_Facts
  imports Prelude
begin

text \<open>
  Facts on fixed-width words that the components share.  Two views of a word are used: the
  natural number it denotes, where masks are remainders and shifts are quotients, and its
  single bits, where an equation between words is sixteen equations between bits.
\<close>

section \<open>Words as natural numbers\<close>

named_theorems unat_simps "masks, shifts and sums of words as arithmetic on naturals"

lemma unat_and_mask: "unat ((x :: 'a::len word) AND mask n) = unat x mod 2 ^ n"
  by (simp only: take_bit_eq_mask [symmetric] unsigned_take_bit_eq) (simp only: take_bit_eq_mod)

lemma unat_drop_bit: "unat (drop_bit n (x :: 'a::len word)) = unat x div 2 ^ n"
proof -
  have "unat (drop_bit n x) = drop_bit n (unat x)"
    by (rule bit_eqI) (auto simp: bit_simps)
  then show ?thesis by (simp only: drop_bit_eq_div)
qed

lemma bit_unat: "bit (x :: 'a::len word) n \<longleftrightarrow> odd (unat x div 2 ^ n)"
proof -
  have "bit x n = bit (unat x) n" by (simp add: bit_simps)
  then show ?thesis by (simp only: bit_iff_odd)
qed

lemma unat_not: "unat (NOT (x :: 'a::len word)) = 2 ^ LENGTH('a) - 1 - unat x"
proof -
  have "NOT x = -1 - x" by (simp add: not_eq_complement)
  moreover have "x \<le> - 1" by (rule word_n1_ge)
  ultimately have "unat (NOT x) = unat (-1 :: 'a word) - unat x"
    by (simp only: unat_sub)
  moreover have "unat (-1 :: 'a word) = 2 ^ LENGTH('a) - 1"
    by (simp add: unsigned_minus_1_eq_mask mask_eq_exp_minus_1)
  ultimately show ?thesis by simp
qed

text \<open>Words are read as naturals: \<open>uint\<close> is unfolded and not folded back.\<close>

declare of_nat_unat [simp del]

lemma uint_unat [unat_simps]: "uint (x :: 'a::len word) = int (unat x)"
  by (simp add: of_nat_unat)

lemma unat_word_of_int:
  assumes "0 \<le> v" "v < 2 ^ LENGTH('a)"
  shows "unat (word_of_int v :: 'a::len word) = nat v"
proof -
  have "uint (word_of_int v :: 'a word) = v"
    by (simp only: uint_word_of_int) (use assms in simp)
  then show ?thesis by (simp only: unat_eq_nat_uint)
qed

lemma word_of_nat_unat [simp]: "(word_of_nat (unat (x :: 'a::len word)) :: 'a word) = x"
  by transfer simp

lemma u16_less [simp]: "unat (x :: u16) < 65536"
  using unsigned_less [of x] by simp

lemma u8_less [simp]: "unat (x :: u8) < 256"
  using unsigned_less [of x] by simp

lemma u32_less [simp]: "unat (x :: u32) < 4294967296"
  using unsigned_less [of x] by simp

lemma unat_not_u16 [unat_simps]: "unat (NOT (x :: u16)) = 65535 - unat x"
  by (simp add: unat_not)

lemma unat_not_u32: "unat (NOT (x :: u32)) = 4294967295 - unat x"
  by (simp add: unat_not)

lemma word_eq_unat_iff: "(x :: 'a::len word) = y \<longleftrightarrow> unat x = unat y"
  by (simp add: word_unat_eq_iff)

lemma unat_and_eq_mask: "c = mask n \<Longrightarrow> unat ((x :: 'a::len word) AND c) = unat x mod 2 ^ n"
  by (simp only: unat_and_mask)

lemma u16_and_1 [unat_simps]: "unat ((x :: u16) AND 0x1) = unat x mod 2"
  by (rule trans [OF unat_and_eq_mask [of _ 1]]) (simp_all add: mask_eq_exp_minus_1)

lemma u16_and_3 [unat_simps]: "unat ((x :: u16) AND 0x3) = unat x mod 4"
  by (rule trans [OF unat_and_eq_mask [of _ 2]]) (simp_all add: mask_eq_exp_minus_1)

lemma u16_and_7 [unat_simps]: "unat ((x :: u16) AND 0x7) = unat x mod 8"
  by (rule trans [OF unat_and_eq_mask [of _ 3]]) (simp_all add: mask_eq_exp_minus_1)

lemma u16_and_1F [unat_simps]: "unat ((x :: u16) AND 0x1F) = unat x mod 32"
  by (rule trans [OF unat_and_eq_mask [of _ 5]]) (simp_all add: mask_eq_exp_minus_1)

lemma u16_and_3F [unat_simps]: "unat ((x :: u16) AND 0x3F) = unat x mod 64"
  by (rule trans [OF unat_and_eq_mask [of _ 6]]) (simp_all add: mask_eq_exp_minus_1)

lemma u16_and_7F [unat_simps]: "unat ((x :: u16) AND 0x7F) = unat x mod 128"
  by (rule trans [OF unat_and_eq_mask [of _ 7]]) (simp_all add: mask_eq_exp_minus_1)

lemma u16_and_FF [unat_simps]: "unat ((x :: u16) AND 0xFF) = unat x mod 256"
  by (rule trans [OF unat_and_eq_mask [of _ 8]]) (simp_all add: mask_eq_exp_minus_1)

lemma u16_and_1FF [unat_simps]: "unat ((x :: u16) AND 0x1FF) = unat x mod 512"
  by (rule trans [OF unat_and_eq_mask [of _ 9]]) (simp_all add: mask_eq_exp_minus_1)

lemma u16_and_3FF [unat_simps]: "unat ((x :: u16) AND 0x3FF) = unat x mod 1024"
  by (rule trans [OF unat_and_eq_mask [of _ 10]]) (simp_all add: mask_eq_exp_minus_1)

lemma u16_and_FFF [unat_simps]: "unat ((x :: u16) AND 0xFFF) = unat x mod 4096"
  by (rule trans [OF unat_and_eq_mask [of _ 12]]) (simp_all add: mask_eq_exp_minus_1)

lemma u16_and_3FFF [unat_simps]: "unat ((x :: u16) AND 0x3FFF) = unat x mod 16384"
  by (rule trans [OF unat_and_eq_mask [of _ 14]]) (simp_all add: mask_eq_exp_minus_1)

lemma u16_and_7FFF [unat_simps]: "unat ((x :: u16) AND 0x7FFF) = unat x mod 32768"
  by (rule trans [OF unat_and_eq_mask [of _ 15]]) (simp_all add: mask_eq_exp_minus_1)

lemma u32_and_3FFF [unat_simps]: "unat ((x :: u32) AND 0x3FFF) = unat x mod 16384"
  by (rule trans [OF unat_and_eq_mask [of _ 14]]) (simp_all add: mask_eq_exp_minus_1)

lemma u32_and_7FFF [unat_simps]: "unat ((x :: u32) AND 0x7FFF) = unat x mod 32768"
  by (rule trans [OF unat_and_eq_mask [of _ 15]]) (simp_all add: mask_eq_exp_minus_1)

lemma u32_and_FFFF [unat_simps]: "unat ((x :: u32) AND 0xFFFF) = unat x mod 65536"
  by (rule trans [OF unat_and_eq_mask [of _ 16]]) (simp_all add: mask_eq_exp_minus_1)

lemma u32_and_FFFFFFF [unat_simps]: "unat ((x :: u32) AND 0xFFFFFFF) = unat x mod 268435456"
  by (rule trans [OF unat_and_eq_mask [of _ 28]]) (simp_all add: mask_eq_exp_minus_1)

lemma u32_and_3FFFFFFF [unat_simps]: "unat ((x :: u32) AND 0x3FFFFFFF) = unat x mod 1073741824"
  by (rule trans [OF unat_and_eq_mask [of _ 30]]) (simp_all add: mask_eq_exp_minus_1)

lemma unat_ucast: "unat (ucast (x :: 'a::len word) :: 'b::len word) = unat x mod 2 ^ LENGTH('b)"
  by (simp only: unsigned_ucast_eq) (simp only: take_bit_eq_mod)

lemma unat_ucast_u16_u32 [unat_simps]: "unat (ucast (x :: u16) :: u32) = unat x"
  by (simp only: unat_ucast) (simp add: order_less_trans [OF u16_less])

lemma unat_ucast_u32_u16 [unat_simps]: "unat (ucast (x :: u32) :: u16) = unat x mod 65536"
  by (simp only: unat_ucast) simp

lemma unat_ucast_u16_u8 [unat_simps]: "unat (ucast (x :: u16) :: u8) = unat x mod 256"
  by (simp only: unat_ucast) simp

lemma unat_ucast_u8_u16 [unat_simps]: "unat (ucast (x :: u8) :: u16) = unat x"
  by (simp only: unat_ucast) (simp add: order_less_trans [OF u8_less])

section \<open>Words as bits\<close>

lemma less_16_cases:
  "(n :: nat) < 16 \<Longrightarrow>
     n = 15 \<or> n = 14 \<or> n = 13 \<or> n = 12 \<or> n = 11 \<or> n = 10 \<or> n = 9 \<or> n = 8 \<or> n = 7 \<or> n = 6 \<or> n = 5 \<or> n = 4 \<or> n = 3 \<or> n = 2 \<or> n = 1 \<or> n = 0"
  by arith

lemma u16_eq_iff:
  fixes a b :: u16
  shows "a = b \<longleftrightarrow>
     bit a 0 = bit b 0 \<and> bit a 1 = bit b 1 \<and> bit a 2 = bit b 2 \<and> bit a 3 = bit b 3 \<and>
     bit a 4 = bit b 4 \<and> bit a 5 = bit b 5 \<and> bit a 6 = bit b 6 \<and> bit a 7 = bit b 7 \<and>
     bit a 8 = bit b 8 \<and> bit a 9 = bit b 9 \<and> bit a 10 = bit b 10 \<and> bit a 11 = bit b 11 \<and>
     bit a 12 = bit b 12 \<and> bit a 13 = bit b 13 \<and> bit a 14 = bit b 14 \<and> bit a 15 = bit b 15"
    (is "_ \<longleftrightarrow> ?bits")
proof
  assume ?bits
  show "a = b"
  proof (rule bit_word_eqI)
    fix n
    assume "n < LENGTH(16)"
    then have "n < 16" by simp
    from less_16_cases [OF this] \<open>?bits\<close> show "bit a n = bit b n"
      by (elim disjE) simp_all
  qed
qed simp

lemma u16_and_FFFF [simp]: "(x :: u16) AND 0xFFFF = x"
  by (simp add: u16_eq_iff bit_simps)

lemma bit_u16_double: "bit ((x :: u16) * 2) n \<longleftrightarrow> 0 < n \<and> n < 16 \<and> bit x (n - 1)"
  using bit_double_iff [of x n] by (auto simp: mult.commute)

lemma bit_Suc_numerals:
  "bit x (Suc 0) = bit x 1" "bit x (Suc (Suc 0)) = bit x 2"
  "bit x (Suc (Suc (Suc 0))) = bit x 3"
  by (simp_all add: numeral_2_eq_2 numeral_3_eq_3)

lemma bit_u16_high: "16 \<le> n \<Longrightarrow> \<not> bit (x :: u16) n"
  using bit_imp_le_length [of x n] by auto

text \<open>Joining two bit fields is adding their values.\<close>

lemma unat_or_disjoint:
  fixes x y :: "'a::len word"
  assumes "x AND y = 0" "unat x + unat y < 2 ^ LENGTH('a)"
  shows "unat (x OR y) = unat x + unat y"
proof -
  have "x OR y = x + y" using assms(1) by (simp add: disjunctive_add_eq_or)
  then show ?thesis using assms(2) by (simp add: unat_word_ariths)
qed

lemma unat_push_bit:
  "unat (push_bit n (x :: 'a::len word)) = unat x * 2 ^ n mod 2 ^ LENGTH('a)"
proof -
  have "unat (push_bit n x) = take_bit LENGTH('a) (push_bit n (unat x))"
    by (rule bit_eqI) (auto simp: bit_simps)
  then show ?thesis by (simp only: push_bit_eq_mult take_bit_eq_mod)
qed

lemma join_fields_u32:
  fixes x y :: u32
  assumes "unat x < 16384" "unat y < 16384"
  shows "unat (push_bit 14 x OR y) = unat x * 16384 + unat y"
proof -
  have small: "\<not> bit y n" if "14 \<le> n" for n
  proof -
    have "(2::nat) ^ 14 \<le> 2 ^ n" using that by (rule power_increasing) simp
    then have "unat y < 2 ^ n" using assms(2) by simp
    then show ?thesis by (simp add: bit_unat)
  qed
  have disjoint: "push_bit 14 x AND y = 0"
    by (rule bit_word_eqI) (auto simp: bit_simps small)
  have left: "unat (push_bit 14 x) = unat x * 16384"
    using assms(1) by (simp add: unat_push_bit)
  show ?thesis
    using assms by (simp add: unat_or_disjoint [OF disjoint] left)
qed

text \<open>The masks of the sources, bit by bit, and the tests of the two sign bits.\<close>

named_theorems bit_masks "bits of the mask literals"

lemma bit_int_small: "0 \<le> (k :: int) \<Longrightarrow> k < 65536 \<Longrightarrow> 16 \<le> n \<Longrightarrow> \<not> bit k n"
proof -
  assume k: "0 \<le> k" "k < 65536" and n: "16 \<le> n"
  have "(2::int) ^ 16 \<le> 2 ^ n" using n by (rule power_increasing) simp
  then have "k < 2 ^ n" using k by simp
  then show ?thesis using k by (simp add: bit_iff_odd)
qed

lemma bit_4000 [bit_masks]: "bit (16384 :: int) n \<longleftrightarrow> n = 14"
proof (cases "n < 16")
  case True
  from less_16_cases [OF this] show ?thesis by (elim disjE) simp_all
qed (auto simp: bit_int_small)

lemma bit_8000 [bit_masks]: "bit (32768 :: int) n \<longleftrightarrow> n = 15"
proof (cases "n < 16")
  case True
  from less_16_cases [OF this] show ?thesis by (elim disjE) simp_all
qed (auto simp: bit_int_small)

lemma bit_C000 [bit_masks]: "bit (49152 :: int) n \<longleftrightarrow> n = 14 \<or> n = 15"
proof (cases "n < 16")
  case True
  from less_16_cases [OF this] show ?thesis by (elim disjE) simp_all
qed (auto simp: bit_int_small)

lemma bit_3FFF [bit_masks]: "bit (16383 :: int) n \<longleftrightarrow> n < 14"
proof (cases "n < 16")
  case True
  from less_16_cases [OF this] show ?thesis by (elim disjE) simp_all
qed (auto simp: bit_int_small)

lemma bit_7FFF [bit_masks]: "bit (32767 :: int) n \<longleftrightarrow> n < 15"
proof (cases "n < 16")
  case True
  from less_16_cases [OF this] show ?thesis by (elim disjE) simp_all
qed (auto simp: bit_int_small)

lemma top_bits_iff:
  fixes x :: u16
  shows "x AND 0xC000 = 0x8000 \<longleftrightarrow> bit x 15 \<and> \<not> bit x 14"
    and "x AND 0xC000 = 0x4000 \<longleftrightarrow> bit x 14 \<and> \<not> bit x 15"
    and "x AND 0x8000 = 0 \<longleftrightarrow> \<not> bit x 15"
    and "x AND 0x4000 = 0 \<longleftrightarrow> \<not> bit x 14"
  by (auto simp: u16_eq_iff bit_simps)

end
