(* ===== verification/Rust_Std.thy ===== *)
theory Rust_Std
  imports Word_Facts
begin

text \<open>
  The parts of Rust's standard library that the modelled crates call on text and numbers:
  radix formatting with zero padding, \<open>from_str_radix\<close>, \<open>trim\<close> and \<open>strip_prefix\<close>.
  A Rust string is a list of characters, all of them ASCII in the values the crates format;
  \<open>trim\<close> drops the ASCII whitespace characters.
\<close>

section \<open>Formatting\<close>

definition digit_char :: "nat \<Rightarrow> char" where
  "digit_char d = char_of (48 + d)"

fun show_radix :: "nat \<Rightarrow> nat \<Rightarrow> string" where
  "show_radix b n = (if n < b \<or> b < 2 then [digit_char n] else show_radix b (n div b) @ [digit_char (n mod b)])"

declare show_radix.simps [simp del]

definition pad_left :: "char \<Rightarrow> nat \<Rightarrow> string \<Rightarrow> string" where
  "pad_left c w s = replicate (w - length s) c @ s"

text \<open>\<open>{:o}\<close>, \<open>{:0wo}\<close>, \<open>{:#o}\<close> and \<open>{}\<close>.\<close>

definition fmt_octal :: "nat \<Rightarrow> string" where
  "fmt_octal n = show_radix 8 n"

definition fmt_octal_padded :: "nat \<Rightarrow> nat \<Rightarrow> string" where
  "fmt_octal_padded w n = pad_left (CHR ''0'') w (show_radix 8 n)"

definition fmt_octal_alt :: "nat \<Rightarrow> string" where
  "fmt_octal_alt n = ''0o'' @ show_radix 8 n"

definition fmt_int :: "int \<Rightarrow> string" where
  "fmt_int i = (if i < 0 then ''-'' @ show_radix 10 (nat (- i)) else show_radix 10 (nat i))"

section \<open>Parsing\<close>

definition digit_value :: "nat \<Rightarrow> char \<Rightarrow> nat option" where
  "digit_value b c = (let d = (of_char c :: nat) in if 48 \<le> d \<and> d < 58 \<and> d - 48 < b then Some (d - 48) else None)"

fun parse_digits :: "nat \<Rightarrow> nat \<Rightarrow> string \<Rightarrow> nat option" where
  "parse_digits b acc [] = Some acc"
| "parse_digits b acc (c # cs) = (case digit_value b c of
       None \<Rightarrow> None
     | Some d \<Rightarrow> parse_digits b (acc * b + d) cs)"

text \<open>
  \<open>from_str_radix\<close> of an unsigned type with the given maximum, for radices up to ten: one
  optional plus sign, at least one digit, and no overflow.
\<close>

definition from_str_radix :: "nat \<Rightarrow> nat \<Rightarrow> string \<Rightarrow> nat option" where
  "from_str_radix b limit s =
     (let digits = (case s of c # cs \<Rightarrow> if c = CHR ''+'' then cs else s | [] \<Rightarrow> s)
      in if digits = [] then None
         else case parse_digits b 0 digits of
                None \<Rightarrow> None
              | Some n \<Rightarrow> if n \<le> limit then Some n else None)"

definition is_ascii_space :: "char \<Rightarrow> bool" where
  "is_ascii_space c = (let d = (of_char c :: nat) in d = 32 \<or> (9 \<le> d \<and> d \<le> 13))"

definition trim_start :: "string \<Rightarrow> string" where
  "trim_start s = dropWhile is_ascii_space s"

definition trim :: "string \<Rightarrow> string" where
  "trim s = rev (trim_start (rev (trim_start s)))"

definition strip_prefix :: "string \<Rightarrow> string \<Rightarrow> string option" where
  "strip_prefix p s = (if take (length p) s = p then Some (drop (length p) s) else None)"

definition trim_end_matches :: "char \<Rightarrow> string \<Rightarrow> string" where
  "trim_end_matches c s = rev (dropWhile (\<lambda>d. d = c) (rev s))"

definition ascii_upper :: "char \<Rightarrow> char" where
  "ascii_upper c =
     (let d = (of_char c :: nat) in if 97 \<le> d \<and> d \<le> 122 then char_of (d - 32) else c)"

definition to_ascii_uppercase :: "string \<Rightarrow> string" where
  "to_ascii_uppercase s = map ascii_upper s"

definition ilog2 :: "nat \<Rightarrow> nat" where
  "ilog2 n = length (show_radix 2 n) - 1"

section \<open>Formatting and parsing are inverse\<close>

lemma show_radix_nonempty [simp]: "show_radix b n \<noteq> []"
  by (subst show_radix.simps) simp

lemma of_char_digit: "d < 10 \<Longrightarrow> (of_char (digit_char d) :: nat) = 48 + d"
  by (simp add: digit_char_def of_char_of)

lemma digit_value_char: "d < b \<Longrightarrow> b \<le> 10 \<Longrightarrow> digit_value b (digit_char d) = Some d"
  by (simp add: digit_value_def of_char_digit)

lemma digit_char_inject: "d < 10 \<Longrightarrow> e < 10 \<Longrightarrow> digit_char d = digit_char e \<longleftrightarrow> d = e"
  by (metis add_left_imp_eq of_char_digit)

lemma parse_digits_append:
  "parse_digits b acc (xs @ ys)
     = (case parse_digits b acc xs of None \<Rightarrow> None | Some n \<Rightarrow> parse_digits b n ys)"
  by (induction xs arbitrary: acc) (auto split: option.splits)

lemma parse_digits_show:
  assumes "2 \<le> b" "b \<le> 10"
  shows "parse_digits b 0 (show_radix b n) = Some n"
  using assms
proof (induction b n rule: show_radix.induct)
  case (1 b n)
  show ?case
  proof (cases "n < b")
    case True
    then show ?thesis using 1 by (subst show_radix.simps) (simp add: digit_value_char)
  next
    case False
    then have "parse_digits b 0 (show_radix b (n div b)) = Some (n div b)"
      using 1 by simp
    then show ?thesis
      using False 1 by (subst show_radix.simps)
        (simp add: parse_digits_append digit_value_char)
  qed
qed

lemma parse_digits_zeros:
  "2 \<le> b \<Longrightarrow> b \<le> 10 \<Longrightarrow> parse_digits b 0 (replicate k (CHR ''0'') @ s) = parse_digits b 0 s"
  by (induction k) (simp_all add: digit_value_def)

lemma digit_char_is_digit: "d < 10 \<Longrightarrow> 48 \<le> (of_char (digit_char d) :: nat) \<and> (of_char (digit_char d) :: nat) < 58"
  by (simp add: of_char_digit)

lemma show_radix_digits:
  assumes "2 \<le> b" "b \<le> 10" "c \<in> set (show_radix b n)"
  shows "48 \<le> (of_char c :: nat) \<and> (of_char c :: nat) < 58"
  using assms
proof (induction b n rule: show_radix.induct)
  case (1 b n)
  have "n mod b < b" using "1.prems" by simp
  with "1.prems" have small: "n mod b < 10" by linarith
  show ?case
  proof (cases "n < b")
    case True
    then have "c = digit_char n" using 1 by (subst (asm) show_radix.simps) simp
    then show ?thesis using True 1 by (simp add: digit_char_is_digit)
  next
    case False
    then have "c \<in> set (show_radix b (n div b)) \<or> c = digit_char (n mod b)"
      using 1 by (subst (asm) show_radix.simps) auto
    then show ?thesis using 1 False small by (auto simp: digit_char_is_digit)
  qed
qed

lemma pad_left_digits:
  assumes "2 \<le> b" "b \<le> 10" "c \<in> set (pad_left (CHR ''0'') w (show_radix b n))"
  shows "48 \<le> (of_char c :: nat) \<and> (of_char c :: nat) < 58"
  using assms show_radix_digits [of b c n] by (auto simp: pad_left_def split: if_splits)

lemma pad_left_nonempty [simp]: "s \<noteq> [] \<Longrightarrow> pad_left c w s \<noteq> []"
  by (simp add: pad_left_def)

lemma from_str_radix_show:
  assumes "2 \<le> b" "b \<le> 10" "n \<le> limit"
  shows "from_str_radix b limit (pad_left (CHR ''0'') w (show_radix b n)) = Some n"
proof -
  let ?s = "pad_left (CHR ''0'') w (show_radix b n)"
  obtain c cs where s: "?s = c # cs"
    by (cases ?s) (auto simp: pad_left_def)
  then have "c \<in> set ?s" by simp
  then have "48 \<le> (of_char c :: nat)"
    using pad_left_digits [OF assms(1,2)] by blast
  then have "c \<noteq> CHR ''+''" by auto
  moreover have "parse_digits b 0 ?s = Some n"
    using assms by (simp add: pad_left_def parse_digits_zeros parse_digits_show)
  ultimately show ?thesis
    using assms(3) s by (simp add: from_str_radix_def)
qed

lemma trim_no_space:
  assumes "\<And>c. c \<in> set s \<Longrightarrow> \<not> is_ascii_space c"
  shows "trim s = s"
proof -
  have "dropWhile is_ascii_space s = s"
    by (cases s) (simp_all add: assms)
  moreover have "dropWhile is_ascii_space (rev s) = rev s"
  proof (cases s rule: rev_cases)
    case (snoc ys c)
    then show ?thesis by (simp add: assms)
  qed simp
  ultimately show ?thesis by (simp add: trim_def trim_start_def)
qed

lemma trim_pad_left:
  "2 \<le> b \<Longrightarrow> b \<le> 10 \<Longrightarrow> trim (pad_left (CHR ''0'') w (show_radix b n)) = pad_left (CHR ''0'') w (show_radix b n)"
  by (rule trim_no_space) (auto simp: is_ascii_space_def Let_def dest: pad_left_digits)

end
