(* ===== verification/Agc_Word.thy ===== *)
theory Agc_Word
  imports Rust_Std
begin

text \<open>
  \<open>crates/agc-word\<close>: the finite representations of the Block II machine.  An
  \<open>AgcWord\<close> is a \<open>u16\<close> of which fifteen bits are used, an \<open>AgcRegister\<close> a
  sixteen-bit central register, an \<open>AgcDoubleWord\<close> a pair of words with a 28-bit magnitude.
  The type invariant of the Rust newtype (no bit above the fifteenth) is \<open>word_ok\<close>.
\<close>

section \<open>Errors and classifications\<close>

datatype word_error =
    RawOutOfRange u32 u8
  | IntegerOutOfRange int int int
  | InvalidOctal string

datatype sign_class = PositiveZero | Positive | NegativeZero | Negative

datatype overflow = NoOverflow | PositiveOverflow | NegativeOverflow

definition word_error_display :: "word_error \<Rightarrow> string" where
  "word_error_display e = (case e of
       RawOutOfRange v bits \<Rightarrow>
         ''raw value '' @ fmt_octal_alt (unat v) @ '' exceeds '' @ fmt_int (uint bits)
           @ ''-bit AGC representation''
     | IntegerOutOfRange v lo hi \<Rightarrow>
         ''integer '' @ fmt_int v @ '' is outside AGC one's-complement range [''
           @ fmt_int lo @ '', '' @ fmt_int hi @ '']''
     | InvalidOctal s \<Rightarrow> ''invalid AGC octal word: '' @ s)"

section \<open>Fifteen-bit words\<close>

definition WORD_MASK :: u16 where "WORD_MASK = 0x7FFF"
definition WORD_SIGN :: u16 where "WORD_SIGN = 0x4000"
definition MAX_MAGNITUDE :: int where "MAX_MAGNITUDE = 0x3FFF"

datatype agc_word = AgcWord (raw: u16)

record add_result =
  sum_value :: agc_word
  end_around_carry :: bool
  sum_overflow :: overflow

definition POSITIVE_ZERO :: agc_word where "POSITIVE_ZERO = AgcWord 0"
definition NEGATIVE_ZERO :: agc_word where "NEGATIVE_ZERO = AgcWord WORD_MASK"
definition WORD_MAX :: agc_word where "WORD_MAX = AgcWord 0x3FFF"
definition WORD_MIN :: agc_word where "WORD_MIN = AgcWord 0x4000"

definition try_from_raw :: "u16 \<Rightarrow> word_error + agc_word" where
  "try_from_raw r = (if r AND NOT WORD_MASK = 0 then Inr (AgcWord r)
                     else Inl (RawOutOfRange (ucast r) 15))"

definition from_raw_truncate :: "u16 \<Rightarrow> agc_word" where
  "from_raw_truncate r = AgcWord (r AND WORD_MASK)"

definition word_sign_class :: "agc_word \<Rightarrow> sign_class" where
  "word_sign_class w = (if raw w = 0 then PositiveZero
                   else if raw w = WORD_MASK then NegativeZero
                   else if raw w AND WORD_SIGN = 0 then Positive
                   else Negative)"

definition is_zero :: "agc_word \<Rightarrow> bool" where
  "is_zero w \<longleftrightarrow> raw w = 0 \<or> raw w = WORD_MASK"

definition is_positive_zero :: "agc_word \<Rightarrow> bool" where
  "is_positive_zero w \<longleftrightarrow> raw w = 0"

definition is_negative_zero :: "agc_word \<Rightarrow> bool" where
  "is_negative_zero w \<longleftrightarrow> raw w = WORD_MASK"

definition is_negative :: "agc_word \<Rightarrow> bool" where
  "is_negative w \<longleftrightarrow> raw w AND WORD_SIGN \<noteq> 0"

definition complement :: "agc_word \<Rightarrow> agc_word" where
  "complement w = AgcWord (NOT (raw w) AND WORD_MASK)"

definition from_i32 :: "int \<Rightarrow> word_error + agc_word" where
  "from_i32 v =
     (if \<not> (- MAX_MAGNITUDE \<le> v \<and> v \<le> MAX_MAGNITUDE)
      then Inl (IntegerOutOfRange v (- MAX_MAGNITUDE) MAX_MAGNITUDE)
      else if v < 0 then Inr (from_raw_truncate (NOT (word_of_int \<bar>v\<bar>)))
      else Inr (AgcWord (word_of_int v)))"

definition to_i32_lossy_zero :: "agc_word \<Rightarrow> int" where
  "to_i32_lossy_zero w = (if is_negative w then - uint (NOT (raw w) AND WORD_MASK) else uint (raw w))"

definition overflowing_add :: "agc_word \<Rightarrow> agc_word \<Rightarrow> add_result" where
  "overflowing_add a b =
     (let sum = (ucast (raw a) :: u32) + ucast (raw b);
          first_carry = drop_bit 15 sum;
          folded = (sum AND ucast WORD_MASK) + first_carry;
          second_carry = drop_bit 15 folded;
          r = (ucast ((folded AND ucast WORD_MASK) + second_carry) :: u16);
          v = AgcWord (r AND WORD_MASK);
          ov = (if \<not> is_negative a \<and> \<not> is_negative b \<and> is_negative v then PositiveOverflow
                else if is_negative a \<and> is_negative b \<and> \<not> is_negative v then NegativeOverflow
                else NoOverflow)
      in \<lparr>sum_value = v, end_around_carry = (first_carry \<noteq> 0 \<or> second_carry \<noteq> 0), sum_overflow = ov\<rparr>)"

definition wrapping_add :: "agc_word \<Rightarrow> agc_word \<Rightarrow> agc_word" where
  "wrapping_add a b = sum_value (overflowing_add a b)"

definition wrapping_sub :: "agc_word \<Rightarrow> agc_word \<Rightarrow> agc_word" where
  "wrapping_sub a b = wrapping_add a (complement b)"

definition word_display :: "agc_word \<Rightarrow> string" where
  "word_display w = fmt_octal_padded 5 (unat (raw w))"

definition word_from_str :: "string \<Rightarrow> word_error + agc_word" where
  "word_from_str input =
     (let cleaned = (case strip_prefix ''0o'' (trim input) of Some c \<Rightarrow> c | None \<Rightarrow> trim input)
      in case from_str_radix 8 65535 cleaned of
           None \<Rightarrow> Inl (InvalidOctal input)
         | Some n \<Rightarrow> try_from_raw (of_nat n))"

section \<open>Sixteen-bit central registers\<close>

datatype agc_register = AgcRegister (reg_raw: u16)

definition register_try_from_raw :: "u32 \<Rightarrow> word_error + agc_register" where
  "register_try_from_raw r = (if r \<le> 0xFFFF then Inr (AgcRegister (ucast r)) else Inl (RawOutOfRange r 16))"

definition sign_extend :: "agc_word \<Rightarrow> agc_register" where
  "sign_extend w = (if is_negative w then AgcRegister (raw w OR 0x8000) else AgcRegister (raw w))"

definition overflow_correct :: "agc_register \<Rightarrow> agc_word" where
  "overflow_correct r =
     (let bits = reg_raw r AND 0xC000;
          corrected = (if bits = 0x8000 then reg_raw r OR 0xC000
                       else if bits = 0x4000 then reg_raw r AND 0x3FFF
                       else reg_raw r)
      in from_raw_truncate corrected)"

definition has_overflow :: "agc_register \<Rightarrow> bool" where
  "has_overflow r \<longleftrightarrow> reg_raw r AND 0xC000 = 0x4000 \<or> reg_raw r AND 0xC000 = 0x8000"

definition register_wrapping_add :: "agc_register \<Rightarrow> agc_register \<Rightarrow> agc_register" where
  "register_wrapping_add a b =
     (let sum = (ucast (reg_raw a) :: u32) + ucast (reg_raw b);
          folded = (sum AND 0xFFFF) + drop_bit 16 sum
      in AgcRegister (ucast ((folded AND 0xFFFF) + drop_bit 16 folded)))"

section \<open>Double words\<close>

record agc_double_word =
  dw_high :: agc_word
  dw_low :: agc_word

definition DOUBLE_MAX_MAGNITUDE :: int where "DOUBLE_MAX_MAGNITUDE = 2 ^ 28 - 1"

definition from_i64 :: "int \<Rightarrow> word_error + agc_double_word" where
  "from_i64 v =
     (if \<not> (- DOUBLE_MAX_MAGNITUDE \<le> v \<and> v \<le> DOUBLE_MAX_MAGNITUDE)
      then Inl (IntegerOutOfRange v (- DOUBLE_MAX_MAGNITUDE) DOUBLE_MAX_MAGNITUDE)
      else let negative = (v < 0);
               magnitude = (word_of_int \<bar>v\<bar> :: u32);
               encoded = (if negative then NOT magnitude AND 0x0FFFFFFF else magnitude);
               sign = (if negative then WORD_SIGN else 0)
           in Inr \<lparr>dw_high = from_raw_truncate (sign OR (ucast (drop_bit 14 encoded) AND 0x3FFF)),
                   dw_low = from_raw_truncate (sign OR (ucast encoded AND 0x3FFF))\<rparr>)"

definition to_i64_lossy_zero :: "agc_double_word \<Rightarrow> int" where
  "to_i64_lossy_zero d =
     (let encoded = push_bit 14 ((ucast (raw (dw_high d)) :: u32) AND 0x3FFF)
                      OR (ucast (raw (dw_low d)) AND 0x3FFF)
      in if is_negative (dw_high d) then - uint (NOT encoded AND 0x0FFFFFFF) else uint encoded)"

definition double_is_zero :: "agc_double_word \<Rightarrow> bool" where
  "double_is_zero d \<longleftrightarrow> to_i64_lossy_zero d = 0"

definition double_is_negative_zero :: "agc_double_word \<Rightarrow> bool" where
  "double_is_negative_zero d \<longleftrightarrow> is_negative_zero (dw_high d) \<and> is_negative_zero (dw_low d)"

section \<open>Bounded identifiers\<close>

text \<open>The macro \<open>bounded_type!\<close>: one checked constructor per architectural range.\<close>

definition bounded_new :: "nat \<Rightarrow> 'a::len word \<Rightarrow> ('a word \<Rightarrow> 'b) \<Rightarrow> word_error + 'b" where
  "bounded_new limit v mk =
     (if unat v \<le> limit then Inr (mk v)
      else Inl (RawOutOfRange (ucast v) (of_nat (ilog2 limit) + 1)))"

datatype agc_address = AgcAddress (address_get: u16)
datatype fixed_bank = FixedBank (fixed_bank_get: u8)
datatype erasable_bank = ErasableBank (erasable_bank_get: u8)
datatype channel_address = ChannelAddress (channel_get: u16)

definition agc_address_new :: "u16 \<Rightarrow> word_error + agc_address" where
  "agc_address_new v = bounded_new 0xFFF v AgcAddress"

definition fixed_bank_new :: "u8 \<Rightarrow> word_error + fixed_bank" where
  "fixed_bank_new v = bounded_new 35 v FixedBank"

definition erasable_bank_new :: "u8 \<Rightarrow> word_error + erasable_bank" where
  "erasable_bank_new v = bounded_new 7 v ErasableBank"

definition channel_address_new :: "u16 \<Rightarrow> word_error + channel_address" where
  "channel_address_new v = bounded_new 0x1FF v ChannelAddress"

end
