(* ===== verification/Agc_Word_Laws.thy ===== *)
theory Agc_Word_Laws
  imports Agc_Word
begin

text \<open>
  Laws of the representations of \<open>crates/agc-word\<close>.  End-around-carry addition is stated once,
  as the interface \<open>end_around\<close> over the natural number a value denotes, and interpreted on the
  fifteen-bit words and on the sixteen-bit central registers; the remaining sections relate the
  words to the integers they represent.
\<close>

section \<open>End-around-carry addition as an interface\<close>

locale end_around =
  fixes top :: nat
    and valid :: "'w \<Rightarrow> bool"
    and nat_of :: "'w \<Rightarrow> nat"
    and add :: "'w \<Rightarrow> 'w \<Rightarrow> 'w"
    and zero :: 'w
  assumes top_pos: "0 < top"
    and nat_of_le: "valid a \<Longrightarrow> nat_of a \<le> top"
    and nat_of_inj: "valid a \<Longrightarrow> valid b \<Longrightarrow> nat_of a = nat_of b \<Longrightarrow> a = b"
    and valid_zero: "valid zero"
    and nat_of_zero: "nat_of zero = 0"
    and valid_add: "valid a \<Longrightarrow> valid b \<Longrightarrow> valid (add a b)"
    and nat_of_add: "valid a \<Longrightarrow> valid b \<Longrightarrow>
          nat_of (add a b) = (if top < nat_of a + nat_of b then nat_of a + nat_of b - top
                              else nat_of a + nat_of b)"
begin

lemma add_commute: "valid a \<Longrightarrow> valid b \<Longrightarrow> add a b = add b a"
  by (rule nat_of_inj) (simp_all add: valid_add nat_of_add add.commute)

lemma add_assoc: "valid a \<Longrightarrow> valid b \<Longrightarrow> valid c \<Longrightarrow> add (add a b) c = add a (add b c)"
  using nat_of_le [of a] nat_of_le [of b] nat_of_le [of c]
  by (intro nat_of_inj) (auto simp: valid_add nat_of_add)

lemma add_zero: "valid a \<Longrightarrow> add a zero = a"
  using nat_of_le [of a]
  by (intro nat_of_inj) (auto simp: valid_add nat_of_add valid_zero nat_of_zero)

lemma add_eq_zero_iff: "valid a \<Longrightarrow> valid b \<Longrightarrow> add a b = zero \<longleftrightarrow> a = zero \<and> b = zero"
proof -
  assume a: "valid a" and b: "valid b"
  have z: "x = zero \<longleftrightarrow> nat_of x = 0" if "valid x" for x
    using nat_of_inj [OF that valid_zero] nat_of_zero by auto
  show ?thesis
    using nat_of_le [OF a] nat_of_le [OF b] by (simp add: z a b valid_add nat_of_add)
qed

lemma add_mod: "valid a \<Longrightarrow> valid b \<Longrightarrow> nat_of (add a b) mod top = (nat_of a + nat_of b) mod top"
  using le_mod_geq [of top "nat_of a + nat_of b"] by (simp add: nat_of_add)

end

text \<open>The same with a complement operation, which makes it a subtraction.\<close>

locale end_around_complement = end_around +
  fixes compl :: "'a \<Rightarrow> 'a"
  assumes valid_compl: "valid a \<Longrightarrow> valid (compl a)"
    and nat_of_compl: "valid a \<Longrightarrow> nat_of (compl a) = top - nat_of a"
begin

lemma compl_compl: "valid a \<Longrightarrow> compl (compl a) = a"
  using nat_of_le [of a] by (intro nat_of_inj) (simp_all add: valid_compl nat_of_compl)

lemma add_compl: "valid a \<Longrightarrow> nat_of (add a (compl a)) = top"
  using nat_of_le [of a] by (simp add: valid_compl nat_of_add nat_of_compl)

text \<open>Subtracting and adding back is the identity except that positive zero comes back negative.\<close>

lemma sub_add:
  "valid a \<Longrightarrow> valid b \<Longrightarrow> nat_of (add (add a (compl b)) b) = (if nat_of a = 0 then top else nat_of a)"
  using nat_of_le [of a] nat_of_le [of b]
  by (auto simp: valid_compl valid_add nat_of_add nat_of_compl)

end

section \<open>The type invariant and the sign bit\<close>

definition word_ok :: "agc_word \<Rightarrow> bool" where
  "word_ok w \<longleftrightarrow> raw w AND NOT WORD_MASK = 0"

lemma word_ok_bit: "word_ok w \<longleftrightarrow> \<not> bit (raw w) 15"
  by (simp add: word_ok_def WORD_MASK_def u16_eq_iff bit_simps)

lemma bit_15_iff: "bit (x :: u16) 15 \<longleftrightarrow> 32768 \<le> unat x"
proof -
  have "unat x div 32768 < 2" by (simp add: less_mult_imp_div_less)
  then have "odd (unat x div 32768) \<longleftrightarrow> unat x div 32768 \<noteq> 0" by (auto simp: less_Suc_eq numeral_2_eq_2)
  moreover have "bit x 15 \<longleftrightarrow> odd (unat x div 32768)" by (simp add: bit_unat)
  ultimately show ?thesis by (simp add: div_eq_0_iff not_less)
qed

lemma bit_14_iff: "bit (x :: u16) 14 \<longleftrightarrow> 16384 \<le> unat x mod 32768"
proof -
  have split: "unat x mod 32768 = 16384 * (unat x div 16384 mod 2) + unat x mod 16384"
    using mod_mult2_eq [of "unat x" 16384 2] by simp
  have low: "unat x mod 16384 < 16384" by simp
  have "bit x 14 \<longleftrightarrow> odd (unat x div 16384)" by (simp add: bit_unat)
  also have "\<dots> \<longleftrightarrow> unat x div 16384 mod 2 = 1" by (rule odd_iff_mod_2_eq_one)
  also have "\<dots> \<longleftrightarrow> 16384 \<le> unat x mod 32768"
    using split low by (cases "unat x div 16384 mod 2 = 1") auto
  finally show ?thesis .
qed

lemma word_ok_iff: "word_ok w \<longleftrightarrow> unat (raw w) < 32768"
  by (simp add: word_ok_bit bit_15_iff not_le)

lemma word_okD: "word_ok w \<Longrightarrow> unat (raw w) < 32768"
  by (simp add: word_ok_iff)

lemma is_negative_bit: "is_negative w \<longleftrightarrow> bit (raw w) 14"
  by (simp add: is_negative_def WORD_SIGN_def u16_eq_iff bit_simps)

lemma is_negative_iff: "word_ok w \<Longrightarrow> is_negative w \<longleftrightarrow> 16384 \<le> unat (raw w)"
  by (simp add: is_negative_bit bit_14_iff word_ok_iff)

lemma raw_eqI: "unat (raw a) = unat (raw b) \<Longrightarrow> a = b"
  by (cases a; cases b) (simp add: word_eq_unat_iff)

lemma word_eq_iff_unat: "a = b \<longleftrightarrow> unat (raw a) = unat (raw b)"
  using raw_eqI by auto

lemma unat_raw_truncate [unat_simps]: "unat (raw (from_raw_truncate r)) = unat r mod 32768"
  by (simp add: from_raw_truncate_def WORD_MASK_def unat_simps)

lemma word_ok_truncate [simp]: "word_ok (from_raw_truncate r)"
  by (simp add: word_ok_iff unat_simps)

lemma truncate_raw [simp]: "word_ok w \<Longrightarrow> from_raw_truncate (raw w) = w"
  by (rule raw_eqI) (simp add: unat_simps word_ok_iff)

lemma word_ok_constants [simp]:
  "word_ok POSITIVE_ZERO" "word_ok NEGATIVE_ZERO" "word_ok WORD_MAX" "word_ok WORD_MIN"
  by (simp_all add: word_ok_iff POSITIVE_ZERO_def NEGATIVE_ZERO_def WORD_MASK_def WORD_MAX_def WORD_MIN_def)

lemma raw_constants [simp]:
  "raw POSITIVE_ZERO = 0" "raw NEGATIVE_ZERO = 0x7FFF" "raw WORD_MAX = 0x3FFF" "raw WORD_MIN = 0x4000"
  by (simp_all add: POSITIVE_ZERO_def NEGATIVE_ZERO_def WORD_MASK_def WORD_MAX_def WORD_MIN_def)

lemma unat_raw_complement: "word_ok w \<Longrightarrow> unat (raw (complement w)) = 32767 - unat (raw w)"
proof -
  assume "word_ok w"
  then have "unat (raw w) < 32768" by (simp add: word_ok_iff)
  then have "65535 - unat (raw w) = (32767 - unat (raw w)) + 32768" by simp
  then have "(65535 - unat (raw w)) mod 32768 = (32767 - unat (raw w) + 32768) mod 32768" by (rule arg_cong)
  then show ?thesis by (simp add: complement_def WORD_MASK_def unat_simps)
qed

lemma word_ok_complement [simp]: "word_ok (complement w)"
  by (simp add: word_ok_iff complement_def WORD_MASK_def unat_simps)

lemma try_from_raw_ok: "try_from_raw r = Inr w \<Longrightarrow> word_ok w \<and> raw w = r"
  by (auto simp: try_from_raw_def word_ok_def split: if_splits)

lemma is_zero_iff: "is_zero w \<longleftrightarrow> w = POSITIVE_ZERO \<or> w = NEGATIVE_ZERO"
  by (cases w) (auto simp: is_zero_def POSITIVE_ZERO_def NEGATIVE_ZERO_def)

section \<open>Addition\<close>

text \<open>The natural number an end-around sum denotes, for both widths.\<close>

lemma unat_add_u32:
  fixes x y :: u32
  assumes "unat x < 131072" "unat y < 131072"
  shows "unat (x + y) = unat x + unat y"
  using assms by (simp add: unat_word_ariths)

lemma fold_once:
  fixes s :: nat
  assumes "s \<le> 2 * m - 2" "0 < m"
  shows "s mod m + s div m = (if m - 1 < s then s - (m - 1) else s)"
proof (cases "s < m")
  case True
  then show ?thesis using assms by auto
next
  case False
  with assms have "s = m + (s - m)" "s - m < m" by auto
  then have "s mod m = s - m" "s div m = 1"
    by (metis mod_add_self1 mod_less, metis div_add_self1 div_less assms(2) add.right_neutral less_not_refl2 One_nat_def add_Suc_right)
  then show ?thesis using False assms by auto
qed

lemma unat_raw_overflowing_add:
  assumes "word_ok a" "word_ok b"
  defines "s \<equiv> unat (raw a) + unat (raw b)"
  shows "unat (raw (sum_value (overflowing_add a b))) = (if 32767 < s then s - 32767 else s)"
proof -
  have s: "s \<le> 65534" using word_okD [OF assms(1)] word_okD [OF assms(2)] by (simp add: s_def)
  let ?sum = "(ucast (raw a) :: u32) + ucast (raw b)"
  have sum: "unat ?sum = s"
    by (simp add: unat_add_u32 unat_simps s_def order_less_trans [OF u16_less])
  let ?folded = "(?sum AND 0x7FFF) + drop_bit 15 ?sum"
  have folded: "unat ?folded = s mod 32768 + s div 32768"
    using s by (subst unat_add_u32) (simp_all add: unat_simps unat_drop_bit sum less_mult_imp_div_less)
  define t where "t = (if 32767 < s then s - 32767 else s)"
  have t: "s mod 32768 + s div 32768 = t" "t < 32768"
    using fold_once [of s 32768] s by (auto simp: t_def)
  have "unat ((?folded AND 0x7FFF) + drop_bit 15 ?folded) = t"
    using t by (subst unat_add_u32) (simp_all add: unat_simps unat_drop_bit folded)
  then show ?thesis
    using t by (simp add: overflowing_add_def Let_def WORD_MASK_def unat_simps t_def)
qed

lemma word_ok_sum [simp]: "word_ok (sum_value (overflowing_add a b))"
  by (simp add: overflowing_add_def Let_def word_ok_bit WORD_MASK_def bit_simps)

lemma word_ok_wrapping_add [simp]: "word_ok (wrapping_add a b)"
  by (simp add: wrapping_add_def)

lemma unat_raw_wrapping_add:
  "word_ok a \<Longrightarrow> word_ok b \<Longrightarrow>
     unat (raw (wrapping_add a b)) =
       (if 32767 < unat (raw a) + unat (raw b) then unat (raw a) + unat (raw b) - 32767
        else unat (raw a) + unat (raw b))"
  by (simp add: wrapping_add_def unat_raw_overflowing_add)

lemma unat_register_wrapping_add:
  "unat (reg_raw (register_wrapping_add a b)) =
     (if 65535 < unat (reg_raw a) + unat (reg_raw b) then unat (reg_raw a) + unat (reg_raw b) - 65535
      else unat (reg_raw a) + unat (reg_raw b))"
proof -
  define s where "s = unat (reg_raw a) + unat (reg_raw b)"
  have s: "s \<le> 131070"
    unfolding s_def using u16_less [of "reg_raw a"] u16_less [of "reg_raw b"] by linarith
  let ?sum = "(ucast (reg_raw a) :: u32) + ucast (reg_raw b)"
  have sum: "unat ?sum = s"
    by (simp add: unat_add_u32 unat_simps s_def order_less_trans [OF u16_less])
  let ?folded = "(?sum AND 0xFFFF) + drop_bit 16 ?sum"
  have folded: "unat ?folded = s mod 65536 + s div 65536"
    using s by (subst unat_add_u32) (simp_all add: unat_simps unat_drop_bit sum less_mult_imp_div_less)
  define t where "t = (if 65535 < s then s - 65535 else s)"
  have t: "s mod 65536 + s div 65536 = t" "t < 65536"
    using fold_once [of s 65536] s by (auto simp: t_def)
  have "unat ((?folded AND 0xFFFF) + drop_bit 16 ?folded) = t"
    using t by (subst unat_add_u32) (simp_all add: unat_simps unat_drop_bit folded)
  then show ?thesis
    using t by (simp add: register_wrapping_add_def Let_def unat_simps t_def s_def)
qed

lemma register_eq_iff_unat: "a = b \<longleftrightarrow> unat (reg_raw a) = unat (reg_raw b)"
  by (cases a; cases b) (simp add: word_eq_unat_iff)

lemma word_ok_le: "word_ok w \<Longrightarrow> unat (raw w) \<le> 32767"
  using word_okD [of w] by linarith

lemma register_le: "unat (reg_raw r) \<le> 65535"
  using u16_less [of "reg_raw r"] by linarith

interpretation word_add: end_around_complement 32767 word_ok "\<lambda>w. unat (raw w)" wrapping_add POSITIVE_ZERO complement
  by unfold_locales (auto simp: word_ok_le unat_raw_wrapping_add unat_raw_complement word_eq_iff_unat)

interpretation register_add: end_around_complement 65535 "\<lambda>_. True" "\<lambda>r. unat (reg_raw r)"
    register_wrapping_add "AgcRegister 0" "\<lambda>r. AgcRegister (NOT (reg_raw r))"
  by unfold_locales (auto simp: register_le unat_register_wrapping_add register_eq_iff_unat unat_simps)

section \<open>The represented integers\<close>

lemma to_i32_unat:
  assumes "word_ok w"
  shows "to_i32_lossy_zero w =
     (if unat (raw w) < 16384 then int (unat (raw w)) else int (unat (raw w)) - 32767)"
proof -
  have "unat (NOT (raw w) AND WORD_MASK) = 32767 - unat (raw w)"
    using unat_raw_complement [OF assms] by (simp add: complement_def)
  moreover have "int (32767 - unat (raw w)) = 32767 - int (unat (raw w))"
    using word_ok_le [OF assms] by simp
  ultimately show ?thesis
    by (simp add: to_i32_lossy_zero_def is_negative_iff assms not_le uint_unat)
qed

lemma to_i32_bounds: "word_ok w \<Longrightarrow> - 16383 \<le> to_i32_lossy_zero w \<and> to_i32_lossy_zero w \<le> 16383"
  using word_ok_le [of w] by (auto simp: to_i32_unat)

lemma to_i32_complement: "word_ok w \<Longrightarrow> to_i32_lossy_zero (complement w) = - to_i32_lossy_zero w"
proof -
  assume ok: "word_ok w"
  have "int (32767 - unat (raw w)) = 32767 - int (unat (raw w))"
    using word_ok_le [OF ok] by simp
  moreover have "32767 - unat (raw w) < 16384 \<longleftrightarrow> \<not> unat (raw w) < 16384"
    using word_ok_le [OF ok] by linarith
  ultimately show ?thesis
    by (simp add: to_i32_unat ok unat_raw_complement del: of_nat_diff)
qed

lemma from_i32_ok:
  assumes "- 16383 \<le> v" "v \<le> 16383"
  shows "\<exists>w. from_i32 v = Inr w \<and> word_ok w \<and> unat (raw w) = nat (if v < 0 then 32767 + v else v)"
proof (cases "v < 0")
  case True
  have "unat (word_of_int \<bar>v\<bar> :: u16) = nat \<bar>v\<bar>"
    by (rule unat_word_of_int) (use assms in auto)
  then have "unat (NOT (word_of_int \<bar>v\<bar> :: u16)) = 65535 - nat \<bar>v\<bar>"
    by (simp only: unat_not_u16)
  also have "65535 - nat \<bar>v\<bar> = nat (32767 + v) + 32768" using True assms by linarith
  finally have *: "unat (NOT (word_of_int \<bar>v\<bar> :: u16)) = nat (32767 + v) + 32768" .
  have "nat (32767 + v) < 32768" using True by linarith
  then have "unat (raw (from_raw_truncate (NOT (word_of_int \<bar>v\<bar>)))) = nat (32767 + v)"
    by (simp only: unat_raw_truncate *) simp
  then show ?thesis
    using True assms by (simp add: from_i32_def MAX_MAGNITUDE_def)
next
  case False
  then have "unat (word_of_int v :: u16) = nat v"
    using assms by (intro unat_word_of_int) auto
  then show ?thesis
    using False assms by (simp add: from_i32_def MAX_MAGNITUDE_def word_ok_iff)
qed

lemma from_i32_error: "v < - 16383 \<or> 16383 < v \<Longrightarrow> from_i32 v = Inl (IntegerOutOfRange v (- 16383) 16383)"
  by (auto simp: from_i32_def MAX_MAGNITUDE_def)

section \<open>Central registers\<close>

text \<open>
  A central register denotes a sixteen-bit one's-complement integer; its two top bits differ
  exactly when that integer does not fit a memory word.
\<close>

definition register_value :: "agc_register \<Rightarrow> int" where
  "register_value r = (if unat (reg_raw r) < 32768 then int (unat (reg_raw r)) else int (unat (reg_raw r)) - 65535)"

lemma bit_overflow_correct:
  "bit (raw (overflow_correct r)) n \<longleftrightarrow> (if n = 14 then bit (reg_raw r) 15 else n < 14 \<and> bit (reg_raw r) n)"
  by (auto simp: overflow_correct_def from_raw_truncate_def WORD_MASK_def Let_def top_bits_iff
      bit_and_iff bit_or_iff bit_masks)

lemma raw_overflow_correct:
  "raw (overflow_correct r) = (reg_raw r AND 0x3FFF) OR (drop_bit 1 (reg_raw r) AND 0x4000)"
  by (rule bit_word_eqI) (auto simp: bit_overflow_correct bit_and_iff bit_or_iff bit_drop_bit_eq bit_masks bit_Suc_numerals)

lemma word_ok_overflow_correct [simp]: "word_ok (overflow_correct r)"
  by (simp add: word_ok_bit bit_overflow_correct)

lemma unat_and_4000: "unat ((x :: u16) AND 0x4000) = (if bit x 14 then 16384 else 0)"
proof -
  have "x AND 0x4000 = (if bit x 14 then 0x4000 else 0)"
    by (simp add: u16_eq_iff bit_simps)
  then show ?thesis by simp
qed

lemma unat_overflow_correct:
  "unat (raw (overflow_correct r)) = unat (reg_raw r) mod 16384 + (if 32768 \<le> unat (reg_raw r) then 16384 else 0)"
proof -
  let ?low = "reg_raw r AND 0x3FFF" and ?sign = "drop_bit 1 (reg_raw r) AND 0x4000"
  have "bit (drop_bit 1 (reg_raw r)) 14 \<longleftrightarrow> bit (reg_raw r) 15"
    by (simp add: bit_simps)
  then have sign: "unat ?sign = (if 32768 \<le> unat (reg_raw r) then 16384 else 0)"
    by (simp only: unat_and_4000 bit_15_iff)
  have low: "unat ?low = unat (reg_raw r) mod 16384" by (rule u16_and_3FFF)
  have "unat (reg_raw r) mod 16384 < 16384" by simp
  then have "unat ?low + unat ?sign < 2 ^ LENGTH(16)" unfolding low sign by (auto intro: order_less_trans)
  moreover have "?low AND ?sign = 0" by (simp add: u16_eq_iff bit_simps)
  ultimately have "unat (?low OR ?sign) = unat ?low + unat ?sign" by (rule unat_or_disjoint [rotated])
  then show ?thesis by (simp only: raw_overflow_correct low sign)
qed

lemma bit_sign_extend:
  "word_ok w \<Longrightarrow> bit (reg_raw (sign_extend w)) n \<longleftrightarrow> (if n = 15 then bit (raw w) 14 else bit (raw w) n)"
  by (auto simp: sign_extend_def is_negative_bit word_ok_bit bit_or_iff bit_masks)

lemma unat_sign_extend:
  assumes "word_ok w"
  shows "unat (reg_raw (sign_extend w)) = unat (raw w) + (if is_negative w then 32768 else 0)"
proof -
  have "raw w AND 0x8000 = 0"
    using assms by (simp add: word_ok_bit u16_eq_iff bit_simps)
  then have "unat (raw w OR 0x8000) = unat (raw w) + 32768"
    using word_okD [OF assms] by (subst unat_or_disjoint) simp_all
  then show ?thesis by (simp add: sign_extend_def)
qed

lemma register_value_sign_extend: "word_ok w \<Longrightarrow> register_value (sign_extend w) = to_i32_lossy_zero w"
  using word_ok_le [of w]
  by (auto simp: register_value_def unat_sign_extend to_i32_unat is_negative_iff)

lemma has_overflow_bit: "has_overflow r \<longleftrightarrow> bit (reg_raw r) 14 \<noteq> bit (reg_raw r) 15"
  by (auto simp: has_overflow_def top_bits_iff)

lemma overflow_correct_sign_extend [simp]: "word_ok w \<Longrightarrow> overflow_correct (sign_extend w) = w"
proof -
  assume ok: "word_ok w"
  have "raw (overflow_correct (sign_extend w)) = raw w"
  proof (rule bit_word_eqI)
    fix n
    assume "n < LENGTH(16)"
    then have "n < 14 \<or> n = 14 \<or> n = 15" by auto
    then show "bit (raw (overflow_correct (sign_extend w))) n = bit (raw w) n"
      using ok by (auto simp: bit_overflow_correct bit_sign_extend word_ok_bit)
  qed
  then show ?thesis by (simp add: agc_word.expand)
qed

section \<open>Double words\<close>

definition double_ok :: "agc_double_word \<Rightarrow> bool" where
  "double_ok d \<longleftrightarrow> word_ok (dw_high d) \<and> word_ok (dw_low d)"

lemma unat_signed_field:
  fixes x :: u16
  assumes "unat x < 16384"
  shows "unat (raw (from_raw_truncate ((if neg then WORD_SIGN else 0) OR x))) = (if neg then 16384 else 0) + unat x"
proof (cases neg)
  case True
  have "\<not> bit x 14" using assms by (simp add: bit_14_iff)
  then have "(0x4000 :: u16) AND x = 0" by (simp add: u16_eq_iff bit_simps)
  then have "unat (0x4000 OR x) = 16384 + unat x"
    using assms by (subst unat_or_disjoint) simp_all
  then show ?thesis using True assms by (simp add: unat_raw_truncate WORD_SIGN_def)
next
  case False
  then show ?thesis using assms by (simp add: unat_raw_truncate)
qed

lemma to_i64_unat:
  assumes "double_ok d"
  defines "m \<equiv> unat (raw (dw_high d)) mod 16384 * 16384 + unat (raw (dw_low d)) mod 16384"
  shows "to_i64_lossy_zero d = (if is_negative (dw_high d) then int m - 268435455 else int m)"
proof -
  let ?h = "(ucast (raw (dw_high d)) :: u32) AND 0x3FFF" and ?l = "(ucast (raw (dw_low d)) :: u32) AND 0x3FFF"
  have "unat ?h = unat (raw (dw_high d)) mod 16384" "unat ?l = unat (raw (dw_low d)) mod 16384"
    by (simp_all add: unat_simps)
  then have enc: "unat (push_bit 14 ?h OR ?l) = m"
    by (subst join_fields_u32) (simp_all add: m_def)
  have "m \<le> 16383 * 16384 + 16383"
    unfolding m_def by (intro add_mono mult_le_mono1) (simp_all add: mod_less_divisor less_Suc_eq_le [symmetric])
  then have m: "m \<le> 268435455" by simp
  then have "4294967295 - m = (268435455 - m) + 15 * 268435456" by simp
  then have "(4294967295 - m) mod 268435456 = 268435455 - m" by (simp only: mod_mult_self1) (use m in simp)
  then have neg: "unat (NOT (push_bit 14 ?h OR ?l) AND 0x0FFFFFFF) = 268435455 - m"
    by (simp only: u32_and_FFFFFFF unat_not_u32 enc)
  have "- int (268435455 - m) = int m - 268435455" using m by simp
  then show ?thesis
    by (simp only: to_i64_lossy_zero_def Let_def uint_unat enc neg)
qed

lemma from_i64_ok:
  assumes "- 268435455 \<le> v" "v \<le> 268435455"
  shows "\<exists>d. from_i64 v = Inr d \<and> double_ok d \<and>
     (let m = nat (if v < 0 then 268435455 + v else v); sign = (if v < 0 then 16384 else 0)
      in unat (raw (dw_high d)) = sign + m div 16384 \<and> unat (raw (dw_low d)) = sign + m mod 16384)"
proof -
  define m where "m = nat (if v < 0 then 268435455 + v else v)"
  define enc where "enc = (if v < 0 then NOT (word_of_int \<bar>v\<bar> :: u32) AND 0x0FFFFFFF else word_of_int \<bar>v\<bar>)"
  have mag: "unat (word_of_int \<bar>v\<bar> :: u32) = nat \<bar>v\<bar>"
    by (rule unat_word_of_int) (use assms in auto)
  have enc: "unat enc = m"
  proof (cases "v < 0")
    case True
    then have "4294967295 - nat \<bar>v\<bar> = m + 15 * 268435456" "m < 268435456"
      using assms by (auto simp: m_def nat_diff_distrib)
    then have "(4294967295 - nat \<bar>v\<bar>) mod 268435456 = m" by (simp only: mod_mult_self1) simp
    then show ?thesis using True by (simp only: enc_def if_True u32_and_FFFFFFF unat_not_u32 mag)
  next
    case False
    then show ?thesis using mag by (simp add: enc_def m_def)
  qed
  have "m < 268435456" using assms by (auto simp: m_def)
  then have high: "unat (ucast (drop_bit 14 enc) AND (0x3FFF :: u16)) = m div 16384"
    by (simp add: unat_simps unat_drop_bit enc less_mult_imp_div_less)
  have low: "unat (ucast enc AND (0x3FFF :: u16)) = m mod 16384"
    by (simp add: unat_simps enc mod_mod_cancel)
  have bounds: "m div 16384 < 16384" "m mod 16384 < 16384"
    using \<open>m < 268435456\<close> by (simp_all add: less_mult_imp_div_less)
  show ?thesis
    using assms bounds high low
    by (simp add: from_i64_def DOUBLE_MAX_MAGNITUDE_def double_ok_def Let_def unat_signed_field
        flip: m_def enc_def)
qed

lemma is_negative_double_high:
  assumes "unat (raw h) = (if neg then 16384 else 0) + k" "k < 16384"
  shows "is_negative h = neg"
  using assms by (simp add: is_negative_iff word_ok_iff)

lemma to_i64_from_i64:
  assumes "- 268435455 \<le> v" "v \<le> 268435455" "from_i64 v = Inr d"
  shows "to_i64_lossy_zero d = v"
proof -
  define m where "m = nat (if v < 0 then 268435455 + v else v)"
  have m: "m < 268435456" using assms by (auto simp: m_def)
  have d: "double_ok d" "unat (raw (dw_high d)) = (if v < 0 then 16384 else 0) + m div 16384"
    "unat (raw (dw_low d)) = (if v < 0 then 16384 else 0) + m mod 16384"
    using from_i64_ok [OF assms(1,2)] assms(3) by (auto simp: Let_def m_def)
  have q: "m div 16384 < 16384" using m by (simp add: less_mult_imp_div_less)
  have "unat (raw (dw_high d)) mod 16384 = m div 16384" "unat (raw (dw_low d)) mod 16384 = m mod 16384"
    using d(2,3) q by auto
  then have "to_i64_lossy_zero d = (if v < 0 then int m - 268435455 else int m)"
    using is_negative_double_high [OF d(2) q] by (simp add: to_i64_unat [OF d(1)])
  then show ?thesis using assms(1) by (simp add: m_def)
qed

section \<open>Properties\<close>



text \<open>
  On valid words end-around addition is associative and commutative with positive zero as its
  unit, the complement is an involution, and a word plus its complement is negative zero.
\<close>

theorem wrapping_add_group:
  assumes "word_ok a" "word_ok b" "word_ok c"
  shows "wrapping_add a b = wrapping_add b a
     \<and> wrapping_add (wrapping_add a b) c = wrapping_add a (wrapping_add b c)
     \<and> wrapping_add a POSITIVE_ZERO = a
     \<and> wrapping_add a (complement a) = NEGATIVE_ZERO
     \<and> wrapping_sub a a = NEGATIVE_ZERO
     \<and> complement (complement a) = a"
proof -
  have "wrapping_add a (complement a) = NEGATIVE_ZERO"
    using word_add.add_compl [OF assms(1)] by (simp add: word_eq_iff_unat)
  then show ?thesis
    using word_add.add_commute [OF assms(1,2)] word_add.add_assoc [OF assms]
      word_add.add_zero [OF assms(1)] word_add.compl_compl [OF assms(1)]
    by (simp add: wrapping_sub_def)
qed

theorem wrapping_add_group_witness:
  "wrapping_add (AgcWord 5) (complement (AgcWord 5)) = NEGATIVE_ZERO"
proof -
  have "word_ok (AgcWord 5)" by (simp add: word_ok_iff)
  from wrapping_add_group [OF this this this] show ?thesis by simp
qed

text \<open>
  Encoding an integer of magnitude at most \<open>2^14 - 1\<close> and decoding it gives it back, an
  integer outside is refused with the range in the error, and decoding then encoding a word
  gives the word back except that negative zero becomes positive zero.
\<close>

theorem i32_round_trip:
  assumes "word_ok w"
  shows "from_i32 (to_i32_lossy_zero w) = Inr (if is_negative_zero w then POSITIVE_ZERO else w)
     \<and> (case from_i32 v of
           Inr u \<Rightarrow> \<bar>v\<bar> \<le> 16383 \<and> word_ok u \<and> to_i32_lossy_zero u = v
         | Inl e \<Rightarrow> 16383 < \<bar>v\<bar> \<and> e = IntegerOutOfRange v (- 16383) 16383)"
proof
  obtain u where u: "from_i32 (to_i32_lossy_zero w) = Inr u" "word_ok u"
      "unat (raw u) = nat (if to_i32_lossy_zero w < 0 then 32767 + to_i32_lossy_zero w else to_i32_lossy_zero w)"
    using from_i32_ok [of "to_i32_lossy_zero w"] to_i32_bounds [OF assms] by blast
  have "is_negative_zero w \<longleftrightarrow> unat (raw w) = 32767"
    by (simp add: is_negative_zero_def WORD_MASK_def word_eq_unat_iff)
  then have "unat (raw u) = unat (raw (if is_negative_zero w then POSITIVE_ZERO else w))"
    using u(3) word_ok_le [OF assms] by (auto simp: to_i32_unat [OF assms])
  then show "from_i32 (to_i32_lossy_zero w) = Inr (if is_negative_zero w then POSITIVE_ZERO else w)"
    using u(1) by (simp add: word_eq_iff_unat)
  show "case from_i32 v of
           Inr u \<Rightarrow> \<bar>v\<bar> \<le> 16383 \<and> word_ok u \<and> to_i32_lossy_zero u = v
         | Inl e \<Rightarrow> 16383 < \<bar>v\<bar> \<and> e = IntegerOutOfRange v (- 16383) 16383"
  proof (cases "\<bar>v\<bar> \<le> 16383")
    case True
    then have v: "- 16383 \<le> v" "v \<le> 16383" by auto
    obtain u where "from_i32 v = Inr u" "word_ok u"
        "unat (raw u) = nat (if v < 0 then 32767 + v else v)"
      using from_i32_ok [OF v] by blast
    then show ?thesis using True by (auto simp: to_i32_unat)
  next
    case False
    then show ?thesis using from_i32_error [of v] by (auto simp: abs_if split: if_splits)
  qed
qed

theorem i32_round_trip_witness: "from_i32 (to_i32_lossy_zero NEGATIVE_ZERO) = Inr POSITIVE_ZERO"
  using i32_round_trip [of NEGATIVE_ZERO 0]
  by (simp add: is_negative_zero_def WORD_MASK_def)

text \<open>
  An integer of magnitude at most \<open>2^28 - 1\<close> survives the encoding as two words, whose signs
  agree; any other integer is refused.
\<close>

theorem i64_round_trip:
  "case from_i64 v of
     Inr d \<Rightarrow> \<bar>v\<bar> \<le> 268435455 \<and> double_ok d \<and> is_negative (dw_high d) = is_negative (dw_low d)
              \<and> to_i64_lossy_zero d = v
   | Inl e \<Rightarrow> 268435455 < \<bar>v\<bar> \<and> e = IntegerOutOfRange v (- 268435455) 268435455"
proof (cases "\<bar>v\<bar> \<le> 268435455")
  case True
  then have v: "- 268435455 \<le> v" "v \<le> 268435455" by auto
  define m where "m = nat (if v < 0 then 268435455 + v else v)"
  have "m < 268435456" using v by (auto simp: m_def)
  then have q: "m div 16384 < 16384" by (simp add: less_mult_imp_div_less)
  obtain d where d: "from_i64 v = Inr d" "double_ok d"
      "unat (raw (dw_high d)) = (if v < 0 then 16384 else 0) + m div 16384"
      "unat (raw (dw_low d)) = (if v < 0 then 16384 else 0) + m mod 16384"
    using from_i64_ok [OF v] by (auto simp: Let_def m_def)
  then show ?thesis
    using True to_i64_from_i64 [OF v d(1)] is_negative_double_high [OF d(3) q]
      is_negative_double_high [OF d(4)] by simp
next
  case False
  then show ?thesis by (auto simp: from_i64_def DOUBLE_MAX_MAGNITUDE_def abs_if split: if_splits)
qed

text \<open>
  Overflow correction of a central register always yields a valid word, undoes sign extension,
  and keeps the value of a register whose sign bits agree; when they differ it removes exactly
  \<open>2^14\<close> in the direction of the sign.
\<close>

theorem overflow_correct_value:
  assumes "word_ok w"
  shows "overflow_correct (sign_extend w) = w \<and> \<not> has_overflow (sign_extend w)
     \<and> word_ok (overflow_correct r)
     \<and> to_i32_lossy_zero (overflow_correct r) =
         (if \<not> has_overflow r then register_value r
          else if unat (reg_raw r) < 32768 then register_value r - 16384
          else register_value r + 16384)"
proof -
  have sign: "\<not> has_overflow (sign_extend w)"
    using assms by (simp add: has_overflow_bit bit_sign_extend)
  let ?n = "unat (reg_raw r)"
  have n: "?n \<le> 65535" by (rule register_le)
  have "?n mod 32768 = (if 32768 \<le> ?n then ?n - 32768 else ?n)"
    using n by (auto simp: le_mod_geq)
  then have bits: "has_overflow r \<longleftrightarrow> (16384 \<le> (if 32768 \<le> ?n then ?n - 32768 else ?n)) \<noteq> (32768 \<le> ?n)"
    by (simp add: has_overflow_bit bit_14_iff bit_15_iff)
  have "?n mod 16384 = ?n - 16384 * (?n div 16384)" by (simp add: minus_mult_div_eq_mod)
  moreover have "?n div 16384 = (if ?n < 16384 then 0 else if ?n < 32768 then 1 else if ?n < 49152 then 2 else 3)"
    using n by (auto intro: div_nat_eqI)
  ultimately have "to_i32_lossy_zero (overflow_correct r) =
         (if \<not> has_overflow r then register_value r
          else if ?n < 32768 then register_value r - 16384 else register_value r + 16384)"
    using n unfolding to_i32_unat [OF word_ok_overflow_correct] unat_overflow_correct bits register_value_def
    by (auto split: if_splits)
  then show ?thesis using assms sign by simp
qed

theorem overflow_correct_value_witness:
  "to_i32_lossy_zero (overflow_correct (AgcRegister 0x4001)) = register_value (AgcRegister 0x4001) - 16384"
  using overflow_correct_value [of POSITIVE_ZERO "AgcRegister 0x4001"]
  by (simp add: has_overflow_def)

text \<open>
  The five-digit octal text of a word parses back to the word.
\<close>

theorem word_text_round_trip:
  assumes "word_ok w"
  shows "word_from_str (word_display w) = Inr w"
proof -
  let ?s = "pad_left (CHR ''0'') 5 (show_radix 8 (unat (raw w)))"
  have "CHR ''o'' \<notin> set ?s"
    using pad_left_digits [of 8 "CHR ''o''"] by auto
  then have "strip_prefix ''0o'' ?s = None"
    by (cases ?s; cases "tl ?s") (auto simp: strip_prefix_def)
  moreover have "from_str_radix 8 65535 ?s = Some (unat (raw w))"
    by (rule from_str_radix_show) (use word_ok_le [OF assms] in auto)
  moreover have "try_from_raw (raw w) = Inr w"
    using assms by (simp add: try_from_raw_def word_ok_def)
  ultimately show ?thesis
    by (simp add: word_from_str_def word_display_def fmt_octal_padded_def trim_pad_left
        word_of_nat_unat)
qed

theorem word_text_round_trip_witness: "word_from_str (word_display NEGATIVE_ZERO) = Inr NEGATIVE_ZERO"
  by (rule word_text_round_trip) simp

end
