(* ===== verification/Agc_Fixed.thy ===== *)
theory Agc_Fixed
  imports Agc_Word_Laws
begin

text \<open>
  \<open>crates/agc-fixed\<close>: one AGC word read with a compile-time number of fractional bits.  The
  const generic \<open>FRACTION_BITS\<close> is the first argument of the constructors that test it.
  The conversion to a host floating-point number is presentation only and not modelled.
\<close>

datatype fixed_error = InvalidScale u8 | FixedWord word_error

datatype agc_fixed = AgcFixed (fixed_word: agc_word)

definition fixed_from_word :: "u8 \<Rightarrow> agc_word \<Rightarrow> fixed_error + agc_fixed" where
  "fixed_from_word fraction_bits w =
     (if fraction_bits \<le> 14 then Inr (AgcFixed w) else Inl (InvalidScale fraction_bits))"

definition from_scaled_integer :: "u8 \<Rightarrow> int \<Rightarrow> fixed_error + agc_fixed" where
  "from_scaled_integer fraction_bits v =
     (case from_i32 v of Inl e \<Rightarrow> Inl (FixedWord e) | Inr w \<Rightarrow> fixed_from_word fraction_bits w)"

definition scaled_integer_lossy_zero :: "agc_fixed \<Rightarrow> int" where
  "scaled_integer_lossy_zero x = to_i32_lossy_zero (fixed_word x)"

definition fixed_wrapping_add :: "agc_fixed \<Rightarrow> agc_fixed \<Rightarrow> agc_fixed" where
  "fixed_wrapping_add x y = AgcFixed (wrapping_add (fixed_word x) (fixed_word y))"

definition fixed_wrapping_sub :: "agc_fixed \<Rightarrow> agc_fixed \<Rightarrow> agc_fixed" where
  "fixed_wrapping_sub x y = AgcFixed (wrapping_sub (fixed_word x) (fixed_word y))"

end
