(* ===== verification/Agc_Isa.thy ===== *)
theory Agc_Isa
  imports Agc_Word_Laws
begin

text \<open>
  \<open>crates/agc-isa\<close>: the Block II instruction table.  The mnemonics and their assembler
  spellings, the decoder of every fifteen-bit word in the basic and the extended context, the
  encoder with its operand-width checks, and the disassembler.
\<close>

section \<open>Mnemonics\<close>

datatype mnemonic =
    Ad | Ads | Aug | Bzf | Bzmf | Ca | Ccs | Cs | Das | Dca | Dcs | Dim | Dv | Dxch
    | EdrupT | Extend | Incr | Index | Inhint | Lxch | Mask | Mp | Msu | Qxch | Rand
    | Read | Relint | Resume | Ror | Rxor | Su | Tc | Tcf | Ts | Wand | Wor | Write
    | Xch

definition ALL_MNEMONICS :: "mnemonic list" where
  "ALL_MNEMONICS =
     [Ad, Ads, Aug, Bzf, Bzmf, Ca, Ccs, Cs, Das, Dca, Dcs, Dim, Dv, Dxch, EdrupT,
     Extend, Incr, Index, Inhint, Lxch, Mask, Mp, Msu, Qxch, Rand, Read, Relint,
     Resume, Ror, Rxor, Su, Tc, Tcf, Ts, Wand, Wor, Write, Xch]"

fun as_str :: "mnemonic \<Rightarrow> string" where
  "as_str Ad = ''AD''"
| "as_str Ads = ''ADS''"
| "as_str Aug = ''AUG''"
| "as_str Bzf = ''BZF''"
| "as_str Bzmf = ''BZMF''"
| "as_str Ca = ''CA''"
| "as_str Ccs = ''CCS''"
| "as_str Cs = ''CS''"
| "as_str Das = ''DAS''"
| "as_str Dca = ''DCA''"
| "as_str Dcs = ''DCS''"
| "as_str Dim = ''DIM''"
| "as_str Dv = ''DV''"
| "as_str Dxch = ''DXCH''"
| "as_str EdrupT = ''EDRUPT''"
| "as_str Extend = ''EXTEND''"
| "as_str Incr = ''INCR''"
| "as_str Index = ''INDEX''"
| "as_str Inhint = ''INHINT''"
| "as_str Lxch = ''LXCH''"
| "as_str Mask = ''MASK''"
| "as_str Mp = ''MP''"
| "as_str Msu = ''MSU''"
| "as_str Qxch = ''QXCH''"
| "as_str Rand = ''RAND''"
| "as_str Read = ''READ''"
| "as_str Relint = ''RELINT''"
| "as_str Resume = ''RESUME''"
| "as_str Ror = ''ROR''"
| "as_str Rxor = ''RXOR''"
| "as_str Su = ''SU''"
| "as_str Tc = ''TC''"
| "as_str Tcf = ''TCF''"
| "as_str Ts = ''TS''"
| "as_str Wand = ''WAND''"
| "as_str Wor = ''WOR''"
| "as_str Write = ''WRITE''"
| "as_str Xch = ''XCH''"

text \<open>The match of \<open>Mnemonic::parse\<close> as a table of accepted spellings.\<close>

definition mnemonic_spellings :: "(string \<times> mnemonic) list" where
  "mnemonic_spellings =
     [(''AD'', Ad), (''ADS'', Ads), (''AUG'', Aug), (''BZF'', Bzf), (''BZMF'', Bzmf),
     (''CA'', Ca), (''CAF'', Ca), (''CCS'', Ccs), (''CS'', Cs), (''COM'', Cs),
     (''DAS'', Das), (''DCA'', Dca), (''DCS'', Dcs), (''DCOM'', Dcs), (''DIM'', Dim),
     (''DV'', Dv), (''DXCH'', Dxch), (''EDRUPT'', EdrupT), (''EXTEND'', Extend),
     (''INCR'', Incr), (''INDEX'', Index), (''NDX'', Index), (''INHINT'', Inhint),
     (''LXCH'', Lxch), (''MASK'', Mask), (''MP'', Mp), (''SQUARE'', Mp),
     (''MSU'', Msu), (''QXCH'', Qxch), (''RAND'', Rand), (''READ'', Read),
     (''RELINT'', Relint), (''RESUME'', Resume), (''ROR'', Ror), (''RXOR'', Rxor),
     (''SU'', Su), (''TC'', Tc), (''TCR'', Tc), (''RETURN'', Tc), (''TCF'', Tcf),
     (''TS'', Ts), (''OVSK'', Ts), (''WAND'', Wand), (''WOR'', Wor),
     (''WRITE'', Write), (''XCH'', Xch)]"

definition mnemonic_parse :: "string \<Rightarrow> mnemonic option" where
  "mnemonic_parse input =
     map_of mnemonic_spellings (to_ascii_uppercase (trim_end_matches (CHR ''*'') (trim input)))"

definition is_extended :: "mnemonic \<Rightarrow> bool" where
  "is_extended m \<longleftrightarrow> m \<in> set
     [Aug, Bzf, Bzmf, Dca, Dcs, Dim, Dv, EdrupT, Mp, Msu, Qxch, Rand, Read, Ror, Rxor,
     Su, Wand, Wor, Write]"

section \<open>Decoding\<close>

record decoded_instruction =
  di_mnemonic :: mnemonic
  di_operand :: u16
  di_raw :: agc_word
  di_extended :: bool
  di_cycles :: u8

datatype encode_error = OperandOutOfRange mnemonic u16 u8

definition decode_extended :: "u16 \<Rightarrow> mnemonic \<times> u16 \<times> u8" where
  "decode_extended bits =
     (let opcode = drop_bit 12 bits AND 7;
          quarter = drop_bit 10 bits AND 3;
          io = drop_bit 9 bits AND 7
      in if opcode = 0 then
           (if io = 0 then (Read, bits AND 0x1FF, 2)
            else if io = 1 then (Write, bits AND 0x1FF, 2)
            else if io = 2 then (Rand, bits AND 0x1FF, 2)
            else if io = 3 then (Wand, bits AND 0x1FF, 2)
            else if io = 4 then (Ror, bits AND 0x1FF, 2)
            else if io = 5 then (Wor, bits AND 0x1FF, 2)
            else if io = 6 then (Rxor, bits AND 0x1FF, 2)
            else (EdrupT, bits AND 0x1FF, 1))
         else if opcode = 1 \<and> quarter = 0 then (Dv, bits AND 0x3FF, 6)
         else if opcode = 1 then (Bzf, bits AND 0xFFF, 1)
         else if opcode = 2 then
           (if quarter = 0 then (Msu, bits AND 0x3FF, 2)
            else if quarter = 1 then (Qxch, bits AND 0x3FF, 2)
            else if quarter = 2 then (Aug, bits AND 0x3FF, 2)
            else (Dim, bits AND 0x3FF, 2))
         else if opcode = 3 then (Dca, bits AND 0xFFF, 3)
         else if opcode = 4 then (Dcs, bits AND 0xFFF, 3)
         else if opcode = 5 then (Index, bits AND 0xFFF, 2)
         else if opcode = 6 \<and> quarter = 0 then (Su, bits AND 0x3FF, 2)
         else if opcode = 6 then (Bzmf, bits AND 0xFFF, 1)
         else (Mp, bits AND 0xFFF, 3))"

definition decode_basic :: "u16 \<Rightarrow> mnemonic \<times> u16 \<times> u8" where
  "decode_basic bits =
     (let opcode = drop_bit 12 bits AND 7;
          quarter = drop_bit 10 bits AND 3;
          k12 = bits AND 0xFFF
      in if opcode = 0 then
           (if k12 = 3 then (Relint, 0, 1)
            else if k12 = 4 then (Inhint, 0, 1)
            else if k12 = 6 then (Extend, 0, 1)
            else (Tc, k12, 1))
         else if opcode = 1 \<and> quarter = 0 then (Ccs, bits AND 0x3FF, 2)
         else if opcode = 1 then (Tcf, bits AND 0xFFF, 1)
         else if opcode = 2 then
           (if quarter = 0 then (Das, bits AND 0x3FF, 3)
            else if quarter = 1 then (Lxch, bits AND 0x3FF, 2)
            else if quarter = 2 then (Incr, bits AND 0x3FF, 2)
            else (Ads, bits AND 0x3FF, 2))
         else if opcode = 3 then (Ca, bits AND 0xFFF, 2)
         else if opcode = 4 then (Cs, bits AND 0xFFF, 2)
         else if opcode = 5 \<and> quarter = 0 \<and> k12 = 0xF then (Resume, 0, 2)
         else if opcode = 5 then
           (if quarter = 0 then (Index, bits AND 0x3FF, 2)
            else if quarter = 1 then (Dxch, bits AND 0x3FF, 3)
            else if quarter = 2 then (Ts, bits AND 0x3FF, 2)
            else (Xch, bits AND 0x3FF, 2))
         else if opcode = 6 then (Ad, bits AND 0xFFF, 2)
         else (Mask, bits AND 0xFFF, 2))"

definition decode :: "agc_word \<Rightarrow> bool \<Rightarrow> decoded_instruction" where
  "decode w extended =
     (let (m, operand, cycles) = (if extended then decode_extended (raw w) else decode_basic (raw w))
      in \<lparr>di_mnemonic = m, di_operand = operand, di_raw = w, di_extended = extended,
          di_cycles = cycles\<rparr>)"

section \<open>Encoding\<close>

text \<open>Opcode bits, operand mask and operand width of a mnemonic in a context.\<close>

fun encode_fields :: "mnemonic \<Rightarrow> bool \<Rightarrow> u16 \<times> u16 \<times> u8" where
  "encode_fields Relint c = (0x3, 0, 0)"
| "encode_fields Inhint c = (0x4, 0, 0)"
| "encode_fields Extend c = (0x6, 0, 0)"
| "encode_fields Resume c = (0x500F, 0, 0)"
| "encode_fields Tc c = (0, 0xFFF, 12)"
| "encode_fields Ccs c = (0x1000, 0x3FF, 10)"
| "encode_fields Tcf c = (0x1000, 0xFFF, 12)"
| "encode_fields Das c = (0x2000, 0x3FF, 10)"
| "encode_fields Lxch c = (0x2400, 0x3FF, 10)"
| "encode_fields Incr c = (0x2800, 0x3FF, 10)"
| "encode_fields Ads c = (0x2C00, 0x3FF, 10)"
| "encode_fields Ca c = (0x3000, 0xFFF, 12)"
| "encode_fields Cs c = (0x4000, 0xFFF, 12)"
| "encode_fields Index c = (if \<not> c then (0x5000, 0x3FF, 10) else (0x5000, 0xFFF, 12))"
| "encode_fields Dxch c = (0x5400, 0x3FF, 10)"
| "encode_fields Ts c = (0x5800, 0x3FF, 10)"
| "encode_fields Xch c = (0x5C00, 0x3FF, 10)"
| "encode_fields Ad c = (0x6000, 0xFFF, 12)"
| "encode_fields Mask c = (0x7000, 0xFFF, 12)"
| "encode_fields Read c = (0, 0x1FF, 9)"
| "encode_fields Write c = (0x200, 0x1FF, 9)"
| "encode_fields Rand c = (0x400, 0x1FF, 9)"
| "encode_fields Wand c = (0x600, 0x1FF, 9)"
| "encode_fields Ror c = (0x800, 0x1FF, 9)"
| "encode_fields Wor c = (0xA00, 0x1FF, 9)"
| "encode_fields Rxor c = (0xC00, 0x1FF, 9)"
| "encode_fields EdrupT c = (0xE00, 0x1FF, 9)"
| "encode_fields Dv c = (0x1000, 0x3FF, 10)"
| "encode_fields Bzf c = (0x1000, 0xFFF, 12)"
| "encode_fields Msu c = (0x2000, 0x3FF, 10)"
| "encode_fields Qxch c = (0x2400, 0x3FF, 10)"
| "encode_fields Aug c = (0x2800, 0x3FF, 10)"
| "encode_fields Dim c = (0x2C00, 0x3FF, 10)"
| "encode_fields Dca c = (0x3000, 0xFFF, 12)"
| "encode_fields Dcs c = (0x4000, 0xFFF, 12)"
| "encode_fields Su c = (0x6000, 0x3FF, 10)"
| "encode_fields Bzmf c = (0x6000, 0xFFF, 12)"
| "encode_fields Mp c = (0x7000, 0xFFF, 12)"

definition encode_with_context :: "mnemonic \<Rightarrow> u16 \<Rightarrow> bool \<Rightarrow> encode_error + agc_word" where
  "encode_with_context m operand c =
     (let (base, mask, bits) = encode_fields m c
      in if operand AND NOT mask \<noteq> 0 then Inl (OperandOutOfRange m operand bits)
         else case try_from_raw (base OR (operand AND mask)) of
                Inl _ \<Rightarrow> Inl (OperandOutOfRange m operand bits)
              | Inr w \<Rightarrow> Inr w)"

definition encode :: "mnemonic \<Rightarrow> u16 \<Rightarrow> encode_error + agc_word" where
  "encode m operand = encode_with_context m operand False"

definition disassemble :: "decoded_instruction \<Rightarrow> string" where
  "disassemble i =
     (if di_mnemonic i \<in> {Extend, Relint, Inhint, Resume} then as_str (di_mnemonic i)
      else as_str (di_mnemonic i) @ '' '' @ fmt_octal_padded 4 (unat (di_operand i)))"

end
