(* ===== verification/Agc_Isa_Laws.thy ===== *)
theory Agc_Isa_Laws
  imports Agc_Isa
begin

text \<open>
  Laws of the instruction table: every word decodes, re-encoding a decoded word restores it,
  and the encoder inverts the decoder except on the operands that Block II aliases.
\<close>

section \<open>Fields of an instruction word\<close>

lemma join_field:
  fixes r :: u16
  assumes "\<not> bit r 15" "bits = mask (15 - n)" "drop_bit n r AND bits = opc" "base = push_bit n opc" "m = mask n"
  shows "base OR (r AND m) = r"
proof (rule bit_word_eqI)
  fix i
  assume "i < LENGTH(16)"
  then have i: "i < 16" by simp
  have b: "bit base i \<longleftrightarrow> n \<le> i \<and> i < 15 \<and> bit r i"
    unfolding assms(4) assms(3) [symmetric] assms(2) using i by (auto simp: bit_simps)
  have "i = 15 \<or> i < 15" using i by auto
  then show "bit (base OR (r AND m)) i = bit r i"
    using assms(1) i by (auto simp: b bit_or_iff bit_and_iff bit_mask_iff assms(5))
qed

lemma split_field:
  fixes r :: u16
  assumes "drop_bit (n + k) r AND h = a" "drop_bit n r AND l = b" "h = mask (15 - (n+k))" "l = mask k" "n + k \<le> 15"
     "bits = mask (15 - n)" "c = push_bit k a OR b"
  shows "drop_bit n r AND bits = c"
proof (rule bit_word_eqI)
  fix i
  assume "i < LENGTH(16)"
  then show "bit (drop_bit n r AND bits) i = bit c i"
   unfolding assms(7) assms(1,2) [symmetric] assms(3,4,6) using assms(5)
   by (auto simp: bit_simps)
qed

lemma encode_field:
  assumes "encode_fields m c = (base, mk, n)" "base OR (r AND mk) = r" "\<not> bit r 15"
  shows "encode_with_context m (r AND mk) c = Inr (AgcWord r)"
proof -
  have "r AND NOT WORD_MASK = 0"
    using assms(3) by (simp add: WORD_MASK_def u16_eq_iff bit_simps)
  moreover have "(r AND mk) AND NOT mk = 0"
    by (rule bit_word_eqI) (auto simp: bit_simps)
  moreover have "(r AND mk) AND mk = r AND mk" by (simp add: and.assoc)
  ultimately show ?thesis using assms by (simp add: encode_with_context_def try_from_raw_def)
qed

lemma encode_12:
  assumes "encode_fields m c = (base, 0xFFF, n)" "drop_bit 12 r AND 7 = opc" "\<not> bit r 15" "base = push_bit 12 opc"
  shows "encode_with_context m (r AND 0xFFF) c = Inr (AgcWord r)"
  by (rule encode_field [OF assms(1) join_field [OF assms(3) _ assms(2,4)]])
   (use assms in \<open>simp_all add: mask_eq_exp_minus_1\<close>)

lemma encode_10:
  assumes "encode_fields m c = (base, 0x3FF, n)" "drop_bit 12 r AND 7 = opc" "drop_bit 10 r AND 3 = q" "\<not> bit r 15" 
    "base = push_bit 10 (push_bit 2 opc OR q)"
  shows "encode_with_context m (r AND 0x3FF) c = Inr (AgcWord r)"
proof -
  have "drop_bit 10 r AND mask 5 = push_bit 2 opc OR q"
    by (rule split_field [where n=10 and k=2 and h=7 and l=3])
       (use assms in \<open>simp_all add: mask_eq_exp_minus_1\<close>)
  from join_field [OF assms(4) _ this assms(5)] show ?thesis
  by (intro encode_field [OF assms(1)])
    (use assms in \<open>simp_all add: mask_eq_exp_minus_1\<close>)
qed

lemma encode_9:
  assumes "encode_fields m c = (base, 0x1FF, n)" "drop_bit 12 r AND 7 = 0" "drop_bit 9 r AND 7 = io" "\<not> bit r 15" 
    "base = push_bit 9 io"
  shows "encode_with_context m (r AND 0x1FF) c = Inr (AgcWord r)"
proof -
  have "drop_bit 9 r AND mask 6 = io"
    by (rule split_field [where n=9 and k=3 and h=7 and l=7 and a=0])
       (use assms in \<open>simp_all add: mask_eq_exp_minus_1\<close>)
  from join_field [OF assms(4) _ this assms(5)] show ?thesis
  by (intro encode_field [OF assms(1)])
    (use assms in \<open>simp_all add: mask_eq_exp_minus_1\<close>)
qed

lemma three_bits: "(x :: u16) AND 7 \<in> {0,1,2,3,4,5,6,7}"
proof -
  have "unat (x AND 7) < 8" by (simp add: unat_simps)
  then show ?thesis by (simp add: word_eq_unat_iff del: unsigned_eq_0_iff) linarith
qed
lemma two_bits: "(x :: u16) AND 3 \<in> {0,1,2,3}"
proof -
  have "unat (x AND 3) < 4" by (simp add: unat_simps)
  then show ?thesis by (simp add: word_eq_unat_iff del: unsigned_eq_0_iff) linarith
qed

lemma encode_fields_Index:
  "encode_fields Index False = (0x5000, 0x3FF, 10)" "encode_fields Index True = (0x5000, 0xFFF, 12)"
  by simp_all

lemma encode_zero:
  assumes "encode_fields m c = (base, 0, n)" "r = base" "\<not> bit r 15"
  shows "encode_with_context m 0 c = Inr (AgcWord r)"
  using encode_field [OF assms(1) _ assms(3)] assms(2) by simp

lemmas encode_branch = encode_12 encode_10 encode_9 encode_zero
lemmas encode_row = encode_fields_Index encode_fields.simps

lemma encode_decode_extended:
  assumes "word_ok w" "decode_extended (raw w) = (m, k, c)"
  shows "encode_with_context m k True = Inr w"
proof -
  obtain r where w: "w = AgcWord r" by (cases w)
  have r: "\<not> bit r 15" using assms(1) w by (simp add: word_ok_bit)
  show ?thesis
  using assms(2) three_bits [of "drop_bit 12 r"] three_bits [of "drop_bit 9 r"] two_bits [of "drop_bit 10 r"] unfolding w
  by (simp add: decode_extended_def Let_def split: if_splits)
    (elim conjE; hypsubst; rule encode_branch; (rule encode_row | rule r | assumption | simp))+
qed

lemma encode_decode_basic:
  assumes "word_ok w" "decode_basic (raw w) = (m, k, c)"
  shows "encode_with_context m k False = Inr w"
proof -
  obtain r where w: "w = AgcWord r" by (cases w)
  have r: "\<not> bit r 15" using assms(1) w by (simp add: word_ok_bit)
  have whole: "r = push_bit 12 q OR k" if "drop_bit 12 r AND 7 = q" "r AND 0xFFF = k" for q k
    using join_field [OF r _ that(1) refl, where m = "0xFFF"] that(2) by (simp add: mask_eq_exp_minus_1)
  show ?thesis
  using assms(2) three_bits [of "drop_bit 12 r"] two_bits [of "drop_bit 10 r"] unfolding w
  apply (simp add: decode_basic_def Let_def split: if_splits)
  apply (elim conjE; hypsubst; rule encode_branch; (rule encode_row | rule r | assumption | (rule trans [OF whole], assumption, assumption, simp) | simp))+
  done
qed

definition aliased :: "mnemonic \<Rightarrow> u16 \<Rightarrow> bool \<Rightarrow> bool" where
  "aliased m k c \<longleftrightarrow>
     (m = Tc \<and> k \<in> {3, 4, 6}) \<or> (m \<in> {Tcf, Bzf, Bzmf} \<and> k < 0x400) \<or> (m = Index \<and> \<not> c \<and> k = 0xF)"

lemma field_facts:
  fixes k mk :: u16
  assumes "k AND NOT mk = 0" "mk = mask n" "n \<le> 12"
  shows "drop_bit n k = 0" "k AND mk = k" "unat k < 2 ^ n"
proof -
  have high: "\<not> bit k i" if "n \<le> i" for i
    using assms(1) that bit_and_iff [of k "NOT mk" i] bit_imp_le_length [of k i] by (auto simp: assms(2) bit_not_iff bit_mask_iff)
  show "drop_bit n k = 0" by (rule bit_word_eqI) (simp add: bit_simps high)
  show *: "k AND mk = k" by (rule bit_word_eqI) (auto simp: bit_simps assms(2) high not_le[symmetric])
  have "unat k = unat k mod 2 ^ n" using unat_and_mask [of k n] * assms(2) by simp
  then show "unat k < 2 ^ n" using mod_less_divisor [of "2 ^ n" "unat k"] by simp
qed

lemma join_word:
  fixes b k :: u16
  shows "drop_bit n (b OR k) AND l = (drop_bit n b AND l) OR (drop_bit n k AND l)"
        "(b OR k) AND l = (b AND l) OR (k AND l)"
  by (rule bit_word_eqI; auto simp: bit_simps)+

lemma quarter_iff:
  fixes k :: u16
  assumes "k AND NOT 0xFFF = 0"
  shows "drop_bit 10 k AND 3 = 0 \<longleftrightarrow> k < 0x400"
proof -
  have "unat k < 4096" using field_facts (3) [OF assms, of 12] by (simp add: mask_eq_exp_minus_1)
  then show ?thesis by (simp add: word_eq_unat_iff unat_simps unat_drop_bit word_less_nat_alt) linarith
qed

lemma encode_with_context_cases:
  assumes "encode_fields m c = (base, mk, n)"
  obtains (fits) "operand AND NOT mk = 0" "encode_with_context m operand c = Inr (AgcWord (base OR operand))" "word_ok (AgcWord (base OR operand))"
        | (wide) "operand AND NOT mk \<noteq> 0" "encode_with_context m operand c = Inl (OperandOutOfRange m operand n)"
proof -
  have f: "base AND NOT WORD_MASK = 0 \<and> mk AND NOT WORD_MASK = 0"
    using assms by (cases m) (auto simp: WORD_MASK_def split: if_splits)
  have "(base OR operand) AND NOT WORD_MASK = 0" if "operand AND NOT mk = 0" 
  proof -
    have "bit operand 15 \<longrightarrow> bit mk 15" using arg_cong [OF that, of "\<lambda>x. bit x 15"] by (simp add: bit_simps)
    moreover have "\<not> bit base 15" "\<not> bit mk 15" using f by (auto simp: WORD_MASK_def u16_eq_iff bit_simps)
    ultimately show ?thesis by (simp add: WORD_MASK_def u16_eq_iff bit_simps)
  qed
  moreover have "operand AND mk = operand" if "operand AND NOT mk = 0"
  proof -
    have "operand = (operand AND mk) OR (operand AND NOT mk)" by (rule bit_word_eqI) (auto simp: bit_simps)
    with that show ?thesis by simp
  qed
  ultimately show thesis using that assms
    by (cases "operand AND NOT mk = 0") (auto simp: encode_with_context_def try_from_raw_def word_ok_def)
qed

definition operand_width :: "mnemonic \<Rightarrow> bool \<Rightarrow> nat" where
  "operand_width m c = unat (snd (snd (encode_fields m c)))"

lemma fits_iff:
  assumes "encode_fields m c = (base, mk, n)"
  shows "k AND NOT mk = 0 \<longleftrightarrow> unat k < 2 ^ operand_width m c" "mk = mask (operand_width m c)" "operand_width m c \<le> 12"
proof -
  have m: "mk = mask (operand_width m c) \<and> operand_width m c \<le> 12" 
    using assms by (cases m) (auto simp: operand_width_def mask_eq_exp_minus_1 split: if_splits)
  then show "mk = mask (operand_width m c)" "operand_width m c \<le> 12" by auto
  have "k AND NOT mk = 0" if "unat k < 2 ^ operand_width m c"
  proof (rule bit_word_eqI)
    fix i
    have "k AND mk = k" using that m by (metis mod_less unat_and_mask word_eq_unat_iff)
    then show "bit (k AND NOT mk) i = bit 0 i" using bit_and_iff [of k mk i] by (auto simp: bit_and_iff bit_not_iff)
  qed
  then show "k AND NOT mk = 0 \<longleftrightarrow> unat k < 2 ^ operand_width m c"
    using field_facts(3) m by blast
qed

lemma decode_encode_with_context:
  assumes "word_ok w"
  shows "encode_with_context (di_mnemonic (decode w e)) (di_operand (decode w e)) e = Inr w"
  using encode_decode_extended [OF assms] encode_decode_basic [OF assms]
  by (auto simp: decode_def split: prod.splits)

lemma decode_operand_bound:
  assumes "word_ok w"
  shows "unat (di_operand (decode w e)) < 2 ^ operand_width (di_mnemonic (decode w e)) e"
proof -
  obtain base mk n where row: "encode_fields (di_mnemonic (decode w e)) e = (base, mk, n)"
    by (metis prod_cases3)
  show ?thesis
    using decode_encode_with_context [OF assms, of e] fits_iff(1) [OF row]
    by (cases rule: encode_with_context_cases [OF row, of "di_operand (decode w e)"]) auto
qed

lemma narrow_field:
  fixes k :: u16
  assumes "k AND NOT mk = 0" "mk = mask n" "n \<le> j"
  shows "drop_bit j k = 0"
proof (rule bit_word_eqI)
  fix i
  show "bit (drop_bit j k) i = bit 0 i"
    using assms(3) arg_cong [OF assms(1), of "\<lambda>x. bit x (j + i)"] bit_imp_le_length [of k "j+i"]
    by (auto simp: bit_simps assms(2) add.commute)
qed

definition decodes_to where
 "decodes_to m k c base \<longleftrightarrow> (let d = decode (AgcWord (base OR k)) (is_extended m \<or> m = Index \<and> c)
     in (di_mnemonic d = m \<and> di_operand d = k) = (\<not> aliased m k c))"

lemmas decodes_to_defs = decodes_to_def is_extended_def decode_def decode_basic_def Let_def aliased_def
         decode_extended_def join_word

lemma row12:
  assumes "drop_bit 12 k = 0" "k AND 0xFFF = k" "(drop_bit 10 k AND 3 = 0) = (k < 0x400)"
  shows "encode_fields m c = (base, 0xFFF, n) \<Longrightarrow> decodes_to m k c base"
  using assms by (cases m; simp split: if_splits) (simp_all add: decodes_to_defs split: if_splits)

lemma row10:
  assumes "drop_bit 12 k = 0" "drop_bit 10 k = 0" "k AND 0x3FF = k" "k AND 0xFFF = k"
  shows "encode_fields m c = (base, 0x3FF, n) \<Longrightarrow> decodes_to m k c base"
  using assms by (cases m; simp split: if_splits) (simp_all add: decodes_to_defs split: if_splits)

lemma row9:
  assumes "drop_bit 12 k = 0" "drop_bit 10 k = 0" "drop_bit 9 k = 0" "k AND 0x1FF = k"
  shows "encode_fields m c = (base, 0x1FF, n) \<Longrightarrow> decodes_to m k c base"
  using assms by (cases m; simp split: if_splits) (simp_all add: decodes_to_defs split: if_splits)

lemma row0:
  shows "encode_fields m c = (base, 0, n) \<Longrightarrow> decodes_to m 0 c base"
  by (cases m; simp split: if_splits) (simp_all add: decodes_to_defs split: if_splits)

lemma decodes_to_row:
  assumes row: "encode_fields m c = (base, mk, n)" and k: "k AND NOT mk = 0"
  shows "decodes_to m k c base"
proof -
  have "mk \<in> {0, 0x1FF, 0x3FF, 0xFFF}" using row by (cases m) (auto split: if_splits)
  then consider "mk = 0" | "mk = 0x1FF" | "mk = 0x3FF" | "mk = 0xFFF" by blast
  then show ?thesis
  proof cases
    case 1
    then have "k = 0" using k by simp
    then show ?thesis using row0 row 1 by simp
  next
    case 2
    have m: "mk = mask 9" by (simp add: 2 mask_eq_exp_minus_1)
    show ?thesis
      by (rule row9 [OF _ _ _ _ row [unfolded 2]])
         (use narrow_field [OF k m] field_facts(2) [OF k m] 2 in simp_all)
  next
    case 3
    have m: "mk = mask 10" by (simp add: 3 mask_eq_exp_minus_1)
    have "k AND 0xFFF = k"
      using field_facts(3) [OF k m] by (simp add: word_eq_unat_iff unat_simps)
    then show ?thesis
      by (intro row10 [OF _ _ _ _ row [unfolded 3]])
         (use narrow_field [OF k m] field_facts(2) [OF k m] 3 in simp_all)
  next
    case 4
    have m: "mk = mask 12" by (simp add: 4 mask_eq_exp_minus_1)
    show ?thesis
      by (rule row12 [OF _ _ _ row [unfolded 4]])
         (use narrow_field [OF k m] field_facts(2) [OF k m] quarter_iff [OF k [unfolded 4]] 4 in simp_all)
  qed
qed

lemma decode_extended_class:
  assumes "decode_extended r = (m, k, c)"
  shows "(is_extended m \<or> m = Index) \<and> c \<in> {1, 2, 3, 6}"
  using assms by (simp add: decode_extended_def Let_def split: if_splits; elim conjE; hypsubst; simp add: is_extended_def)

lemma decode_basic_class: 
  assumes "decode_basic r = (m, k, c)"
  shows "\<not> is_extended m \<and> c \<in> {1, 2, 3, 6}"
  using assms by (simp add: decode_basic_def Let_def split: if_splits; elim conjE; hypsubst; simp add: is_extended_def)

lemma decode_class:
  shows "(is_extended (di_mnemonic (decode w e)) \<or> di_mnemonic (decode w e) = Index \<and> e) = e" "di_cycles (decode w e) \<in> {1, 2, 3, 6}"
 using decode_basic_class decode_extended_class by (auto simp: decode_def split: prod.splits)

lemma ALL_MNEMONICS_complete: "m \<in> set ALL_MNEMONICS"
  by (cases m) (simp_all add: ALL_MNEMONICS_def)


lemma encode_outcome:
  "case encode_with_context m k c of
     Inr w \<Rightarrow> unat k < 2 ^ operand_width m c \<and> word_ok w
       \<and> (let d = decode w (is_extended m \<or> m = Index \<and> c)
          in (di_mnemonic d = m \<and> di_operand d = k) = (\<not> aliased m k c))
   | Inl e \<Rightarrow> 2 ^ operand_width m c \<le> unat k \<and> e = OperandOutOfRange m k (snd (snd (encode_fields m c)))"
proof -
  obtain base mk n where row: "encode_fields m c = (base, mk, n)"
    by (metis prod_cases3)
  note fits = fits_iff [OF row]
  show ?thesis
  proof (rule encode_with_context_cases [OF row, of k])
    assume "k AND NOT mk = 0" "encode_with_context m k c = Inr (AgcWord (base OR k))"
      "word_ok (AgcWord (base OR k))"
    then show ?thesis using fits decodes_to_row [OF row] by (simp add: decodes_to_def)
  next
    assume "k AND NOT mk \<noteq> 0" "encode_with_context m k c = Inl (OperandOutOfRange m k n)"
    then show ?thesis using fits row by (simp add: not_less)
  qed
qed

section \<open>Properties\<close>

text \<open>
  C2 Decoding loses nothing: for every valid word and both contexts, encoding the decoded
  mnemonic and operand in the same context gives the word back; the operand fits the width of
  the mnemonic, extended-only mnemonics come out exactly of the extended context (\<open>Index\<close>
  exists in both), and the cycle count is one of the four of the table.
\<close>

theorem decode_then_encode:
  assumes "word_ok w"
  shows "let d = decode w e in
     encode_with_context (di_mnemonic d) (di_operand d) e = Inr w
     \<and> unat (di_operand d) < 2 ^ operand_width (di_mnemonic d) e
     \<and> (is_extended (di_mnemonic d) \<or> di_mnemonic d = Index \<and> e) = e
     \<and> di_cycles d \<in> {1, 2, 3, 6}"
proof -
  show ?thesis
    using decode_class [of w e] decode_encode_with_context [OF assms] decode_operand_bound [OF assms] by (simp add: Let_def)
qed

theorem decode_then_encode_witness:
  "encode_with_context (di_mnemonic (decode (AgcWord 0x1234) True)) (di_operand (decode (AgcWord 0x1234) True)) True
     = Inr (AgcWord 0x1234)"
  using decode_then_encode [of "AgcWord 0x1234" True] by (simp add: word_ok_iff Let_def)

text \<open>
  The encoder refuses exactly the operands wider than the field of the mnemonic, reporting
  the width.  Otherwise the word it makes decodes, in the context the mnemonic needs, to the
  same mnemonic and operand except for the aliased operands: \<open>TC\<close> 3, 4 and 6 are
  \<open>RELINT\<close>, \<open>INHINT\<close> and \<open>EXTEND\<close>, \<open>INDEX\<close> 17 octal is
  \<open>RESUME\<close>, and \<open>TCF\<close>, \<open>BZF\<close> and \<open>BZMF\<close> below 2000 octal are
  \<open>CCS\<close>, \<open>DV\<close> and \<open>SU\<close>.
\<close>

theorem encode_then_decode:
  "case encode_with_context m k c of
     Inr w \<Rightarrow> unat k < 2 ^ operand_width m c \<and> word_ok w
       \<and> (let d = decode w (is_extended m \<or> m = Index \<and> c)
          in (di_mnemonic d = m \<and> di_operand d = k) = (\<not> aliased m k c))
   | Inl e \<Rightarrow> 2 ^ operand_width m c \<le> unat k \<and> e = OperandOutOfRange m k (snd (snd (encode_fields m c)))"
  by (rule encode_outcome)

text \<open>
  The canonical spelling of every mnemonic parses back to it, and the report order lists
  every mnemonic exactly once.
\<close>

theorem mnemonic_parse_as_str:
  "mnemonic_parse (as_str m) = Some m \<and> distinct ALL_MNEMONICS \<and> m \<in> set ALL_MNEMONICS"
proof -
  have "mnemonic_parse (as_str m) = Some m"
    by (cases m) (simp_all add: mnemonic_parse_def mnemonic_spellings_def trim_def trim_start_def is_ascii_space_def
       trim_end_matches_def to_ascii_uppercase_def ascii_upper_def Let_def)
  then show ?thesis using ALL_MNEMONICS_complete by (simp add: ALL_MNEMONICS_def)
qed

end
