(* ===== verification/Agc_Memory.thy ===== *)
theory Agc_Memory
  imports Agc_Word_Laws
begin

text \<open>
  \<open>crates/agc-memory\<close>: translation of logical addresses through the bank registers, the
  erasable and rope stores, the central and editing registers, and the I/O channels.  Arrays
  and vectors are lists; an index outside them panics.
\<close>

definition ERASABLE_BANKS :: nat where "ERASABLE_BANKS = 8"
definition ERASABLE_WORDS_PER_BANK :: nat where "ERASABLE_WORDS_PER_BANK = 256"
definition FIXED_BANKS :: nat where "FIXED_BANKS = 36"
definition FIXED_WORDS_PER_BANK :: nat where "FIXED_WORDS_PER_BANK = 1024"
definition CHANNELS :: nat where "CHANNELS = 512"

text \<open>The addresses of \<open>mod register\<close>.\<close>

definition REG_A :: u16 where "REG_A = 0"
definition REG_L :: u16 where "REG_L = 1"
definition REG_Q :: u16 where "REG_Q = 2"
definition REG_EB :: u16 where "REG_EB = 3"
definition REG_FB :: u16 where "REG_FB = 4"
definition REG_Z :: u16 where "REG_Z = 5"
definition REG_BB :: u16 where "REG_BB = 6"
definition REG_ZERO :: u16 where "REG_ZERO = 7"
definition REG_ARUPT :: u16 where "REG_ARUPT = 8"
definition REG_LRUPT :: u16 where "REG_LRUPT = 9"
definition REG_QRUPT :: u16 where "REG_QRUPT = 10"
definition REG_ZRUPT :: u16 where "REG_ZRUPT = 13"
definition REG_BBRUPT :: u16 where "REG_BBRUPT = 14"
definition REG_BRUPT :: u16 where "REG_BRUPT = 15"

lemmas register_numbers [simp] =
  REG_A_def REG_L_def REG_Q_def REG_EB_def REG_FB_def REG_Z_def REG_BB_def REG_ZERO_def
  REG_ARUPT_def REG_LRUPT_def REG_QRUPT_def REG_ZRUPT_def REG_BBRUPT_def REG_BRUPT_def

datatype physical_address = Register u16 | Erasable u8 u16 | Fixed u8 u16

datatype access_kind = FetchAccess | ReadAccess | WriteAccess

record memory_access =
  ma_kind :: access_kind
  ma_logical :: u16
  ma_physical :: physical_address
  ma_value :: agc_word

datatype memory_error =
    AddressOutOfRange u16
  | FixedBankUnavailable u8
  | FixedOffsetOutOfRange u16
  | FixedWrite u16
  | RopeSize nat nat

record memory =
  central :: "u16 list"
  erasable :: "agc_word list"
  fixed_words :: "agc_word list"
  channels :: "agc_word list"
  superbank :: bool

section \<open>Creation\<close>

definition initialize_input_channels :: "agc_word list \<Rightarrow> agc_word list" where
  "initialize_input_channels cs =
     cs [0x18 := from_raw_truncate 0x3FFF, 0x19 := NEGATIVE_ZERO, 0x1A := NEGATIVE_ZERO,
         0x1B := NEGATIVE_ZERO]"

definition blank :: memory where
  "blank = \<lparr>central = replicate 49 0,
            erasable = replicate (ERASABLE_BANKS * ERASABLE_WORDS_PER_BANK) POSITIVE_ZERO,
            fixed_words = replicate (FIXED_BANKS * FIXED_WORDS_PER_BANK) POSITIVE_ZERO,
            channels = initialize_input_channels (replicate CHANNELS POSITIVE_ZERO),
            superbank = False\<rparr>"

definition with_rope :: "agc_word list \<Rightarrow> memory_error + memory" where
  "with_rope words =
     (let expected = FIXED_BANKS * FIXED_WORDS_PER_BANK
      in if length words \<noteq> expected then Inl (RopeSize expected (length words))
         else Inr (blank\<lparr>fixed_words := words\<rparr>))"

definition load_rope :: "agc_word list \<Rightarrow> (memory, memory_error, unit) prog" where
  "load_rope words = and_then (gets fixed_words) (\<lambda>old.
     if length words \<noteq> length old then fail (RopeSize (length old) (length words))
     else modify (fixed_words_update (\<lambda>_. words)))"

definition reset_volatile :: "memory \<Rightarrow> memory" where
  "reset_volatile m =
     m\<lparr>central := replicate (length (central m)) 0,
       erasable := replicate (length (erasable m)) POSITIVE_ZERO,
       channels := initialize_input_channels (replicate (length (channels m)) POSITIVE_ZERO),
       superbank := False\<rparr>"

section \<open>Translation\<close>

text \<open>The fixed-size central array has more than six entries, so these reads cannot panic.\<close>

definition ebank :: "memory \<Rightarrow> u8" where
  "ebank m = ucast (drop_bit 8 (central m ! unat REG_EB) AND 7)"

definition fbank :: "memory \<Rightarrow> u8" where
  "fbank m = ucast (drop_bit 10 (central m ! unat REG_FB) AND 0x1F)"

definition selected_fixed_bank :: "memory \<Rightarrow> u8" where
  "selected_fixed_bank m =
     (if superbank m \<and> 0x18 \<le> fbank m \<and> fbank m \<le> 0x1B then fbank m + 8 else fbank m)"

definition translate :: "memory \<Rightarrow> u16 \<Rightarrow> memory_error + physical_address" where
  "translate m logical =
     (if logical > 0xFFF then Inl (AddressOutOfRange logical)
      else Inr (if logical \<le> 0x30 then Register logical
                else if logical \<le> 0x2FF then Erasable (ucast (drop_bit 8 logical)) (logical AND 0xFF)
                else if logical \<le> 0x3FF then Erasable (ebank m) (logical AND 0xFF)
                else if logical \<le> 0x7FF then Fixed (selected_fixed_bank m) (logical AND 0x3FF)
                else if logical \<le> 0xBFF then Fixed 2 (logical AND 0x3FF)
                else Fixed 3 (logical AND 0x3FF)))"

section \<open>Central and editing registers\<close>

definition rotate_right :: "u16 \<Rightarrow> u16" where
  "rotate_right r = (drop_bit 1 r OR push_bit 14 (r AND 1)) AND 0x7FFF"

definition rotate_left :: "u16 \<Rightarrow> u16" where
  "rotate_left r = (push_bit 1 r OR (drop_bit 14 r AND 1)) AND 0x7FFF"

definition shift_right :: "u16 \<Rightarrow> u16" where
  "shift_right r = (drop_bit 1 r OR (r AND 0x4000)) AND 0x7FFF"

definition store_central :: "u16 \<Rightarrow> u16 \<Rightarrow> (memory, 'e, unit) prog" where
  "store_central index r = store central central_update (unat index) r"

definition read_special :: "u16 \<Rightarrow> (memory, 'e, agc_word) prog" where
  "read_special index =
     (if index \<in> {REG_A, REG_L, REG_Q} then
        and_then (load central (unat index)) (\<lambda>r.
        and_then (expect (of_result (register_try_from_raw (ucast r)))) (\<lambda>reg.
        ok (overflow_correct reg)))
      else if index = REG_Z then
        and_then (load central (unat REG_Z)) (\<lambda>r. ok (from_raw_truncate (r AND 0xFFF)))
      else if index = REG_ZERO then ok POSITIVE_ZERO
      else and_then (load central (unat index)) (\<lambda>r. ok (from_raw_truncate r)))"

definition synchronize_banks :: "u16 \<Rightarrow> (memory, 'e, unit) prog" where
  "synchronize_banks written =
     (if written = REG_BB then
        and_then (load central (unat REG_BB)) (\<lambda>bb.
        seq (store_central REG_EB (push_bit 8 (bb AND 7)))
            (store_central REG_FB (bb AND 0x7C00)))
      else
        and_then (load central (unat REG_FB)) (\<lambda>fb.
        and_then (load central (unat REG_EB)) (\<lambda>eb.
        store_central REG_BB (fb OR (drop_bit 8 eb AND 7)))))"

definition write_central_raw :: "u16 \<Rightarrow> u16 \<Rightarrow> (memory, 'e, unit) prog" where
  "write_central_raw index r =
     (if index \<in> {REG_A, REG_L, REG_Q} then store_central index r
      else if index = REG_Z then store_central index (r AND 0xFFF)
      else if index = REG_EB then seq (store_central index (r AND 0x700)) (synchronize_banks index)
      else if index = REG_FB then seq (store_central index (r AND 0x7C00)) (synchronize_banks index)
      else if index = REG_BB then seq (store_central index (r AND 0x7C07)) (synchronize_banks index)
      else if index = REG_ZERO then ok ()
      else if index < 0x10 then store_central index r
      else store_central index (r AND 0x7FFF))"

definition write_special :: "u16 \<Rightarrow> agc_word \<Rightarrow> (memory, 'e, unit) prog" where
  "write_special index v =
     (if index = 0x10 then store_central index (rotate_right (raw v))
      else if index = 0x11 then store_central index (shift_right (raw v))
      else if index = 0x12 then store_central index (rotate_left (raw v))
      else if index = 0x13 then store_central index (drop_bit 7 (raw v) AND 0x7F)
      else if 0x14 \<le> index \<and> index \<le> 0x30 then store_central index (raw v)
      else if index = REG_ZERO then ok ()
      else if index \<in> {REG_A, REG_L, REG_Q} then write_central_raw index (reg_raw (sign_extend v))
      else if index < 0x10 then write_central_raw index (raw v)
      else store_central index (raw v))"

definition central_register :: "u16 \<Rightarrow> (memory, memory_error, agc_register) prog" where
  "central_register index =
     (if 16 \<le> index then fail (AddressOutOfRange index)
      else and_then (load central (unat index)) (\<lambda>r.
           case register_try_from_raw (ucast r) of
             Inl _ \<Rightarrow> fail (AddressOutOfRange index)
           | Inr reg \<Rightarrow> ok reg))"

definition set_central_register :: "u16 \<Rightarrow> agc_register \<Rightarrow> (memory, memory_error, unit) prog" where
  "set_central_register index v =
     (if 16 \<le> index then fail (AddressOutOfRange index) else write_central_raw index (reg_raw v))"

section \<open>Logical reads and writes\<close>

definition erasable_index :: "u8 \<Rightarrow> u16 \<Rightarrow> nat" where
  "erasable_index bank offset = unat bank * ERASABLE_WORDS_PER_BANK + unat offset"

definition fixed_index :: "u8 \<Rightarrow> u16 \<Rightarrow> nat" where
  "fixed_index bank offset = unat bank * FIXED_WORDS_PER_BANK + unat offset"

definition read_physical :: "physical_address \<Rightarrow> (memory, memory_error, agc_word) prog" where
  "read_physical physical = (case physical of
       Register index \<Rightarrow> read_special index
     | Erasable bank offset \<Rightarrow>
         if bank = 0 \<and> offset \<le> 0x30 then read_special offset
         else load erasable (erasable_index bank offset)
     | Fixed bank offset \<Rightarrow>
         if FIXED_BANKS \<le> unat bank then fail (FixedBankUnavailable bank)
         else load fixed_words (fixed_index bank offset))"

definition read_memory :: "u16 \<Rightarrow> access_kind \<Rightarrow> (memory, memory_error, memory_access) prog" where
  "read_memory logical kind =
     and_then (gets (\<lambda>m. translate m logical)) (\<lambda>t.
     and_then (of_result t) (\<lambda>physical.
     and_then (read_physical physical) (\<lambda>v.
     ok \<lparr>ma_kind = kind, ma_logical = logical, ma_physical = physical, ma_value = v\<rparr>)))"

definition edit_index :: "physical_address \<Rightarrow> u16 option" where
  "edit_index physical = (case physical of
       Register index \<Rightarrow> if 0x10 \<le> index \<and> index \<le> 0x13 then Some index else None
     | Erasable bank offset \<Rightarrow>
         if bank = 0 \<and> 0x10 \<le> offset \<and> offset \<le> 0x13 then Some offset else None
     | Fixed _ _ \<Rightarrow> None)"

definition read_and_edit :: "u16 \<Rightarrow> access_kind \<Rightarrow> (memory, memory_error, memory_access) prog" where
  "read_and_edit logical kind =
     and_then (read_memory logical kind) (\<lambda>access.
     seq (case edit_index (ma_physical access) of
            Some index \<Rightarrow> write_special index (ma_value access)
          | None \<Rightarrow> ok ())
         (ok access))"

definition write_physical :: "u16 \<Rightarrow> physical_address \<Rightarrow> agc_word \<Rightarrow> (memory, memory_error, unit) prog" where
  "write_physical logical physical v = (case physical of
       Register index \<Rightarrow> write_special index v
     | Erasable bank offset \<Rightarrow>
         if bank = 0 \<and> offset \<le> 0x30 then write_special offset v
         else store erasable erasable_update (erasable_index bank offset) v
     | Fixed _ _ \<Rightarrow> fail (FixedWrite logical))"

definition write_memory :: "u16 \<Rightarrow> agc_word \<Rightarrow> (memory, memory_error, memory_access) prog" where
  "write_memory logical v =
     and_then (gets (\<lambda>m. translate m logical)) (\<lambda>t.
     and_then (of_result t) (\<lambda>physical.
     seq (write_physical logical physical v) (
     and_then (read_physical physical) (\<lambda>stored.
     ok \<lparr>ma_kind = WriteAccess, ma_logical = logical, ma_physical = physical, ma_value = stored\<rparr>))))"

section \<open>Channels\<close>

definition read_channel :: "channel_address \<Rightarrow> (memory, 'e, agc_word) prog" where
  "read_channel channel =
     (if channel_get channel = 1 then read_special REG_L
      else if channel_get channel = 2 then read_special REG_Q
      else load channels (unat (channel_get channel)))"

definition write_channel :: "channel_address \<Rightarrow> agc_word \<Rightarrow> (memory, 'e, unit) prog" where
  "write_channel channel v =
     (if channel_get channel = 1 then write_special REG_L v
      else if channel_get channel = 2 then write_special REG_Q v
      else if channel_get channel = 7 then
        (let bank_control = from_raw_truncate (raw v AND 0x70)
         in seq (modify (superbank_update (\<lambda>_. raw bank_control AND 0x40 \<noteq> 0)))
                (store channels channels_update 7 bank_control))
      else store channels channels_update (unat (channel_get channel)) v)"

section \<open>Diagnostic access\<close>

definition read_erasable_physical :: "u8 \<Rightarrow> u16 \<Rightarrow> (memory, 'e, agc_word option) prog" where
  "read_erasable_physical bank offset =
     (if ERASABLE_BANKS \<le> unat bank \<or> ERASABLE_WORDS_PER_BANK \<le> unat offset then ok None
      else and_then (if bank = 0 \<and> offset \<le> 0x30 then read_special offset
                     else load erasable (erasable_index bank offset)) (\<lambda>v. ok (Some v)))"

definition write_erasable_physical :: "u8 \<Rightarrow> u16 \<Rightarrow> agc_word \<Rightarrow> (memory, memory_error, unit) prog" where
  "write_erasable_physical bank offset v =
     (if ERASABLE_BANKS \<le> unat bank \<or> ERASABLE_WORDS_PER_BANK \<le> unat offset
      then fail (AddressOutOfRange (push_bit 8 (ucast bank) OR offset))
      else if bank = 0 \<and> offset \<le> 0x30 then write_special offset v
      else store erasable erasable_update (erasable_index bank offset) v)"

definition inject_fixed_bit_flip :: "u8 \<Rightarrow> u16 \<Rightarrow> u16 \<Rightarrow> (memory, memory_error, agc_word) prog" where
  "inject_fixed_bit_flip bank offset flips =
     (if FIXED_BANKS \<le> unat bank then fail (FixedBankUnavailable bank)
      else if FIXED_WORDS_PER_BANK \<le> unat offset then fail (FixedOffsetOutOfRange offset)
      else and_then (load fixed_words (fixed_index bank offset)) (\<lambda>old.
           seq (store fixed_words fixed_words_update (fixed_index bank offset)
                  (from_raw_truncate (raw old XOR flips)))
               (load fixed_words (fixed_index bank offset))))"

end
