(* ===== verification/Agc_Memory_Laws.thy ===== *)
theory Agc_Memory_Laws
  imports Agc_Memory
begin

text \<open>
  Laws of the memory.  A well-formed memory (\<open>mem_ok\<close>) never panics; its operations are
  described over three kinds of location (central register, erasable cell, rope cell), and the
  accesses a processor uses are instances of the \<open>word_store\<close> interface.
\<close>

section \<open>Well-formed memories\<close>

definition register_mask :: "nat \<Rightarrow> u16" where
  "register_mask i =
     (if i = 3 then 0x700 else if i = 4 then 0x7C00 else if i = 5 then 0xFFF
      else if i = 6 then 0x7C07 else if i = 7 then 0 else if i < 16 then 0xFFFF else 0x7FFF)"

definition central_ok :: "u16 list \<Rightarrow> bool" where
  "central_ok cs \<longleftrightarrow> length cs = 49 \<and> (\<forall>i<49. cs ! i AND register_mask i = cs ! i)
     \<and> cs ! 6 = cs ! 4 OR (drop_bit 8 (cs ! 3) AND 7)"

definition words_ok :: "agc_word list \<Rightarrow> bool" where
  "words_ok ws \<longleftrightarrow> (\<forall>w\<in>set ws. word_ok w)"

definition mem_ok :: "memory \<Rightarrow> bool" where
  "mem_ok m \<longleftrightarrow> central_ok (central m)
     \<and> length (erasable m) = 2048 \<and> words_ok (erasable m)
     \<and> length (fixed_words m) = 36864 \<and> words_ok (fixed_words m)
     \<and> length (channels m) = 512 \<and> words_ok (channels m)
     \<and> raw (channels m ! 7) AND 0x70 = raw (channels m ! 7)
     \<and> superbank m = (raw (channels m ! 7) AND 0x40 \<noteq> 0)"

lemma words_ok_nth [simp]: "words_ok ws \<Longrightarrow> i < length ws \<Longrightarrow> word_ok (ws ! i)"
  by (simp add: words_ok_def)

lemma words_ok_update [simp]: "words_ok ws \<Longrightarrow> word_ok w \<Longrightarrow> words_ok (ws[i := w])"
  by (auto simp: words_ok_def dest!: set_update_subset_insert [THEN subsetD])

lemma words_ok_replicate [simp]: "word_ok w \<Longrightarrow> words_ok (replicate n w)"
  by (simp add: words_ok_def)

lemma mem_okD:
  assumes "mem_ok m"
  shows "central_ok (central m)" "length (central m) = 49"
    "length (erasable m) = 2048" "words_ok (erasable m)"
    "length (fixed_words m) = 36864" "words_ok (fixed_words m)"
    "length (channels m) = 512" "words_ok (channels m)"
    "raw (channels m ! 7) AND 0x70 = raw (channels m ! 7)"
    "superbank m = (raw (channels m ! 7) AND 0x40 \<noteq> 0)"
  using assms by (simp_all add: mem_ok_def central_ok_def)

text \<open>A write of a central location as a function of the register file.\<close>

definition put_central :: "nat \<Rightarrow> u16 \<Rightarrow> u16 list \<Rightarrow> u16 list" where
  "put_central i r cs =
     (let cs' = cs[i := r AND register_mask i]
      in if i = 6 then cs'[3 := push_bit 8 (r AND 7), 4 := r AND 0x7C00]
         else if i = 3 \<or> i = 4 then cs'[6 := cs' ! 4 OR (drop_bit 8 (cs' ! 3) AND 7)]
         else cs')"

definition special_raw :: "u16 \<Rightarrow> agc_word \<Rightarrow> u16" where
  "special_raw i v =
     (if i = 0x10 then rotate_right (raw v) else if i = 0x11 then shift_right (raw v)
      else if i = 0x12 then rotate_left (raw v) else if i = 0x13 then drop_bit 7 (raw v) AND 0x7F
      else if i < 3 then reg_raw (sign_extend v) else raw v)"

definition special_value :: "u16 list \<Rightarrow> u16 \<Rightarrow> agc_word" where
  "special_value cs i =
     (if i < 3 then overflow_correct (AgcRegister (cs ! unat i)) else from_raw_truncate (cs ! unat i))"

lemma length_put_central [simp]: "length (put_central i r cs) = length cs"
  by (simp add: put_central_def Let_def)

lemma u16_nat_iff:
  fixes i :: u16
  shows "i = 0 \<longleftrightarrow> unat i = 0" "i = 1 \<longleftrightarrow> unat i = 1" "i = 2 \<longleftrightarrow> unat i = 2" "i = 3 \<longleftrightarrow> unat i = 3"
    "i = 4 \<longleftrightarrow> unat i = 4" "i = 5 \<longleftrightarrow> unat i = 5" "i = 6 \<longleftrightarrow> unat i = 6" "i = 7 \<longleftrightarrow> unat i = 7"
  by (simp_all add: word_eq_unat_iff)

lemma central_zero: "central_ok cs \<Longrightarrow> cs ! 7 = 0"
  by (auto simp: central_ok_def register_mask_def dest: spec [of _ 7])

lemma masked_nth: "central_ok cs \<Longrightarrow> i < 49 \<Longrightarrow> cs ! i AND register_mask i = cs ! i"
  by (simp add: central_ok_def)


lemma runs_write_central_raw:
  assumes "central_ok (central m)" "unat i < 49"
  shows "runs (write_central_raw i r) m Q E = Q () (m\<lparr>central := put_central (unat i) r (central m)\<rparr>)"
proof -
  have len: "length (central m) = 49" using assms by (simp add: central_ok_def)
  have "(central m)[7 := 0] = central m" using central_zero [OF assms(1)] by (metis list_update_id)
  moreover have "i < 0x10 \<longleftrightarrow> unat i < 16" by (simp add: word_less_nat_alt)
  ultimately show ?thesis
    using assms(2) len
    by (simp add: write_central_raw_def store_central_def synchronize_banks_def put_central_def Let_def u16_nat_iff
         register_mask_def and.assoc)
qed

lemma special_raw_mask: "word_ok v \<Longrightarrow> 3 \<le> i \<Longrightarrow> special_raw i v AND 0x7FFF = special_raw i v"
  by (auto simp: special_raw_def rotate_right_def shift_right_def rotate_left_def u16_eq_iff bit_simps
     word_ok_bit word_le_nat_alt word_less_nat_alt)

lemma runs_write_special:
  assumes "central_ok (central m)" "unat i < 49" "word_ok v"
  shows "runs (write_special i v) m Q E = Q () (m\<lparr>central := put_central (unat i) (special_raw i v) (central m)\<rparr>)"
proof -
  have len: "length (central m) = 49" using assms by (simp add: central_ok_def)
  have zero: "put_central 7 r (central m) = central m" for r
    using central_zero [OF assms(1)] by (simp add: put_central_def register_mask_def) (metis list_update_id)
  have high: "put_central (unat i) r (central m) = (central m)[unat i := r AND 0x7FFF]" if "16 \<le> unat i" for r
    using that by (simp add: put_central_def register_mask_def)
  consider (low) "unat i < 16" | (edit) "unat i \<in> {16, 17, 18, 19}" | (plain) "20 \<le> unat i" "unat i \<le> 48"
    using assms(2) by force
  then show ?thesis
  proof cases
    case low
    then show ?thesis 
      using runs_write_central_raw [OF assms(1,2)] zero
      by (auto simp: write_special_def special_raw_def u16_nat_iff word_eq_unat_iff [of i] word_le_nat_alt word_less_nat_alt)
  next
    case edit
    then show ?thesis
      using high special_raw_mask [OF assms(3), of i] len
      by (auto simp: write_special_def store_central_def special_raw_def word_eq_unat_iff [of i] word_le_nat_alt word_less_nat_alt)
  next
    case plain
    then show ?thesis
      using high special_raw_mask [OF assms(3), of i] len
      by (auto simp: write_special_def store_central_def special_raw_def word_eq_unat_iff [of i] word_le_nat_alt word_less_nat_alt)
  qed
qed

lemma nth_put_central:
  assumes "length cs = 49" "i < 49" "j < 49"
  shows "put_central i r cs ! j =
    (if i = 6 \<and> j = 3 then push_bit 8 (r AND 7)
     else if i = 6 \<and> j = 4 then r AND 0x7C00
     else if i = 3 \<and> j = 6 then cs ! 4 OR (drop_bit 8 r AND 7)
     else if i = 4 \<and> j = 6 then (r AND 0x7C00) OR (drop_bit 8 (cs ! 3) AND 7)
     else if i = j then r AND register_mask i
     else cs ! j)"
proof -
  have "drop_bit 8 (r AND 0x700) AND 7 = drop_bit 8 r AND 7"
    by (simp add: u16_eq_iff bit_simps)
  then show ?thesis using assms by (simp add: put_central_def Let_def register_mask_def nth_list_update)
qed

lemma bank_fields:
  fixes r x :: u16
  shows "push_bit 8 (r AND 7) AND 0x700 = push_bit 8 (r AND 7)"
    and "((r AND 0x7C00) OR (x AND 7)) AND 0x7C07 = (r AND 0x7C00) OR (x AND 7)"
    and "(r AND 0x7C00) AND 0x7C00 = r AND 0x7C00"
    and "(r AND 0x7C00) OR (drop_bit 8 (push_bit 8 (r AND 7)) AND 7) = r AND 0x7C07"
    and "drop_bit 8 (push_bit 8 (r AND 7)) AND 7 = r AND 7"
  by (simp_all add: u16_eq_iff bit_simps)

lemma central_ok_put:
  assumes "central_ok cs" "i < 49"
  shows "central_ok (put_central i r cs)"
proof -
  have len: "length cs = 49" and sync: "cs ! 6 = cs ! 4 OR (drop_bit 8 (cs ! 3) AND 7)" 
    using assms by (simp_all add: central_ok_def)
  have mask: "cs ! j AND register_mask j = cs ! j" if "j < 49" for j using masked_nth [OF assms(1) that] .
  have fb: "cs ! 4 AND 0x7C00 = cs ! 4" using mask [of 4] by (simp add: register_mask_def)
  have bb: "(cs ! 4 OR (drop_bit 8 r AND 7)) AND 0x7C07 = cs ! 4 OR (drop_bit 8 r AND 7)"
    by (subst (1 2) fb [symmetric]) (rule bank_fields(2))
  have eb: "drop_bit 8 (r AND 0x700) AND 7 = drop_bit 8 r AND 7"
    by (simp add: u16_eq_iff bit_simps)
  have m: "put_central i r cs ! j AND register_mask j = put_central i r cs ! j" if "j < 49" for j
    using that assms(2) len mask [OF that] bank_fields bb
    by (simp add: nth_put_central) (simp add: register_mask_def and.assoc)
  have "put_central i r cs ! 6 = put_central i r cs ! 4 OR (drop_bit 8 (put_central i r cs ! 3) AND 7)"
    using assms(2) len sync bank_fields eb
    by (simp add: nth_put_central) (simp add: register_mask_def)
  with m len show ?thesis by (simp add: central_ok_def)
qed

lemma overflow_correct_word [simp]: "word_ok (overflow_correct r)"
  by (rule word_ok_overflow_correct)

lemma special_value_ok [simp]: "word_ok (special_value cs i)"
  by (simp add: special_value_def)

lemma runs_read_special:
  assumes "central_ok (central m)" "unat i < 49"
  shows "runs (read_special i) m Q E = Q (special_value (central m) i) m"
proof -
  have len: "length (central m) = 49" using assms by (simp add: central_ok_def)
  have "central m ! 5 AND 0xFFF = central m ! 5" using masked_nth [OF assms(1), of 5] by (simp add: register_mask_def)
  moreover have "register_try_from_raw (ucast r) = Inr (AgcRegister r)" for r
  proof -
    have "unat (ucast r :: u32) \<le> 0xFFFF" using u16_less [of r] by (simp only: unat_simps)
    moreover have "ucast (ucast r :: u32) = r"
      by (rule bit_word_eqI) (simp add: bit_simps)
    ultimately show ?thesis by (simp add: register_try_from_raw_def word_le_nat_alt)
  qed
  moreover have "from_raw_truncate (central m ! 7) = AgcWord 0"
    by (simp add: from_raw_truncate_def central_zero [OF assms(1)])
  moreover have "unat i < 3 \<longleftrightarrow> unat i \<in> {0, 1, 2}" by auto
  ultimately show ?thesis
    using assms(2) len
    by (auto simp: read_special_def special_value_def u16_nat_iff word_less_nat_alt POSITIVE_ZERO_def)
qed

section \<open>Physical cells\<close>

definition physical_ok :: "physical_address \<Rightarrow> bool" where
  "physical_ok p = (case p of
       Register i \<Rightarrow> unat i < 49
     | Erasable b f \<Rightarrow> unat b < 8 \<and> unat f < 256
     | Fixed b f \<Rightarrow> unat b < 36 \<and> unat f < 1024)"

text \<open>A location of the machine: a central register, an erasable cell or a rope cell.\<close>

datatype location = Central u16 | ErasableCell nat | RopeCell nat

definition locate :: "physical_address \<Rightarrow> location" where
  "locate p = (case p of
       Register i \<Rightarrow> Central i
     | Erasable b f \<Rightarrow> if b = 0 \<and> f \<le> 0x30 then Central f else ErasableCell (erasable_index b f)
     | Fixed b f \<Rightarrow> RopeCell (fixed_index b f))"

definition location_ok :: "location \<Rightarrow> bool" where
  "location_ok l = (case l of Central i \<Rightarrow> unat i < 49 | ErasableCell i \<Rightarrow> i < 2048 | RopeCell i \<Rightarrow> i < 36864)"

definition value_at :: "memory \<Rightarrow> location \<Rightarrow> agc_word" where
  "value_at m l = (case l of
       Central i \<Rightarrow> special_value (central m) i
     | ErasableCell i \<Rightarrow> erasable m ! i
     | RopeCell i \<Rightarrow> fixed_words m ! i)"

definition put_at :: "location \<Rightarrow> agc_word \<Rightarrow> memory \<Rightarrow> memory" where
  "put_at l v m = (case l of
       Central i \<Rightarrow> m\<lparr>central := put_central (unat i) (special_raw i v) (central m)\<rparr>
     | ErasableCell i \<Rightarrow> m\<lparr>erasable := (erasable m)[i := v]\<rparr>
     | RopeCell i \<Rightarrow> m)"

lemma locate_ok: "physical_ok p \<Longrightarrow> location_ok (locate p)"
  by (auto simp: physical_ok_def location_ok_def locate_def erasable_index_def fixed_index_def
      ERASABLE_WORDS_PER_BANK_def FIXED_WORDS_PER_BANK_def word_le_nat_alt split: physical_address.splits)

lemma value_at_ok: "mem_ok m \<Longrightarrow> location_ok l \<Longrightarrow> word_ok (value_at m l)"
  by (auto simp: value_at_def location_ok_def mem_okD split: location.splits)

lemma mem_ok_central: "mem_ok m \<Longrightarrow> central_ok cs \<Longrightarrow> mem_ok (m\<lparr>central := cs\<rparr>)"
  by (simp add: mem_ok_def)

lemma mem_ok_put_at: "mem_ok m \<Longrightarrow> location_ok l \<Longrightarrow> word_ok v \<Longrightarrow> mem_ok (put_at l v m)"
  by (auto simp: put_at_def location_ok_def mem_ok_central central_ok_put mem_okD split: location.splits)
     (auto simp: mem_ok_def)

lemma runs_read_physical:
  assumes "mem_ok m" "physical_ok p"
  shows "runs (read_physical p) m Q E = Q (value_at m (locate p)) m"
  using assms locate_ok [OF assms(2)]
  by (auto simp: read_physical_def runs_read_special mem_okD locate_def value_at_def physical_ok_def location_ok_def
      FIXED_BANKS_def word_le_nat_alt not_le split: physical_address.splits if_splits)

lemma runs_write_physical:
  assumes "mem_ok m" "physical_ok p" "word_ok v"
  shows "runs (write_physical a p v) m Q E =
    (if (\<exists>b f. p = Fixed b f) then E (FixedWrite a) m else Q () (put_at (locate p) v m))"
  using assms locate_ok [OF assms(2)]
  by (auto simp: write_physical_def runs_write_special mem_okD locate_def put_at_def physical_ok_def location_ok_def
      word_le_nat_alt split: physical_address.splits if_splits)

lemma ebank_less: "unat (ebank m) < 8"
proof -
  have "unat (ebank m) = unat (drop_bit 8 (central m ! unat REG_EB)) mod 8 mod 256"
    unfolding ebank_def by (simp only: unat_simps)
  then show ?thesis by (simp add: mod_mod_cancel)
qed

lemma fbank_less: "unat (fbank m) < 32"
proof -
  have "unat (fbank m) = unat (drop_bit 10 (central m ! unat REG_FB)) mod 32 mod 256"
    unfolding fbank_def by (simp only: unat_simps)
  then show ?thesis by (simp add: mod_mod_cancel)
qed

lemma unat_selected_fixed_bank:
  "unat (selected_fixed_bank m) =
     (if superbank m \<and> 24 \<le> unat (fbank m) \<and> unat (fbank m) \<le> 27 then unat (fbank m) + 8 else unat (fbank m))"
  using fbank_less [of m]
  by (auto simp: selected_fixed_bank_def word_le_nat_alt unat_word_ariths)

lemma selected_fixed_bank_less: "unat (selected_fixed_bank m) < 36"
  using fbank_less [of m] by (simp add: unat_selected_fixed_bank)

lemma translate_ok:
  assumes "unat a < 4096"
  obtains p where "translate m a = Inr p" "physical_ok p" "(\<exists>b f. p = Fixed b f) \<longleftrightarrow> 1024 \<le> unat a"
proof -
  have page: "unat (ucast (drop_bit 8 a) :: u8) < 8" if "unat a \<le> 767"
    using that by (simp only: unat_simps unat_drop_bit) simp
  have off: "unat (a AND 0xFF) < 256" "unat (a AND 0x3FF) < 1024" by (simp_all add: unat_simps)
  show thesis
    by (rule that) (use assms page off ebank_less [of m] selected_fixed_bank_less [of m] in
       \<open>auto simp: translate_def physical_ok_def word_le_nat_alt word_less_nat_alt not_le split: if_splits\<close>)
qed

lemma translate_range: "4096 \<le> unat a \<Longrightarrow> translate m a = Inl (AddressOutOfRange a)"
  by (simp add: translate_def word_less_nat_alt)

text \<open>The physical address and the location of a logical address of the twelve-bit space.\<close>

definition physical_of :: "memory \<Rightarrow> u16 \<Rightarrow> physical_address" where
  "physical_of m a = projr (translate m a)"

abbreviation location_of :: "memory \<Rightarrow> u16 \<Rightarrow> location" where
  "location_of m a \<equiv> locate (physical_of m a)"

lemma physical_of:
  assumes "unat a < 4096"
  shows "translate m a = Inr (physical_of m a)" "physical_ok (physical_of m a)" "location_ok (location_of m a)"
    "(\<exists>b f. physical_of m a = Fixed b f) \<longleftrightarrow> 1024 \<le> unat a"
  using translate_ok [OF assms, of m] by (metis physical_of_def sum.sel(2) locate_ok)+

definition access_of :: "memory \<Rightarrow> access_kind \<Rightarrow> u16 \<Rightarrow> memory_access" where
  "access_of m k a = \<lparr>ma_kind = k, ma_logical = a, ma_physical = physical_of m a,
                      ma_value = value_at m (location_of m a)\<rparr>"

lemma runs_read_memory:
  assumes "mem_ok m" "unat a < 4096"
  shows "runs (read_memory a k) m Q E = Q (access_of m k a) m"
  using physical_of [OF assms(2), of m] assms(1)
  by (simp add: read_memory_def runs_read_physical access_of_def)

lemma runs_write_memory:
  assumes "mem_ok m" "unat a < 4096" "word_ok v"
  shows "runs (write_memory a v) m Q E =
    (if 1024 \<le> unat a then E (FixedWrite a) m
     else Q \<lparr>ma_kind = WriteAccess, ma_logical = a, ma_physical = physical_of m a,
             ma_value = value_at (put_at (location_of m a) v m) (location_of m a)\<rparr> (put_at (location_of m a) v m))"
  using physical_of [OF assms(2), of m] assms(1,3)
  by (simp add: write_memory_def runs_write_physical runs_read_physical mem_ok_put_at)

section \<open>The remaining operations\<close>

definition edited :: "location \<Rightarrow> memory \<Rightarrow> memory" where
  "edited l m = (case l of
       Central i \<Rightarrow> if 16 \<le> unat i \<and> unat i \<le> 19 then put_at l (value_at m l) m else m
     | _ \<Rightarrow> m)"

lemma edit_index_locate:
  "edit_index p = (case locate p of
       Central i \<Rightarrow> if 16 \<le> unat i \<and> unat i \<le> 19 then Some i else None
     | _ \<Rightarrow> None)"
  by (auto simp: edit_index_def locate_def word_le_nat_alt split: physical_address.splits)

lemma mem_ok_edited: "mem_ok m \<Longrightarrow> location_ok l \<Longrightarrow> mem_ok (edited l m)"
  by (auto simp: edited_def mem_ok_put_at value_at_ok split: location.splits)

lemma runs_read_and_edit:
  assumes "mem_ok m" "unat a < 4096"
  shows "runs (read_and_edit a k) m Q E = Q (access_of m k a) (edited (location_of m a) m)"
  using assms physical_of(3) [OF assms(2), of m]
  by (auto simp: read_and_edit_def runs_write_special location_ok_def runs_read_memory access_of_def edit_index_locate edited_def mem_okD
      put_at_def value_at_def split: location.splits)

lemma ucast_u16_u32_u16 [simp]: "ucast (ucast (r :: u16) :: u32) = r"
  by (rule bit_word_eqI) (simp add: bit_simps)

lemma register_try_from_u16 [simp]: "register_try_from_raw (ucast (r :: u16)) = Inr (AgcRegister r)"
proof -
  have "unat (ucast r :: u32) \<le> 0xFFFF" using u16_less [of r] by (simp only: unat_simps)
  then show ?thesis by (simp add: register_try_from_raw_def word_le_nat_alt)
qed

lemma runs_central_register:
  assumes "mem_ok m"
  shows "runs (central_register i) m Q E =
    (if 16 \<le> unat i then E (AddressOutOfRange i) m else Q (AgcRegister (central m ! unat i)) m)"
  using assms by (auto simp: central_register_def mem_okD word_le_nat_alt)

lemma runs_set_central_register:
  assumes "mem_ok m"
  shows "runs (set_central_register i v) m Q E =
    (if 16 \<le> unat i then E (AddressOutOfRange i) m
     else Q () (m\<lparr>central := put_central (unat i) (reg_raw v) (central m)\<rparr>))"
  using assms by (auto simp: set_central_register_def mem_okD word_le_nat_alt runs_write_central_raw)

definition channel_value :: "memory \<Rightarrow> u16 \<Rightarrow> agc_word" where
  "channel_value m c = (if c = 1 \<or> c = 2 then special_value (central m) c else channels m ! unat c)"

definition channel_written :: "u16 \<Rightarrow> agc_word \<Rightarrow> memory \<Rightarrow> memory" where
  "channel_written c v m =
     (if c = 1 \<or> c = 2 then put_at (Central c) v m
      else if c = 7 then m\<lparr>superbank := raw v AND 0x40 \<noteq> 0, channels := (channels m)[7 := AgcWord (raw v AND 0x70)]\<rparr>
      else m\<lparr>channels := (channels m)[unat c := v]\<rparr>)"

lemma runs_read_channel:
  assumes "mem_ok m" "unat c < 512"
  shows "runs (read_channel (ChannelAddress c)) m Q E = Q (channel_value m c) m"
  using assms by (auto simp: read_channel_def channel_value_def runs_read_special mem_okD)

lemma truncate_70: "from_raw_truncate (r AND 0x70) = AgcWord (r AND 0x70)"
  by (simp add: from_raw_truncate_def WORD_MASK_def u16_eq_iff bit_simps)

lemma runs_write_channel:
  assumes "mem_ok m" "unat c < 512" "word_ok v"
  shows "runs (write_channel (ChannelAddress c) v) m Q E = Q () (channel_written c v m)"
proof -
  have "(raw v AND 0x70) AND 0x40 = raw v AND 0x40" by (simp add: u16_eq_iff bit_simps)
  then show ?thesis
    using assms by (auto simp: write_channel_def channel_written_def runs_write_special mem_okD put_at_def truncate_70 Let_def)
qed

lemma channel_value_ok: "mem_ok m \<Longrightarrow> unat c < 512 \<Longrightarrow> word_ok (channel_value m c)"
  by (simp add: channel_value_def mem_okD)

lemma mem_ok_channel_written:
  assumes "mem_ok m" "unat c < 512" "word_ok v"
  shows "mem_ok (channel_written c v m)"
proof -
  have "word_ok (AgcWord (raw v AND 0x70))" by (simp add: truncate_70 [symmetric])
  moreover have "c \<noteq> 7 \<Longrightarrow> unat c \<noteq> 7" by (simp add: word_eq_unat_iff)
  moreover have "(raw v AND 0x70) AND 0x40 = raw v AND 0x40" by (simp add: u16_eq_iff bit_simps)
  moreover have "mem_ok (put_at (Central c) v m)" if "c = 1 \<or> c = 2"
    using that assms by (auto intro!: mem_ok_put_at simp: location_ok_def)
  ultimately show ?thesis
    using assms
    by (cases "c = 7") (auto simp: channel_written_def mem_ok_def and.assoc)
qed

lemma runs_read_erasable_physical:
  assumes "mem_ok m"
  shows "runs (read_erasable_physical b f) m Q E =
    Q (if unat b < 8 \<and> unat f < 256 then Some (value_at m (locate (Erasable b f))) else None) m"
  using assms by (auto simp: read_erasable_physical_def ERASABLE_BANKS_def ERASABLE_WORDS_PER_BANK_def runs_read_special
     mem_okD locate_def value_at_def erasable_index_def word_le_nat_alt)

lemma runs_write_erasable_physical:
  assumes "mem_ok m" "word_ok v"
  shows "runs (write_erasable_physical b f v) m Q E =
    (if unat b < 8 \<and> unat f < 256 then Q () (put_at (locate (Erasable b f)) v m)
     else E (AddressOutOfRange (push_bit 8 (ucast b) OR f)) m)"
  using assms by (auto simp: write_erasable_physical_def ERASABLE_BANKS_def ERASABLE_WORDS_PER_BANK_def runs_write_special
     mem_okD locate_def put_at_def erasable_index_def word_le_nat_alt)

definition rope_flipped :: "nat \<Rightarrow> u16 \<Rightarrow> memory \<Rightarrow> memory" where
  "rope_flipped i flips m =
     m\<lparr>fixed_words := (fixed_words m)[i := from_raw_truncate (raw (fixed_words m ! i) XOR flips)]\<rparr>"

lemma runs_inject_fixed_bit_flip:
  assumes "mem_ok m"
  shows "runs (inject_fixed_bit_flip b f flips) m Q E =
    (if 36 \<le> unat b then E (FixedBankUnavailable b) m
     else if 1024 \<le> unat f then E (FixedOffsetOutOfRange f) m
     else Q (fixed_words (rope_flipped (fixed_index b f) flips m) ! fixed_index b f)
            (rope_flipped (fixed_index b f) flips m))"
  using assms
  by (auto simp: inject_fixed_bit_flip_def FIXED_BANKS_def FIXED_WORDS_PER_BANK_def mem_okD rope_flipped_def fixed_index_def)

lemma mem_ok_rope_flipped: "mem_ok m \<Longrightarrow> mem_ok (rope_flipped i flips m)"
  by (auto simp: rope_flipped_def mem_ok_def)

lemma words_ok_input_channels: "words_ok cs \<Longrightarrow> words_ok (initialize_input_channels cs)"
  by (simp add: initialize_input_channels_def)

lemma word_ok_0 [simp]: "word_ok (AgcWord 0)"
  by (simp add: word_ok_def)

lemma central_ok_zero: "central_ok (replicate 49 0)"
  by (simp add: central_ok_def)

lemma mem_ok_blank: "mem_ok blank"
  by (simp add: mem_ok_def blank_def central_ok_zero initialize_input_channels_def CHANNELS_def
     ERASABLE_BANKS_def ERASABLE_WORDS_PER_BANK_def FIXED_BANKS_def FIXED_WORDS_PER_BANK_def POSITIVE_ZERO_def)

lemma mem_ok_reset: "mem_ok m \<Longrightarrow> mem_ok (reset_volatile m)"
  by (simp add: mem_ok_def reset_volatile_def central_ok_zero initialize_input_channels_def
      POSITIVE_ZERO_def central_ok_def)

section \<open>The store interface\<close>

text \<open>
  What a user of a word store relies on: an access at an address of its domain completes with a
  valid word and keeps the store well formed.  The CPU performs every operand access through
  this interface.
\<close>

locale word_store =
  fixes inv :: "'s \<Rightarrow> bool"
    and rd :: "'a \<Rightarrow> ('s, 'e, 'r) prog"
    and wr :: "'a \<Rightarrow> agc_word \<Rightarrow> ('s, 'e, 'w) prog"
    and result :: "'r \<Rightarrow> agc_word"
    and readable :: "'a \<Rightarrow> bool"
    and writable :: "'a \<Rightarrow> bool"
  assumes rd_total: "readable a \<Longrightarrow> keeps inv (rd a) (\<lambda>r. word_ok (result r))"
    and wr_total: "writable a \<Longrightarrow> word_ok v \<Longrightarrow> keeps inv (wr a v) (\<lambda>_. True)"
begin

text \<open>Reading a word, transforming it and writing it back, possibly elsewhere.\<close>

lemma update_total:
  assumes "readable a" "writable b" "\<And>v. word_ok v \<Longrightarrow> word_ok (f v)"
  shows "keeps inv (and_then (rd a) (\<lambda>r. wr b (f (result r)))) (\<lambda>_. True)"
  by (rule keeps_bind [OF rd_total [OF assms(1)]]) (rule wr_total [OF assms(2,3)])

text \<open>Exchanging the words of two cells.\<close>

lemma swap_total:
  assumes "readable a" "writable a" "readable b" "writable b"
  shows "keeps inv (and_then (rd a) (\<lambda>x. and_then (rd b) (\<lambda>y.
           and_then (wr a (result y)) (\<lambda>_. wr b (result x))))) (\<lambda>_. True)"
  by (rule keeps_bind [OF rd_total [OF assms(1)]], rule keeps_bind [OF rd_total [OF assms(3)]],
      rule keeps_bind [OF wr_total [OF assms(2)]]) (auto intro: wr_total assms)

end

interpretation logical: word_store mem_ok "\<lambda>a. read_memory a k" write_memory ma_value
    "\<lambda>a. unat a < 4096" "\<lambda>a. unat a < 1024"
  by unfold_locales
    (auto intro!: keepsI simp: runs_read_memory runs_write_memory access_of_def value_at_ok physical_of mem_ok_put_at)

interpretation operand: word_store mem_ok "\<lambda>a. read_and_edit a k" write_memory ma_value
    "\<lambda>a. unat a < 4096" "\<lambda>a. unat a < 1024"
  by unfold_locales
    (auto intro!: keepsI simp: runs_read_and_edit runs_write_memory access_of_def value_at_ok physical_of mem_ok_put_at
      mem_ok_edited)

interpretation io: word_store mem_ok "\<lambda>c. read_channel (ChannelAddress c)"
    "\<lambda>c. write_channel (ChannelAddress c)" "\<lambda>v. v" "\<lambda>c. unat c < 512" "\<lambda>c. unat c < 512"
  by unfold_locales
    (auto intro!: keepsI simp: runs_read_channel runs_write_channel channel_value_ok mem_ok_channel_written)

section \<open>Values after a write\<close>

text \<open>The word a location holds after \<open>v\<close> is written to it.\<close>

definition stored_value :: "location \<Rightarrow> agc_word \<Rightarrow> agc_word" where
  "stored_value l v = (case l of
       Central i \<Rightarrow> if unat i < 3 then v
                    else AgcWord (special_raw i v AND register_mask (unat i))
     | _ \<Rightarrow> v)"

lemma sign_extend_mask: "reg_raw (sign_extend v) AND 0xFFFF = reg_raw (sign_extend v)"
  by simp

lemma value_at_put_same:
  assumes "mem_ok m" "location_ok l" "word_ok v" "\<not> (\<exists>i. l = RopeCell i)"
  shows "value_at (put_at l v m) l = stored_value l v"
proof (cases l)
  case (Central i)
  have len: "length (central m) = 49" using assms(1) by (rule mem_okD)
  have i: "unat i < 49" using assms(2) Central by (simp add: location_ok_def)
  have nth: "put_central (unat i) r (central m) ! unat i = r AND register_mask (unat i)" for r
    using nth_put_central [OF len i i] by (auto simp: register_mask_def)
  have trunc: "from_raw_truncate (special_raw i v AND register_mask (unat i)) = AgcWord (special_raw i v AND register_mask (unat i))"
    if "3 \<le> unat i"
  proof -
    have "special_raw i v AND WORD_MASK = special_raw i v"
      using special_raw_mask [OF assms(3), of i] that by (simp add: WORD_MASK_def word_le_nat_alt)
    then show ?thesis by (simp add: from_raw_truncate_def) (metis and.assoc and.commute)
  qed
  have "overflow_correct (sign_extend v) = v"
    using assms(3) overflow_correct_sign_extend by simp
  then show ?thesis
    using Central nth trunc
    by (auto simp: value_at_def put_at_def special_value_def stored_value_def special_raw_def register_mask_def
       word_less_nat_alt)
next
  case (ErasableCell j)
  then show ?thesis using assms by (auto simp: value_at_def put_at_def stored_value_def location_ok_def mem_okD)
next
  case (RopeCell j)
  then show ?thesis using assms(4) by blast
qed

text \<open>The bank registers are one piece of state seen through three addresses.\<close>

definition bank_register :: "location \<Rightarrow> bool" where
  "bank_register l \<longleftrightarrow> l \<in> {Central REG_EB, Central REG_FB, Central REG_BB}"

lemma nth_put_central_other:
  assumes "length cs = 49" "i < 49" "j < 49" "i \<noteq> j" "\<not> (i \<in> {3, 4, 6} \<and> j \<in> {3, 4, 6})"
  shows "put_central i r cs ! j = cs ! j"
  using assms by (auto simp: nth_put_central)

lemma value_at_put_other:
  assumes "mem_ok m" "location_ok l" "location_ok k" "k \<noteq> l" "\<not> (bank_register l \<and> bank_register k)"
  shows "value_at (put_at l v m) k = value_at m k"
proof (cases "\<exists>i j. l = Central i \<and> k = Central j")
  case True
  then obtain i j where l: "l = Central i" and k: "k = Central j" by blast
  have "put_central (unat i) r (central m) ! unat j = central m ! unat j" for r
    by (rule nth_put_central_other)
       (use assms l k in \<open>auto simp: mem_okD location_ok_def bank_register_def word_eq_unat_iff\<close>)
  then show ?thesis by (simp add: l k value_at_def put_at_def special_value_def)
next
  case False
  then show ?thesis
    using assms(4) by (auto simp: value_at_def put_at_def split: location.splits) (metis nth_list_update_neq)+
qed

lemma runs_load_rope:
  assumes "mem_ok m"
  shows "runs (load_rope ws) m Q E =
    (if length ws = 36864 then Q () (m\<lparr>fixed_words := ws\<rparr>) else E (RopeSize 36864 (length ws)) m)"
  using assms by (simp add: load_rope_def mem_okD)

section \<open>Properties\<close>

text \<open>
  C3 Every operation of the memory, whether it succeeds or reports an error, returns without an
  out-of-range index and keeps the memory well formed: array sizes, fifteen-bit words, the
  masks of the program counter and the bank registers, \<open>BB\<close> equal to the combination of
  \<open>FB\<close> and \<open>EB\<close>, the hardwired zero, and the superbank flag equal to bit 7 of channel 7.
\<close>

theorem memory_invariant:
  assumes "mem_ok m" "word_ok v" "words_ok ws" "unat c < 512"
  shows "mem_ok blank \<and> mem_ok (reset_volatile m)
    \<and> runs (load_rope ws) m (\<lambda>_. mem_ok) (\<lambda>_. mem_ok)
    \<and> runs (read_and_edit a k) m (\<lambda>_. mem_ok) (\<lambda>_. mem_ok)
    \<and> runs (write_memory a v) m (\<lambda>_. mem_ok) (\<lambda>_. mem_ok)
    \<and> runs (set_central_register i r) m (\<lambda>_. mem_ok) (\<lambda>_. mem_ok)
    \<and> runs (write_channel (ChannelAddress c) v) m (\<lambda>_. mem_ok) (\<lambda>_. mem_ok)
    \<and> runs (write_erasable_physical b f v) m (\<lambda>_. mem_ok) (\<lambda>_. mem_ok)
    \<and> runs (inject_fixed_bit_flip b f flips) m (\<lambda>_. mem_ok) (\<lambda>_. mem_ok)"
proof -
  have rope: "runs (load_rope ws) m (\<lambda>_. mem_ok) (\<lambda>_. mem_ok)"
    using assms by (auto simp: runs_load_rope mem_ok_def)
  have rd: "runs (read_and_edit a k) m (\<lambda>_. mem_ok) (\<lambda>_. mem_ok)"
  proof (cases "unat a < 4096")
    case True
    with assms(1) show ?thesis by (simp add: runs_read_and_edit mem_ok_edited physical_of)
  next
    case False
    with assms(1) show ?thesis by (simp add: read_and_edit_def read_memory_def translate_range)
  qed
  have wr: "runs (write_memory a v) m (\<lambda>_. mem_ok) (\<lambda>_. mem_ok)"
  proof (cases "unat a < 4096")
    case True
    with assms show ?thesis by (simp add: runs_write_memory mem_ok_put_at physical_of)
  next
    case False
    with assms(1) show ?thesis by (simp add: write_memory_def translate_range)
  qed
  have reg: "runs (set_central_register i r) m (\<lambda>_. mem_ok) (\<lambda>_. mem_ok)"
    using assms(1) by (simp add: runs_set_central_register mem_ok_central central_ok_put mem_okD)
  have cell: "location_ok (locate (Erasable b f))" if "unat b < 8" "unat f < 256"
    using that locate_ok [of "Erasable b f"] by (simp add: physical_ok_def)
  show ?thesis
    using assms rope rd wr reg cell
    by (simp add: mem_ok_blank mem_ok_reset runs_write_channel mem_ok_channel_written
      runs_write_erasable_physical mem_ok_put_at runs_inject_fixed_bit_flip mem_ok_rope_flipped)
qed

theorem memory_invariant_witness:
  "runs (write_memory 0x12 NEGATIVE_ZERO) blank (\<lambda>_. mem_ok) (\<lambda>_. mem_ok)"
  using memory_invariant [OF mem_ok_blank, of NEGATIVE_ZERO "[]" 0]
  by (simp add: words_ok_def) blast

text \<open>
  In a well-formed memory every logical address of twelve bits reads: the access reports the
  translated address and a valid word and changes nothing; a wider address is refused.  No bank
  selection, with or without the superbank, reaches an uninstalled bank.
\<close>

theorem memory_read_total:
  assumes "mem_ok m"
  shows "runs (read_memory a k) m
     (\<lambda>r m'. m' = m \<and> unat a < 4096 \<and> translate m a = Inr (ma_physical r) \<and> physical_ok (ma_physical r)
        \<and> ma_kind r = k \<and> ma_logical r = a \<and> ma_value r = value_at m (locate (ma_physical r))
        \<and> word_ok (ma_value r))
     (\<lambda>e m'. m' = m \<and> 4096 \<le> unat a \<and> e = AddressOutOfRange a)"
proof (cases "unat a < 4096")
  case True
  with assms show ?thesis
    using physical_of [OF True, of m] by (simp add: runs_read_memory access_of_def value_at_ok)
next
  case False
  then show ?thesis by (simp add: read_memory_def translate_range)
qed

theorem memory_read_total_witness:
  "runs (read_memory 0xABC FetchAccess) blank (\<lambda>r m'. m' = blank \<and> word_ok (ma_value r)) (\<lambda>_ _. False)"
  by (rule runs_mono [OF memory_read_total [OF mem_ok_blank]]) auto

text \<open>
  C4 A write to erasable memory stores the word (through the edit function of the four editing
  registers and the masks of the control registers), returns the stored word, and changes no
  other location, the three bank registers excepted, which are one piece of state.  A write to
  fixed memory reports the address and changes nothing.
\<close>

theorem memory_write_effect:
  assumes "mem_ok m" "word_ok v" "unat a < 4096"
  shows "runs (write_memory a v) m
     (\<lambda>r m'. unat a < 1024 \<and> ma_physical r = physical_of m a
        \<and> value_at m' (location_of m a) = stored_value (location_of m a) v
        \<and> ma_value r = stored_value (location_of m a) v
        \<and> channels m' = channels m \<and> superbank m' = superbank m
        \<and> (\<forall>l. location_ok l \<and> l \<noteq> location_of m a \<and> \<not> (bank_register l \<and> bank_register (location_of m a))
              \<longrightarrow> value_at m' l = value_at m l))
     (\<lambda>e m'. 1024 \<le> unat a \<and> e = FixedWrite a \<and> m' = m)"
proof (cases "1024 \<le> unat a")
  case True
  with assms show ?thesis by (simp add: runs_write_memory)
next
  case False
  then have "\<not> (\<exists>b f. physical_of m a = Fixed b f)"
    using physical_of(4) [OF assms(3), of m] by simp
  then have rope: "\<not> (\<exists>i. location_of m a = RopeCell i)"
    by (auto simp: locate_def split: physical_address.splits if_splits)
  have rest: "channels (put_at l v m) = channels m" "superbank (put_at l v m) = superbank m" for l
    by (auto simp: put_at_def split: location.splits)
  have same: "value_at (put_at (location_of m a) v m) (location_of m a) = stored_value (location_of m a) v"
    by (rule value_at_put_same [OF assms(1) physical_of(3) [OF assms(3)] assms(2) rope])
  show ?thesis
    using False assms rest same value_at_put_other [OF assms(1) physical_of(3) [OF assms(3)]]
    by (simp add: runs_write_memory) blast
qed

theorem memory_write_effect_witness:
  "runs (write_memory 0xABC NEGATIVE_ZERO) blank (\<lambda>_ _. False) (\<lambda>e m'. e = FixedWrite 0xABC \<and> m' = blank)"
  by (rule runs_mono [OF memory_write_effect [OF mem_ok_blank]]) simp_all

section \<open>Bank selection\<close>

lemma runs_write_bb:
  assumes "mem_ok m" "word_ok v"
  shows "runs (write_memory REG_BB v) m Q E =
    Q \<lparr>ma_kind = WriteAccess, ma_logical = 6, ma_physical = Register 6, ma_value = AgcWord (raw v AND 0x7C07)\<rparr>
      (put_at (Central 6) v m)"
proof -
  have "translate m 6 = Inr (Register 6)" by (simp add: translate_def)
  then have p: "physical_of m 6 = Register 6" by (simp add: physical_of_def)
  have "value_at (put_at (Central 6) v m) (Central 6) = stored_value (Central 6) v"
    by (rule value_at_put_same [OF assms(1) _ assms(2)]) (simp_all add: location_ok_def)
  then have "value_at (put_at (Central 6) v m) (Central 6) = AgcWord (raw v AND 0x7C07)"
    by (simp add: stored_value_def special_raw_def register_mask_def)
  then show ?thesis using assms by (simp add: runs_write_memory p locate_def)
qed

lemma central_after_bb:
  assumes "mem_ok m"
  shows "central (put_at (Central 6) v m) ! 3 = push_bit 8 (raw v AND 7)"
    "central (put_at (Central 6) v m) ! 4 = raw v AND 0x7C00"
  using assms by (simp_all add: put_at_def special_raw_def nth_put_central mem_okD)

lemma banks_after_bb:
  assumes "mem_ok m"
  shows "ebank (put_at (Central 6) v m) = ucast (raw v AND 7)"
    "fbank (put_at (Central 6) v m) = ucast (drop_bit 10 (raw v) AND 0x1F)"
proof -
  have "drop_bit 10 (raw v AND 0x7C00) AND 0x1F = drop_bit 10 (raw v) AND 0x1F"
    by (simp add: u16_eq_iff bit_simps)
  then show "ebank (put_at (Central 6) v m) = ucast (raw v AND 7)"
    "fbank (put_at (Central 6) v m) = ucast (drop_bit 10 (raw v) AND 0x1F)"
    using central_after_bb [OF assms, of v] bank_fields(5) [of "raw v"]
    by (simp_all add: ebank_def fbank_def)
qed

text \<open>
  Writing \<open>BB\<close> selects both banks at once: the switched erasable window then reads
  bank \<open>v mod 8\<close>, the switched fixed window bank \<open>v div 2^10\<close>, moved up by eight
  when it is 30 to 33 octal and channel 7 selects the superbank.  The unswitched windows do not move.
\<close>

theorem bank_selection:
  assumes "mem_ok m" "word_ok v"
  shows "succeeds (write_memory REG_BB v) m (\<lambda>_ m'.
     mem_ok m' \<and> translate m' a =
       (if unat a \<le> 0x30 then Inr (Register a)
        else if unat a < 0x300 then Inr (Erasable (ucast (drop_bit 8 a)) (a AND 0xFF))
        else if unat a < 0x400 then Inr (Erasable (ucast (raw v AND 7)) (a AND 0xFF))
        else if unat a < 0x800 then
          (let bank = unat (raw v) div 1024
           in Inr (Fixed (of_nat (if superbank m \<and> 24 \<le> bank \<and> bank \<le> 27 then bank + 8 else bank)) (a AND 0x3FF)))
        else if unat a < 0x1000 then Inr (Fixed (if unat a < 0xC00 then 2 else 3) (a AND 0x3FF))
        else Inl (AddressOutOfRange a)))"
proof -
  let ?m = "put_at (Central 6) v m"
  have bank: "unat (fbank ?m) = unat (raw v) div 1024"
  proof -
    have "unat (fbank ?m) = unat (raw v) div 1024 mod 32 mod 256"
      unfolding banks_after_bb [OF assms(1)] by (simp only: unat_simps unat_drop_bit) simp
    then show ?thesis using assms(2) by (simp add: word_ok_iff)
  qed
  have "superbank ?m = superbank m" by (simp add: put_at_def)
  then have "unat (selected_fixed_bank ?m) =
      (let b = unat (raw v) div 1024 in if superbank m \<and> 24 \<le> b \<and> b \<le> 27 then b + 8 else b)"
    using unat_selected_fixed_bank [of ?m] by (simp add: bank Let_def)
  then have sel: "selected_fixed_bank ?m =
      of_nat (let b = unat (raw v) div 1024 in if superbank m \<and> 24 \<le> b \<and> b \<le> 27 then b + 8 else b)"
    by (metis word_of_nat_unat)
  have "mem_ok ?m" by (rule mem_ok_put_at [OF assms(1) _ assms(2)]) (simp add: location_ok_def)
  then show ?thesis
    using assms by (simp add: runs_write_bb [unfolded register_numbers] translate_def sel banks_after_bb Let_def word_le_nat_alt word_less_nat_alt
       less_Suc_eq_le [symmetric] numeral_eq_Suc [symmetric])
qed

theorem bank_selection_witness:
  "succeeds (write_memory REG_BB (AgcWord 0x6003)) blank (\<lambda>_ m'.
     translate m' 0x300 = Inr (Erasable 3 0) \<and> translate m' 0x400 = Inr (Fixed 24 0))"
proof -
  have w: "word_ok (AgcWord 0x6003)" by (simp add: word_ok_iff)
  have s: "superbank blank = False" by (simp add: blank_def)
  show ?thesis
    by (rule succeeds_mono [OF succeeds_conj [OF bank_selection [OF mem_ok_blank w, where a = "0x300"]
          bank_selection [OF mem_ok_blank w, where a = "0x400"]]])
       (simp add: Let_def s)
qed

section \<open>Editing registers\<close>

lemma bit_rotate_right:
  assumes "\<not> bit r 15"
  shows "bit (rotate_right r) i \<longleftrightarrow> i < 15 \<and> bit r (if i = 14 then 0 else Suc i)"
  using assms by (auto simp: rotate_right_def bit_simps bit_masks bit_1_iff)

lemma bit_rotate_left: "bit (rotate_left r) i \<longleftrightarrow> i < 15 \<and> bit r (if i = 0 then 14 else i - 1)"
proof -
  have "push_bit 1 r = r * 2" by (simp add: push_bit_eq_mult mult.commute)
  then show ?thesis
    by (cases "i = 0") (auto simp: rotate_left_def bit_simps bit_masks bit_1_iff bit_u16_double)
qed

lemma bit_shift_right:
  assumes "\<not> bit r 15"
  shows "bit (shift_right r) i \<longleftrightarrow> i < 15 \<and> bit r (if i = 14 then 14 else Suc i)"
  using assms by (auto simp: shift_right_def bit_simps bit_masks)

lemma rotate_inverse:
  fixes r :: u16
  assumes "\<not> bit r 15"
  shows "rotate_left (rotate_right r) = r" "rotate_right (rotate_left r) = r"
proof -
  have r: "bit r i \<Longrightarrow> i < 15" for i
    using assms bit_imp_le_length [of r i] by (cases "i = 15") auto
  have l: "\<not> bit (rotate_left r) 15" by (simp add: bit_rotate_left)
  show "rotate_left (rotate_right r) = r"
  proof (rule bit_word_eqI)
    fix n
    show "bit (rotate_left (rotate_right r)) n = bit r n"
      using r [of n] by (cases n) (auto simp: bit_rotate_left bit_rotate_right [OF assms])
  qed
  show "rotate_right (rotate_left r) = r"
  proof (rule bit_word_eqI)
    fix n
    show "bit (rotate_right (rotate_left r)) n = bit r n"
      using r [of n] by (auto simp: bit_rotate_right [OF l] bit_rotate_left)
  qed
qed

lemma unat_shift_right:
  assumes "unat r < 32768"
  shows "unat (shift_right r) = (if unat r < 16384 then unat r div 2 else 16384 + unat r div 2)"
proof -
  have bits: "bit r 14 \<longleftrightarrow> 16384 \<le> unat r" "\<not> bit r 15"
    using assms by (auto simp: bit_14_iff bit_15_iff)
  have half: "\<not> bit (drop_bit 1 r) 14" using bits(2) by (simp add: bit_simps bit_Suc_numerals)
  have sr: "shift_right r = drop_bit 1 r OR (if bit r 14 then 0x4000 else 0)"
  proof (rule bit_word_eqI)
    fix n
    assume "n < LENGTH(16)"
    then show "bit (shift_right r) n = bit (drop_bit 1 r OR (if bit r 14 then 0x4000 else 0)) n"
      using half bits(2)
      by (cases "n = 14"; cases "n = 15") (auto simp: bit_shift_right [OF bits(2)] bit_simps bit_masks bit_u16_high)
  qed
  have "drop_bit 1 r AND 0x4000 = 0"
    by (rule bit_word_eqI) (use half in \<open>auto simp: bit_simps bit_masks\<close>)
  then have "unat (drop_bit 1 r OR 0x4000) = unat (drop_bit 1 r) + unat (0x4000 :: u16)"
    by (rule unat_or_disjoint) (use assms in \<open>simp add: unat_drop_bit\<close>)
  then show ?thesis using bits by (simp add: sr unat_drop_bit)
qed

text \<open>
  The cycle registers rotate the fifteen bits of a word one place, each undoing the other;
  the shift register halves the value of the word towards zero, keeping its sign; and all four
  edits yield fifteen-bit words.
\<close>

theorem edit_registers:
  assumes "word_ok w"
  shows "rotate_left (rotate_right (raw w)) = raw w \<and> rotate_right (rotate_left (raw w)) = raw w
    \<and> word_ok (AgcWord (rotate_left (raw w))) \<and> word_ok (AgcWord (rotate_right (raw w)))
    \<and> word_ok (AgcWord (shift_right (raw w)))
    \<and> is_negative (AgcWord (shift_right (raw w))) = is_negative w
    \<and> \<bar>to_i32_lossy_zero (AgcWord (shift_right (raw w)))\<bar> = \<bar>to_i32_lossy_zero w\<bar> div 2"
proof -
  have rot: "rotate_left (rotate_right (raw w)) = raw w" "rotate_right (rotate_left (raw w)) = raw w"
    using assms rotate_inverse by (simp_all add: word_ok_bit)
  have ok: "word_ok (AgcWord (rotate_left (raw w)))" "word_ok (AgcWord (rotate_right (raw w)))"
    "word_ok (AgcWord (shift_right (raw w)))"
    "is_negative (AgcWord (shift_right (raw w))) = is_negative w"
    using assms by (simp_all add: word_ok_bit is_negative_bit bit_rotate_left bit_rotate_right bit_shift_right)
  let ?n = "unat (raw w)"
  have n: "?n < 32768" using assms by (rule word_okD)
  have sr: "unat (shift_right (raw w)) = (if ?n < 16384 then ?n div 2 else 16384 + ?n div 2)"
    by (rule unat_shift_right [OF n])
  have "\<bar>to_i32_lossy_zero (AgcWord (shift_right (raw w)))\<bar> = \<bar>to_i32_lossy_zero w\<bar> div 2"
  proof (cases "?n < 16384")
    case True
    then show ?thesis using ok(3) sr assms by (simp add: to_i32_unat zdiv_int)
  next
    case False
    define d where "d = ?n div 2"
    have d: "?n = 2 * d \<or> ?n = 2 * d + 1" unfolding d_def by arith
    then have "d \<le> 16383" using n by arith
    have "to_i32_lossy_zero w = int ?n - 32767" using False assms by (simp add: to_i32_unat)
    moreover have "to_i32_lossy_zero (AgcWord (shift_right (raw w))) = int d - 16383"
      using False ok(3) sr by (simp add: to_i32_unat d_def)
    moreover have "(32767 - int ?n) div 2 = 16383 - int d" using d by arith
    ultimately show ?thesis using n \<open>d \<le> 16383\<close> by simp
  qed
  then show ?thesis using rot ok by simp
qed

theorem edit_registers_witness:
  "\<bar>to_i32_lossy_zero (AgcWord (shift_right 0x7FF1))\<bar> = \<bar>to_i32_lossy_zero (AgcWord 0x7FF1)\<bar> div 2"
  using edit_registers [of "AgcWord 0x7FF1"] by (simp add: word_ok_iff)


section \<open>Aliasing windows\<close>

lemma unat_of_nat_u16 [simp]: "k < 65536 \<Longrightarrow> unat (word_of_nat k :: u16) = k"
  by (simp add: unsigned_of_nat take_bit_eq_mod)

lemma low_fields:
  "k < 65536 \<Longrightarrow> (word_of_nat k :: u16) AND 0xFF = word_of_nat (k mod 256)"
  "k < 65536 \<Longrightarrow> (word_of_nat k :: u16) AND 0x3FF = word_of_nat (k mod 1024)"
  by (simp_all add: word_eq_unat_iff unat_simps order_le_less_trans [OF mod_less_eq_dividend])

text \<open>
  The windows alias.  Erasable banks 0 to 2 seen through the switched window are the cells of
  the unswitched addresses, central registers included, and fixed banks 2 and 3 seen through the
  switched window are the cells of the fixed-fixed addresses.
\<close>

theorem window_aliases:
  assumes "f < 256" "g < 1024" "unat (ebank m) < 3" "selected_fixed_bank m \<in> {2, 3}"
  shows "location_of m (of_nat (0x300 + f)) = location_of m (of_nat (256 * unat (ebank m) + f))
    \<and> location_of m (of_nat (0x400 + g)) = location_of m (of_nat ((if selected_fixed_bank m = 2 then 0x800 else 0xC00) + g))"
proof
  let ?b = "unat (ebank m)"
  define k where "k = 256 * ?b + f"
  have k: "k < 768" "k mod 256 = f" "k div 256 = ?b" using assms by (simp_all add: k_def)
  have b: "ucast (drop_bit 8 (word_of_nat k :: u16)) = ebank m"
    unfolding word_eq_unat_iff using k by (simp only: unat_simps unat_drop_bit) simp
  have sw: "physical_of m (of_nat (0x300 + f)) = Erasable (ebank m) (of_nat f)"
  proof -
    have "(0x300 + f) mod 256 = f" using assms(1) by (simp add: mod_add_left_eq [symmetric])
    then show ?thesis using assms(1) low_fields(1) [of "0x300 + f"]
      by (simp add: physical_of_def translate_def word_le_nat_alt word_less_nat_alt del: of_nat_add)
  qed
  have un: "physical_of m (of_nat k) = (if k \<le> 48 then Register (of_nat k) else Erasable (ebank m) (of_nat f))"
    using k low_fields(1) [of k] b
    by (simp add: physical_of_def translate_def word_le_nat_alt word_less_nat_alt del: of_nat_add)
  have "ebank m = 0 \<longleftrightarrow> ?b = 0" by (simp only: word_eq_unat_iff unsigned_0)
  then show "location_of m (of_nat (0x300 + f)) = location_of m (of_nat (256 * ?b + f))"
    using assms(1,3) sw un unfolding k_def [symmetric]
    by (auto simp: locate_def k_def word_le_nat_alt)
  define h where "h = (if selected_fixed_bank m = 2 then 0x800 else 0xC00) + g"
  have h: "h < 4096" "h mod 1024 = g" "2048 \<le> h" "h < 3072 \<longleftrightarrow> selected_fixed_bank m = 2"
    using assms(2) by (auto simp: h_def mod_add_left_eq [of 2048, symmetric] mod_add_left_eq [of 3072, symmetric])
  have "physical_of m (of_nat (0x400 + g)) = Fixed (selected_fixed_bank m) (of_nat g)"
  proof -
    have "(0x400 + g) mod 1024 = g" using assms(2) by (simp add: mod_add_left_eq [symmetric])
    then show ?thesis using assms(2) low_fields(2) [of "0x400 + g"]
      by (simp add: physical_of_def translate_def word_le_nat_alt word_less_nat_alt del: of_nat_add)
  qed
  moreover have "physical_of m (of_nat h) = Fixed (selected_fixed_bank m) (of_nat g)"
    using h low_fields(2) [of h] assms(4)
    by (auto simp: physical_of_def translate_def word_le_nat_alt word_less_nat_alt simp del: of_nat_add)
  ultimately show "location_of m (of_nat (0x400 + g)) = location_of m (of_nat ((if selected_fixed_bank m = 2 then 0x800 else 0xC00) + g))"
    unfolding h_def [symmetric] by simp
qed

lemma bank_state_blank: 
  "ebank (put_at (Central 6) (AgcWord 0x802) blank) = 2" "selected_fixed_bank (put_at (Central 6) (AgcWord 0x802) blank) = 2"
  using banks_after_bb [OF mem_ok_blank, of "AgcWord 0x802"]
  by (simp_all add: selected_fixed_bank_def)

theorem window_aliases_witness:
  "location_of (put_at (Central 6) (AgcWord 0x802) blank) (of_nat 0x305) 
     = location_of (put_at (Central 6) (AgcWord 0x802) blank) (of_nat 0x205)"
  using window_aliases [of 5 0 "put_at (Central 6) (AgcWord 0x802) blank"] by (simp add: bank_state_blank)

end
