(* ===== verification/Agc_Trace.thy ===== *)
theory Agc_Trace
  imports Agc_Word_Laws
begin

text \<open>
  \<open>crates/agc-trace\<close>: the events a machine step commits, the append-only log that checks
  their order, the comparison of two logs, and the reader of newline-delimited traces.  JSON
  itself is the library serde's: the reader takes the parser of one line, and the writer the
  printer of one event, as arguments.  The input of the reader is its list of lines.
\<close>

definition TRACE_SCHEMA_VERSION :: u32 where "TRACE_SCHEMA_VERSION = 2"

datatype machine_event_kind = InstructionEvent | InterruptEntry

record register_snapshot =
  rs_a :: u16
  rs_l :: u16
  rs_q :: u16
  rs_z :: u16
  rs_eb :: u16
  rs_fb :: u16
  rs_bb :: u16

definition default_snapshot :: register_snapshot where
  "default_snapshot = \<lparr>rs_a = 0, rs_l = 0, rs_q = 0, rs_z = 0, rs_eb = 0, rs_fb = 0, rs_bb = 0\<rparr>"

record memory_event =
  me_kind :: string
  me_logical :: u16
  me_physical :: string
  me_value :: agc_word

record io_event =
  io_write :: bool
  io_channel :: u16
  io_value :: agc_word

datatype interrupt_event = Requested u8 | Entered u8 u16 | Resumed

record trace_event =
  te_schema_version :: u32
  te_sequence :: nat
  te_kind :: machine_event_kind
  te_cycle_start :: nat
  te_cycle_end :: nat
  te_pc :: u16
  te_instruction :: agc_word
  te_mnemonic :: string
  te_operand :: u16
  te_extended :: bool
  te_before :: register_snapshot
  te_after :: register_snapshot
  te_memory :: "memory_event list"
  te_io :: "io_event list"
  te_interrupts :: "interrupt_event list"

definition trace_event_new :: "nat \<Rightarrow> nat \<Rightarrow> u16 \<Rightarrow> agc_word \<Rightarrow> trace_event" where
  "trace_event_new sequence cycle_start pc instruction =
     \<lparr>te_schema_version = TRACE_SCHEMA_VERSION, te_sequence = sequence, te_kind = InstructionEvent,
      te_cycle_start = cycle_start, te_cycle_end = cycle_start, te_pc = pc,
      te_instruction = instruction, te_mnemonic = '''', te_operand = 0, te_extended = False,
      te_before = default_snapshot, te_after = default_snapshot, te_memory = [], te_io = [],
      te_interrupts = []\<rparr>"

datatype trace_error = Json string | Schema u32 | Ordering nat nat

record trace_log =
  events :: "trace_event list"

definition empty_log :: trace_log where "empty_log = \<lparr>events = []\<rparr>"

section \<open>The log\<close>

definition last_event :: "trace_event list \<Rightarrow> trace_event option" where
  "last_event es = (if es = [] then None else Some (last es))"

definition push :: "trace_event \<Rightarrow> (trace_log, trace_error, unit) prog" where
  "push event =
     (if te_schema_version event \<noteq> TRACE_SCHEMA_VERSION then fail (Schema (te_schema_version event))
      else and_then (gets (\<lambda>t. last_event (events t))) (\<lambda>previous.
        case previous of
          Some p \<Rightarrow>
            if te_sequence event \<noteq> te_sequence p + 1 \<or> te_cycle_start event < te_cycle_end p
            then fail (Ordering (te_sequence p) (te_sequence event))
            else modify (events_update (\<lambda>es. es @ [event]))
        | None \<Rightarrow>
            if te_sequence event \<noteq> 0 then fail (Ordering 0 (te_sequence event))
            else modify (events_update (\<lambda>es. es @ [event]))))"

record trace_difference =
  td_index :: nat
  td_left :: "trace_event option"
  td_right :: "trace_event option"

definition get_event :: "trace_event list \<Rightarrow> nat \<Rightarrow> trace_event option" where
  "get_event es i = (if i < length es then Some (es ! i) else None)"

fun first_unequal :: "trace_event list \<Rightarrow> trace_event list \<Rightarrow> nat list \<Rightarrow> nat option" where
  "first_unequal xs ys [] = None"
| "first_unequal xs ys (i # is) = (if xs ! i \<noteq> ys ! i then Some i else first_unequal xs ys is)"

definition first_difference :: "trace_log \<Rightarrow> trace_log \<Rightarrow> trace_difference option" where
  "first_difference a b =
     (let xs = events a; ys = events b; shared = min (length xs) (length ys)
      in case first_unequal xs ys [0 ..< shared] of
           Some i \<Rightarrow> Some \<lparr>td_index = i, td_left = get_event xs i, td_right = get_event ys i\<rparr>
         | None \<Rightarrow> if length xs \<noteq> length ys
             then Some \<lparr>td_index = shared, td_left = get_event xs shared, td_right = get_event ys shared\<rparr>
             else None)"

section \<open>Newline-delimited traces\<close>

text \<open>Each event is one line; the reader sees the lines without their terminator.\<close>

definition write_json_lines :: "(trace_event \<Rightarrow> string) \<Rightarrow> trace_log \<Rightarrow> string list" where
  "write_json_lines print t = map print (events t)"

record trace_reader =
  input :: "string list"
  previous_sequence :: "nat option"
  previous_cycle_end :: nat
  finished :: bool

definition reader_new :: "string list \<Rightarrow> trace_reader" where
  "reader_new ls = \<lparr>input = ls, previous_sequence = None, previous_cycle_end = 0, finished = False\<rparr>"

text \<open>The validation of a parsed event and the state it leaves.\<close>

definition accept_event :: "trace_event \<Rightarrow> trace_reader \<Rightarrow> (trace_error + trace_event) \<times> trace_reader" where
  "accept_event event r =
     (if te_schema_version event \<noteq> TRACE_SCHEMA_VERSION then (Inl (Schema (te_schema_version event)), r)
      else let expected_sequence = (case previous_sequence r of None \<Rightarrow> 0 | Some n \<Rightarrow> n + 1)
           in if te_sequence event \<noteq> expected_sequence
                 \<or> (previous_sequence r \<noteq> None \<and> te_cycle_start event < previous_cycle_end r)
              then (Inl (Ordering (case previous_sequence r of None \<Rightarrow> 0 | Some n \<Rightarrow> n)
                           (te_sequence event)), r)
              else (Inr event, r\<lparr>previous_sequence := Some (te_sequence event),
                                 previous_cycle_end := te_cycle_end event\<rparr>))"

function next_event ::
  "(string \<Rightarrow> string + trace_event) \<Rightarrow> trace_reader \<Rightarrow> (trace_error + trace_event option) \<times> trace_reader" where
  "next_event parse r =
     (if finished r then (Inr None, r)
      else case input r of
        [] \<Rightarrow> (Inr None, r\<lparr>finished := True\<rparr>)
      | line # rest \<Rightarrow>
          if trim line = [] then next_event parse (r\<lparr>input := rest\<rparr>)
          else case parse line of
            Inl e \<Rightarrow> (Inl (Json e), r\<lparr>input := rest\<rparr>)
          | Inr event \<Rightarrow> (case accept_event event (r\<lparr>input := rest\<rparr>) of
                (Inl e, r') \<Rightarrow> (Inl e, r')
              | (Inr event, r') \<Rightarrow> (Inr (Some event), r')))"
  by pat_completeness auto
termination by (relation "measure (\<lambda>(parse, r). length (input r))") auto

declare next_event.simps [simp del]

lemma accept_event_input: "accept_event event r = (x, r') \<Longrightarrow> input r' = input r"
  by (auto simp: accept_event_def Let_def split: if_splits)

lemma next_event_consumes:
  "next_event parse r = (Inr (Some event), r') \<Longrightarrow> length (input r') < length (input r)"
proof (induction parse r rule: next_event.induct)
  case (1 parse r)
  then show ?case
    by (subst (asm) (2) next_event.simps)
       (auto split: if_splits list.splits sum.splits prod.splits dest!: accept_event_input)
qed

function read_events ::
  "(string \<Rightarrow> string + trace_event) \<Rightarrow> trace_event list \<Rightarrow> trace_reader \<Rightarrow> trace_error + trace_event list" where
  "read_events parse es r = (case next_event parse r of
       (Inl e, r') \<Rightarrow> Inl e
     | (Inr None, r') \<Rightarrow> Inr es
     | (Inr (Some event), r') \<Rightarrow> read_events parse (es @ [event]) r')"
  by pat_completeness auto
termination
  by (relation "measure (\<lambda>(parse, es, r). length (input r))") (auto dest: next_event_consumes [OF sym])

declare read_events.simps [simp del]

definition read_json_lines :: "(string \<Rightarrow> string + trace_event) \<Rightarrow> string list \<Rightarrow> trace_error + trace_log" where
  "read_json_lines parse ls = (case read_events parse [] (reader_new ls) of
       Inl e \<Rightarrow> Inl e
     | Inr es \<Rightarrow> Inr \<lparr>events = es\<rparr>)"

end
