(* ===== verification/Agc_Trace_Laws.thy ===== *)
theory Agc_Trace_Laws
  imports Agc_Trace
begin

text \<open>
  Laws of the trace: the order contract shared by the log and the reader, the comparison of two
  logs, and the round trip through the line format.
\<close>

section \<open>Event order\<close>

text \<open>The last sequence number and end cycle, and the events that may come next.\<close>

definition follows :: "(nat \<times> nat) option \<Rightarrow> trace_event \<Rightarrow> bool" where
  "follows previous e \<longleftrightarrow> (case previous of
       None \<Rightarrow> te_sequence e = 0
     | Some (n, c) \<Rightarrow> te_sequence e = n + 1 \<and> c \<le> te_cycle_start e)"

definition stamp :: "trace_event \<Rightarrow> (nat \<times> nat) option" where
  "stamp e = Some (te_sequence e, te_cycle_end e)"

fun chain :: "(nat \<times> nat) option \<Rightarrow> trace_event list \<Rightarrow> bool" where
  "chain previous [] = True"
| "chain previous (e # es) = (te_schema_version e = TRACE_SCHEMA_VERSION \<and> follows previous e \<and> chain (stamp e) es)"

fun accept_all :: "(trace_event \<Rightarrow> 's \<Rightarrow> trace_error + 's) \<Rightarrow> trace_event list \<Rightarrow> 's \<Rightarrow> trace_error + 's" where
  "accept_all accept [] s = Inr s"
| "accept_all accept (e # es) s = (case accept e s of Inl x \<Rightarrow> Inl x | Inr s' \<Rightarrow> accept_all accept es s')"

text \<open>
  The order contract that the log enforces on \<open>push\<close> and the reader on every line: an event
  is accepted when it follows the one before, and refused with the sequence numbers otherwise.
\<close>

locale event_sink =
  fixes accept :: "trace_event \<Rightarrow> 's \<Rightarrow> trace_error + 's"
    and seen :: "'s \<Rightarrow> (nat \<times> nat) option"
  assumes accepts:
    "te_schema_version e = TRACE_SCHEMA_VERSION \<Longrightarrow> follows (seen s) e \<Longrightarrow>
       \<exists>s'. accept e s = Inr s' \<and> seen s' = stamp e"
    and refuses_schema:
    "te_schema_version e \<noteq> TRACE_SCHEMA_VERSION \<Longrightarrow> accept e s = Inl (Schema (te_schema_version e))"
    and refuses_order:
    "te_schema_version e = TRACE_SCHEMA_VERSION \<Longrightarrow> \<not> follows (seen s) e \<Longrightarrow>
       accept e s = Inl (Ordering (case seen s of None \<Rightarrow> 0 | Some (n, c) \<Rightarrow> n) (te_sequence e))"
begin

lemma accept_iff:
  "(\<exists>s'. accept e s = Inr s') \<longleftrightarrow> te_schema_version e = TRACE_SCHEMA_VERSION \<and> follows (seen s) e"
  using accepts [of e s] refuses_schema [of e s] refuses_order [of e s]
  by (metis Inl_Inr_False)

lemma accept_seen: "accept e s = Inr s' \<Longrightarrow> seen s' = stamp e"
  using accepts accept_iff by fastforce

lemma accept_all_iff: "(\<exists>s'. accept_all accept es s = Inr s') \<longleftrightarrow> chain (seen s) es"
proof (induction es arbitrary: s)
  case Nil
  then show ?case by simp
next
  case (Cons e es)
  show ?case
  proof (cases "accept e s")
    case (Inl x)
    then have "\<not> (te_schema_version e = TRACE_SCHEMA_VERSION \<and> follows (seen s) e)"
      using accept_iff [of e s] by simp
    with Inl show ?thesis by auto
  next
    case (Inr s')
    then have "te_schema_version e = TRACE_SCHEMA_VERSION \<and> follows (seen s) e" "seen s' = stamp e"
      using accept_iff [of e s] accept_seen by auto
    with Inr Cons.IH [of s'] show ?thesis by simp
  qed
qed

end

definition log_accept :: "trace_event \<Rightarrow> trace_log \<Rightarrow> trace_error + trace_log" where
  "log_accept e t = (case push e t of
       Some (Inr u, t') \<Rightarrow> Inr t' | Some (Inl x, t') \<Rightarrow> Inl x | None \<Rightarrow> Inl (Ordering 0 0))"

definition log_seen :: "trace_log \<Rightarrow> (nat \<times> nat) option" where
  "log_seen t = (case last_event (events t) of None \<Rightarrow> None | Some e \<Rightarrow> stamp e)"

definition reader_accept :: "trace_event \<Rightarrow> trace_reader \<Rightarrow> trace_error + trace_reader" where
  "reader_accept e r = (case accept_event e r of (Inr e', r') \<Rightarrow> Inr r' | (Inl x, r') \<Rightarrow> Inl x)"

definition reader_seen :: "trace_reader \<Rightarrow> (nat \<times> nat) option" where
  "reader_seen r = (case previous_sequence r of None \<Rightarrow> None | Some n \<Rightarrow> Some (n, previous_cycle_end r))"

lemma push_run:
  "push e t = (if te_schema_version e \<noteq> TRACE_SCHEMA_VERSION then Some (Inl (Schema (te_schema_version e)), t)
     else if follows (log_seen t) e then Some (Inr (), t\<lparr>events := events t @ [e]\<rparr>)
     else Some (Inl (Ordering (case log_seen t of None \<Rightarrow> 0 | Some (n, c) \<Rightarrow> n) (te_sequence e)), t))"
  by (auto simp: push_def run_simps log_seen_def follows_def stamp_def split: option.splits)

interpretation trace_log: event_sink log_accept log_seen
  by unfold_locales
    (auto simp: log_accept_def push_run log_seen_def last_event_def)

interpretation trace_reader: event_sink reader_accept reader_seen
  by unfold_locales
    (auto simp: reader_accept_def accept_event_def reader_seen_def follows_def stamp_def Let_def split: option.splits)

lemma accept_all_push:
  "accept_all log_accept es t = Inr t' \<Longrightarrow> events t' = events t @ es"
proof (induction es arbitrary: t)
  case (Cons e es)
  from Cons.prems obtain u where u: "log_accept e t = Inr u" "accept_all log_accept es u = Inr t'"
    by (auto split: sum.splits)
  then have "events u = events t @ [e]" by (auto simp: log_accept_def push_run split: if_splits)
  then show ?case using Cons.IH [OF u(2)] by simp
qed simp

text \<open>An ordered log is one that pushes build from the empty log.\<close>

definition log_ok :: "trace_log \<Rightarrow> bool" where
  "log_ok t \<longleftrightarrow> chain None (events t)"

lemma chain_append:
  "chain p (es @ [e]) \<longleftrightarrow> chain p es \<and> te_schema_version e = TRACE_SCHEMA_VERSION
     \<and> follows (case last_event es of None \<Rightarrow> p | Some l \<Rightarrow> stamp l) e"
  by (induction es arbitrary: p) (auto simp: last_event_def)

lemma chain_sequence: "chain (Some (n, c)) es \<Longrightarrow> i < length es \<Longrightarrow> te_sequence (es ! i) = n + 1 + i"
  by (induction es arbitrary: n c i) (auto simp: follows_def stamp_def nth_Cons split: nat.splits)

lemma log_ok_sequence:
  assumes "log_ok t" "i < length (events t)"
  shows "te_sequence (events t ! i) = i"
  using assms chain_sequence
  by (cases "events t") (auto simp: log_ok_def follows_def stamp_def nth_Cons split: nat.splits)

lemma chain_cycles:
  "chain p es \<Longrightarrow> Suc i < length es \<Longrightarrow> te_cycle_end (es ! i) \<le> te_cycle_start (es ! Suc i)"
proof (induction es arbitrary: p i)
  case (Cons e es)
  then obtain f fs where "es = f # fs" by (cases es) auto
  then show ?case
    using Cons.IH [of "stamp e" "i - 1"] Cons.prems
    by (cases i) (auto simp: follows_def stamp_def)
qed simp

text \<open>
  C5 Appending to a log keeps it ordered: sequence numbers are the positions, no event starts
  before the previous one ends, and the schema is the supported one.  The append succeeds for
  exactly the events that continue the log; every other event is refused and the log unchanged.
\<close>

theorem push_keeps_order:
  assumes "log_ok t"
  shows "runs (push e) t
      (\<lambda>_ t'. log_ok t' \<and> events t' = events t @ [e] \<and> te_sequence e = length (events t)
          \<and> (\<forall>i. Suc i < length (events t') \<longrightarrow> te_cycle_end (events t' ! i) \<le> te_cycle_start (events t' ! Suc i)))
      (\<lambda>x t'. t' = t \<and> (te_schema_version e \<noteq> 2 \<or> te_sequence e \<noteq> length (events t)
          \<or> (events t \<noteq> [] \<and> te_cycle_start e < te_cycle_end (last (events t)))))"
proof -
  have last: "log_seen t = (if events t = [] then None else Some (length (events t) - 1, te_cycle_end (last (events t))))"
    using log_ok_sequence [OF assms, of "length (events t) - 1"]
    by (auto simp: log_seen_def last_event_def stamp_def last_conv_nth)
  have app: "log_ok (t\<lparr>events := events t @ [e]\<rparr>)" if "te_schema_version e = TRACE_SCHEMA_VERSION" "follows (log_seen t) e"
    using that assms by (simp add: log_ok_def chain_append log_seen_def split: option.splits)
  show ?thesis
    using app chain_cycles [of None "events t @ [e]"]
    by (auto simp: runs_def push_run log_ok_def TRACE_SCHEMA_VERSION_def last follows_def split: if_splits)
qed

theorem push_keeps_order_witness:
  "runs (push (trace_event_new 0 5 0 POSITIVE_ZERO)) empty_log (\<lambda>_ t'. log_ok t') (\<lambda>_ _. False)"
  by (rule runs_mono [OF push_keeps_order])
     (auto simp: log_ok_def empty_log_def trace_event_new_def TRACE_SCHEMA_VERSION_def)

lemma first_unequal_upt:
  "case first_unequal xs ys [m ..< n] of
     None \<Rightarrow> \<forall>j. m \<le> j \<and> j < n \<longrightarrow> xs ! j = ys ! j
   | Some i \<Rightarrow> m \<le> i \<and> i < n \<and> xs ! i \<noteq> ys ! i \<and> (\<forall>j. m \<le> j \<and> j < i \<longrightarrow> xs ! j = ys ! j)"
proof (induction "n - m" arbitrary: m)
  case (Suc d)
  then have m: "[m ..< n] = m # [Suc m ..< n]" "d = n - Suc m" by (auto simp: upt_conv_Cons)
  have split: "m \<le> j \<longleftrightarrow> j = m \<or> Suc m \<le> j" for j by auto
  from Suc.hyps(1) [OF m(2)] show ?case
    using Suc.hyps(2) by (auto simp: m split split: option.splits)
qed auto

text \<open>
  Comparing two logs reports no difference exactly when they are equal, and otherwise the
  first position where they differ, with the events of both sides (absent past the end).
\<close>

theorem first_difference_correct:
  "case first_difference a b of
     None \<Rightarrow> a = b
   | Some d \<Rightarrow> td_left d = get_event (events a) (td_index d) \<and> td_right d = get_event (events b) (td_index d)
       \<and> td_left d \<noteq> td_right d \<and> take (td_index d) (events a) = take (td_index d) (events b)"
proof -
  let ?xs = "events a" and ?ys = "events b"
  let ?n = "min (length ?xs) (length ?ys)"
  have take: "take i ?xs = take i ?ys" if "\<forall>j<i. ?xs ! j = ?ys ! j" "i \<le> ?n" for i
    using that by (auto intro: nth_equalityI)
  show ?thesis
  proof (cases "first_unequal ?xs ?ys [0 ..< ?n]")
    case None
    then have eq: "\<forall>j<?n. ?xs ! j = ?ys ! j" using first_unequal_upt [where xs = ?xs and ys = ?ys and m = 0 and n = ?n] by simp
    then have "?xs = ?ys" if "length ?xs = length ?ys"
      using that by (auto intro: nth_equalityI)
    then show ?thesis
      using None take [OF eq] by (auto simp: first_difference_def Let_def get_event_def)
  next
    case (Some i)
    then have "i < ?n" "?xs ! i \<noteq> ?ys ! i" "\<forall>j<i. ?xs ! j = ?ys ! j"
      using first_unequal_upt [where xs = ?xs and ys = ?ys and m = 0 and n = ?n] by auto
    then show ?thesis
      using Some take [of i] by (auto simp: first_difference_def Let_def get_event_def)
  qed
qed

section \<open>Reading what was written\<close>

lemma next_event_line:
  assumes "\<not> finished r" "input r = line # rest" "trim line \<noteq> []" "parse line = Inr e"
    "te_schema_version e = TRACE_SCHEMA_VERSION" "follows (reader_seen r) e"
  obtains r' where "next_event parse r = (Inr (Some e), r')" "input r' = rest" "\<not> finished r'"
    "reader_seen r' = stamp e"
proof -
  let ?r = "r\<lparr>input := rest, previous_sequence := Some (te_sequence e), previous_cycle_end := te_cycle_end e\<rparr>"
  have "accept_event e (r\<lparr>input := rest\<rparr>) = (Inr e, ?r)"
    using assms(5,6) by (auto simp: accept_event_def reader_seen_def follows_def split: option.splits)
  then have "next_event parse r = (Inr (Some e), ?r)"
    using assms(1-4) by (subst next_event.simps) simp
  then show thesis
    by (rule that) (simp_all add: assms(3) reader_seen_def stamp_def \<open>\<not> finished r\<close>)
qed

lemma read_events_chain:
  assumes "\<forall>e\<in>set es. parse (print e) = Inr e \<and> trim (print e) \<noteq> []"
    "input r = map print es" "\<not> finished r" "chain (reader_seen r) es"
  shows "read_events parse acc r = Inr (acc @ es)"
  using assms
proof (induction es arbitrary: acc r)
  case Nil
  then have "next_event parse r = (Inr None, r\<lparr>finished := True\<rparr>)" by (subst next_event.simps) simp
  then show ?case by (subst read_events.simps) simp
next
  case (Cons e es)
  then obtain r' where "next_event parse r = (Inr (Some e), r')" "input r' = map print es"
      "\<not> finished r'" "reader_seen r' = stamp e"
    using next_event_line [of r "print e" "map print es" parse e] by auto
  then show ?case using Cons by (subst read_events.simps) simp
qed

text \<open>
  Given a JSON printer and parser of events that are inverse on the events of an ordered log
  and never print a blank line, reading the lines written for the log returns the log.
\<close>

theorem trace_lines_round_trip:
  assumes "log_ok t" "\<forall>e\<in>set (events t). parse (print e) = Inr e \<and> trim (print e) \<noteq> []"
  shows "read_json_lines parse (write_json_lines print t) = Inr t"
  using read_events_chain [OF assms(2), of "reader_new (map print (events t))" "[]"] assms(1)
  by (simp add: read_json_lines_def write_json_lines_def reader_new_def reader_seen_def log_ok_def)

theorem trace_lines_round_trip_witness:
  "read_json_lines (\<lambda>s. if s = ''event'' then Inr (trace_event_new 0 3 5 NEGATIVE_ZERO) else Inl ''syntax'')
     (write_json_lines (\<lambda>_. ''event'') \<lparr>events = [trace_event_new 0 3 5 NEGATIVE_ZERO]\<rparr>)
     = Inr \<lparr>events = [trace_event_new 0 3 5 NEGATIVE_ZERO]\<rparr>"
  by (rule trace_lines_round_trip)
     (simp_all add: log_ok_def follows_def trace_event_new_def trim_def trim_start_def is_ascii_space_def)

lemma next_event_step:
  assumes "next_event parse r = (Inr (Some e), r')"
  obtains line rest where "\<not> finished r" "input r = line # rest"
    "if trim line = [] then next_event parse (r\<lparr>input := rest\<rparr>) = (Inr (Some e), r')
     else accept_event e (r\<lparr>input := rest\<rparr>) = (Inr e, r')"
proof -
  have same: "accept_event x s = (Inr y, s') \<Longrightarrow> x = y" for x y s s'
    by (auto simp: accept_event_def Let_def split: if_splits)
  from assms that show thesis
    by (subst (asm) next_event.simps) (auto split: if_splits list.splits sum.splits prod.splits dest: same)
qed

lemma next_event_accepts:
  "next_event parse r = (Inr (Some e), r') \<Longrightarrow>
     te_schema_version e = TRACE_SCHEMA_VERSION \<and> follows (reader_seen r) e \<and> reader_seen r' = stamp e"
proof (induction parse r rule: next_event.induct)
  case (1 parse r)
  have seen: "reader_seen (s\<lparr>input := ls\<rparr>) = reader_seen s" for s ls
    by (simp add: reader_seen_def split: option.split)
  from 1(2) obtain line rest where step: "\<not> finished r" "input r = line # rest"
    "if trim line = [] then next_event parse (r\<lparr>input := rest\<rparr>) = (Inr (Some e), r')
     else accept_event e (r\<lparr>input := rest\<rparr>) = (Inr e, r')"
    by (rule next_event_step)
  show ?case
  proof (cases "trim line = []")
    case True
    then show ?thesis using 1(1) [OF step(1,2)] step(3) by (simp add: seen)
  next
    case False
    then have "reader_accept e (r\<lparr>input := rest\<rparr>) = Inr r'" using step(3) by (simp add: reader_accept_def)
    then show ?thesis
      using trace_reader.accept_iff [of e "r\<lparr>input := rest\<rparr>"] trace_reader.accept_seen by (simp add: seen)
  qed
qed

lemma read_events_ordered:
  "read_events parse es r = Inr fs \<Longrightarrow> \<exists>new. fs = es @ new \<and> chain (reader_seen r) new"
proof (induction parse es r rule: read_events.induct)
  case (1 parse es r)
  show ?case
  proof (cases "next_event parse r")
    case (Pair x r')
    show ?thesis
    proof (cases x)
      case (Inl e)
      then show ?thesis using 1(2) Pair by (subst (asm) read_events.simps) simp
    next
      case (Inr y)
      show ?thesis
      proof (cases y)
        case None
        then show ?thesis using 1(2) Pair Inr by (subst (asm) read_events.simps) simp
      next
        case (Some e)
        then have "read_events parse (es @ [e]) r' = Inr fs"
          using 1(2) Pair Inr by (subst (asm) read_events.simps) simp
        with 1(1) [OF Pair [symmetric] Inr Some] obtain new where "fs = (es @ [e]) @ new" "chain (reader_seen r') new" by auto
        then show ?thesis using next_event_accepts [of parse r e r'] Pair Inr Some
          by (intro exI [of _ "e # new"]) simp
      qed
    qed
  qed
qed

text \<open>
  Whatever the lines and the parser, reading a trace returns: a log that reads at all is
  ordered, so it is one the machine could have appended event by event.
\<close>

theorem read_trace_ordered:
  "case read_json_lines parse ls of Inl e \<Rightarrow> True
   | Inr t \<Rightarrow> log_ok t \<and> accept_all log_accept (events t) empty_log = Inr t"
proof (cases "read_events parse [] (reader_new ls)")
  case (Inl e)
  then show ?thesis by (simp add: read_json_lines_def)
next
  case (Inr es)
  then have ok: "chain None es"
    using read_events_ordered [of parse "[]" "reader_new ls" es] by (simp add: reader_new_def reader_seen_def)
  moreover have "log_seen empty_log = None" by (simp add: log_seen_def empty_log_def last_event_def)
  ultimately obtain t where t: "accept_all log_accept es empty_log = Inr t"
    using trace_log.accept_all_iff [of es empty_log] by auto
  then have "t = \<lparr>events = es\<rparr>"
    using accept_all_push [OF t] by (simp add: empty_log_def)
  then show ?thesis using Inr ok t by (simp add: read_json_lines_def log_ok_def)
qed

end
