(* ===== verification/Agc_Cpu.thy ===== *)
theory Agc_Cpu
  imports Agc_Isa_Laws Agc_Memory_Laws Agc_Trace_Laws "HOL-Library.Signed_Division"
begin

text \<open>
  \<open>crates/agc-cpu\<close>: the Block II processor.  The state of \<open>Cpu\<close> is the record
  \<open>cpu\<close>; functions that also fill the trace event and the watchpoint of the current step run
  on \<open>exec_state\<close>, which adds the two.  The \<open>u64\<close> counters are naturals.
\<close>

section \<open>Interrupts\<close>

datatype interrupt =
  Time6 | Time5 | Time3 | Time4 | Key1 | Key2 | Uprupt | Downrupt | Radar | Handrupt

fun interrupt_number :: "interrupt \<Rightarrow> nat" where
  "interrupt_number Time6 = 1"
| "interrupt_number Time5 = 2"
| "interrupt_number Time3 = 3"
| "interrupt_number Time4 = 4"
| "interrupt_number Key1 = 5"
| "interrupt_number Key2 = 6"
| "interrupt_number Uprupt = 7"
| "interrupt_number Downrupt = 8"
| "interrupt_number Radar = 9"
| "interrupt_number Handrupt = 10"

lemma interrupt_number_inject [simp]: "interrupt_number a = interrupt_number b \<longleftrightarrow> a = b"
  by (cases a; cases b) simp_all

text \<open>The derived order of the enumeration, which \<open>BTreeSet\<close> keeps its elements in.\<close>

instantiation interrupt :: linorder
begin

definition less_eq_interrupt :: "interrupt \<Rightarrow> interrupt \<Rightarrow> bool" where
  "less_eq_interrupt a b \<longleftrightarrow> interrupt_number a \<le> interrupt_number b"

definition less_interrupt :: "interrupt \<Rightarrow> interrupt \<Rightarrow> bool" where
  "less_interrupt a b \<longleftrightarrow> interrupt_number a < interrupt_number b"

instance
  by standard (auto simp: less_eq_interrupt_def less_interrupt_def)

end

instance interrupt :: finite
proof
  have "inj_on interrupt_number UNIV" by (rule inj_onI) simp
  moreover have "interrupt_number a \<in> {1..10}" for a by (cases a) simp_all
  then have "range interrupt_number \<subseteq> {1..10}" by blast
  then have "finite (range interrupt_number)" by (rule finite_subset) simp
  ultimately show "finite (UNIV :: interrupt set)" by (rule finite_imageD [rotated])
qed

definition vector :: "interrupt \<Rightarrow> u16" where
  "vector i = 0x800 + of_nat (interrupt_number i) * 4"

definition pop_first :: "interrupt set \<Rightarrow> interrupt option \<times> interrupt set" where
  "pop_first s = (if s = {} then (None, s) else (Some (Min s), s - {Min s}))"

section \<open>Processor state\<close>

datatype stop_reason = InstructionLimit | Breakpoint u16 | Watchpoint u16

datatype step_kind =
    StepInstruction decoded_instruction
  | StepInterruptEntry "interrupt option" u16

record step_outcome =
  so_kind :: step_kind
  so_trace :: trace_event
  so_watchpoint :: "u16 option"

record run_outcome =
  ro_reason :: stop_reason
  ro_instructions :: nat
  ro_cycles :: nat

datatype cpu_error = CpuMemory memory_error | CpuTrace trace_error | Arithmetic string

record cpu =
  cpu_memory :: memory
  extended :: bool
  indexed :: "agc_word option"
  substitute_instruction :: bool
  interrupt_enabled :: bool
  in_interrupt :: bool
  pending_interrupts :: "interrupt set"
  cycles :: nat
  sequence :: nat
  breakpoints :: "u16 set"
  watchpoints :: "u16 set"
  trace :: trace_log
  scaler_mcts :: u16
  scaler :: u16
  downlink_words :: u8
  schedule_downrupt :: bool
  downrupt_due :: "nat option"
  trace_sequence :: nat
  trap_31a :: bool
  trap_31b :: bool
  trap_32 :: bool

record exec_state =
  machine :: cpu
  event :: trace_event
  watch :: "u16 option"

definition in_memory :: "(memory, 'e, 'a) prog \<Rightarrow> (cpu, 'e, 'a) prog" where
  "in_memory m = zoom cpu_memory (\<lambda>x c. c\<lparr>cpu_memory := x\<rparr>) (\<lambda>e. e) m"

definition try_memory :: "(memory, memory_error, 'a) prog \<Rightarrow> (cpu, cpu_error, 'a) prog" where
  "try_memory m = zoom cpu_memory (\<lambda>x c. c\<lparr>cpu_memory := x\<rparr>) CpuMemory m"

definition on_cpu :: "(cpu, 'e, 'a) prog \<Rightarrow> (exec_state, 'e, 'a) prog" where
  "on_cpu m = zoom machine (\<lambda>c x. x\<lparr>machine := c\<rparr>) (\<lambda>e. e) m"

definition set_event :: "(trace_event \<Rightarrow> trace_event) \<Rightarrow> (exec_state, 'e, unit) prog" where
  "set_event f = modify (event_update f)"

section \<open>Register access\<close>

definition register_from_raw :: "u16 \<Rightarrow> agc_register" where
  "register_from_raw r = AgcRegister r"

definition cpu_register :: "u16 \<Rightarrow> (cpu, 'e, agc_register) prog" where
  "cpu_register index = in_memory (expect (central_register index))"

definition cpu_set_central_register :: "u16 \<Rightarrow> agc_register \<Rightarrow> (cpu, 'e, unit) prog" where
  "cpu_set_central_register index v = in_memory (expect (set_central_register index v))"

definition a_register :: "(cpu, 'e, agc_register) prog" where
  "a_register = cpu_register REG_A"

definition a_raw :: "(cpu, 'e, u16) prog" where
  "a_raw = and_then a_register (\<lambda>r. ok (reg_raw r))"

definition a_word :: "(cpu, 'e, agc_word) prog" where
  "a_word = and_then a_register (\<lambda>r. ok (overflow_correct r))"

definition l_register :: "(cpu, 'e, agc_register) prog" where
  "l_register = cpu_register REG_L"

definition set_a_register :: "agc_register \<Rightarrow> (cpu, 'e, unit) prog" where
  "set_a_register v = cpu_set_central_register REG_A v"

definition set_a_raw :: "u16 \<Rightarrow> (cpu, 'e, unit) prog" where
  "set_a_raw r = set_a_register (register_from_raw r)"

definition set_a_word :: "agc_word \<Rightarrow> (cpu, 'e, unit) prog" where
  "set_a_word w = cpu_set_central_register REG_A (sign_extend w)"

definition set_l_register :: "agc_register \<Rightarrow> (cpu, 'e, unit) prog" where
  "set_l_register v = cpu_set_central_register REG_L v"

definition set_l_word :: "agc_word \<Rightarrow> (cpu, 'e, unit) prog" where
  "set_l_word w = set_l_register (sign_extend w)"

definition set_q_raw :: "u16 \<Rightarrow> (cpu, 'e, unit) prog" where
  "set_q_raw r = cpu_set_central_register REG_Q (register_from_raw r)"

definition set_z :: "u16 \<Rightarrow> (cpu, 'e, unit) prog" where
  "set_z address = cpu_set_central_register REG_Z (register_from_raw (address AND 0xFFF))"

definition program_counter :: "(cpu, 'e, u16) prog" where
  "program_counter = and_then (cpu_register REG_Z) (\<lambda>r. ok (reg_raw r AND 0xFFF))"

definition skip_words :: "u16 \<Rightarrow> (cpu, 'e, unit) prog" where
  "skip_words words = and_then program_counter (\<lambda>pc. set_z ((pc + words) AND 0xFFF))"

definition add_register_to_a :: "agc_register \<Rightarrow> (cpu, 'e, unit) prog" where
  "add_register_to_a v = and_then a_register (\<lambda>a. set_a_register (register_wrapping_add a v))"

definition snapshot :: "(cpu, 'e, register_snapshot) prog" where
  "snapshot =
     and_then (cpu_register REG_A) (\<lambda>a.
     and_then (cpu_register REG_L) (\<lambda>l.
     and_then (cpu_register REG_Q) (\<lambda>q.
     and_then (cpu_register REG_Z) (\<lambda>z.
     and_then (cpu_register REG_EB) (\<lambda>eb.
     and_then (cpu_register REG_FB) (\<lambda>fb.
     and_then (cpu_register REG_BB) (\<lambda>bb.
     ok \<lparr>rs_a = reg_raw a, rs_l = reg_raw l, rs_q = reg_raw q, rs_z = reg_raw z,
         rs_eb = reg_raw eb, rs_fb = reg_raw fb, rs_bb = reg_raw bb\<rparr>)))))))"

section \<open>Traced accesses\<close>

definition physical_text :: "physical_address \<Rightarrow> string" where
  "physical_text p = (case p of
       Register index \<Rightarrow> ''R:'' @ fmt_octal_padded 2 (unat index)
     | Erasable bank offset \<Rightarrow> ''E'' @ fmt_octal (unat bank) @ '':'' @ fmt_octal_padded 4 (unat offset)
     | Fixed bank offset \<Rightarrow> ''F'' @ fmt_octal_padded 2 (unat bank) @ '':'' @ fmt_octal_padded 4 (unat offset))"

definition memory_event_of :: "memory_access \<Rightarrow> memory_event" where
  "memory_event_of access =
     \<lparr>me_kind = (case ma_kind access of
          FetchAccess \<Rightarrow> ''fetch'' | ReadAccess \<Rightarrow> ''read'' | WriteAccess \<Rightarrow> ''write''),
      me_logical = ma_logical access, me_physical = physical_text (ma_physical access),
      me_value = ma_value access\<rparr>"

definition push_memory :: "memory_access \<Rightarrow> (exec_state, 'e, unit) prog" where
  "push_memory access = set_event (te_memory_update (\<lambda>es. es @ [memory_event_of access]))"

definition push_io :: "bool \<Rightarrow> u16 \<Rightarrow> agc_word \<Rightarrow> (exec_state, 'e, unit) prog" where
  "push_io w channel v =
     set_event (te_io_update (\<lambda>es. es @ [\<lparr>io_write = w, io_channel = channel, io_value = v\<rparr>]))"

definition push_interrupt :: "interrupt_event \<Rightarrow> (exec_state, 'e, unit) prog" where
  "push_interrupt i = set_event (te_interrupts_update (\<lambda>es. es @ [i]))"

definition read_word :: "u16 \<Rightarrow> (exec_state, cpu_error, agc_word) prog" where
  "read_word address =
     and_then (on_cpu (try_memory (read_memory address ReadAccess))) (\<lambda>access.
     seq (push_memory access) (ok (ma_value access)))"

definition read_word_and_edit :: "u16 \<Rightarrow> (exec_state, cpu_error, agc_word) prog" where
  "read_word_and_edit address =
     and_then (on_cpu (try_memory (read_and_edit address ReadAccess))) (\<lambda>access.
     seq (push_memory access) (ok (ma_value access)))"

definition operand_register :: "u16 \<Rightarrow> memory_access \<Rightarrow> (exec_state, cpu_error, agc_register) prog" where
  "operand_register address access =
     (if address < REG_EB then on_cpu (try_memory (central_register address))
      else ok (sign_extend (ma_value access)))"

definition read_register_operand :: "u16 \<Rightarrow> (exec_state, cpu_error, agc_register) prog" where
  "read_register_operand address =
     and_then (on_cpu (try_memory (read_memory address ReadAccess))) (\<lambda>access.
     and_then (operand_register address access) (\<lambda>v.
     seq (push_memory access) (ok v)))"

definition read_register_operand_and_edit :: "u16 \<Rightarrow> (exec_state, cpu_error, agc_register) prog" where
  "read_register_operand_and_edit address =
     and_then (on_cpu (try_memory (read_and_edit address ReadAccess))) (\<lambda>access.
     and_then (operand_register address access) (\<lambda>v.
     seq (push_memory access) (ok v)))"

definition check_watchpoint :: "u16 \<Rightarrow> (exec_state, cpu_error, unit) prog" where
  "check_watchpoint address =
     and_then (gets (\<lambda>x. address \<in> watchpoints (machine x))) (\<lambda>watched.
     when_do watched (modify (watch_update (\<lambda>_. Some address))))"

definition write_word :: "u16 \<Rightarrow> agc_word \<Rightarrow> (exec_state, cpu_error, unit) prog" where
  "write_word address v =
     and_then (on_cpu (try_memory (write_memory address v))) (\<lambda>access.
     seq (push_memory access) (check_watchpoint address))"

definition write_register_operand :: "u16 \<Rightarrow> agc_register \<Rightarrow> (exec_state, cpu_error, unit) prog" where
  "write_register_operand address v =
     (if address < REG_EB then
        seq (on_cpu (try_memory (set_central_register address v))) (
        and_then (on_cpu (try_memory (read_memory address ReadAccess))) (\<lambda>access.
        seq (push_memory (access\<lparr>ma_kind := WriteAccess\<rparr>)) (check_watchpoint address)))
      else write_word address (overflow_correct v))"

definition cpu_read_channel :: "u16 \<Rightarrow> (exec_state, cpu_error, agc_word) prog" where
  "cpu_read_channel channel = (case channel_address_new channel of
       Inl _ \<Rightarrow> fail (CpuMemory (AddressOutOfRange channel))
     | Inr address \<Rightarrow>
         and_then (on_cpu (in_memory (read_channel address))) (\<lambda>v.
         seq (push_io False channel v) (ok v)))"

text \<open>The value a channel write really stores, with the traps it arms.\<close>

definition channel_write_value :: "u16 \<Rightarrow> channel_address \<Rightarrow> agc_word \<Rightarrow> (cpu, cpu_error, agc_word) prog" where
  "channel_write_value channel address v =
     (if channel = 0xB then
        seq (modify (\<lambda>c. c\<lparr>trap_31a := trap_31a c \<or> raw v AND 0x800 \<noteq> 0,
                           trap_31b := trap_31b c \<or> raw v AND 0x1000 \<noteq> 0,
                           trap_32 := trap_32 c \<or> raw v AND 0x2000 \<noteq> 0\<rparr>))
            (ok (from_raw_truncate (raw v AND 0x47FF)))
      else if channel = 0x1B then
        and_then (in_memory (read_channel address)) (\<lambda>current.
        ok (from_raw_truncate (raw current OR 0x7C00)))
      else if channel = 0x3F then ok POSITIVE_ZERO
      else ok v)"

definition note_downlink :: "u16 \<Rightarrow> cpu \<Rightarrow> cpu" where
  "note_downlink channel c =
     (let c = (if channel = 0x1C then c\<lparr>downlink_words := downlink_words c OR 1\<rparr>
               else if channel = 0x1D then c\<lparr>downlink_words := downlink_words c OR 2\<rparr>
               else c)
      in if downlink_words c = 3 then c\<lparr>downlink_words := 0, schedule_downrupt := True\<rparr> else c)"

definition cpu_write_channel :: "u16 \<Rightarrow> agc_word \<Rightarrow> (exec_state, cpu_error, unit) prog" where
  "cpu_write_channel channel v = (case channel_address_new channel of
       Inl _ \<Rightarrow> fail (CpuMemory (AddressOutOfRange channel))
     | Inr address \<Rightarrow>
         and_then (on_cpu (channel_write_value channel address v)) (\<lambda>stored.
         seq (on_cpu (in_memory (write_channel address stored))) (
         seq (push_io True channel stored)
             (on_cpu (modify (note_downlink channel))))))"

end
