(* ===== verification/Agc_Cpu_Exec.thy ===== *)
theory Agc_Cpu_Exec
  imports Agc_Cpu
begin

text \<open>
  \<open>crates/agc-cpu\<close>, second half: the arithmetic helpers, one definition per instruction
  routine, the scaler and its timers, interrupt entry, and the step and run loops.
\<close>

section \<open>Arithmetic helpers\<close>

definition add_double_precision_carry :: "agc_register \<Rightarrow> agc_register \<Rightarrow> agc_register" where
  "add_double_precision_carry high low =
     (if reg_raw low AND 0xC000 = 0x4000
      then register_wrapping_add high (sign_extend (from_raw_truncate 1))
      else if reg_raw low AND 0xC000 = 0x8000
      then register_wrapping_add high (sign_extend (from_raw_truncate 0x7FFE))
      else high)"

definition counter_pinc :: "agc_word \<Rightarrow> agc_word \<times> bool" where
  "counter_pinc v =
     (if raw v = 0x3FFF then (POSITIVE_ZERO, True)
      else if raw v = 0x7FFF then (from_raw_truncate 1, False)
      else (from_raw_truncate (raw v + 1), False))"

definition overflow_correct_raw :: "u16 \<Rightarrow> agc_word" where
  "overflow_correct_raw v = from_raw_truncate ((v AND 0x3FFF) OR (drop_bit 1 v AND 0x4000))"

definition sign_extend_raw :: "u16 \<Rightarrow> u16" where
  "sign_extend_raw v = (let word = v AND 0x7FFF in word OR (push_bit 1 word AND 0x8000))"

definition add_sp16 :: "u16 \<Rightarrow> u16 \<Rightarrow> u16" where
  "add_sp16 lhs rhs =
     (let sum = (ucast lhs :: u32) + ucast rhs;
          sum = (if sum AND 0x10000 \<noteq> 0 then (sum + 1) AND 0xFFFF else sum)
      in ucast sum)"

definition absolute_sp :: "u16 \<Rightarrow> u16" where
  "absolute_sp v = (if v AND 0x4000 \<noteq> 0 then NOT v AND 0x7FFF else v AND 0x7FFF)"

text \<open>The borrow that gives the low word the sign of the high word.\<close>

definition align_signs :: "u16 \<Rightarrow> u16 \<Rightarrow> u16 \<times> u16" where
  "align_signs high low =
     (if low AND 0x4000 \<noteq> high AND 0x4000 then
        if low = 0 \<or> low = 0x7FFF then (high, if high AND 0x4000 = 0 then 0 else 0x7FFF)
        else let negative = (high AND 0x4000 \<noteq> 0);
                 (high, low) = (if negative then (NOT high AND 0x7FFF, NOT low AND 0x7FFF) else (high, low));
                 high = high - 1;
                 low = (low + 0x4001) AND 0x7FFF
             in if negative then (NOT high AND 0x7FFF, NOT low AND 0x7FFF) else (high, low)
      else (high, low))"

definition sp_to_decent :: "u16 \<Rightarrow> u16 \<Rightarrow> u32" where
  "sp_to_decent high low =
     (if high = 0 \<or> high = 0x7FFF then
        let v = (ucast (sign_extend_raw low) :: u32);
            v = (if v AND 0x8000 \<noteq> 0 then v OR 0xFFFF0000 else v)
        in v AND 0x3FFFFFFF
      else
        let (high, low) = align_signs high low;
            v = (0x1FFFC000 AND push_bit 14 (ucast high :: u32)) OR ucast (low AND 0x3FFF)
        in if v AND 0x10000000 \<noteq> 0 then v OR 0x20000000 else v)"

definition normalize_double :: "u16 \<Rightarrow> u16 \<Rightarrow> u16 \<times> u16 \<times> u32" where
  "normalize_double a l =
     (let decent = sp_to_decent (raw (overflow_correct_raw a)) l;
          sign = (decent AND 0x20000000 \<noteq> 0);
          low = (ucast decent AND 0x3FFF) OR (if sign then 0x4000 else 0);
          high = raw (overflow_correct_raw (ucast (drop_bit 14 decent)))
      in (high, low, decent))"

definition agc_double_to_i64 :: "u32 \<Rightarrow> int" where
  "agc_double_to_i64 v =
     (if v AND 0x10000000 \<noteq> 0 then - uint (NOT v AND 0x0FFFFFFF) else uint (v AND 0x0FFFFFFF))"

definition register_overflow_sign :: "u16 \<Rightarrow> int" where
  "register_overflow_sign v =
     (if v AND 0xC000 = 0x4000 then 1 else if v AND 0xC000 = 0x8000 then - 1 else 0)"

text \<open>One round of the restoring division: quotient and remainder.\<close>

definition divide_round :: "u16 \<Rightarrow> u16 \<times> u16 \<Rightarrow> u16 \<times> u16" where
  "divide_round divisor qr =
     (let quotient = push_bit 1 (fst qr);
          remainder_sign = snd qr AND 0x8000;
          remainder = remainder_sign OR push_bit 1 (snd qr AND 0x3FFF);
          remainder = (if quotient AND 0x8000 = 0 then remainder OR drop_bit 15 remainder_sign else remainder);
          sum = add_sp16 remainder divisor
      in if sum AND 0x8000 \<noteq> 0 then (quotient OR 1, sum) else (quotient, remainder))"

definition simulate_divide :: "u16 \<Rightarrow> u16 \<Rightarrow> u16 \<Rightarrow> u16 \<times> u16" where
  "simulate_divide acc low divisor =
     (let dividend_sign = acc AND 0x8000;
          a = (if dividend_sign = 0 then NOT acc else acc);
          dividend_sign = (if a = 0xFFFF then low AND 0x8000 else dividend_sign);
          l = (if dividend_sign \<noteq> 0 then NOT low else low);
          l = add_sp16 l 0x4000;
          a = (if register_overflow_sign l \<noteq> 1 then add_sp16 a 1 else a);
          divisor_sign = divisor AND 0x8000;
          divisor = (if divisor_sign \<noteq> 0 then NOT divisor else divisor);
          quotient_sign = l AND 0x8000;
          start = quotient_sign OR push_bit 1 (l AND 0x3FFF) OR drop_bit 15 quotient_sign;
          (quotient, remainder) = (divide_round divisor ^^ 14) (start, a);
          a = quotient_sign OR (quotient AND 0x7FFF)
      in (if dividend_sign = divisor_sign then a else NOT a,
          if dividend_sign \<noteq> 0 then remainder else NOT remainder))"

section \<open>Instruction routines\<close>

definition ccs :: "u16 \<Rightarrow> (exec_state, cpu_error, unit) prog" where
  "ccs k =
     and_then (read_register_operand_and_edit k) (\<lambda>v.
     let magnitude = (if reg_raw v AND 0x8000 = 0 then reg_raw v else NOT (reg_raw v));
         by_class = (case word_sign_class (overflow_correct v) of
             PositiveZero \<Rightarrow> on_cpu (skip_words 1)
           | NegativeZero \<Rightarrow> on_cpu (skip_words 3)
           | Negative \<Rightarrow> on_cpu (skip_words 2)
           | Positive \<Rightarrow> ok ())
     in seq (on_cpu (set_a_raw (if magnitude = 0 then 0 else magnitude - 1)))
          (if k < REG_EB \<and> reg_raw v AND 0xC000 = 0x4000 then ok ()
           else if k < REG_EB \<and> reg_raw v AND 0xC000 = 0x8000 then on_cpu (skip_words 2)
           else by_class))"

definition transfer_to_storage :: "u16 \<Rightarrow> (exec_state, cpu_error, unit) prog" where
  "transfer_to_storage k =
     and_then (on_cpu a_register) (\<lambda>accumulator.
     let ov = reg_raw accumulator AND 0xC000
     in if k = REG_A then when_do (ov = 0x4000 \<or> ov = 0x8000) (on_cpu (skip_words 1))
        else if k = REG_Z then
          seq (on_cpu (set_z (reg_raw accumulator AND 0xFFF)))
            (if ov = 0x4000 then on_cpu (set_a_word (from_raw_truncate 1))
             else if ov = 0x8000 then on_cpu (set_a_word (from_raw_truncate 0x7FFE))
             else ok ())
        else
          seq (write_register_operand k accumulator)
            (if ov = 0x4000 then seq (on_cpu (set_a_word (from_raw_truncate 1))) (on_cpu (skip_words 1))
             else if ov = 0x8000 then seq (on_cpu (set_a_word (from_raw_truncate 0x7FFE))) (on_cpu (skip_words 1))
             else ok ()))"

definition predecessor :: "u16 \<Rightarrow> u16" where
  "predecessor k = (if k = 0 then 0 else k - 1)"

definition das :: "u16 \<Rightarrow> (exec_state, cpu_error, unit) prog" where
  "das k =
     (if k = REG_L then
        and_then (on_cpu l_register) (\<lambda>l.
        and_then (on_cpu a_register) (\<lambda>a.
        let low = register_wrapping_add l l;
            high = add_double_precision_carry (register_wrapping_add a a) low
        in seq (on_cpu (set_a_register high))
               (on_cpu (set_l_register (sign_extend (overflow_correct low))))))
      else
        let high_address = predecessor k; low_address = k in
        and_then (read_register_operand low_address) (\<lambda>memory_low.
        and_then (read_register_operand high_address) (\<lambda>memory_high.
        and_then (on_cpu a_register) (\<lambda>a.
        and_then (on_cpu l_register) (\<lambda>l.
        let high = register_wrapping_add a memory_high;
            low = register_wrapping_add l memory_low;
            high = (if has_overflow low then add_double_precision_carry high low else high);
            low = sign_extend (overflow_correct low)
        in seq (on_cpu (set_a_raw (if reg_raw high AND 0xC000 = 0x8000 then 0xFFFE
                                   else if reg_raw high AND 0xC000 = 0x4000 then 1 else 0))) (
           seq (on_cpu (set_l_word POSITIVE_ZERO)) (
           seq (write_register_operand low_address low)
               (write_register_operand high_address high))))))))"

definition double_load :: "u16 \<Rightarrow> bool \<Rightarrow> (exec_state, cpu_error, unit) prog" where
  "double_load k negate =
     (if k = REG_L then
        if negate then
          and_then (on_cpu a_raw) (\<lambda>a.
          seq (on_cpu (set_a_raw (NOT a))) (
          and_then (on_cpu l_register) (\<lambda>l.
          on_cpu (set_l_register (sign_extend (overflow_correct (register_from_raw (NOT (reg_raw l)))))))))
        else
          and_then (on_cpu l_register) (\<lambda>l.
          on_cpu (set_l_register (sign_extend (overflow_correct l))))
      else
        and_then (read_register_operand_and_edit k) (\<lambda>low.
        and_then (read_register_operand_and_edit (predecessor k)) (\<lambda>high.
        let low = (if negate then register_from_raw (NOT (reg_raw low)) else low);
            high = (if negate then register_from_raw (NOT (reg_raw high)) else high)
        in seq (on_cpu (set_l_register (sign_extend (overflow_correct low))))
               (on_cpu (set_a_register high)))))"

definition double_exchange :: "u16 \<Rightarrow> (exec_state, cpu_error, unit) prog" where
  "double_exchange k =
     (if k = REG_L then
        and_then (on_cpu l_register) (\<lambda>l.
        on_cpu (set_l_register (sign_extend (overflow_correct l))))
      else
        and_then (read_register_operand k) (\<lambda>memory_low.
        and_then (on_cpu l_register) (\<lambda>old_l.
        seq (write_register_operand k old_l) (
        seq (on_cpu (set_l_register (sign_extend (overflow_correct memory_low)))) (
        and_then (read_register_operand (predecessor k)) (\<lambda>memory_high.
        and_then (on_cpu a_register) (\<lambda>old_a.
        seq (write_register_operand (predecessor k) old_a)
            (on_cpu (set_a_register memory_high)))))))))"

definition exchange_register :: "u16 \<Rightarrow> u16 \<Rightarrow> (exec_state, cpu_error, unit) prog" where
  "exchange_register k register_index =
     (if k = register_index then ok ()
      else if k = REG_ZERO \<and> register_index \<noteq> REG_A then
        on_cpu (cpu_set_central_register register_index (register_from_raw 0))
      else
        and_then (read_register_operand k) (\<lambda>memory_value.
        and_then (on_cpu (try_memory (central_register register_index))) (\<lambda>register_value.
        seq (write_register_operand k register_value)
            (on_cpu (cpu_set_central_register register_index memory_value)))))"

definition cpu_mask :: "u16 \<Rightarrow> (exec_state, cpu_error, unit) prog" where
  "cpu_mask k =
     (if k < REG_EB then
        and_then (read_register_operand k) (\<lambda>rhs.
        and_then (on_cpu a_raw) (\<lambda>a.
        on_cpu (set_a_raw (a AND reg_raw rhs))))
      else
        and_then (read_word k) (\<lambda>rhs.
        and_then (on_cpu a_word) (\<lambda>a.
        on_cpu (set_a_word (from_raw_truncate (raw a AND raw rhs))))))"

definition multiply :: "u16 \<Rightarrow> (exec_state, cpu_error, unit) prog" where
  "multiply k =
     and_then (on_cpu a_word) (\<lambda>a.
     and_then (read_word k) (\<lambda>rhs.
     let negative = (is_negative a \<noteq> is_negative rhs);
         magnitude = \<bar>to_i32_lossy_zero a\<bar> * \<bar>to_i32_lossy_zero rhs\<bar>
     in if magnitude = 0 \<and> negative \<and> is_zero a \<and> \<not> is_zero rhs then
          seq (on_cpu (set_a_word NEGATIVE_ZERO)) (on_cpu (set_l_word NEGATIVE_ZERO))
        else case from_i64 (if negative then - magnitude else magnitude) of
            Inl e \<Rightarrow> fail (Arithmetic (word_error_display e))
          | Inr result \<Rightarrow>
              seq (on_cpu (set_a_word (dw_high result))) (on_cpu (set_l_word (dw_low result)))))"

text \<open>The divisor that \<open>DV\<close> uses for each operand address.\<close>

definition select_divisor :: "u16 \<Rightarrow> u16 \<Rightarrow> u16 \<Rightarrow> u16 \<Rightarrow> agc_word \<Rightarrow> (cpu, cpu_error, u16) prog" where
  "select_divisor k a l abs_a divisor_word =
     (let dividend_negative = (if abs_a = 0 then l AND 0x8000 \<noteq> 0 else a AND 0x8000 \<noteq> 0)
      in if k = REG_A then ok (if a AND 0x8000 = 0 then NOT a else a)
         else if k = REG_L then
           ok (reg_raw (sign_extend (overflow_correct_raw (add_sp16 (if dividend_negative then NOT l else l) 0x4000))))
         else if k = REG_Z then
           and_then program_counter (\<lambda>pc. ok (if dividend_negative then pc OR 0x8000 else pc))
         else if k < REG_EB then and_then (try_memory (central_register k)) (\<lambda>r. ok (reg_raw r))
         else ok (reg_raw (sign_extend divisor_word)))"

definition cpu_divide :: "u16 \<Rightarrow> (exec_state, cpu_error, unit) prog" where
  "cpu_divide k =
     and_then (read_word k) (\<lambda>operand.
     and_then (on_cpu a_raw) (\<lambda>a.
     and_then (on_cpu l_register) (\<lambda>l_reg.
     let l = reg_raw l_reg;
         (normalized_high, normalized_low, decent) = normalize_double a l;
         abs_a = absolute_sp normalized_high;
         abs_l = absolute_sp normalized_low
     in and_then (on_cpu (select_divisor k a l abs_a operand)) (\<lambda>divisor.
        let divisor_word = overflow_correct_raw divisor;
            abs_k = absolute_sp (raw divisor_word)
        in if abs_k < abs_a \<or> (abs_a = abs_k \<and> abs_l \<noteq> 0) \<or> has_overflow (register_from_raw divisor) then
             let (a', l') = simulate_divide a l divisor
             in seq (on_cpu (set_a_raw a')) (on_cpu (set_l_register (register_from_raw l')))
           else if abs_a = 0 \<and> abs_l = 0 then
             let same_sign = (normalized_low AND 0x4000 = raw divisor_word AND 0x4000)
             in on_cpu (set_a_word (if same_sign then if abs_k = 0 then WORD_MAX else POSITIVE_ZERO
                                    else if abs_k = 0 then WORD_MIN else NEGATIVE_ZERO))
           else if abs_a = abs_k \<and> abs_l = 0 then
             seq (on_cpu (set_l_word (from_raw_truncate normalized_high)))
                 (on_cpu (set_a_word (if normalized_high = raw divisor_word then WORD_MAX else WORD_MIN)))
           else
             let dividend = agc_double_to_i64 decent;
                 d = to_i32_lossy_zero divisor_word;
                 quotient = signed_divide dividend d;
                 remainder = signed_modulo dividend d
             in if d = 0 then panic
                else case from_i32 quotient of
                    Inl e \<Rightarrow> fail (Arithmetic (word_error_display e))
                  | Inr q \<Rightarrow>
                      seq (on_cpu (set_a_word q))
                        (if remainder = 0 then
                           on_cpu (set_l_word (if dividend < 0 then NEGATIVE_ZERO else POSITIVE_ZERO))
                         else case from_i32 remainder of
                             Inl e \<Rightarrow> fail (Arithmetic (word_error_display e))
                           | Inr r \<Rightarrow> on_cpu (set_l_word r))))))"

definition modular_subtract :: "u16 \<Rightarrow> (exec_state, cpu_error, unit) prog" where
  "modular_subtract k =
     and_then (read_word_and_edit k) (\<lambda>rhs.
     and_then (on_cpu a_word) (\<lambda>lhs.
     let twos = (raw lhs - raw rhs) AND 0x7FFF;
         ones = (if twos AND 0x4000 \<noteq> 0 then (twos - 1) AND 0x7FFF else twos)
     in on_cpu (set_a_word (from_raw_truncate ones))))"

datatype channel_logic = AndRead | OrRead | XorRead | AndWrite | OrWrite

definition logic_result :: "channel_logic \<Rightarrow> u16 \<Rightarrow> u16 \<Rightarrow> u16" where
  "logic_result operation a b = (case operation of
       AndRead \<Rightarrow> a AND b | AndWrite \<Rightarrow> a AND b
     | OrRead \<Rightarrow> a OR b | OrWrite \<Rightarrow> a OR b
     | XorRead \<Rightarrow> a XOR b)"

definition cpu_channel_logic :: "u16 \<Rightarrow> channel_logic \<Rightarrow> (exec_state, cpu_error, unit) prog" where
  "cpu_channel_logic channel operation =
     (if channel = REG_L \<or> channel = REG_Q then
        and_then (on_cpu (try_memory (central_register channel))) (\<lambda>current.
        and_then (on_cpu a_register) (\<lambda>accumulator.
        let result = register_from_raw (logic_result operation (reg_raw accumulator) (reg_raw current))
        in seq (on_cpu (set_a_register result))
               (when_do (operation \<in> {AndWrite, OrWrite})
                  (on_cpu (cpu_set_central_register channel result)))))
      else
        and_then (cpu_read_channel channel) (\<lambda>current.
        and_then (on_cpu a_word) (\<lambda>a.
        let result = from_raw_truncate (logic_result operation (raw a) (raw current))
        in seq (on_cpu (set_a_word result))
               (when_do (operation \<in> {AndWrite, OrWrite}) (cpu_write_channel channel result)))))"

definition resume :: "(exec_state, cpu_error, unit) prog" where
  "resume =
     and_then (on_cpu (try_memory (central_register REG_ZRUPT))) (\<lambda>r.
     seq (on_cpu (set_z (((reg_raw r AND 0xFFF) - 1) AND 0xFFF))) (
     seq (on_cpu (modify (\<lambda>c. c\<lparr>substitute_instruction := True, in_interrupt := False, extended := False\<rparr>)))
         (push_interrupt Resumed)))"

section \<open>Execution\<close>

text \<open>
  \<open>EDRUPT\<close> is committed as an interrupt entry before this point; the source marks its
  arm unreachable.
\<close>

definition execute :: "decoded_instruction \<Rightarrow> (exec_state, cpu_error, unit) prog" where
  "execute instruction =
     (let k = di_operand instruction;
          plus_one = sign_extend (from_raw_truncate 1);
          minus_one = sign_extend (from_raw_truncate 0x7FFE)
      in case di_mnemonic instruction of
        Ad \<Rightarrow> and_then (read_register_operand_and_edit k) (\<lambda>v. on_cpu (add_register_to_a v))
      | Ads \<Rightarrow> and_then (read_register_operand k) (\<lambda>v.
          seq (on_cpu (add_register_to_a v)) (
          and_then (on_cpu a_register) (\<lambda>a. write_register_operand k a)))
      | Aug \<Rightarrow> and_then (read_register_operand k) (\<lambda>v.
          write_register_operand k
            (register_wrapping_add v (if reg_raw v AND 0x8000 = 0 then plus_one else minus_one)))
      | Bzf \<Rightarrow> and_then (on_cpu a_raw) (\<lambda>a. when_do (a = 0 \<or> a = 0xFFFF) (on_cpu (set_z k)))
      | Bzmf \<Rightarrow> and_then (on_cpu a_raw) (\<lambda>a.
          when_do (a = 0 \<or> a AND 0x8000 \<noteq> 0) (on_cpu (set_z k)))
      | Ca \<Rightarrow> and_then (read_register_operand_and_edit k) (\<lambda>v. on_cpu (set_a_register v))
      | Ccs \<Rightarrow> ccs k
      | Cs \<Rightarrow> and_then (read_register_operand_and_edit k) (\<lambda>v. on_cpu (set_a_raw (NOT (reg_raw v))))
      | Das \<Rightarrow> das k
      | Dca \<Rightarrow> double_load k False
      | Dcs \<Rightarrow> double_load k True
      | Dim \<Rightarrow> and_then (read_register_operand k) (\<lambda>v.
          when_do (reg_raw v \<noteq> 0 \<and> reg_raw v \<noteq> 0xFFFF)
            (write_register_operand k
              (register_wrapping_add v (if reg_raw v AND 0x8000 = 0 then minus_one else plus_one))))
      | Dv \<Rightarrow> cpu_divide k
      | Dxch \<Rightarrow> double_exchange k
      | EdrupT \<Rightarrow> panic
      | Extend \<Rightarrow> on_cpu (modify (extended_update (\<lambda>_. True)))
      | Incr \<Rightarrow> and_then (read_register_operand k) (\<lambda>v.
          write_register_operand k (register_wrapping_add v plus_one))
      | Index \<Rightarrow> and_then (read_word k) (\<lambda>v.
          on_cpu (modify (\<lambda>c. c\<lparr>indexed := Some v, extended := di_extended instruction\<rparr>)))
      | Inhint \<Rightarrow> on_cpu (modify (interrupt_enabled_update (\<lambda>_. False)))
      | Lxch \<Rightarrow> exchange_register k REG_L
      | Mask \<Rightarrow> cpu_mask k
      | Mp \<Rightarrow> multiply k
      | Msu \<Rightarrow> modular_subtract k
      | Qxch \<Rightarrow> exchange_register k REG_Q
      | Rand \<Rightarrow> cpu_channel_logic k AndRead
      | Read \<Rightarrow>
          if k = REG_L \<or> k = REG_Q
          then and_then (on_cpu (try_memory (central_register k))) (\<lambda>v. on_cpu (set_a_register v))
          else and_then (cpu_read_channel k) (\<lambda>v. on_cpu (set_a_word v))
      | Relint \<Rightarrow> on_cpu (modify (interrupt_enabled_update (\<lambda>_. True)))
      | Resume \<Rightarrow> resume
      | Ror \<Rightarrow> cpu_channel_logic k OrRead
      | Rxor \<Rightarrow> cpu_channel_logic k XorRead
      | Su \<Rightarrow> and_then (read_register_operand_and_edit k) (\<lambda>v.
          on_cpu (add_register_to_a (register_from_raw (NOT (reg_raw v)))))
      | Tc \<Rightarrow> and_then (on_cpu program_counter) (\<lambda>return_address.
          seq (when_do (k \<noteq> REG_Q) (on_cpu (set_q_raw return_address))) (on_cpu (set_z k)))
      | Tcf \<Rightarrow> on_cpu (set_z k)
      | Ts \<Rightarrow> transfer_to_storage k
      | Wand \<Rightarrow> cpu_channel_logic k AndWrite
      | Wor \<Rightarrow> cpu_channel_logic k OrWrite
      | Write \<Rightarrow>
          if k = REG_L \<or> k = REG_Q
          then and_then (on_cpu a_register) (\<lambda>a. on_cpu (cpu_set_central_register k a))
          else and_then (on_cpu a_word) (\<lambda>v. cpu_write_channel k v)
      | Xch \<Rightarrow> exchange_register k REG_A)"

section \<open>Timers\<close>

definition request_interrupt_event :: "interrupt \<Rightarrow> (exec_state, 'e, unit) prog" where
  "request_interrupt_event i =
     and_then (gets (\<lambda>x. i \<in> pending_interrupts (machine x))) (\<lambda>known.
     seq (on_cpu (modify (pending_interrupts_update (insert i))))
         (when_do (\<not> known) (push_interrupt (Requested (of_nat (interrupt_number i))))))"

definition increment_timer :: "u16 \<Rightarrow> interrupt \<Rightarrow> (exec_state, cpu_error, unit) prog" where
  "increment_timer address i =
     and_then (on_cpu (try_memory (read_memory address ReadAccess))) (\<lambda>current.
     let (next, overflow) = counter_pinc (ma_value current)
     in seq (when_do overflow (request_interrupt_event i)) (
        and_then (on_cpu (try_memory (write_memory address next))) push_memory))"

definition increment_time1 :: "(exec_state, cpu_error, nat) prog" where
  "increment_time1 =
     and_then (on_cpu (try_memory (read_memory 0x15 ReadAccess))) (\<lambda>time1.
     let (incremented, overflow) = counter_pinc (ma_value time1)
     in and_then (on_cpu (try_memory (write_memory 0x15 incremented))) (\<lambda>access.
        seq (push_memory access)
          (if overflow then
             and_then (on_cpu (try_memory (read_memory 0x14 ReadAccess))) (\<lambda>time2.
             and_then (on_cpu (try_memory (write_memory 0x14 (fst (counter_pinc (ma_value time2)))))) (\<lambda>access.
             seq (push_memory access) (ok 2)))
           else ok 1)))"

text \<open>Channel numbers known to be valid, as the \<open>expect\<close>s of the source claim.\<close>

definition known_channel :: "u16 \<Rightarrow> (cpu, 'e, channel_address) prog" where
  "known_channel n = expect (of_result (channel_address_new n))"

definition read_known_channel :: "u16 \<Rightarrow> (cpu, 'e, agc_word) prog" where
  "read_known_channel n = and_then (known_channel n) (\<lambda>c. in_memory (read_channel c))"

definition write_known_channel :: "u16 \<Rightarrow> agc_word \<Rightarrow> (cpu, 'e, unit) prog" where
  "write_known_channel n v = and_then (known_channel n) (\<lambda>c. in_memory (write_channel c v))"

definition service_handrupt_traps :: "(exec_state, 'e, unit) prog" where
  "service_handrupt_traps =
     and_then (on_cpu (read_known_channel 0x19)) (\<lambda>channel31.
     and_then (on_cpu (read_known_channel 0x1A)) (\<lambda>channel32.
     and_then (gets (\<lambda>x. (trap_31a (machine x) \<and> raw channel31 AND 0x3F \<noteq> 0x3F,
                         trap_31b (machine x) \<and> raw channel31 AND 0xFC0 \<noteq> 0xFC0,
                         trap_32 (machine x) \<and> raw channel32 AND 0x3FF \<noteq> 0x3FF))) (\<lambda>(a, b, c).
     seq (on_cpu (modify (\<lambda>m. m\<lparr>trap_31a := trap_31a m \<and> \<not> a, trap_31b := trap_31b m \<and> \<not> b,
                                  trap_32 := trap_32 m \<and> \<not> c\<rparr>)))
         (when_do (a \<or> b \<or> c) (request_interrupt_event Handrupt)))))"

definition service_timers :: "u16 \<Rightarrow> (exec_state, cpu_error, nat) prog" where
  "service_timers scale =
     (if scale AND 0x1F = 0 then seq (increment_timer 0x18 Time5) (ok 1)
      else if scale AND 0x1F = 8 then seq (increment_timer 0x17 Time4) (ok 1)
      else if scale AND 0x1F = 16 then
        and_then increment_time1 (\<lambda>mcts. seq (increment_timer 0x16 Time3) (ok (mcts + 1)))
      else ok 0)"

definition service_time6 :: "u16 \<Rightarrow> (exec_state, cpu_error, nat) prog" where
  "service_time6 scale =
     and_then (on_cpu (read_known_channel 0xB)) (\<lambda>channel13.
     if scale AND 1 = 1 \<and> raw channel13 AND 0x4000 \<noteq> 0 then
       and_then (on_cpu (try_memory (read_memory 0x19 ReadAccess))) (\<lambda>access.
       let time6 = ma_value access
       in if is_zero time6 then
            let cleared = from_raw_truncate (raw channel13 AND NOT 0x4000)
            in seq (request_interrupt_event Time6) (
               seq (on_cpu (write_known_channel 0xB cleared)) (
               seq (push_io True 0xB cleared) (ok 1)))
          else
            let delta = (if is_negative time6 then from_raw_truncate 1 else from_raw_truncate 0x7FFE)
            in and_then (on_cpu (try_memory (write_memory 0x19 (wrapping_add time6 delta)))) (\<lambda>access.
               seq (push_memory access) (ok 1)))
     else ok 0)"

definition scaler_tick :: "nat \<Rightarrow> (exec_state, cpu_error, nat) prog" where
  "scaler_tick delay =
     seq (on_cpu (modify (\<lambda>c. c\<lparr>scaler_mcts := scaler_mcts c - 80,
                                  scaler := (scaler c + 1) AND 0x3FFF\<rparr>))) (
     and_then (gets (\<lambda>x. scaler (machine x))) (\<lambda>scale.
     seq (on_cpu (write_known_channel 4 (from_raw_truncate scale))) (
     seq (when_do (scale = 0)
            (and_then (on_cpu (read_known_channel 3)) (\<lambda>scaler2.
             on_cpu (write_known_channel 3 (from_raw_truncate (raw scaler2 + 1)))))) (
     and_then (service_timers scale) (\<lambda>timers.
     and_then (service_time6 scale) (\<lambda>time6.
     seq service_handrupt_traps (ok (delay + timers + time6))))))))"

text \<open>
  \<open>scaler_mcts\<close> is a \<open>u16\<close>, so its loop runs at most 819 times; the delay, at most
  four per round, is a natural number.
\<close>

definition service_scaler :: "(exec_state, cpu_error, nat) prog" where
  "service_scaler = while_loop 820 (\<lambda>delay x. 80 \<le> scaler_mcts (machine x)) scaler_tick 0"

definition service_downrupt_due :: "(exec_state, 'e, unit) prog" where
  "service_downrupt_due =
     and_then (gets (\<lambda>x. case downrupt_due (machine x) of
         None \<Rightarrow> False | Some due \<Rightarrow> due \<le> cycles (machine x))) (\<lambda>due.
     when_do due
       (seq (on_cpu (modify (downrupt_due_update (\<lambda>_. None)))) (request_interrupt_event Downrupt)))"

text \<open>\<open>scaler_mcts += 3\<close> on a \<open>u16\<close> panics when it overflows.\<close>

definition clock_deferred_mct :: "(exec_state, 'e, unit) prog" where
  "clock_deferred_mct =
     seq service_downrupt_due (
     seq (on_cpu (modify (cycles_update Suc))) (
     and_then (gets (\<lambda>x. scaler_mcts (machine x))) (\<lambda>mcts.
     if unat mcts + 3 < 65536 then on_cpu (modify (scaler_mcts_update (\<lambda>_. mcts + 3))) else panic)))"

text \<open>
  The loop of \<open>advance_to_ready_mct\<close>: a clock, a scaler service, and, while the service
  asks for a delay, its remaining clocks and another round.
\<close>

fun advance_rounds :: "nat \<Rightarrow> (exec_state, cpu_error, unit) prog" where
  "advance_rounds 0 = panic"
| "advance_rounds (Suc fuel) =
     seq clock_deferred_mct (
     and_then service_scaler (\<lambda>delay.
     if delay = 0 then ok () else seq (repeat_do (delay - 1) clock_deferred_mct) (advance_rounds fuel)))"

definition ADVANCE_FUEL :: nat where "ADVANCE_FUEL = 16"

definition advance_to_ready_mct :: "(exec_state, cpu_error, unit) prog" where
  "advance_to_ready_mct = advance_rounds ADVANCE_FUEL"

definition schedule_completed_downrupt :: "(cpu, 'e, unit) prog" where
  "schedule_completed_downrupt =
     modify (\<lambda>c. if schedule_downrupt c
                 then c\<lparr>downrupt_due := Some (cycles c + 1706), schedule_downrupt := False\<rparr> else c)"

section \<open>Steps\<close>

definition accept_interrupt ::
  "decoded_instruction \<Rightarrow> u16 \<Rightarrow> (cpu, cpu_error, (interrupt option \<times> u16) option) prog" where
  "accept_interrupt instruction pc =
     and_then a_register (\<lambda>a.
     and_then (gets (\<lambda>c. interrupt_enabled c \<and> \<not> in_interrupt c \<and> \<not> extended c \<and> \<not> has_overflow a
         \<and> raw (di_raw instruction) \<notin> {3, 4, 6})) (\<lambda>maskable.
     let edrupt = (di_mnemonic instruction = EdrupT)
     in if \<not> edrupt \<and> \<not> maskable then ok None
        else
          and_then (gets (\<lambda>c. pop_first (pending_interrupts c))) (\<lambda>(accepted, rest).
          seq (modify (pending_interrupts_update (\<lambda>_. rest)))
            (if accepted = None \<and> \<not> edrupt then ok None
             else
               let target = (case accepted of None \<Rightarrow> 0 | Some i \<Rightarrow> vector i);
                   zrupt = (pc + 1) AND 0xFFF
               in seq (try_memory (set_central_register REG_ZRUPT (register_from_raw zrupt))) (
                  seq (try_memory (set_central_register REG_BRUPT (sign_extend (di_raw instruction)))) (
                  seq (set_z target) (
                  seq (modify (\<lambda>c. c\<lparr>in_interrupt := True, indexed := None,
                                     substitute_instruction := False, extended := False\<rparr>))
                      (ok (Some (accepted, target))))))))))"

text \<open>Running a computation on the event of the current step.\<close>

definition with_event ::
  "trace_event \<Rightarrow> (exec_state, 'e, 'a) prog \<Rightarrow> (cpu, 'e, 'a \<times> trace_event \<times> u16 option) prog" where
  "with_event e m = (\<lambda>c. case m \<lparr>machine = c, event = e, watch = None\<rparr> of
       None \<Rightarrow> None
     | Some (Inl x, s) \<Rightarrow> Some (Inl x, machine s)
     | Some (Inr a, s) \<Rightarrow> Some (Inr (a, event s, watch s), machine s))"

definition commit_event :: "(exec_state, cpu_error, unit) prog" where
  "commit_event =
     and_then (gets (\<lambda>x. cycles (machine x))) (\<lambda>now.
     and_then (on_cpu snapshot) (\<lambda>after.
     seq (set_event (\<lambda>e. e\<lparr>te_cycle_end := now, te_after := after\<rparr>)) (
     and_then (gets event) (\<lambda>e.
     on_cpu (zoom trace (\<lambda>t c. c\<lparr>trace := t\<rparr>) CpuTrace (push e))))))"

definition step_interrupt :: "bool \<Rightarrow> interrupt option \<Rightarrow> u16 \<Rightarrow> (exec_state, cpu_error, step_kind) prog" where
  "step_interrupt used_extended accepted target =
     seq (set_event (\<lambda>e. e\<lparr>te_kind := InterruptEntry, te_mnemonic := ''INTERRUPT'',
            te_operand := target, te_extended := used_extended\<rparr>)) (
     seq (push_interrupt (Entered (case accepted of None \<Rightarrow> 0 | Some i \<Rightarrow> of_nat (interrupt_number i)) target)) (
     seq clock_deferred_mct (
     seq commit_event (
     seq (on_cpu (modify (trace_sequence_update Suc)))
         (ok (StepInterruptEntry accepted target))))))"

definition step_instruction :: "decoded_instruction \<Rightarrow> u16 \<Rightarrow> (exec_state, cpu_error, step_kind) prog" where
  "step_instruction instruction pc =
     seq (when_do (1 < unat (di_cycles instruction))
            (seq (repeat_do (unat (di_cycles instruction) - 2) clock_deferred_mct) advance_to_ready_mct)) (
     seq (on_cpu (modify (\<lambda>c. c\<lparr>substitute_instruction := False, indexed := None, extended := False\<rparr>))) (
     seq (on_cpu (set_z ((pc + 1) AND 0xFFF))) (
     seq (set_event (\<lambda>e. e\<lparr>te_mnemonic := as_str (di_mnemonic instruction),
            te_operand := di_operand instruction, te_extended := di_extended instruction\<rparr>)) (
     seq (execute instruction) (
     and_then (on_cpu l_register) (\<lambda>l.
     seq (on_cpu (set_l_register (sign_extend (overflow_correct l)))) (
     seq (on_cpu schedule_completed_downrupt) (
     seq commit_event (
     seq (on_cpu (modify (\<lambda>c. c\<lparr>sequence := sequence c + 1, trace_sequence := trace_sequence c + 1\<rparr>)))
         (ok (StepInstruction instruction)))))))))))"

definition step_body :: "decoded_instruction \<Rightarrow> u16 \<Rightarrow> bool \<Rightarrow> (exec_state, cpu_error, step_kind) prog" where
  "step_body instruction pc used_extended =
     seq advance_to_ready_mct (
     and_then (on_cpu (accept_interrupt instruction pc)) (\<lambda>entry.
     case entry of
       Some (accepted, target) \<Rightarrow> step_interrupt used_extended accepted target
     | None \<Rightarrow> step_instruction instruction pc))"

definition step :: "(cpu, cpu_error, step_outcome) prog" where
  "step =
     and_then program_counter (\<lambda>pc.
     and_then snapshot (\<lambda>before.
     and_then (gets (\<lambda>c. if substitute_instruction c then REG_BRUPT else pc)) (\<lambda>fetch_address.
     and_then (try_memory (read_memory fetch_address FetchAccess)) (\<lambda>fetch.
     and_then (gets (\<lambda>c. case indexed c of
         None \<Rightarrow> ma_value fetch | Some index \<Rightarrow> wrapping_add (ma_value fetch) index)) (\<lambda>actual_word.
     and_then (gets extended) (\<lambda>used_extended.
     and_then (gets (\<lambda>c. (trace_event_new (trace_sequence c) (cycles c) pc actual_word)
         \<lparr>te_before := before, te_memory := [memory_event_of fetch]\<rparr>)) (\<lambda>e.
     and_then (with_event e (step_body (decode actual_word used_extended) pc used_extended)) (\<lambda>(kind, e, w).
     ok \<lparr>so_kind = kind, so_trace = e, so_watchpoint = w\<rparr>))))))))"

text \<open>
  The loop of \<open>run\<close>.  An interrupt entry counts no instruction, so the loop may make more
  rounds than the limit; the fuel is proved sufficient below.
\<close>

fun run_rounds :: "nat \<Rightarrow> nat \<Rightarrow> nat \<Rightarrow> (cpu, cpu_error, run_outcome) prog" where
  "run_rounds 0 start limit = panic"
| "run_rounds (Suc fuel) start limit =
     and_then (gets (\<lambda>c. sequence c - start)) (\<lambda>executed.
     if limit \<le> executed
     then gets (\<lambda>c. \<lparr>ro_reason = InstructionLimit, ro_instructions = sequence c - start, ro_cycles = cycles c\<rparr>)
     else
       and_then program_counter (\<lambda>pc.
       and_then (gets (\<lambda>c. pc \<in> breakpoints c)) (\<lambda>hit.
       if hit
       then gets (\<lambda>c. \<lparr>ro_reason = Breakpoint pc, ro_instructions = sequence c - start, ro_cycles = cycles c\<rparr>)
       else
         and_then step (\<lambda>outcome.
         case so_watchpoint outcome of
           Some address \<Rightarrow>
             gets (\<lambda>c. \<lparr>ro_reason = Watchpoint address, ro_instructions = sequence c - start, ro_cycles = cycles c\<rparr>)
         | None \<Rightarrow> run_rounds fuel start limit))))"

definition run :: "nat \<Rightarrow> (cpu, cpu_error, run_outcome) prog" where
  "run instruction_limit =
     and_then (gets sequence) (\<lambda>start. run_rounds (2 * instruction_limit + 2) start instruction_limit)"

section \<open>Construction and control\<close>

definition cpu_initial :: "memory \<Rightarrow> cpu" where
  "cpu_initial m =
     \<lparr>cpu_memory = reset_volatile m, extended = False, indexed = None, substitute_instruction = False,
      interrupt_enabled = True, in_interrupt = False, pending_interrupts = {Downrupt}, cycles = 0,
      sequence = 0, breakpoints = {}, watchpoints = {}, trace = empty_log, scaler_mcts = 0, scaler = 0,
      downlink_words = 0, schedule_downrupt = False, downrupt_due = None, trace_sequence = 0,
      trap_31a = False, trap_31b = False, trap_32 = False\<rparr>"

definition cpu_new :: "memory \<Rightarrow> cpu option" where
  "cpu_new m = map_option snd ((set_z 0x800 :: (cpu, cpu_error, unit) prog) (cpu_initial m))"

definition cpu_reset :: "(cpu, 'e, unit) prog" where
  "cpu_reset =
     seq (modify (\<lambda>c. (cpu_initial (cpu_memory c))\<lparr>breakpoints := breakpoints c, watchpoints := watchpoints c\<rparr>))
         (set_z 0x800)"

definition take_trace :: "(cpu, 'e, trace_log) prog" where
  "take_trace = and_then (gets trace) (\<lambda>t. seq (modify (trace_update (\<lambda>_. empty_log))) (ok t))"

definition add_breakpoint :: "u16 \<Rightarrow> (cpu, cpu_error, unit) prog" where
  "add_breakpoint address =
     (if address > 0xFFF then fail (CpuMemory (AddressOutOfRange address))
      else modify (breakpoints_update (insert address)))"

definition remove_breakpoint :: "u16 \<Rightarrow> cpu \<Rightarrow> cpu" where
  "remove_breakpoint address c = c\<lparr>breakpoints := breakpoints c - {address}\<rparr>"

definition add_watchpoint :: "u16 \<Rightarrow> (cpu, cpu_error, unit) prog" where
  "add_watchpoint address =
     (if address > 0xFFF then fail (CpuMemory (AddressOutOfRange address))
      else modify (watchpoints_update (insert address)))"

definition request_interrupt :: "interrupt \<Rightarrow> cpu \<Rightarrow> cpu" where
  "request_interrupt i c = c\<lparr>pending_interrupts := insert i (pending_interrupts c)\<rparr>"

definition cancel_interrupt :: "interrupt \<Rightarrow> cpu \<Rightarrow> bool \<times> cpu" where
  "cancel_interrupt i c =
     (i \<in> pending_interrupts c, c\<lparr>pending_interrupts := pending_interrupts c - {i}\<rparr>)"

end
