(* ===== verification/Agc_Cpu_Laws.thy ===== *)
theory Agc_Cpu_Laws
  imports Agc_Cpu_Exec
begin

text \<open>
  Totality of the processor's routines: no instruction panics or reports an error on a
  well-formed state, and none of them touches the bookkeeping of the run.  The rules
  named \<open>keeps\<close> follow the source routine by routine.
\<close>

section \<open>Invariants\<close>

text \<open>
  The part of a CPU state a routine may rely on: a well-formed memory, a valid indexing word,
  scaler and downlink in range.  Routines are described relative to the control flags, the
  bookkeeping, the cycle count and the scaler fraction they leave alone.
\<close>

definition flags :: "cpu \<Rightarrow> bool \<times> bool \<times> agc_word option \<times> bool \<times> bool" where
  "flags c = (extended c, in_interrupt c, indexed c, interrupt_enabled c, substitute_instruction c)"

definition books :: "cpu \<Rightarrow> trace_log \<times> nat \<times> nat \<times> u16 set \<times> u16 set" where
  "books c = (trace c, trace_sequence c, sequence c, breakpoints c, watchpoints c)"

definition core_ok :: "cpu \<Rightarrow> bool" where
  "core_ok c \<longleftrightarrow> mem_ok (cpu_memory c) \<and> (\<forall>w. indexed c = Some w \<longrightarrow> word_ok w)
     \<and> unat (scaler c) < 16384 \<and> downlink_words c \<in> {0, 1, 2}"

definition header :: "trace_event \<Rightarrow> u32 \<times> nat \<times> nat" where
  "header e = (te_schema_version e, te_sequence e, te_cycle_start e)"

type_synonym control = "bool \<times> bool \<times> agc_word option \<times> bool \<times> bool"
type_synonym record_books = "trace_log \<times> nat \<times> nat \<times> u16 set \<times> u16 set"
type_synonym event_header = "u32 \<times> nat \<times> nat"

definition cpu_inv :: "control \<Rightarrow> record_books \<Rightarrow> nat \<Rightarrow> u16 \<Rightarrow> cpu \<Rightarrow> bool" where
  "cpu_inv f k n s c \<longleftrightarrow> core_ok c \<and> flags c = f \<and> books c = k \<and> cycles c = n \<and> scaler_mcts c = s"

definition exec_inv :: "control \<Rightarrow> record_books \<Rightarrow> nat \<Rightarrow> u16 \<Rightarrow> event_header \<Rightarrow> exec_state \<Rightarrow> bool" where
  "exec_inv f k n s h x \<longleftrightarrow> cpu_inv f k n s (machine x) \<and> header (event x) = h"

lemma cpu_inv_memory: "cpu_inv f k n s c \<Longrightarrow> mem_ok m \<Longrightarrow> cpu_inv f k n s (c\<lparr>cpu_memory := m\<rparr>)"
  by (simp add: cpu_inv_def core_ok_def flags_def books_def)

lemma cpu_inv_mem_ok: "cpu_inv f k n s c \<Longrightarrow> mem_ok (cpu_memory c)"
  by (simp add: cpu_inv_def core_ok_def)

lemma keeps_in_memory:
  "keeps mem_ok m P \<Longrightarrow> keeps (cpu_inv f k n s) (in_memory m) P"
  unfolding in_memory_def by (rule keeps_zoom [where J = mem_ok]) (auto intro: cpu_inv_memory cpu_inv_mem_ok)

lemma keeps_try_memory:
  "keeps mem_ok m P \<Longrightarrow> keeps (cpu_inv f k n s) (try_memory m) P"
  unfolding try_memory_def by (rule keeps_zoom [where J = mem_ok]) (auto intro: cpu_inv_memory cpu_inv_mem_ok)

lemma keeps_on_cpu:
  "keeps (cpu_inv f k n s) m P \<Longrightarrow> keeps (exec_inv f k n s h) (on_cpu m) P"
  unfolding on_cpu_def by (rule keeps_zoom [where J = "cpu_inv f k n s"]) (auto simp: exec_inv_def)

lemma keeps_set_event:
  assumes "\<And>e. header (f e) = header e"
  shows "keeps (exec_inv fl k n s h) (set_event f) (\<lambda>_. True)"
  unfolding set_event_def by (rule keeps_modify) (use assms in \<open>simp add: exec_inv_def\<close>)

lemma keeps_push [keeps_rules]:
  "keeps (exec_inv fl k n s h) (push_memory a) (\<lambda>_. True)"
  "keeps (exec_inv fl k n s h) (push_io w c v) (\<lambda>_. True)"
  "keeps (exec_inv fl k n s h) (push_interrupt i) (\<lambda>_. True)"
  unfolding push_memory_def push_io_def push_interrupt_def
  by (rule keeps_set_event; simp add: header_def)+

section \<open>Registers and accesses\<close>

lemma keeps_central_register: "unat i < 16 \<Longrightarrow> keeps mem_ok (central_register i) (\<lambda>_. True)"
  by (auto intro!: keepsI simp: runs_central_register)

lemma keeps_set_central_register: "unat i < 16 \<Longrightarrow> keeps mem_ok (set_central_register i v) (\<lambda>_. True)"
  by (auto intro!: keepsI simp: runs_set_central_register mem_ok_central central_ok_put mem_okD)

lemma keeps_cpu_register [keeps_rules]:
  "unat i < 16 \<Longrightarrow> keeps (cpu_inv f k n s) (cpu_register i) (\<lambda>_. True)"
  "unat i < 16 \<Longrightarrow> keeps (cpu_inv f k n s) (cpu_set_central_register i v) (\<lambda>_. True)"
  "unat i < 16 \<Longrightarrow> keeps (cpu_inv f k n s) (try_memory (central_register i)) (\<lambda>_. True)"
  "unat i < 16 \<Longrightarrow> keeps (cpu_inv f k n s) (try_memory (set_central_register i v)) (\<lambda>_. True)"
  unfolding cpu_register_def cpu_set_central_register_def
  by (auto intro!: keeps_in_memory keeps_try_memory keeps_expect keeps_central_register keeps_set_central_register)

lemma keeps_registers [keeps_rules]:
  "keeps (cpu_inv f k n s) a_register (\<lambda>_. True)"
  "keeps (cpu_inv f k n s) l_register (\<lambda>_. True)"
  "keeps (cpu_inv f k n s) (set_a_register v) (\<lambda>_. True)"
  "keeps (cpu_inv f k n s) (set_l_register v) (\<lambda>_. True)"
  "keeps (cpu_inv f k n s) (set_a_raw r) (\<lambda>_. True)"
  "keeps (cpu_inv f k n s) (set_a_word w) (\<lambda>_. True)"
  "keeps (cpu_inv f k n s) (set_l_word w) (\<lambda>_. True)"
  "keeps (cpu_inv f k n s) (set_q_raw r) (\<lambda>_. True)"
  "keeps (cpu_inv f k n s) (set_z r) (\<lambda>_. True)"
  unfolding a_register_def l_register_def set_a_register_def set_l_register_def set_a_raw_def
    set_a_word_def set_l_word_def set_q_raw_def set_z_def
  by (rule keeps_cpu_register; simp)+

lemma keeps_derived_registers [keeps_rules]:
  "keeps (cpu_inv f k n s) a_raw (\<lambda>_. True)"
  "keeps (cpu_inv f k n s) a_word word_ok"
  "keeps (cpu_inv f k n s) program_counter (\<lambda>pc. unat pc < 4096)"
  "keeps (cpu_inv f k n s) (add_register_to_a v) (\<lambda>_. True)"
  "keeps (cpu_inv f k n s) snapshot (\<lambda>_. True)"
  unfolding a_raw_def a_word_def program_counter_def add_register_to_a_def snapshot_def
  by (rule keeps_rules | simp add: unat_simps)+

lemma keeps_skip_words [keeps_rules]: "keeps (cpu_inv f k n s) (skip_words w) (\<lambda>_. True)"
  unfolding skip_words_def by (rule keeps_rules | simp)+

lemma keeps_read [keeps_rules]:
  "unat a < 4096 \<Longrightarrow> keeps (cpu_inv f k n s) (try_memory (read_memory a r)) (\<lambda>v. word_ok (ma_value v))"
  "unat a < 4096 \<Longrightarrow> keeps (cpu_inv f k n s) (try_memory (read_and_edit a r)) (\<lambda>v. word_ok (ma_value v))"
  by (auto intro!: keeps_try_memory logical.rd_total operand.rd_total)

lemma keeps_write [keeps_rules]:
  "unat a < 1024 \<Longrightarrow> word_ok v \<Longrightarrow> keeps (cpu_inv f k n s) (try_memory (write_memory a v)) (\<lambda>_. True)"
  by (auto intro!: keeps_try_memory logical.wr_total)

lemma keeps_words [keeps_rules]:
  "unat a < 4096 \<Longrightarrow> keeps (exec_inv f k n s h) (read_word a) word_ok"
  "unat a < 4096 \<Longrightarrow> keeps (exec_inv f k n s h) (read_word_and_edit a) word_ok"
  unfolding read_word_def read_word_and_edit_def
  by (auto intro!: keeps_rules keeps_on_cpu)

lemma less_EB [simp]: "a < REG_EB \<longleftrightarrow> unat a < 3"
  by (simp add: word_less_nat_alt)

lemma keeps_operands [keeps_rules]:
  "unat a < 4096 \<Longrightarrow> keeps (exec_inv f k n s h) (read_register_operand a) (\<lambda>_. True)"
  "unat a < 4096 \<Longrightarrow> keeps (exec_inv f k n s h) (read_register_operand_and_edit a) (\<lambda>_. True)"
  unfolding read_register_operand_def read_register_operand_and_edit_def operand_register_def
  by (auto intro!: keeps_rules keeps_on_cpu simp del: register_numbers)

lemma keeps_check_watchpoint [keeps_rules]:
  "keeps (exec_inv f k n s h) (check_watchpoint a) (\<lambda>_. True)"
  unfolding check_watchpoint_def
  by (auto intro!: keepsI simp: exec_inv_def)

lemma keeps_write_word [keeps_rules]:
  "unat a < 1024 \<Longrightarrow> word_ok v \<Longrightarrow> keeps (exec_inv f k n s h) (write_word a v) (\<lambda>_. True)"
  unfolding write_word_def by (auto intro!: keeps_rules keeps_on_cpu)

lemma keeps_write_register_operand [keeps_rules]:
  "unat a < 1024 \<Longrightarrow> keeps (exec_inv f k n s h) (write_register_operand a v) (\<lambda>_. True)"
  unfolding write_register_operand_def
  by (auto intro!: keeps_rules keeps_on_cpu simp del: register_numbers)

text \<open>The traced accesses of an instruction are a word store.\<close>

interpretation traced: word_store "exec_inv f k n s h" read_word write_word "\<lambda>v. v"
    "\<lambda>a. unat a < 4096" "\<lambda>a. unat a < 1024"
  by unfold_locales (auto intro: keeps_rules)

lemma channel_address_new_ok: "unat c < 512 \<Longrightarrow> channel_address_new c = Inr (ChannelAddress c)"
  by (simp add: channel_address_new_def bounded_new_def)

lemma keeps_channels [keeps_rules]:
  "unat c < 512 \<Longrightarrow> keeps (cpu_inv f k n s) (in_memory (read_channel (ChannelAddress c))) word_ok"
  "unat c < 512 \<Longrightarrow> word_ok v \<Longrightarrow> keeps (cpu_inv f k n s) (in_memory (write_channel (ChannelAddress c) v)) (\<lambda>_. True)"
  by (auto intro!: keeps_in_memory io.rd_total io.wr_total)

lemma keeps_cpu_read_channel [keeps_rules]:
  "unat c < 512 \<Longrightarrow> keeps (exec_inv f k n s h) (cpu_read_channel c) word_ok"
  unfolding cpu_read_channel_def
  by (auto intro!: keeps_rules keeps_on_cpu simp: channel_address_new_ok)

lemma keeps_arm_traps [keeps_rules]:
  "keeps (cpu_inv f k n s) (modify (\<lambda>c. c\<lparr>trap_31a := a c, trap_31b := b c, trap_32 := d c\<rparr>)) (\<lambda>_. True)"
  by (rule keeps_modify) (simp add: cpu_inv_def core_ok_def flags_def books_def)

lemma keeps_channel_write_value [keeps_rules]:
  "unat c < 512 \<Longrightarrow> word_ok v \<Longrightarrow> keeps (cpu_inv f k n s) (channel_write_value c (ChannelAddress c) v) word_ok"
  unfolding channel_write_value_def by (rule keeps_rules | simp)+

lemma note_downlink_ok: "cpu_inv f k n s c \<Longrightarrow> cpu_inv f k n s (note_downlink ch c)"
proof -
  assume c: "cpu_inv f k n s c"
  then have "downlink_words c \<in> {0, 1, 2}" by (simp add: cpu_inv_def core_ok_def)
  then have "downlink_words c OR 1 \<in> {0, 1, 2, 3} \<and> downlink_words c OR 2 \<in> {0, 1, 2, 3}" by auto
  with c show ?thesis
    by (auto simp: note_downlink_def cpu_inv_def core_ok_def flags_def books_def Let_def)
qed

lemma keeps_cpu_write_channel [keeps_rules]:
  assumes "unat c < 512" "word_ok v"
  shows "keeps (exec_inv f k n s h) (cpu_write_channel c v) (\<lambda>_. True)"
  unfolding cpu_write_channel_def channel_address_new_ok [OF assms(1)] sum.case
  by (rule keeps_rules keeps_on_cpu assms keeps_modify note_downlink_ok | simp)+

lemmas keeps_exec = keeps_rules keeps_on_cpu

lemma keeps_mem_accesses [keeps_rules]:
  "keeps (cpu_inv f k n s) (ok v) (\<lambda>_. True)"
  by (rule keeps_ok) simp

lemma predecessor_less: "unat k < b \<Longrightarrow> unat (predecessor k) < b"
proof -
  assume k: "unat k < b"
  show ?thesis
  proof (cases "k = 0")
    case False
    then have "unat (k - 1) = unat k - 1" by (simp add: unat_minus_one)
    then show ?thesis using k False by (simp add: predecessor_def)
  qed (use k in \<open>simp add: predecessor_def\<close>)
qed

lemma keeps_ccs [keeps_rules]:
  "unat k < 4096 \<Longrightarrow> keeps (exec_inv f b n s h) (ccs k) (\<lambda>_. True)"
  unfolding ccs_def Let_def
  by (rule keeps_exec | simp split del: if_split | (split sign_class.split, intro conjI impI))+

lemma keeps_transfer [keeps_rules]:
  "unat k < 1024 \<Longrightarrow> keeps (exec_inv f b n s h) (transfer_to_storage k) (\<lambda>_. True)"
  unfolding transfer_to_storage_def Let_def
  by (rule keeps_exec | simp split del: if_split)+

lemma keeps_das [keeps_rules]:
  "unat k < 1024 \<Longrightarrow> keeps (exec_inv f b n s h) (das k) (\<lambda>_. True)"
  unfolding das_def Let_def
  by (rule keeps_exec | simp add: predecessor_less split del: if_split)+

lemma keeps_double_load [keeps_rules]:
  "unat k < 4096 \<Longrightarrow> keeps (exec_inv f b n s h) (double_load k c) (\<lambda>_. True)"
  unfolding double_load_def Let_def
  by (rule keeps_exec | simp add: predecessor_less split del: if_split)+

lemma keeps_double_exchange [keeps_rules]:
  "unat k < 1024 \<Longrightarrow> keeps (exec_inv f b n s h) (double_exchange k) (\<lambda>_. True)"
  unfolding double_exchange_def
  by (rule keeps_exec | simp add: predecessor_less split del: if_split)+

lemma keeps_exchange_register [keeps_rules]:
  "unat k < 1024 \<Longrightarrow> unat r < 16 \<Longrightarrow> keeps (exec_inv f b n s h) (exchange_register k r) (\<lambda>_. True)"
  unfolding exchange_register_def
  by (rule keeps_exec | simp split del: if_split)+

lemma keeps_cpu_mask [keeps_rules]:
  "unat k < 4096 \<Longrightarrow> keeps (exec_inv f b n s h) (cpu_mask k) (\<lambda>_. True)"
  unfolding cpu_mask_def
  by (rule keeps_exec | simp split del: if_split)+

lemma keeps_modular_subtract [keeps_rules]:
  "unat k < 4096 \<Longrightarrow> keeps (exec_inv f b n s h) (modular_subtract k) (\<lambda>_. True)"
  unfolding modular_subtract_def Let_def
  by (rule keeps_exec | simp split del: if_split)+

lemma keeps_channel_logic [keeps_rules]:
  "unat c < 512 \<Longrightarrow> keeps (exec_inv f b n s h) (cpu_channel_logic c op) (\<lambda>_. True)"
  unfolding cpu_channel_logic_def Let_def
  by (rule keeps_exec | simp split del: if_split | fastforce)+

section \<open>Double-precision dividends\<close>

lemma overflow_correct_raw_eq: "overflow_correct_raw v = overflow_correct (AgcRegister v)"
proof -
  have "from_raw_truncate (raw (overflow_correct (AgcRegister v))) = overflow_correct (AgcRegister v)"
    by simp
  then show ?thesis by (simp add: overflow_correct_raw_def raw_overflow_correct)
qed

lemma complement_mod:
  assumes "(n :: nat) < 65536"
  shows "(65535 - n) mod 32768 = 32767 - n mod 32768"
proof (cases "n < 32768")
  case True
  then have "65535 - n = (32767 - n) + 32768" by simp
  then have "(65535 - n) mod 32768 = (32767 - n) mod 32768" by (simp only: mod_add_self2)
  then show ?thesis using True by simp
next
  case False
  then have "n mod 32768 = n - 32768" using assms by (simp add: le_mod_geq)
  then show ?thesis using False assms by simp
qed

lemma unat_absolute_sp:
  "unat (absolute_sp v) = (if bit v 14 then 32767 - unat v mod 32768 else unat v mod 32768)"
proof -
  have "unat (NOT v AND 0x7FFF) = 32767 - unat v mod 32768"
    by (simp only: unat_simps complement_mod [OF u16_less])
  moreover have "unat (v AND 0x7FFF) = unat v mod 32768" by (simp only: unat_simps)
  moreover have "v AND 0x4000 \<noteq> 0 \<longleftrightarrow> bit v 14" using top_bits_iff(4) [of v] by blast
  ultimately show ?thesis by (simp only: absolute_sp_def if_distrib [of unat] split: if_split)
qed

lemma absolute_sp_value:
  assumes "word_ok w"
  shows "int (unat (absolute_sp (raw w))) = \<bar>to_i32_lossy_zero w\<bar>"
  using word_okD [OF assms] assms
  by (auto simp: unat_absolute_sp bit_14_iff to_i32_unat)

text \<open>A dividend: thirty bits, the two above the magnitude equal.\<close>

definition decent_ok :: "u32 \<Rightarrow> bool" where
  "decent_ok d \<longleftrightarrow> bit d 28 = bit d 29"

lemma bit_sign_extend_raw: "bit (sign_extend_raw v) n \<longleftrightarrow> (if n = 15 then bit v 14 else n < 15 \<and> bit v n)"
  by (auto simp: sign_extend_raw_def Let_def bit_simps bit_masks bit_u16_double)

lemma u32_bit_test:
  fixes x :: u32
  shows "x AND 0x8000 \<noteq> 0 \<longleftrightarrow> bit x 15" "x AND 0x10000000 \<noteq> 0 \<longleftrightarrow> bit x 28" "x AND 0x20000000 \<noteq> 0 \<longleftrightarrow> bit x 29"
  using bit_iff_and_push_bit_not_eq_0 [of x 15] bit_iff_and_push_bit_not_eq_0 [of x 28]
    bit_iff_and_push_bit_not_eq_0 [of x 29] by simp_all

lemma bit_ucast_u16: "bit (ucast (x :: u16) :: u32) n \<longleftrightarrow> bit x n"
  using bit_u16_high [of n x] by (cases "16 \<le> n") (auto simp: bit_simps)

lemma decent_ok_sp: "decent_ok (sp_to_decent high low)"
proof (cases "high = 0 \<or> high = 0x7FFF")
  case True
  then show ?thesis
    by (auto simp: decent_ok_def sp_to_decent_def Let_def u32_bit_test bit_and_iff bit_or_iff bit_ucast_u16 bit_u16_high)
next
  case False
  then show ?thesis
    by (auto simp: decent_ok_def sp_to_decent_def Let_def u32_bit_test bit_and_iff bit_or_iff bit_ucast_u16 bit_u16_high
        split: prod.split)
qed

lemma join_sign:
  fixes x :: u16
  shows "unat ((x AND 0x3FFF) OR (if neg then 0x4000 else 0)) = unat x mod 16384 + (if neg then 16384 else 0)"
    "bit ((x AND 0x3FFF) OR (if neg then 0x4000 else 0)) 14 = neg"
proof -
  have "(x AND 0x3FFF) AND 0x4000 = 0" by (simp add: u16_eq_iff bit_simps)
  then have "unat ((x AND 0x3FFF) OR 0x4000) = unat (x AND 0x3FFF) + unat (0x4000 :: u16)"
    by (rule unat_or_disjoint) (simp add: unat_simps)
  then show "unat ((x AND 0x3FFF) OR (if neg then 0x4000 else 0)) = unat x mod 16384 + (if neg then 16384 else 0)"
    by (simp add: unat_simps)
  show "bit ((x AND 0x3FFF) OR (if neg then 0x4000 else 0)) 14 = neg" by (simp add: bit_simps)
qed

lemma unat_not_28: "unat (NOT (d :: u32) AND 0xFFFFFFF) = 268435455 - unat d mod 268435456"
proof -
  have "(4294967295 - n) mod 268435456 = 268435455 - n mod 268435456" if "n < 4294967296" for n :: nat
  proof -
    define q where "q = n div 268435456"
    have n: "n = q * 268435456 + n mod 268435456" by (simp add: q_def)
    have "q < 16" using that by (simp add: q_def less_mult_imp_div_less)
    define e where "e = 268435455 - n mod 268435456"
    have "n mod 268435456 + e = 268435455" by (simp add: e_def)
    with n \<open>q < 16\<close> have "4294967295 - n = e + (15 - q) * 268435456" by arith
    then have "(4294967295 - n) mod 268435456 = e mod 268435456" by (simp only: mod_mult_self1)
    then show ?thesis by (simp add: e_def)
  qed
  then show ?thesis by (simp only: unat_simps unat_not_u32 u32_less)
qed

lemma normalize_fields:
  assumes "normalize_double a l = (high, low, d)"
  shows "decent_ok d"
    "\<bar>agc_double_to_i64 d\<bar> = int (unat (absolute_sp high)) * 16384 + int (unat (absolute_sp low))"
    "unat (absolute_sp low) < 16384" "unat (absolute_sp high) < 16384"
    "agc_double_to_i64 d < 0 \<Longrightarrow> bit d 29"
proof -
  define H where "H = unat d div 16384 mod 16384"
  define L where "L = unat d mod 16384"
  define v where "v = (ucast (drop_bit 14 d) :: u16)"
  have HL: "H < 16384" "L < 16384" "unat d mod 268435456 = 16384 * H + L"
    using mod_mult2_eq [of "unat d" 16384 16384] by (simp_all add: H_def L_def)
  have d: "d = sp_to_decent (raw (overflow_correct_raw a)) l"
    and high: "high = raw (overflow_correct_raw v)"
    and low: "low = (ucast d AND 0x3FFF) OR (if bit d 29 then 0x4000 else 0)"
    using assms unfolding normalize_double_def Let_def u32_bit_test v_def by auto
  show ok: "decent_ok d" unfolding d by (rule decent_ok_sp)
  have v: "unat v mod 16384 = H" "bit v 15 = bit d 29"
  proof -
    have "unat v = unat d div 16384 mod 65536" unfolding v_def by (simp only: unat_simps unat_drop_bit) simp
    then show "unat v mod 16384 = H" by (simp add: H_def mod_mod_cancel)
    show "bit v 15 = bit d 29" by (simp add: v_def bit_simps)
  qed
  have "unat high = H + (if bit d 29 then 16384 else 0)"
    using v by (simp add: high overflow_correct_raw_eq unat_overflow_correct bit_15_iff)
  moreover have "bit high 14 = bit d 29"
    using v by (simp add: high overflow_correct_raw_eq bit_overflow_correct)
  ultimately have ah: "unat (absolute_sp high) = (if bit d 29 then 16383 - H else H)"
    using HL by (simp add: unat_absolute_sp)
  have "unat (ucast d :: u16) mod 16384 = L" by (simp add: unat_simps L_def mod_mod_cancel)
  then have "unat low = L + (if bit d 29 then 16384 else 0)" "bit low 14 = bit d 29"
    unfolding low join_sign by simp_all
  then have al: "unat (absolute_sp low) = (if bit d 29 then 16383 - L else L)"
    using HL by (simp add: unat_absolute_sp)
  show "unat (absolute_sp low) < 16384" "unat (absolute_sp high) < 16384" using ah al HL by (simp_all split: if_split) arith+
  have "agc_double_to_i64 d = (if bit d 29 then - int (268435455 - (16384 * H + L)) else int (16384 * H + L))"
    using ok HL(3) unat_not_28 [of d]
    by (simp add: agc_double_to_i64_def u32_bit_test decent_ok_def uint_unat u32_and_FFFFFFF)
  then show "\<bar>agc_double_to_i64 d\<bar> = int (unat (absolute_sp high)) * 16384 + int (unat (absolute_sp low))"
    "agc_double_to_i64 d < 0 \<Longrightarrow> bit d 29"
    using ah al HL by (auto simp: of_nat_diff split: if_splits)
qed

lemma product_encodes:
  assumes "word_ok a" "word_ok r"
  shows "\<exists>d. from_i64 (if neg then - (\<bar>to_i32_lossy_zero a\<bar> * \<bar>to_i32_lossy_zero r\<bar>)
      else \<bar>to_i32_lossy_zero a\<bar> * \<bar>to_i32_lossy_zero r\<bar>) = Inr d"
proof -
  define p where "p = \<bar>to_i32_lossy_zero a\<bar> * \<bar>to_i32_lossy_zero r\<bar>"
  have "\<bar>to_i32_lossy_zero a\<bar> \<le> 16383" "\<bar>to_i32_lossy_zero r\<bar> \<le> 16383"
    using to_i32_bounds [OF assms(1)] to_i32_bounds [OF assms(2)] by auto
  then have "p \<le> 16383 * 16383" unfolding p_def by (rule mult_mono) simp_all
  moreover have "0 \<le> p" by (simp add: p_def)
  ultimately have "- 268435455 \<le> (if neg then - p else p)" "(if neg then - p else p) \<le> 268435455" by auto
  from from_i64_ok [OF this] show ?thesis unfolding p_def by blast
qed

lemma keeps_multiply [keeps_rules]:
  assumes "unat k < 4096"
  shows "keeps (exec_inv f b n s h) (multiply k) (\<lambda>_. True)"
proof -
  have result: "keeps (exec_inv f b n s h) (case from_i64 (if neg then - (\<bar>to_i32_lossy_zero a\<bar> * \<bar>to_i32_lossy_zero r\<bar>)
          else \<bar>to_i32_lossy_zero a\<bar> * \<bar>to_i32_lossy_zero r\<bar>) of
        Inl e \<Rightarrow> fail (Arithmetic (word_error_display e))
      | Inr result \<Rightarrow> seq (on_cpu (set_a_word (dw_high result))) (on_cpu (set_l_word (dw_low result)))) (\<lambda>_. True)"
    if "word_ok a" "word_ok r" for a r neg
    using product_encodes [OF that, of neg] by (auto intro!: keeps_exec simp del: if_split)
  show ?thesis
    unfolding multiply_def Let_def
    by (rule keeps_bind [OF keeps_on_cpu [OF keeps_derived_registers(2)]],
        rule keeps_bind [OF keeps_words(1) [OF assms]], rule keeps_if)
       ((rule keeps_exec result | simp)+)
qed

lemma quotient_bounds:
  fixes n d :: int
  assumes "\<bar>n\<bar> < \<bar>d\<bar> * 16384" "\<bar>d\<bar> \<le> 16383"
  shows "\<bar>signed_divide n d\<bar> \<le> 16383" "\<bar>signed_modulo n d\<bar> \<le> 16383"
proof -
  have d: "0 < \<bar>d\<bar>" using assms(1) by (cases "d = 0") auto
  have "\<bar>n\<bar> div \<bar>d\<bar> < 16384"
  proof (rule ccontr)
    assume "\<not> \<bar>n\<bar> div \<bar>d\<bar> < 16384"
    then have "16384 * \<bar>d\<bar> \<le> \<bar>n\<bar> div \<bar>d\<bar> * \<bar>d\<bar>" using d by (intro mult_right_mono) simp_all
    also have "\<dots> \<le> \<bar>n\<bar>" using pos_mod_sign [OF d, of "\<bar>n\<bar>"] div_mult_mod_eq [of "\<bar>n\<bar>" "\<bar>d\<bar>"] by linarith
    finally show False using assms(1) by simp
  qed
  moreover have "\<bar>signed_divide n d\<bar> = (if n = 0 then 0 else \<bar>n\<bar> div \<bar>d\<bar>)"
    using d by (auto simp: signed_divide_int_def abs_mult abs_sgn_eq pos_imp_zdiv_nonneg_iff)
  ultimately show "\<bar>signed_divide n d\<bar> \<le> 16383" by simp
  have "\<bar>signed_modulo n d\<bar> \<le> \<bar>n\<bar> mod \<bar>d\<bar>"
    using pos_mod_sign [OF d, of "\<bar>n\<bar>"] by (simp add: smod_int_alt_def abs_mult abs_sgn_eq)
  then show "\<bar>signed_modulo n d\<bar> \<le> 16383" using pos_mod_bound [OF d, of "\<bar>n\<bar>"] assms(2) by simp
qed

lemma from_i32_total: "\<bar>v\<bar> \<le> 16383 \<Longrightarrow> \<exists>w. from_i32 v = Inr w"
  using from_i32_ok [of v] by (auto simp: abs_le_iff)

lemma keeps_select_divisor [keeps_rules]:
  "keeps (cpu_inv f k n s) (select_divisor j a l abs_a w) (\<lambda>_. True)"
proof (cases "j < REG_EB")
  case True
  then have "unat j < 16" by (simp add: word_less_nat_alt)
  show ?thesis unfolding select_divisor_def Let_def
    by (rule keeps_rules keeps_mem_accesses \<open>unat j < 16\<close> | simp)+
next
  case False
  show ?thesis unfolding select_divisor_def Let_def if_not_P [OF False]
    by (rule keeps_rules keeps_mem_accesses | simp)+
qed

lemma keeps_quotient:
  assumes "normalize_double a l = (high, low, d)" "\<not> abs_k < unat (absolute_sp high)"
    "\<not> (unat (absolute_sp high) = abs_k \<and> unat (absolute_sp low) \<noteq> 0)"
    "\<not> (unat (absolute_sp high) = 0 \<and> unat (absolute_sp low) = 0)"
    "\<not> (unat (absolute_sp high) = abs_k \<and> unat (absolute_sp low) = 0)"
    "abs_k = unat (absolute_sp (raw w))" "word_ok w"
  shows "to_i32_lossy_zero w \<noteq> 0"
    "\<bar>signed_divide (agc_double_to_i64 d) (to_i32_lossy_zero w)\<bar> \<le> 16383"
    "\<bar>signed_modulo (agc_double_to_i64 d) (to_i32_lossy_zero w)\<bar> \<le> 16383"
proof -
  have less: "unat (absolute_sp high) < abs_k" using assms(2,3,5) by auto
  have k: "int abs_k = \<bar>to_i32_lossy_zero w\<bar>" using absolute_sp_value [OF assms(7)] assms(6) by simp
  have "int (unat (absolute_sp high)) * 16384 + int (unat (absolute_sp low)) < int abs_k * 16384"
    using less normalize_fields(3) [OF assms(1)] by simp
  then have n: "\<bar>agc_double_to_i64 d\<bar> < \<bar>to_i32_lossy_zero w\<bar> * 16384"
    using normalize_fields(2) [OF assms(1)] k by simp
  then show "to_i32_lossy_zero w \<noteq> 0" by auto
  have "\<bar>to_i32_lossy_zero w\<bar> \<le> 16383" using to_i32_bounds [OF assms(7)] by (simp add: abs_le_iff)
  from quotient_bounds [OF n this]
  show "\<bar>signed_divide (agc_double_to_i64 d) (to_i32_lossy_zero w)\<bar> \<le> 16383"
    "\<bar>signed_modulo (agc_double_to_i64 d) (to_i32_lossy_zero w)\<bar> \<le> 16383" by auto
qed

lemma overflow_correct_raw_ok [simp]: "word_ok (overflow_correct_raw v)"
  by (simp add: overflow_correct_raw_eq)

lemma keeps_divide_result:
  assumes "d \<noteq> 0" "\<bar>q\<bar> \<le> 16383" "\<bar>r\<bar> \<le> 16383"
  shows "keeps (exec_inv f b n s h)
    (if d = 0 then panic
     else case from_i32 q of
        Inl e \<Rightarrow> fail (Arithmetic (word_error_display e))
      | Inr q \<Rightarrow>
          seq (on_cpu (set_a_word q))
            (if r = 0 then on_cpu (set_l_word (if neg then NEGATIVE_ZERO else POSITIVE_ZERO))
             else case from_i32 r of
                 Inl e \<Rightarrow> fail (Arithmetic (word_error_display e))
               | Inr r \<Rightarrow> on_cpu (set_l_word r))) (\<lambda>_. True)"
proof -
  obtain x y where "from_i32 q = Inr x" "from_i32 r = Inr y"
    using from_i32_total assms(2,3) by blast
  then show ?thesis
    using assms(1) by (simp split del: if_split) ((rule keeps_exec | simp)+)
qed

lemma keeps_prod [keeps_rules]:
  "(\<And>x y. p = (x, y) \<Longrightarrow> keeps I (f x y) P) \<Longrightarrow> keeps I (case p of (x, y) \<Rightarrow> f x y) P"
  by (cases p) simp

lemma keeps_divide [keeps_rules]:
  assumes "unat k < 4096"
  shows "keeps (exec_inv f b n s h) (cpu_divide k) (\<lambda>_. True)"
proof -
  have quotient: "to_i32_lossy_zero w \<noteq> 0 \<and>
    \<bar>signed_divide (agc_double_to_i64 d) (to_i32_lossy_zero w)\<bar> \<le> 16383 \<and>
    \<bar>signed_modulo (agc_double_to_i64 d) (to_i32_lossy_zero w)\<bar> \<le> 16383"
    if "normalize_double a l = (high, low, d)" "word_ok w"
      "\<not> (absolute_sp (raw w) < absolute_sp high \<or> absolute_sp high = absolute_sp (raw w) \<and> absolute_sp low \<noteq> 0 \<or> ov)"
      "\<not> (absolute_sp high = 0 \<and> absolute_sp low = 0)"
      "\<not> (absolute_sp high = absolute_sp (raw w) \<and> absolute_sp low = 0)" for a l high low d w ov
    using keeps_quotient [OF that(1) _ _ _ _ refl that(2)] that(3-5)
    by (auto simp: word_less_nat_alt word_eq_unat_iff)
  show ?thesis
    unfolding cpu_divide_def Let_def
    apply (rule keeps_bind [OF keeps_words(1) [OF assms]])
    apply (rule keeps_bind [OF keeps_on_cpu [OF keeps_derived_registers(1)]])
    apply (rule keeps_bind [OF keeps_on_cpu [OF keeps_registers(2)]])
    apply (rule keeps_prod)+
    apply (rule keeps_bind [OF keeps_on_cpu [OF keeps_select_divisor]])
    subgoal premises p for operand a l_reg high rest low d divisor
    proof -
      have n: "normalize_double a (reg_raw l_reg) = (high, low, d)" using p by simp
      note q = quotient [OF n overflow_correct_raw_ok]
      show ?thesis
        by (rule keeps_divide_result keeps_prod keeps_rules keeps_on_cpu)+ (use q in blast)+
    qed
    done
qed

section \<open>Execution\<close>

text \<open>Routines that may change the control flags.\<close>

definition running :: "record_books \<Rightarrow> nat \<Rightarrow> u16 \<Rightarrow> event_header \<Rightarrow> exec_state \<Rightarrow> bool" where
  "running k n s h x \<longleftrightarrow> (\<exists>f. exec_inv f k n s h x)"

lemma keeps_running [keeps_rules]:
  assumes "\<And>f. keeps (exec_inv f k n s h) m P"
  shows "keeps (running k n s h) m P"
  unfolding running_def by (rule keeps_ex) (rule assms)

lemma keeps_flags:
  assumes "\<And>c. core_ok c \<Longrightarrow> core_ok (g c)"
    "\<And>c. books (g c) = books c \<and> cycles (g c) = cycles c \<and> scaler_mcts (g c) = scaler_mcts c"
  shows "keeps (running k n s h) (on_cpu (modify g)) (\<lambda>_. True)"
proof (rule keepsI)
  fix x :: exec_state
  assume "running k n s h x"
  then have "exec_inv (flags (g (machine x))) k n s h (x\<lparr>machine := g (machine x)\<rparr>)"
    unfolding running_def exec_inv_def cpu_inv_def using assms by (elim exE conjE, intro conjI) simp_all
  then show "succeeds (on_cpu (modify g)) x (\<lambda>a y. running k n s h y \<and> True)"
    unfolding on_cpu_def running_def runs_zoom runs_modify by blast
qed

lemma keeps_set_flags:
  "keeps (running k n s h) (on_cpu (modify (extended_update (\<lambda>_. b)))) (\<lambda>_. True)"
  "keeps (running k n s h) (on_cpu (modify (interrupt_enabled_update (\<lambda>_. b)))) (\<lambda>_. True)"
  "word_ok v \<Longrightarrow> keeps (running k n s h) (on_cpu (modify (\<lambda>c. c\<lparr>indexed := Some v, extended := b\<rparr>))) (\<lambda>_. True)"
  "keeps (running k n s h) (on_cpu (modify (\<lambda>c. c\<lparr>substitute_instruction := p, in_interrupt := q, extended := b\<rparr>))) (\<lambda>_. True)"
  by (rule keeps_flags; simp add: core_ok_def books_def)+

lemma keeps_resume: "keeps (running k n s h) resume (\<lambda>_. True)"
  unfolding resume_def
  by (rule keeps_bind [OF keeps_running [OF keeps_on_cpu [OF keeps_cpu_register(3)]]], simp,
      rule keeps_bind [OF keeps_running [OF keeps_on_cpu [OF keeps_registers(9)]]],
      rule keeps_bind [OF keeps_set_flags(4)], (rule keeps_running keeps_rules)+)

text \<open>Every routine but \<open>EDRUPT\<close> runs for the operands its field admits.\<close>

definition operand_fits :: "mnemonic \<Rightarrow> u16 \<Rightarrow> bool" where
  "operand_fits m k \<longleftrightarrow> unat k < 4096
     \<and> (m \<in> {Ads, Aug, Das, Dim, Dxch, Incr, Lxch, Qxch, Ts, Xch} \<longrightarrow> unat k < 1024)
     \<and> (m \<in> {Rand, Read, Ror, Rxor, Wand, Wor, Write} \<longrightarrow> unat k < 512)"

lemma decode_operand_fits:
  assumes "word_ok w"
  shows "operand_fits (di_mnemonic (decode w e)) (di_operand (decode w e))"
proof -
  define d where "d = decode w e"
  have b: "unat (di_operand d) < 2 ^ operand_width (di_mnemonic d) e"
    using decode_operand_bound [OF assms] by (simp add: d_def)
  have "is_extended (di_mnemonic d) \<or> di_mnemonic d = Index \<and> e \<longleftrightarrow> e"
    using decode_class(1) [of w e] by (simp add: d_def)
  then have "operand_fits (di_mnemonic d) (di_operand d)"
    using b by (cases "di_mnemonic d") (auto simp: operand_fits_def operand_width_def is_extended_def split: if_splits)
  then show ?thesis by (simp add: d_def)
qed

lemma keeps_execute:
  assumes "operand_fits (di_mnemonic i) (di_operand i)" "di_mnemonic i \<noteq> EdrupT"
  shows "keeps (running k n s h) (execute i) (\<lambda>_. True)"
proof (cases "di_mnemonic i \<in> {Extend, Inhint, Relint, Resume, Index}")
  case True
  have index: "keeps (running k n s h) (and_then (read_word (di_operand i))
      (\<lambda>v. on_cpu (modify (\<lambda>c. c\<lparr>indexed := Some v, extended := di_extended i\<rparr>)))) (\<lambda>_. True)"
    apply (rule keeps_bind [OF keeps_running [OF keeps_words(1)]])
    using assms(1) apply (simp add: operand_fits_def)
    by (rule keeps_set_flags(3))
  from True consider "di_mnemonic i = Extend" | "di_mnemonic i = Inhint" | "di_mnemonic i = Relint"
    | "di_mnemonic i = Resume" | "di_mnemonic i = Index" by auto
  then show ?thesis
    by cases (simp_all only: execute_def Let_def mnemonic.case keeps_set_flags keeps_resume index)
next
  case False
  show ?thesis
    apply (rule keeps_running)
    subgoal for f
      using assms False unfolding execute_def Let_def operand_fits_def
      apply (cases "di_mnemonic i")
      apply (simp_all only: mnemonic.case mnemonic.distinct simp_thms insert_iff empty_iff)
      apply ((rule keeps_rules keeps_on_cpu | simp split del: if_split | (erule disjE; simp))+)
      done
    done
qed

end
