(* ===== verification/Agc_Cpu_Steps.thy ===== *)
theory Agc_Cpu_Steps
  imports Agc_Cpu_Laws
begin

text \<open>
  Time and steps of the processor: the scaler and its timers, the wait for a ready cycle, one
  step of the machine for every end its trace can give it, the run loop with its bound, and the
  states a user can reach.
\<close>

section \<open>Timing\<close>

lemma known_channel_ok: "unat c < 512 \<Longrightarrow> known_channel c = ok (ChannelAddress c)"
  by (simp add: known_channel_def channel_address_new_ok expect_def of_result_def ok_def)

lemma keeps_known_channel [keeps_rules]:
  "unat c < 512 \<Longrightarrow> keeps (cpu_inv f k n s) (read_known_channel c) word_ok"
  "unat c < 512 \<Longrightarrow> word_ok v \<Longrightarrow> keeps (cpu_inv f k n s) (write_known_channel c v) (\<lambda>_. True)"
  by (auto intro!: keepsI dest: keepsD [OF keeps_channels(1)] keepsD [OF keeps_channels(2)]
      simp: read_known_channel_def write_known_channel_def known_channel_ok)

lemma keeps_request [keeps_rules]:
  "keeps (exec_inv f k n s h) (request_interrupt_event i) (\<lambda>_. True)"
proof -
  have m: "keeps (cpu_inv f k n s) (modify (pending_interrupts_update (insert i))) (\<lambda>_. True)"
    by (rule keeps_modify) (simp add: cpu_inv_def core_ok_def flags_def books_def)
  show ?thesis
    unfolding request_interrupt_event_def
    by (rule keeps_bind [OF keeps_gets [where P = "\<lambda>_. True"]]) (rule m keeps_rules keeps_on_cpu TrueI)+
qed

lemma counter_pinc_ok: "word_ok w \<Longrightarrow> word_ok (fst (counter_pinc w))"
  by (auto simp: counter_pinc_def)

lemma keeps_timer [keeps_rules]:
  assumes "unat a < 1024"
  shows "keeps (exec_inv f k n s h) (increment_timer a i) (\<lambda>_. True)"
proof -
  have "unat a < 4096" using assms by simp
  show ?thesis
    unfolding increment_timer_def Let_def case_prod_unfold
    apply (rule keeps_bind [OF keeps_on_cpu [OF keeps_read(1) [OF \<open>unat a < 4096\<close>]]])
    apply (rule keeps_bind [where P = "\<lambda>_. True"])
     apply ((rule keeps_rules)+)[1]
    apply (rule keeps_bind [OF keeps_on_cpu [OF keeps_write [OF assms counter_pinc_ok]]])
    by (assumption | rule keeps_rules)+
qed

lemma keeps_time1 [keeps_rules]: "keeps (exec_inv f k n s h) increment_time1 (\<lambda>d. d \<le> 2)"
  unfolding increment_time1_def Let_def case_prod_unfold
  apply (rule keeps_bind [OF keeps_on_cpu [OF keeps_read(1)]], simp)
  apply (rule keeps_bind [OF keeps_on_cpu [OF keeps_write]], simp, erule counter_pinc_ok)
  apply (rule keeps_bind [OF keeps_push(1)], rule keeps_if)
   apply (rule keeps_bind [OF keeps_on_cpu [OF keeps_read(1)]], simp)
   apply (rule keeps_bind [OF keeps_on_cpu [OF keeps_write]], simp, erule counter_pinc_ok)
   by (rule keeps_rules | simp)+

lemma keeps_service_timers [keeps_rules]:
  "keeps (exec_inv f k n s h) (service_timers c) (\<lambda>d. d \<le> 3)"
  unfolding service_timers_def
  apply (intro keeps_if)
     apply ((rule keeps_rules | simp)+)[2]
   apply (rule keeps_bind [OF keeps_time1])
   by (rule keeps_rules | simp)+

lemma keeps_service_time6 [keeps_rules]:
  "keeps (exec_inv f k n s h) (service_time6 c) (\<lambda>d. d \<le> 1)"
  unfolding service_time6_def Let_def
  apply (rule keeps_bind [OF keeps_on_cpu [OF keeps_known_channel(1)]], simp)
  apply (rule keeps_if)
   apply (rule keeps_bind [OF keeps_on_cpu [OF keeps_read(1)]], simp)
   apply (rule keeps_if)
    apply ((rule keeps_rules keeps_on_cpu | simp)+)[1]
   apply (rule keeps_bind [OF keeps_on_cpu [OF keeps_write]], simp, simp)
   by (rule keeps_rules | simp)+

lemma keeps_handrupt [keeps_rules]:
  "keeps (exec_inv f k n s h) service_handrupt_traps (\<lambda>_. True)"
  unfolding service_handrupt_traps_def
  apply (rule keeps_bind [OF keeps_on_cpu [OF keeps_known_channel(1)]], simp)
  apply (rule keeps_bind [OF keeps_on_cpu [OF keeps_known_channel(1)]], simp)
  apply (rule keeps_bind [OF keeps_gets [where P = "\<lambda>_. True"]], rule TrueI)
  apply (rule keeps_prod)+
  by (rule keeps_on_cpu keeps_rules)+

lemma keeps_downrupt_due [keeps_rules]:
  "keeps (exec_inv f k n s h) service_downrupt_due (\<lambda>_. True)"
proof -
  have m: "keeps (cpu_inv f k n s) (modify (downrupt_due_update (\<lambda>_. None))) (\<lambda>_. True)"
    by (rule keeps_modify) (simp add: cpu_inv_def core_ok_def flags_def books_def)
  show ?thesis
    unfolding service_downrupt_due_def
    by (rule keeps_bind [OF keeps_gets [where P = "\<lambda>_. True"]]) (rule m keeps_rules keeps_on_cpu TrueI)+
qed

text \<open>
  One scaler tick takes eighty thirds of a cycle and asks for at most four cycles of counter
  service; the loop ends with less than a tick left, so its fuel is enough for every value of
  the sixteen-bit fraction.
\<close>

lemma run_scaler_tick:
  assumes "exec_inv f k n s h x"
  shows "succeeds (scaler_tick d) x (\<lambda>d' y. exec_inv f k n (s - 80) h y \<and> d' \<le> d + 4)"
proof -
  let ?g = "\<lambda>c :: cpu. c\<lparr>scaler_mcts := scaler_mcts c - 80, scaler := (scaler c + 1) AND 0x3FFF\<rparr>"
  let ?rest = "and_then (gets (\<lambda>x. scaler (machine x))) (\<lambda>scale.
     seq (on_cpu (write_known_channel 4 (from_raw_truncate scale))) (
     seq (when_do (scale = 0)
            (and_then (on_cpu (read_known_channel 3)) (\<lambda>scaler2.
             on_cpu (write_known_channel 3 (from_raw_truncate (raw scaler2 + 1)))))) (
     and_then (service_timers scale) (\<lambda>timers.
     and_then (service_time6 scale) (\<lambda>time6.
     seq service_handrupt_traps (ok (d + timers + time6)))))))"
  have rest: "keeps (exec_inv f k n (s - 80) h) ?rest (\<lambda>d'. d' \<le> d + 4)"
    apply (rule keeps_bind [OF keeps_gets [where P = "\<lambda>_. True"]], rule TrueI)
    apply (rule keeps_bind [OF keeps_on_cpu [OF keeps_known_channel(2)]], simp, simp)
    apply (rule keeps_bind [OF keeps_when])
     apply ((rule keeps_on_cpu keeps_rules | simp)+)[1]
    apply (rule keeps_bind [OF keeps_service_timers])
    apply (rule keeps_bind [OF keeps_service_time6])
    by (rule keeps_rules | simp)+
  have "exec_inv f k n (s - 80) h (x\<lparr>machine := ?g (machine x)\<rparr>)"
    using assms by (simp add: exec_inv_def cpu_inv_def core_ok_def flags_def books_def unat_simps)
  from keepsD [OF rest this] show ?thesis
    by (simp add: scaler_tick_def on_cpu_def)
qed

lemma run_scaler_loop:
  "exec_inv f k n s h x \<Longrightarrow> unat s div 80 < fuel \<Longrightarrow>
   succeeds (while_loop fuel (\<lambda>delay x. 80 \<le> scaler_mcts (machine x)) scaler_tick d) x
     (\<lambda>d' y. exec_inv f k n (of_nat (unat s mod 80)) h y \<and> d' \<le> d + 4 * (unat s div 80))"
proof (induction fuel arbitrary: s d x)
  case 0
  then show ?case by simp
next
  case (Suc fuel)
  have s: "scaler_mcts (machine x) = s" using Suc.prems(1) by (simp add: exec_inv_def cpu_inv_def)
  show ?case
  proof (cases "80 \<le> s")
    case False
    then have "unat s < 80" by (simp add: word_le_nat_alt)
    then show ?thesis using Suc.prems(1) False s by simp
  next
    case True
    then have u: "80 \<le> unat s" "unat (s - 80) = unat s - 80" by (simp_all add: word_le_nat_alt unat_sub)
    then have v: "unat (s - 80) div 80 = unat s div 80 - 1" "unat (s - 80) mod 80 = unat s mod 80" "1 \<le> unat s div 80"
      by (simp_all add: le_div_geq le_mod_geq)
    then have less: "unat (s - 80) div 80 < fuel" using Suc.prems(2) by simp
    have "succeeds (scaler_tick d) x (\<lambda>d' y. succeeds (while_loop fuel (\<lambda>delay x. 80 \<le> scaler_mcts (machine x)) scaler_tick d') y
       (\<lambda>d'' z. exec_inv f k n (of_nat (unat s mod 80)) h z \<and> d'' \<le> d + 4 * (unat s div 80)))"
      apply (rule succeeds_mono [OF run_scaler_tick [OF Suc.prems(1)]])
      apply (elim conjE)
      apply (rule succeeds_mono [OF Suc.IH [OF _ less]])
       apply assumption
      using v by auto
    then show ?thesis using True s by simp
  qed
qed

lemma run_service_scaler:
  assumes "exec_inv f k n s h x"
  shows "succeeds service_scaler x
    (\<lambda>d y. exec_inv f k n (of_nat (unat s mod 80)) h y \<and> d \<le> 4 * (unat s div 80))"
proof -
  have "unat s < 80 * 820" using u16_less [of s] by (rule less_trans) simp
  then have "unat s div 80 < 820" by (simp only: less_mult_imp_div_less mult.commute)
  from run_scaler_loop [OF assms this, of 0] show ?thesis by (simp add: service_scaler_def)
qed

definition timed :: "control \<Rightarrow> record_books \<Rightarrow> event_header \<Rightarrow> nat \<Rightarrow> nat \<Rightarrow> exec_state \<Rightarrow> bool" where
  "timed f k h lo b x \<longleftrightarrow> (\<exists>n s. exec_inv f k n s h x \<and> lo \<le> n \<and> unat s < b)"

lemma run_clock:
  assumes "timed f k h lo b x" "b + 3 \<le> 65536"
  shows "succeeds clock_deferred_mct x (\<lambda>_. timed f k h (Suc lo) (b + 3))"
proof -
  obtain n s where x: "exec_inv f k n s h x" "lo \<le> n" "unat s < b" using assms(1) by (auto simp: timed_def)
  have u: "unat (s + 3) = unat s + 3" using x(3) assms(2) by (simp add: unat_word_ariths)
  have step: "succeeds (seq (on_cpu (modify (cycles_update Suc))) (
     and_then (gets (\<lambda>x. scaler_mcts (machine x))) (\<lambda>mcts.
     if unat mcts + 3 < 65536 then on_cpu (modify (scaler_mcts_update (\<lambda>_. mcts + 3))) else panic))) y
     (\<lambda>_. timed f k h (Suc lo) (b + 3))" if y: "exec_inv f k n s h y" for y
  proof -
    let ?z = "y\<lparr>machine := cycles_update Suc (machine y)\<lparr>scaler_mcts := s + 3\<rparr>\<rparr>"
    have z: "exec_inv f k (Suc n) (s + 3) h ?z"
      using y by (simp add: exec_inv_def cpu_inv_def core_ok_def flags_def books_def)
    have "timed f k h (Suc lo) (b + 3) ?z"
      unfolding timed_def by (rule exI [of _ "Suc n"], rule exI [of _ "s + 3"]) (use z x u in simp)
    moreover have "scaler_mcts (machine y) = s" "cycles (machine y) = n"
      using y by (simp_all add: exec_inv_def cpu_inv_def)
    ultimately show ?thesis using x(3) assms(2) by (simp add: on_cpu_def)
  qed
  show ?thesis
    unfolding clock_deferred_mct_def runs_and_then [of service_downrupt_due]
    by (rule succeeds_mono [OF keepsD [OF keeps_downrupt_due x(1)]]) (elim conjE, erule step)
qed

lemma run_clocks:
  "timed f k h lo b x \<Longrightarrow> b + 3 * j \<le> 65536 \<Longrightarrow>
   succeeds (repeat_do j (clock_deferred_mct :: (exec_state, 'e, unit) prog)) x
     (\<lambda>_. timed f k h (lo + j) (b + 3 * j))"
proof (induction j arbitrary: lo b x)
  case (Suc j)
  let ?m = "clock_deferred_mct :: (exec_state, 'e, unit) prog"
  have "succeeds ?m x (\<lambda>_. timed f k h (Suc lo) (b + 3))"
    using Suc.prems by (intro run_clock) simp_all
  then have "succeeds ?m x (\<lambda>_ y. succeeds (repeat_do j ?m) y
      (\<lambda>_. timed f k h (Suc lo + j) (b + 3 + 3 * j)))"
    by (rule succeeds_mono) (rule Suc.IH, assumption, insert Suc.prems, simp)
  then show ?case by (simp add: algebra_simps)
qed simp

lemma timed_mono: "timed f k h lo b x \<Longrightarrow> lo' \<le> lo \<Longrightarrow> b \<le> b' \<Longrightarrow> timed f k h lo' b' x"
  unfolding timed_def by (meson order_trans less_le_trans)

text \<open>
  Waiting for a ready cycle: a second round is needed at most once, because the first one
  leaves the fraction small.
\<close>

lemma run_scaler_timed:
  assumes "timed f k h lo b x" "b \<le> 148"
  shows "succeeds service_scaler x (\<lambda>d y. (d = 0 \<and> timed f k h lo 80 y)
     \<or> (80 < b \<and> d \<le> 4 \<and> timed f k h lo 68 y))"
proof -
  obtain n s where x: "exec_inv f k n s h x" "lo \<le> n" "unat s < b" using assms(1) by (auto simp: timed_def)
  have m: "unat (of_nat (unat s mod 80) :: u16) = unat s mod 80"
    using le_less_trans [OF mod_less_eq_dividend u16_less [of s]] by (simp add: unat_of_nat)
  have small: "unat s div 80 = 0 \<or> (unat s div 80 = 1 \<and> unat s mod 80 < 68 \<and> 80 < b)"
  proof (cases "unat s < 80")
    case False
    then have "unat s div 80 = Suc ((unat s - 80) div 80)" "unat s mod 80 = (unat s - 80) mod 80"
      by (simp_all add: le_div_geq le_mod_geq)
    then show ?thesis using False x(3) assms(2) by simp
  qed simp
  have result: "(d = 0 \<and> timed f k h lo 80 y) \<or> (80 < b \<and> d \<le> 4 \<and> timed f k h lo 68 y)"
    if "exec_inv f k n (of_nat (unat s mod 80)) h y \<and> d \<le> 4 * (unat s div 80)" for d y
  proof -
    have "timed f k h lo j y" if "unat s mod 80 < j" for j
      unfolding timed_def by (rule exI [of _ n], rule exI) (use that m x(2) \<open>exec_inv f k n _ h y \<and> _\<close> in auto)
    then show ?thesis using small that by auto
  qed
  show ?thesis by (rule succeeds_mono [OF run_service_scaler [OF x(1)] result])
qed

lemma run_advance_last:
  assumes "timed f k h lo b x" "b \<le> 77"
  shows "succeeds (advance_rounds (Suc fuel)) x (\<lambda>_. timed f k h (Suc lo) 80)"
proof -
  have "succeeds clock_deferred_mct x (\<lambda>_ y. succeeds service_scaler y
      (\<lambda>d z. d = 0 \<and> timed f k h (Suc lo) 80 z))"
    by (rule succeeds_mono [OF run_clock [OF assms(1)]], use assms(2) in simp,
        rule succeeds_mono [OF run_scaler_timed], assumption) (use assms(2) in auto)
  then show ?thesis
    by simp (erule succeeds_mono, erule succeeds_mono, simp)
qed

lemma run_advance:
  assumes "timed f k h lo b x" "b \<le> 145"
  shows "succeeds advance_to_ready_mct x (\<lambda>_. timed f k h (Suc lo) 80)"
proof -
  have second: "succeeds (if d = 0 then ok () else seq (repeat_do (d - 1) clock_deferred_mct) (advance_rounds 15)) y
      (\<lambda>_. timed f k h (Suc lo) 80)"
    if "(d = 0 \<and> timed f k h (Suc lo) 80 y) \<or> (80 < b + 3 \<and> d \<le> 4 \<and> timed f k h (Suc lo) 68 y)" for d y
  proof (cases "d = 0")
    case False
    then have y: "timed f k h (Suc lo) 68 y" "d - 1 \<le> 3" using that by auto
    have "succeeds (repeat_do (d - 1) clock_deferred_mct) y (\<lambda>_ z. succeeds (advance_rounds (Suc 14)) z
        (\<lambda>_. timed f k h (Suc lo) 80))"
      by (rule succeeds_mono [OF run_clocks [OF y(1)]], use y(2) in simp,
          rule succeeds_mono [OF run_advance_last], assumption)
         (use y(2) in \<open>auto elim: timed_mono\<close>)
    then show ?thesis using False by simp
  qed (use that in \<open>auto elim: timed_mono\<close>)
  have "succeeds clock_deferred_mct x (\<lambda>_ y. succeeds service_scaler y (\<lambda>d z.
     succeeds (if d = 0 then ok () else seq (repeat_do (d - 1) clock_deferred_mct) (advance_rounds 15)) z
      (\<lambda>_. timed f k h (Suc lo) 80)))"
    by (rule succeeds_mono [OF run_clock [OF assms(1)]], use assms(2) in simp,
        rule succeeds_mono [OF run_scaler_timed second], assumption, insert assms(2), simp)
  then show ?thesis
    by (simp only: advance_to_ready_mct_def ADVANCE_FUEL_def eval_nat_numeral BitM.simps advance_rounds.simps runs_and_then)
qed

section \<open>Steps\<close>

text \<open>
  The states the processor moves through: a well-formed core, a scaler fraction below one tick
  and one deferred cycle, and a trace that holds every committed transition so far.
\<close>

definition log_state :: "trace_log \<Rightarrow> nat \<Rightarrow> nat \<Rightarrow> bool" where
  "log_state t ts now \<longleftrightarrow> log_ok t \<and> ts = length (events t)
     \<and> (events t \<noteq> [] \<longrightarrow> te_cycle_end (last (events t)) \<le> now)"

definition cpu_ok :: "cpu \<Rightarrow> bool" where
  "cpu_ok c \<longleftrightarrow> core_ok c \<and> unat (scaler_mcts c) < 83 \<and> log_state (trace c) (trace_sequence c) (cycles c)"

lemma pop_first_empty: "pop_first s = (None, r) \<Longrightarrow> r = s"
  by (auto simp: pop_first_def split: if_splits)

lemma keeps_save_interrupt:
  "keeps (cpu_inv f k n s) (seq (try_memory (set_central_register REG_ZRUPT u))
     (seq (try_memory (set_central_register REG_BRUPT v)) (set_z t))) (\<lambda>_. True)"
  by (rule keeps_rules | simp)+

lemma run_accept:
  assumes c: "cpu_inv f k n s c"
  shows "succeeds (accept_interrupt i pc) c (\<lambda>r c'.
     (case r of None \<Rightarrow> cpu_inv f k n s c' \<and> di_mnemonic i \<noteq> EdrupT
      | Some _ \<Rightarrow> cpu_inv (False, True, None, interrupt_enabled c, False) k n s c'
          \<and> (di_mnemonic i = EdrupT \<or> \<not> in_interrupt c \<and> \<not> extended c)))"
proof -
  define enter where "enter target r = seq (try_memory (set_central_register REG_ZRUPT (register_from_raw ((pc + 1) AND 0xFFF)))) (
      seq (try_memory (set_central_register REG_BRUPT (sign_extend (di_raw i)))) (
      seq (set_z target) (
      seq (modify (\<lambda>c. c\<lparr>in_interrupt := True, indexed := None,
                         substitute_instruction := False, extended := False\<rparr>))
          (ok r))))" for target and r :: "(interrupt option \<times> u16) option"
  have f: "flags c = f" using c by (simp add: cpu_inv_def)
  have enter: "succeeds (enter target r) d (\<lambda>r' c'. r' = r \<and> cpu_inv (False, True, None, interrupt_enabled c, False) k n s c')"
    if d: "cpu_inv f k n s d" for target r d
  proof -
    have "cpu_inv (False, True, None, interrupt_enabled c, False) k n s
        (e\<lparr>in_interrupt := True, indexed := None, substitute_instruction := False, extended := False\<rparr>)"
      if "cpu_inv f k n s e" for e
      using that f by (auto simp: cpu_inv_def core_ok_def flags_def books_def)
    note after = this
    show ?thesis
      unfolding enter_def runs_and_then
      by (rule succeeds_mono [OF keepsD [OF keeps_save_interrupt d, unfolded runs_and_then]],
          erule succeeds_mono, erule succeeds_mono) (simp add: after)
  qed
  have body: "succeeds (and_then (gets (\<lambda>c. interrupt_enabled c \<and> \<not> in_interrupt c \<and> \<not> extended c \<and> \<not> has_overflow a
         \<and> raw (di_raw i) \<notin> {3, 4, 6})) (\<lambda>maskable.
     let edrupt = (di_mnemonic i = EdrupT)
     in if \<not> edrupt \<and> \<not> maskable then ok None
        else
          and_then (gets (\<lambda>c. pop_first (pending_interrupts c))) (\<lambda>(accepted, rest).
          seq (modify (pending_interrupts_update (\<lambda>_. rest)))
            (if accepted = None \<and> \<not> edrupt then ok None
             else enter (case accepted of None \<Rightarrow> 0 | Some i \<Rightarrow> vector i)
                    (Some (accepted, case accepted of None \<Rightarrow> 0 | Some i \<Rightarrow> vector i)))))) d (\<lambda>r c'.
     (case r of None \<Rightarrow> cpu_inv f k n s c' \<and> di_mnemonic i \<noteq> EdrupT
      | Some _ \<Rightarrow> cpu_inv (False, True, None, interrupt_enabled c, False) k n s c'
          \<and> (di_mnemonic i = EdrupT \<or> \<not> in_interrupt c \<and> \<not> extended c)))"
    if d: "cpu_inv f k n s d" for a d
  proof -
    have g: "in_interrupt d = in_interrupt c" "extended d = extended c"
      using d f by (auto simp: cpu_inv_def flags_def)
    have p: "cpu_inv f k n s (d\<lparr>pending_interrupts := r\<rparr>)" for r
      using d by (simp add: cpu_inv_def core_ok_def flags_def books_def)
    have entered: "succeeds (enter target (Some q)) (d\<lparr>pending_interrupts := r\<rparr>) (\<lambda>r c'.
     (case r of None \<Rightarrow> cpu_inv f k n s c' \<and> di_mnemonic i \<noteq> EdrupT
      | Some _ \<Rightarrow> cpu_inv (False, True, None, interrupt_enabled c, False) k n s c'
          \<and> (di_mnemonic i = EdrupT \<or> \<not> in_interrupt c \<and> \<not> extended c)))"
      if "di_mnemonic i = EdrupT \<or> \<not> in_interrupt c \<and> \<not> extended c" for target q r
      by (rule succeeds_mono [OF enter [OF p]]) (use that in auto)
    show ?thesis
      using d p g by (auto simp: Let_def case_prod_unfold intro!: entered)
  qed
  show ?thesis
    unfolding accept_interrupt_def runs_and_then [of a_register]
    by (rule succeeds_mono [OF keepsD [OF keeps_registers(1) c]])
       (use body in \<open>simp only: enter_def Let_def simp_thms\<close>)
qed

lemma log_seen_ok:
  assumes "log_ok t"
  shows "log_seen t = (if events t = [] then None else Some (length (events t) - 1, te_cycle_end (last (events t))))"
  using log_ok_sequence [OF assms, of "length (events t) - 1"]
  by (auto simp: log_seen_def last_event_def stamp_def last_conv_nth)

lemma log_state_push:
  assumes "log_state t ts st" "header e = (TRACE_SCHEMA_VERSION, ts, st)" "te_cycle_end e \<le> now"
  shows "push e t = Some (Inr (), t\<lparr>events := events t @ [e]\<rparr>)"
    "log_state (t\<lparr>events := events t @ [e]\<rparr>) (Suc ts) now"
proof -
  have h: "te_schema_version e = TRACE_SCHEMA_VERSION" "te_sequence e = ts" "te_cycle_start e = st"
    using assms(2) by (simp_all add: header_def)
  have t: "log_ok t" "ts = length (events t)" "events t \<noteq> [] \<longrightarrow> te_cycle_end (last (events t)) \<le> st"
    using assms(1) by (simp_all add: log_state_def)
  have f: "follows (log_seen t) e" using t h by (simp add: follows_def log_seen_ok)
  then show "push e t = Some (Inr (), t\<lparr>events := events t @ [e]\<rparr>)" using h by (simp add: push_run)
  have "log_ok (t\<lparr>events := events t @ [e]\<rparr>)"
    using f h t(1) by (simp add: log_ok_def chain_append log_seen_def split: option.splits)
  then show "log_state (t\<lparr>events := events t @ [e]\<rparr>) (Suc ts) now"
    using t(2) assms(3) by (simp add: log_state_def)
qed

lemma run_commit:
  assumes x: "exec_inv f (t, ts, q, bp, wp) n s (TRACE_SCHEMA_VERSION, ts, st) x" and t: "log_state t ts st"
  shows "succeeds commit_event x (\<lambda>_ y. exec_inv f (t\<lparr>events := events t @ [event y]\<rparr>, ts, q, bp, wp) n s (TRACE_SCHEMA_VERSION, ts, st) y
     \<and> log_state (t\<lparr>events := events t @ [event y]\<rparr>) (Suc ts) n)"
proof -
  let ?k = "(t, ts, q, bp, wp)" and ?h = "(TRACE_SCHEMA_VERSION, ts, st)"
  have fin: "succeeds (seq (set_event (\<lambda>e. e\<lparr>te_cycle_end := n, te_after := after\<rparr>)) (
     and_then (gets event) (\<lambda>e. on_cpu (zoom trace (\<lambda>t c. c\<lparr>trace := t\<rparr>) CpuTrace (push e))))) z
     (\<lambda>_ y. exec_inv f (t\<lparr>events := events t @ [event y]\<rparr>, ts, q, bp, wp) n s ?h y
     \<and> log_state (t\<lparr>events := events t @ [event y]\<rparr>) (Suc ts) n)" if z: "exec_inv f ?k n s ?h z" for z after
  proof -
    define e where "e = (event z)\<lparr>te_cycle_end := n, te_after := after\<rparr>"
    have e: "header e = ?h" "te_cycle_end e \<le> n" "te_cycle_end e = n"
      using z by (simp_all add: e_def header_def exec_inv_def)
    have z': "trace (machine z) = t" using z by (simp add: exec_inv_def cpu_inv_def books_def)
    have "runs (push e) t (\<lambda>_ t'. t' = t\<lparr>events := events t @ [e]\<rparr>) (\<lambda>_ _. False)"
      by (simp add: runs_def log_state_push(1) [OF t e(1,2)])
    then show ?thesis
      unfolding set_event_def on_cpu_def
      apply (simp add: z' flip: e_def)
      apply (erule succeeds_mono)
      using z e log_state_push(2) [OF t e(1,2)]
      by (simp add: exec_inv_def cpu_inv_def core_ok_def flags_def books_def header_def)
  qed
  have n: "cycles (machine x) = n" using x by (simp add: exec_inv_def cpu_inv_def)
  show ?thesis
    unfolding commit_event_def runs_and_then [of "gets (\<lambda>x. cycles (machine x))"] runs_gets n
      runs_and_then [of "on_cpu snapshot"]
    by (rule succeeds_mono [OF keepsD [OF keeps_on_cpu [OF keeps_derived_registers(5)] x]]) (elim conjE, erule fin)
qed

text \<open>What one step owes its caller.\<close>

definition step_done :: "cpu \<Rightarrow> step_kind \<Rightarrow> trace_event \<Rightarrow> cpu \<Rightarrow> bool" where
  "step_done c kind e c' \<longleftrightarrow> cpu_ok c' \<and> cycles c < cycles c'
     \<and> breakpoints c' = breakpoints c \<and> watchpoints c' = watchpoints c
     \<and> events (trace c') = events (trace c) @ [e]
     \<and> (case kind of
          StepInstruction i \<Rightarrow> sequence c' = Suc (sequence c)
        | StepInterruptEntry i target \<Rightarrow> sequence c' = sequence c \<and> in_interrupt c' \<and> \<not> extended c'
            \<and> \<not> (in_interrupt c \<and> \<not> extended c))"

text \<open>
  A step ends by committing its event and counting the transition.  \<open>commits\<close> says what
  that end does, for the books and the event header it starts from; the lemmas about steps hold
  for every such end, the one that appends to the trace and the one the trace refuses.
\<close>

definition tally :: "(cpu \<Rightarrow> cpu) \<Rightarrow> nat \<Rightarrow> bool" where
  "tally g j \<longleftrightarrow> (\<forall>d. cycles (g d) = cycles d \<and> scaler_mcts (g d) = scaler_mcts d \<and> trace (g d) = trace d
     \<and> breakpoints (g d) = breakpoints d \<and> watchpoints (g d) = watchpoints d \<and> flags (g d) = flags d
     \<and> trace_sequence (g d) = Suc (trace_sequence d) \<and> core_ok (g d) = core_ok d \<and> sequence (g d) = sequence d + j)"

definition kind_ok :: "cpu \<Rightarrow> control \<Rightarrow> nat \<Rightarrow> step_kind \<Rightarrow> bool" where
  "kind_ok c f j kind \<longleftrightarrow> (case kind of
       StepInstruction i \<Rightarrow> j = 1
     | StepInterruptEntry i target \<Rightarrow> j = 0 \<and> fst (snd f) \<and> \<not> fst f \<and> \<not> (in_interrupt c \<and> \<not> extended c))"

definition commits ::
  "cpu \<Rightarrow> record_books \<Rightarrow> event_header \<Rightarrow> (step_kind \<Rightarrow> trace_event \<Rightarrow> cpu \<Rightarrow> bool) \<Rightarrow> (cpu_error \<Rightarrow> cpu \<Rightarrow> bool) \<Rightarrow> bool" where
  "commits c k h Q E \<longleftrightarrow> (\<forall>kind f n s x g j. exec_inv f k n s h x \<longrightarrow> cycles c < n \<longrightarrow> unat s < 83
     \<longrightarrow> tally g j \<longrightarrow> kind_ok c f j kind
     \<longrightarrow> runs (seq commit_event (seq (on_cpu (modify g)) (ok kind))) x
           (\<lambda>r y. Q r (event y) (machine y)) (\<lambda>e y. E e (machine y)))"

lemma commitsD:
  assumes "commits c k h Q E" "exec_inv f k n s h x" "cycles c < n" "unat s < 83" "tally g j" "kind_ok c f j kind"
  shows "runs (seq commit_event (seq (on_cpu (modify g)) (ok kind))) x
           (\<lambda>r y. Q r (event y) (machine y)) (\<lambda>e y. E e (machine y))"
  using assms unfolding commits_def by blast

lemma tally_counts:
  "tally (trace_sequence_update Suc) 0"
  "tally (\<lambda>c. c\<lparr>sequence := sequence c + 1, trace_sequence := trace_sequence c + 1\<rparr>) 1"
  by (simp_all add: tally_def flags_def core_ok_def)

lemma commits_log:
  assumes log: "log_state (trace c) (trace_sequence c) (cycles c)"
  shows "commits c (books c) (TRACE_SCHEMA_VERSION, trace_sequence c, cycles c) (step_done c) (\<lambda>_ _. False)"
proof -
  obtain t ts q bp wp where k: "books c = (t, ts, q, bp, wp)" by (cases "books c")
  then have c': "trace c = t" "trace_sequence c = ts" "sequence c = q" "breakpoints c = bp" "watchpoints c = wp"
    by (auto simp: books_def)
  have "succeeds (seq commit_event (seq (on_cpu (modify g)) (ok kind))) x (\<lambda>r y. step_done c r (event y) (machine y))"
    if x: "exec_inv f (t, ts, q, bp, wp) n s (TRACE_SCHEMA_VERSION, ts, cycles c) x" and n: "cycles c < n" and s: "unat s < 83"
      and g: "tally g j" and kind: "kind_ok c f j kind" for kind f n s x g j
  proof -
    note commit = run_commit [OF x log [unfolded c']]
    have finished: "step_done c kind (event y) (g (machine y))"
      if "exec_inv f (t\<lparr>events := events t @ [event y]\<rparr>, ts, q, bp, wp) n s (TRACE_SCHEMA_VERSION, ts, cycles c) y"
        "log_state (t\<lparr>events := events t @ [event y]\<rparr>) (Suc ts) n" for y
    proof -
      have m: "core_ok (machine y)" "flags (machine y) = f" "cycles (machine y) = n" "scaler_mcts (machine y) = s"
        "trace (machine y) = t\<lparr>events := events t @ [event y]\<rparr>" "trace_sequence (machine y) = ts"
        "sequence (machine y) = q" "breakpoints (machine y) = bp" "watchpoints (machine y) = wp"
        using that(1) by (auto simp: exec_inv_def cpu_inv_def books_def)
      have "in_interrupt (g (machine y)) = fst (snd f)" "extended (g (machine y)) = fst f"
        using m(2) g by (auto simp: flags_def tally_def)
      then show ?thesis
        using m g that(2) c' s n kind
        by (auto simp: step_done_def cpu_ok_def tally_def kind_ok_def split: step_kind.splits)
    qed
    show ?thesis
      unfolding runs_and_then [of commit_event]
      by (rule succeeds_mono [OF commit], elim conjE) (simp add: on_cpu_def finished)
  qed
  then show ?thesis unfolding commits_def k c' by blast
qed

text \<open>
  When the trace has been taken away but the sequence number has not been reset, the trace
  refuses the event of the next step.
\<close>

lemma commits_refused:
  assumes t: "events (trace c) = []" and ts: "0 < trace_sequence c"
  shows "commits c (books c) (TRACE_SCHEMA_VERSION, trace_sequence c, cycles c) (\<lambda>_ _ _. False)
     (\<lambda>e c'. e = CpuTrace (Ordering 0 (trace_sequence c)))"
proof -
  obtain tr n q bp wp where k: "books c = (tr, n, q, bp, wp)" by (cases "books c")
  then have c': "trace c = tr" "trace_sequence c = n" by (auto simp: books_def)
  have "runs commit_event x (\<lambda>_ _. False) (\<lambda>e _. e = CpuTrace (Ordering 0 n))"
    if x: "exec_inv f (tr, n, q, bp, wp) m s (TRACE_SCHEMA_VERSION, n, st) x" for f m s st x
  proof -
    have refuse: "runs (on_cpu (zoom trace (\<lambda>t c. c\<lparr>trace := t\<rparr>) CpuTrace (push (event z)))) z (\<lambda>_ _. False)
        (\<lambda>e _. e = CpuTrace (Ordering 0 n))"
      if "exec_inv f (tr, n, q, bp, wp) m s (TRACE_SCHEMA_VERSION, n, st) z" for z
    proof -
      have "trace (machine z) = tr" "te_schema_version (event z) = TRACE_SCHEMA_VERSION" "te_sequence (event z) = n"
        using that by (simp_all add: exec_inv_def cpu_inv_def books_def header_def)
      moreover have "log_seen tr = None" using t c' by (simp add: log_seen_def last_event_def)
      ultimately show ?thesis
        using ts c' by (simp add: on_cpu_def runs_def [of "push e" for e] push_run follows_def)
    qed
    show ?thesis
      unfolding commit_event_def runs_and_then runs_gets set_event_def runs_modify
      by (rule succeeds_mono [OF keepsD [OF keeps_on_cpu [OF keeps_derived_registers(5)] x]], elim conjE, rule refuse)
        (simp add: exec_inv_def header_def)
  qed
  note refused = this
  show ?thesis
    unfolding commits_def k c' runs_and_then [of commit_event]
    by (intro allI impI, rule runs_mono [OF refused]) simp_all
qed

lemma runs_cpu_modify: "runs (on_cpu (modify g)) x Q E = Q () (x\<lparr>machine := g (machine x)\<rparr>)"
  by (simp add: on_cpu_def)

lemma timedE:
  assumes "timed f k h lo b x"
  obtains n s where "exec_inv f k n s h x" "lo \<le> n" "unat s < b"
  using assms by (auto simp: timed_def)

lemma timedI: "exec_inv f k n s h x \<Longrightarrow> lo \<le> n \<Longrightarrow> unat s < b \<Longrightarrow> timed f k h lo b x"
  by (auto simp: timed_def)

lemma timed_keeps:
  assumes "\<And>n s. keeps (exec_inv f k n s h) m P" "timed f k h lo b x"
  shows "succeeds m x (\<lambda>a y. timed f k h lo b y \<and> P a)"
proof (rule timedE [OF assms(2)])
  fix n s
  assume x: "exec_inv f k n s h x" "lo \<le> n" "unat s < b"
  show ?thesis by (rule succeeds_mono [OF keepsD [OF assms(1) x(1)]]) (use x in \<open>auto intro: timedI\<close>)
qed

lemma run_step_interrupt:
  assumes c: "commits c k h Q E" and x: "timed f k h lo 80 x" and lo: "cycles c \<le> lo"
    and f: "fst (snd f)" "\<not> fst f" "\<not> (in_interrupt c \<and> \<not> extended c)"
  shows "runs (step_interrupt u i t) x (\<lambda>r y. Q r (event y) (machine y)) (\<lambda>e y. E e (machine y))"
proof -
  let ?Q = "\<lambda>r y. Q r (event y) (machine y)" and ?E = "\<lambda>e y. E e (machine y)"
  have fin: "runs (seq commit_event (seq (on_cpu (modify (trace_sequence_update Suc))) (ok (StepInterruptEntry i t)))) y ?Q ?E"
    if "timed f k h (Suc lo) 83 y" for y
  proof (rule timedE [OF that])
    fix n s
    assume y: "exec_inv f k n s h y" "Suc lo \<le> n" "unat s < 83"
    have n: "cycles c < n" using y(2) lo by simp
    show ?thesis
      by (rule commitsD [OF c y(1) n y(3) tally_counts(1)]) (simp add: kind_ok_def f)
  qed
  have clock: "runs (seq clock_deferred_mct (seq commit_event (
       seq (on_cpu (modify (trace_sequence_update Suc))) (ok (StepInterruptEntry i t))))) y ?Q ?E"
    if "timed f k h lo 80 y" for y
    unfolding runs_and_then [of clock_deferred_mct]
    by (rule succeeds_mono [OF run_clock [OF that]], simp, rule fin) simp
  have prefix: "keeps (exec_inv f k n s h) (seq (set_event (\<lambda>e. e\<lparr>te_kind := InterruptEntry, te_mnemonic := ''INTERRUPT'',
            te_operand := t, te_extended := u\<rparr>)) (push_interrupt e)) (\<lambda>_. True)" for n s e
    by (rule keeps_rules keeps_set_event | simp add: header_def)+
  show ?thesis
    unfolding step_interrupt_def runs_and_then [of "set_event f" for f] runs_and_then [of "push_interrupt f" for f]
    apply (rule succeeds_mono [OF timed_keeps [OF prefix x, unfolded runs_and_then]])
    apply (erule succeeds_mono)
    apply (elim conjE)
    by (erule clock)
qed

lemma run_prepare:
  assumes "timed f k h lo 80 x" "di_cycles i \<in> {1, 2, 3, 6}"
  shows "succeeds (when_do (1 < unat (di_cycles i))
            (seq (repeat_do (unat (di_cycles i) - 2) clock_deferred_mct) advance_to_ready_mct)) x
     (\<lambda>_. timed f k h lo 80)"
proof (cases "1 < unat (di_cycles i)")
  case True
  have j: "unat (di_cycles i) - 2 \<le> 4" using assms(2) by auto
  have "succeeds (repeat_do (unat (di_cycles i) - 2) clock_deferred_mct) x
      (\<lambda>_ y. succeeds advance_to_ready_mct y (\<lambda>_. timed f k h lo 80))"
    by (rule succeeds_mono [OF run_clocks [OF assms(1)]], use j in simp,
        rule succeeds_mono [OF run_advance], assumption, use j in simp, erule timed_mono) simp_all
  then show ?thesis using True by simp
qed (use assms(1) in simp)

lemma keeps_schedule [keeps_rules]:
  "keeps (cpu_inv f k n s) schedule_completed_downrupt (\<lambda>_. True)"
  unfolding schedule_completed_downrupt_def
  by (rule keeps_modify) (auto simp: cpu_inv_def core_ok_def flags_def books_def)

lemma run_step_instruction:
  assumes c: "commits c k h Q E" and x: "timed f k h lo 80 x" and lo: "cycles c < lo"
    and i: "di_cycles i \<in> {1, 2, 3, 6}" "operand_fits (di_mnemonic i) (di_operand i)" "di_mnemonic i \<noteq> EdrupT"
  shows "runs (step_instruction i pc) x (\<lambda>r y. Q r (event y) (machine y)) (\<lambda>e y. E e (machine y))"
proof -
  let ?Q = "\<lambda>r y. Q r (event y) (machine y)" and ?E = "\<lambda>e y. E e (machine y)"
  let ?count = "\<lambda>c :: cpu. c\<lparr>sequence := sequence c + 1, trace_sequence := trace_sequence c + 1\<rparr>"
  let ?clear = "\<lambda>c :: cpu. c\<lparr>substitute_instruction := False, indexed := None, extended := False\<rparr>"
  have fin: "runs (seq commit_event (seq (on_cpu (modify ?count)) (ok (StepInstruction i)))) y ?Q ?E"
    if y: "running k n s h y" and n: "lo \<le> n" "unat s < 80" for n s y
  proof -
    obtain f where f: "exec_inv f k n s h y" using y by (auto simp: running_def)
    have m: "cycles c < n" "unat s < 83" using n lo by auto
    show ?thesis
      by (rule commitsD [OF c f m tally_counts(2)]) (simp add: kind_ok_def)
  qed
  let ?work = "seq (on_cpu (set_z ((pc + 1) AND 0xFFF))) (
     seq (set_event (\<lambda>e. e\<lparr>te_mnemonic := as_str (di_mnemonic i),
            te_operand := di_operand i, te_extended := di_extended i\<rparr>)) (
     seq (execute i) (
     and_then (on_cpu l_register) (\<lambda>l.
     seq (on_cpu (set_l_register (sign_extend (overflow_correct l)))) (on_cpu schedule_completed_downrupt)))))"
  have work: "keeps (running k n s h) ?work (\<lambda>_. True)" for n s
    apply (rule keeps_bind [OF keeps_running [OF keeps_on_cpu [OF keeps_registers(9)]]])
    apply (rule keeps_bind [OF keeps_running [OF keeps_set_event]], simp add: header_def)
    apply (rule keeps_bind [OF keeps_execute [OF i(2,3)]])
    by (rule keeps_running keeps_on_cpu keeps_rules)+
  have rest: "runs (seq (on_cpu (modify ?clear)) (seq ?work (seq commit_event (seq (on_cpu (modify ?count)) (ok (StepInstruction i)))))) y ?Q ?E"
    if "timed f k h lo 80 y" for y
  proof (rule timedE [OF that])
    fix n s
    assume y: "exec_inv f k n s h y" "lo \<le> n" "unat s < 80"
    have z: "running k n s h (y\<lparr>machine := ?clear (machine y)\<rparr>)"
      unfolding running_def using y(1)
      by (intro exI [of _ "flags (?clear (machine y))"]) (simp add: exec_inv_def cpu_inv_def core_ok_def flags_def books_def)
    show ?thesis
      unfolding runs_and_then [of "on_cpu (modify ?clear)"] runs_and_then [of ?work] runs_cpu_modify [of ?clear]
      apply (rule succeeds_mono [OF keepsD [OF work z]])
      using fin y by blast
  qed
  have assoc: "runs (seq ?work m) y Q E \<longleftrightarrow> runs (seq (on_cpu (set_z ((pc + 1) AND 0xFFF))) (
     seq (set_event (\<lambda>e. e\<lparr>te_mnemonic := as_str (di_mnemonic i),
            te_operand := di_operand i, te_extended := di_extended i\<rparr>)) (
     seq (execute i) (
     and_then (on_cpu l_register) (\<lambda>l.
     seq (on_cpu (set_l_register (sign_extend (overflow_correct l)))) (
     seq (on_cpu schedule_completed_downrupt) m)))))) y Q E" for m :: "(exec_state, cpu_error, step_kind) prog" and y Q E
    by (simp only: runs_and_then)
  show ?thesis
    unfolding step_instruction_def runs_and_then [of "when_do b m" for b m]
    apply (rule succeeds_mono [OF run_prepare [OF x i(1)]])
    using rest by (simp only: runs_and_then [of "on_cpu (modify ?clear)"] assoc)
qed

lemma run_step_body:
  assumes c: "commits c k h Q E" and x: "timed (flags c) k h (cycles c) 83 x"
    and i: "di_cycles i \<in> {1, 2, 3, 6}" "operand_fits (di_mnemonic i) (di_operand i)" "di_mnemonic i = EdrupT \<Longrightarrow> extended c"
  shows "runs (step_body i pc u) x (\<lambda>r y. Q r (event y) (machine y)) (\<lambda>e y. E e (machine y))"
proof -
  let ?Q = "\<lambda>r y. Q r (event y) (machine y)" and ?E = "\<lambda>e y. E e (machine y)"
  let ?branch = "\<lambda>entry. case entry of
       Some (accepted, target) \<Rightarrow> step_interrupt u accepted target
     | None \<Rightarrow> step_instruction i pc"
  have body: "runs (and_then (on_cpu (accept_interrupt i pc)) ?branch) y ?Q ?E"
    if "timed (flags c) k h (Suc (cycles c)) 80 y" for y
  proof (rule timedE [OF that])
    fix n s
    assume y: "exec_inv (flags c) k n s h y" "Suc (cycles c) \<le> n" "unat s < 80"
    then have m: "cpu_inv (flags c) k n s (machine y)" "header (event y) = h" by (simp_all add: exec_inv_def)
    then have fl: "in_interrupt (machine y) = in_interrupt c" "extended (machine y) = extended c"
      by (auto simp: cpu_inv_def flags_def)
    have next_step: "runs (?branch r) (y\<lparr>machine := d\<rparr>) ?Q ?E"
      if r: "case r of None \<Rightarrow> cpu_inv (flags c) k n s d \<and> di_mnemonic i \<noteq> EdrupT
        | Some _ \<Rightarrow> cpu_inv (False, True, None, interrupt_enabled (machine y), False) k n s d
          \<and> (di_mnemonic i = EdrupT \<or> \<not> in_interrupt (machine y) \<and> \<not> extended (machine y))" for r d
    proof (cases r)
      case None
      then have z: "timed (flags c) k h (Suc (cycles c)) 80 (y\<lparr>machine := d\<rparr>)" "di_mnemonic i \<noteq> EdrupT"
        using r m(2) y(2,3) by (auto simp: exec_inv_def intro!: timedI)
      show ?thesis
        unfolding None option.case
        by (rule run_step_instruction [OF c z(1) _ i(1,2) z(2)]) simp
    next
      case (Some p)
      obtain accepted target where p: "p = (accepted, target)" by (cases p)
      have e: "\<not> (in_interrupt c \<and> \<not> extended c)" using r Some i(3) fl by auto
      have z: "timed (False, True, None, interrupt_enabled (machine y), False) k h (Suc (cycles c)) 80 (y\<lparr>machine := d\<rparr>)"
        using r Some m(2) y(2,3) by (auto simp: exec_inv_def intro!: timedI)
      show ?thesis
        unfolding Some p option.case prod.case
        by (rule run_step_interrupt [OF c z]) (use e in auto)
    qed
    show "runs (and_then (on_cpu (accept_interrupt i pc)) ?branch) y ?Q ?E"
      unfolding runs_and_then on_cpu_def runs_zoom
      by (rule succeeds_mono [OF run_accept [OF m(1)] next_step])
  qed
  show ?thesis
    unfolding step_body_def runs_and_then [of advance_to_ready_mct]
    by (rule succeeds_mono [OF run_advance [OF x]], simp, erule body)
qed

lemma runs_with_event:
  "runs (with_event e m) c Q E
     = runs m \<lparr>machine = c, event = e, watch = None\<rparr> (\<lambda>a s. Q (a, event s, watch s) (machine s)) (\<lambda>x s. E x (machine s))"
  by (auto simp: runs_def with_event_def split: option.splits sum.splits)

lemma run_step:
  assumes c: "core_ok c" "unat (scaler_mcts c) < 83"
    and s: "commits c (books c) (TRACE_SCHEMA_VERSION, trace_sequence c, cycles c) Q E"
  shows "runs step c (\<lambda>out c'. Q (so_kind out) (so_trace out) c') E"
proof -
  define h where "h = (TRACE_SCHEMA_VERSION, trace_sequence c, cycles c)"
  note s = s [folded h_def]
  let ?Q = "\<lambda>out. Q (so_kind out) (so_trace out)"
  let ?I = "cpu_inv (flags c) (books c) (cycles c) (scaler_mcts c)"
  have inv: "?I c" using c by (simp add: cpu_inv_def)
  have body: "runs (and_then (with_event e (step_body (decode w (extended c)) pc (extended c))) (\<lambda>(kind, e, v).
      ok \<lparr>so_kind = kind, so_trace = e, so_watchpoint = v\<rparr>)) d ?Q E"
    if "?I d" "word_ok w" "header e = h" for d e w pc
  proof -
    have x: "timed (flags c) (books c) h (cycles c) 83 \<lparr>machine = d, event = e, watch = None\<rparr>"
      by (rule timedI [where n = "cycles c" and s = "scaler_mcts c"]) (use that c in \<open>simp_all add: exec_inv_def\<close>)
    have ed: "extended c" if "di_mnemonic (decode w (extended c)) = EdrupT"
      using decode_class(1) [of w "extended c"] that by (simp add: is_extended_def)
    show ?thesis
      unfolding runs_and_then runs_with_event prod.case
      using run_step_body [OF s x decode_class(2) decode_operand_fits [OF that(2)] ed] by simp
  qed
  have fetch: "runs (and_then (gets (\<lambda>c. if substitute_instruction c then REG_BRUPT else pc)) (\<lambda>fetch_address.
    and_then (try_memory (read_memory fetch_address FetchAccess)) (\<lambda>fetch.
    and_then (gets (\<lambda>c. case indexed c of
         None \<Rightarrow> ma_value fetch | Some index \<Rightarrow> wrapping_add (ma_value fetch) index)) (\<lambda>actual_word.
    and_then (gets extended) (\<lambda>used_extended.
    and_then (gets (\<lambda>c. (trace_event_new (trace_sequence c) (cycles c) pc actual_word)
         \<lparr>te_before := before, te_memory := [memory_event_of fetch]\<rparr>)) (\<lambda>e.
    and_then (with_event e (step_body (decode actual_word used_extended) pc used_extended)) (\<lambda>(kind, e, w).
    ok \<lparr>so_kind = kind, so_trace = e, so_watchpoint = w\<rparr>))))))) d ?Q E"
    if d: "?I d" and pc: "unat pc < 4096" for d pc before
  proof -
    have a: "unat (if substitute_instruction d then REG_BRUPT else pc) < 4096" using pc by simp
    have e: "extended d' = extended c" "trace_sequence d' = trace_sequence c" "cycles d' = cycles c"
      "indexed d' = Some w \<Longrightarrow> word_ok w" if "?I d'" for d' w
      using that by (auto simp: cpu_inv_def flags_def books_def core_ok_def)
    show ?thesis
      unfolding runs_and_then [of "gets f" for f] runs_gets runs_and_then [of "try_memory m" for m]
      apply (rule succeeds_mono [OF keepsD [OF keeps_read(1) [OF a] d]], elim conjE)
      subgoal premises p for fetch d'
        unfolding e(1) [OF p(1)]
        by (rule body) (use p e [OF p(1)] in \<open>auto simp: header_def h_def trace_event_new_def split: option.split\<close>)
      done
  qed
  show ?thesis
    unfolding step_def runs_and_then [of program_counter] runs_and_then [of snapshot]
    by (rule succeeds_mono [OF keepsD [OF keeps_derived_registers(3) inv]], elim conjE,
        rule succeeds_mono [OF keepsD [OF keeps_derived_registers(5)]], assumption, elim conjE, rule fetch)
qed

lemma run_step_ok:
  assumes "cpu_ok c"
  shows "succeeds step c (\<lambda>out c'. step_done c (so_kind out) (so_trace out) c')"
  using assms run_step [OF _ _ commits_log] by (simp add: cpu_ok_def)

section \<open>Running\<close>

text \<open>
  The number of rounds left: two per missing instruction, because an interrupt entry is
  followed by an instruction, and one more while an interrupt may still be entered.
\<close>

definition rounds_left :: "nat \<Rightarrow> nat \<Rightarrow> cpu \<Rightarrow> nat" where
  "rounds_left start limit c =
     2 * (limit - (sequence c - start)) + (if in_interrupt c \<and> \<not> extended c then 0 else 1)"

lemma rounds_decrease:
  assumes "step_done c kind e c'" "start \<le> sequence c" "\<not> limit \<le> sequence c - start"
  shows "rounds_left start limit c' < rounds_left start limit c" "start \<le> sequence c'"
  using assms by (auto simp: rounds_left_def step_done_def split: step_kind.splits)

definition run_done :: "nat \<Rightarrow> nat \<Rightarrow> cpu \<Rightarrow> run_outcome \<Rightarrow> cpu \<Rightarrow> bool" where
  "run_done start limit c r c' \<longleftrightarrow> cpu_ok c' \<and> start \<le> sequence c' \<and> cycles c \<le> cycles c'
     \<and> breakpoints c' = breakpoints c
     \<and> ro_instructions r = sequence c' - start \<and> ro_cycles r = cycles c'
     \<and> (\<exists>es. events (trace c') = events (trace c) @ es)
     \<and> (case ro_reason r of
          InstructionLimit \<Rightarrow> limit \<le> ro_instructions r
        | Breakpoint pc \<Rightarrow> pc \<in> breakpoints c \<and> ro_instructions r < limit
        | Watchpoint a \<Rightarrow> ro_instructions r \<le> limit)"

lemma run_done_trans:
  "step_done c kind e d \<Longrightarrow> run_done start limit d r c' \<Longrightarrow> run_done start limit c r c'"
  by (auto simp: run_done_def step_done_def split: stop_reason.splits)

lemma succeeds_program_counter:
  assumes "cpu_ok c"
  shows "succeeds program_counter c (\<lambda>pc d. d = c)"
proof -
  have "mem_ok (cpu_memory c)" using assms by (simp add: cpu_ok_def core_ok_def)
  then show ?thesis
    by (simp add: program_counter_def cpu_register_def in_memory_def runs_central_register)
qed

lemma run_rounds_done:
  "cpu_ok c \<Longrightarrow> start \<le> sequence c \<Longrightarrow> sequence c - start \<le> limit \<Longrightarrow> rounds_left start limit c < fuel \<Longrightarrow>
   succeeds (run_rounds fuel start limit) c (\<lambda>r c'. run_done start limit c r c' \<and> ro_instructions r \<le> limit)"
proof (induction fuel arbitrary: c)
  case 0
  then show ?case by simp
next
  case (Suc fuel)
  show ?case
  proof (cases "limit \<le> sequence c - start")
    case True
    then show ?thesis using Suc.prems by (simp add: run_done_def)
  next
    case False
    have step: "succeeds (and_then step (\<lambda>outcome.
         case so_watchpoint outcome of
           Some address \<Rightarrow>
             gets (\<lambda>c. \<lparr>ro_reason = Watchpoint address, ro_instructions = sequence c - start, ro_cycles = cycles c\<rparr>)
         | None \<Rightarrow> run_rounds fuel start limit)) c (\<lambda>r c'. run_done start limit c r c' \<and> ro_instructions r \<le> limit)"
      unfolding runs_and_then
    proof (rule succeeds_mono [OF run_step_ok [OF Suc.prems(1)]])
      fix out d
      assume d: "step_done c (so_kind out) (so_trace out) d"
      note less = rounds_decrease [OF d Suc.prems(2) False]
      have q: "sequence d - start \<le> limit" "cpu_ok d" "sequence c \<le> sequence d"
        using d False Suc.prems(2) by (auto simp: step_done_def split: step_kind.splits)
      have "succeeds (run_rounds fuel start limit) d (\<lambda>r c'. run_done start limit c r c' \<and> ro_instructions r \<le> limit)"
        by (rule succeeds_mono [OF Suc.IH [OF q(2) less(2) q(1)]])
          (use less Suc.prems(4) run_done_trans [OF d] in auto)
      moreover have "run_done start limit c \<lparr>ro_reason = Watchpoint a, ro_instructions = sequence d - start, ro_cycles = cycles d\<rparr> d" for a
        using d q less by (auto simp: run_done_def step_done_def)
      ultimately show "succeeds (case so_watchpoint out of
           Some address \<Rightarrow>
             gets (\<lambda>c. \<lparr>ro_reason = Watchpoint address, ro_instructions = sequence c - start, ro_cycles = cycles c\<rparr>)
         | None \<Rightarrow> run_rounds fuel start limit) d (\<lambda>r c'. run_done start limit c r c' \<and> ro_instructions r \<le> limit)"
        using q(1) by (auto split: option.split)
    qed
    have "succeeds program_counter c (\<lambda>pc d. d = c)" by (rule succeeds_program_counter [OF Suc.prems(1)])
    then show ?thesis
      using False Suc.prems step
      by (simp del: runs_and_then add: runs_and_then [of "gets f" for f] runs_and_then [of program_counter])
        (erule succeeds_mono, auto simp: run_done_def)
  qed
qed

lemma run_run:
  assumes "cpu_ok c"
  shows "succeeds (run n) c (\<lambda>r c'. run_done (sequence c) n c r c' \<and> ro_instructions r \<le> n)"
proof -
  have "rounds_left (sequence c) n c < 2 * n + 2" by (simp add: rounds_left_def)
  from run_rounds_done [OF assms order_refl _ this] show ?thesis by (simp add: run_def)
qed

section \<open>Reachable processors\<close>

lemma set_z_run:
  assumes "mem_ok (cpu_memory c)"
  shows "set_z a c = Some (Inr (), c\<lparr>cpu_memory := (cpu_memory c)\<lparr>central :=
    put_central 5 (a AND 0xFFF) (central (cpu_memory c))\<rparr>\<rparr>)"
proof -
  have "runs (set_z a) c (\<lambda>u d. u = () \<and> d = c\<lparr>cpu_memory := (cpu_memory c)\<lparr>central :=
    put_central 5 (a AND 0xFFF) (central (cpu_memory c))\<rparr>\<rparr>) (\<lambda>_ _. False)"
    using assms by (simp add: set_z_def cpu_set_central_register_def in_memory_def runs_set_central_register
        register_from_raw_def)
  then show ?thesis by (auto simp: succeeds_iff)
qed

lemma cpu_ok_initial: "mem_ok m \<Longrightarrow> cpu_ok (cpu_initial m)"
  by (simp add: cpu_ok_def core_ok_def cpu_initial_def mem_ok_reset log_state_def log_ok_def empty_log_def)

lemma run_set_z_ok: "cpu_ok c \<Longrightarrow> succeeds (set_z a) c (\<lambda>_ c'. cpu_ok c')"
  by (rule succeeds_mono [OF keepsD [OF keeps_registers(9) [of "flags c" "books c" "cycles c" "scaler_mcts c"]]])
    (auto simp: cpu_inv_def cpu_ok_def books_def)

lemma cpu_new_ok:
  assumes "mem_ok m"
  shows "\<exists>c. cpu_new m = Some c \<and> cpu_ok c"
proof -
  have "succeeds (set_z 0x800 :: (cpu, cpu_error, unit) prog) (cpu_initial m) (\<lambda>_ c'. cpu_ok c')"
    by (rule run_set_z_ok [OF cpu_ok_initial [OF assms]])
  then show ?thesis by (auto simp: cpu_new_def succeeds_iff)
qed

text \<open>
  What a user of the crate can do with a processor: create it on a memory, step it, run it,
  reset it, raise and cancel interrupts, set breakpoints and watchpoints, and change the memory
  through \<open>memory_mut\<close>, whose operations keep it well formed.
\<close>

inductive reachable :: "cpu \<Rightarrow> bool" where
  created: "mem_ok m \<Longrightarrow> cpu_new m = Some c \<Longrightarrow> reachable c"
| stepped: "reachable c \<Longrightarrow> step c = Some (r, c') \<Longrightarrow> reachable c'"
| ran: "reachable c \<Longrightarrow> run n c = Some (r, c') \<Longrightarrow> reachable c'"
| restarted: "reachable c \<Longrightarrow> (cpu_reset :: (cpu, cpu_error, unit) prog) c = Some (r, c') \<Longrightarrow> reachable c'"
| requested: "reachable c \<Longrightarrow> reachable (request_interrupt i c)"
| cancelled: "reachable c \<Longrightarrow> reachable (snd (cancel_interrupt i c))"
| breakpoint_added: "reachable c \<Longrightarrow> add_breakpoint a c = Some (r, c') \<Longrightarrow> reachable c'"
| breakpoint_removed: "reachable c \<Longrightarrow> reachable (remove_breakpoint a c)"
| watchpoint_added: "reachable c \<Longrightarrow> add_watchpoint a c = Some (r, c') \<Longrightarrow> reachable c'"
| memory_changed: "reachable c \<Longrightarrow> mem_ok m \<Longrightarrow> reachable (c\<lparr>cpu_memory := m\<rparr>)"

lemma cpu_ok_update:
  assumes "cpu_ok c"
  shows "cpu_ok (c\<lparr>pending_interrupts := p\<rparr>)" "cpu_ok (c\<lparr>breakpoints := b\<rparr>)" "cpu_ok (c\<lparr>watchpoints := b\<rparr>)"
    "mem_ok m \<Longrightarrow> cpu_ok (c\<lparr>cpu_memory := m\<rparr>)"
  "cpu_ok (breakpoints_update f c)" "cpu_ok (watchpoints_update f c)"
  using assms by (simp_all add: cpu_ok_def core_ok_def)

lemma run_reset_ok:
  assumes "mem_ok (cpu_memory c)"
  shows "succeeds (cpu_reset :: (cpu, cpu_error, unit) prog) c (\<lambda>_ c'. cpu_ok c')"
  using run_set_z_ok [OF cpu_ok_update(3) [OF cpu_ok_update(2) [OF cpu_ok_initial [OF assms]]]]
  by (simp add: cpu_reset_def)

lemma reachable_cpu_ok: "reachable c \<Longrightarrow> cpu_ok c"
proof (induction rule: reachable.induct)
  case (created m c)
  then show ?case using cpu_new_ok [OF created(1)] by auto
next
  case (stepped c r c')
  then show ?case using run_step_ok [OF stepped(3)] by (auto simp: runs_def step_done_def split: sum.splits)
next
  case (ran c n r c')
  then show ?case using run_run [OF ran(3), of n] by (auto simp: runs_def run_done_def split: sum.splits)
next
  case (restarted c r c')
  then have "mem_ok (cpu_memory c)" by (simp add: cpu_ok_def core_ok_def)
  from run_reset_ok [OF this] restarted(2) show ?case by (auto simp: runs_def split: sum.splits)
qed (auto simp: request_interrupt_def cancel_interrupt_def add_breakpoint_def remove_breakpoint_def add_watchpoint_def
    run_simps cpu_ok_update split: if_splits)

section \<open>Properties\<close>

text \<open>
  C6 A processor in a well-formed state always completes a step: it neither panics nor reports
  a memory, trace or arithmetic error, whatever word it fetches.  The step keeps the state
  well formed, takes time, and appends exactly its event to the trace; an instruction counts
  one, and an interrupt entry is made only outside a handler or for \<open>EDRUPT\<close>.
\<close>

theorem step_total:
  assumes "cpu_ok c"
  shows "\<exists>out c'. step c = Some (Inr out, c') \<and> cpu_ok c' \<and> cycles c < cycles c'
     \<and> breakpoints c' = breakpoints c \<and> watchpoints c' = watchpoints c
     \<and> events (trace c') = events (trace c) @ [so_trace out]
     \<and> te_sequence (so_trace out) = length (events (trace c))
     \<and> (case so_kind out of
          StepInstruction i \<Rightarrow> sequence c' = Suc (sequence c)
        | StepInterruptEntry i target \<Rightarrow> sequence c' = sequence c \<and> in_interrupt c' \<and> \<not> extended c'
            \<and> (in_interrupt c \<longrightarrow> extended c))"
proof -
  obtain out c' where s: "step c = Some (Inr out, c')" "step_done c (so_kind out) (so_trace out) c'"
    using run_step_ok [OF assms] by (auto simp: succeeds_iff)
  then have "log_ok (trace c')" "events (trace c') = events (trace c) @ [so_trace out]"
    by (simp_all add: step_done_def cpu_ok_def log_state_def)
  then have "te_sequence (so_trace out) = length (events (trace c))"
    using log_ok_sequence [of "trace c'" "length (events (trace c))"] by simp
  then show ?thesis using s by (auto simp: step_done_def split: step_kind.splits)
qed

theorem step_total_witness:
  "\<exists>c out c'. cpu_new blank = Some c \<and> step c = Some (Inr out, c') \<and> cpu_ok c' \<and> cycles c < cycles c'"
  using cpu_new_ok [OF mem_ok_blank] step_total by blast





text \<open>
  Resetting a processor equals creating a new one on its memory, except that the breakpoints
  and watchpoints stay.
\<close>

theorem reset_is_new:
  assumes "mem_ok (cpu_memory c)"
  shows "\<exists>d. cpu_new (cpu_memory c) = Some d
     \<and> (cpu_reset :: (cpu, cpu_error, unit) prog) c = Some (Inr (), d\<lparr>breakpoints := breakpoints c, watchpoints := watchpoints c\<rparr>)"
  using mem_ok_reset [OF assms]
  by (simp add: cpu_new_def cpu_reset_def run_simps cpu_initial_def set_z_run)

theorem reset_is_new_witness:
  "\<exists>c d. cpu_new blank = Some c
     \<and> (cpu_reset :: (cpu, cpu_error, unit) prog) c = Some (Inr (), d\<lparr>breakpoints := breakpoints c, watchpoints := watchpoints c\<rparr>)"
proof -
  obtain c where c: "cpu_new blank = Some c" "cpu_ok c" using cpu_new_ok [OF mem_ok_blank] by blast
  then have "mem_ok (cpu_memory c)" by (simp add: cpu_ok_def core_ok_def)
  from reset_is_new [OF this] c(1) show ?thesis by blast
qed

text \<open>
  Taking the trace of a processor that has committed anything makes its next step fail: the
  sequence number is not reset with the trace, so the empty trace refuses the next event with
  an ordering error.
\<close>

theorem take_trace_blocks_step:
  assumes "cpu_ok c" "events (trace c) \<noteq> []" "(take_trace :: (cpu, cpu_error, trace_log) prog) c = Some (Inr t, d)"
  shows "t = trace c \<and> (\<exists>d'. step d = Some (Inl (CpuTrace (Ordering 0 (length (events t)))), d'))"
proof -
  have t: "t = trace c" using assms(3) by (simp add: take_trace_def run_simps)
  have d: "d = c\<lparr>trace := empty_log\<rparr>" using assms(3) by (simp add: take_trace_def run_simps)
  have ts: "trace_sequence c = length (events (trace c))" using assms(1) by (simp add: cpu_ok_def log_state_def)
  have "runs step d (\<lambda>_ _. False) (\<lambda>e _. e = CpuTrace (Ordering 0 (trace_sequence d)))"
    by (rule run_step [OF _ _ commits_refused]) (use assms(1,2) d ts in \<open>simp_all add: cpu_ok_def core_ok_def empty_log_def\<close>)
  then show ?thesis
    using t ts d by (auto simp: runs_iff)
qed

theorem take_trace_blocks_step_witness:
  "\<exists>c t d d' n. cpu_ok c \<and> (take_trace :: (cpu, cpu_error, trace_log) prog) c = Some (Inr t, d) \<and> step d = Some (Inl (CpuTrace (Ordering 0 n)), d')"
proof -
  obtain b where b: "cpu_ok b" using cpu_new_ok [OF mem_ok_blank] by blast
  obtain out c where "step b = Some (Inr out, c)" "step_done b (so_kind out) (so_trace out) c"
    using run_step_ok [OF b] by (auto simp: succeeds_iff)
  then have c: "cpu_ok c" "events (trace c) \<noteq> []" by (auto simp: step_done_def)
  have "(take_trace :: (cpu, cpu_error, trace_log) prog) c = Some (Inr (trace c), c\<lparr>trace := empty_log\<rparr>)"
    by (simp add: take_trace_def run_simps)
  with take_trace_blocks_step [OF c this] c show ?thesis by blast
qed

end
