(* ===== verification/Agc_Cpu_Arith.thy ===== *)
theory Agc_Cpu_Arith
  imports Agc_Cpu_Steps
begin

text \<open>
  The dividend of \<open>DV\<close>: the value of the double word that the normalisation of A and L makes.
\<close>

section \<open>The dividend\<close>

lemma unat_decent:
  fixes high low :: u16
  assumes "unat high < 32768"
  shows "unat ((0x1FFFC000 AND push_bit 14 (ucast high :: u32)) OR ucast (low AND 0x3FFF))
    = unat high * 16384 + unat low mod 16384"
proof -
  let ?h = "ucast high :: u32" and ?l = "ucast (low AND 0x3FFF) :: u32"
  have "mask 15 AND ?h = ?h"
    using assms unat_and_mask [of ?h 15] by (simp add: word_eq_unat_iff unat_simps and.commute)
  then have h: "0x1FFFC000 AND push_bit 14 ?h = push_bit 14 ?h"
    using push_bit_and [of 14 "mask 15" ?h] by (simp add: mask_eq_decr_exp)
  have u: "unat (push_bit 14 ?h) = unat high * 16384" "unat ?l = unat low mod 16384"
    using assms by (simp_all add: unat_push_bit unat_simps)
  have "push_bit 14 ?h AND ?l = 0"
    by (rule bit_word_eqI) (auto simp: bit_simps bit_masks)
  from unat_or_disjoint [OF this] show ?thesis using assms unfolding h by (simp add: u)
qed

lemma double_value:
  fixes high low :: u16
  assumes "unat high < 32768"
  shows "agc_double_to_i64 (let v = (0x1FFFC000 AND push_bit 14 (ucast high :: u32)) OR ucast (low AND 0x3FFF)
        in if v AND 0x10000000 \<noteq> 0 then v OR 0x20000000 else v)
    = (if 16384 \<le> unat high then (int (unat high) - 32767) * 16384 + int (unat low mod 16384) - 16383
       else int (unat high) * 16384 + int (unat low mod 16384))"
proof -
  define v where "v = (0x1FFFC000 AND push_bit 14 (ucast high :: u32)) OR ucast (low AND 0x3FFF)"
  have v: "unat v = unat high * 16384 + unat low mod 16384"
    unfolding v_def by (rule unat_decent [OF assms])
  define r where "r = (unat high mod 16384) * 16384 + unat low mod 16384"
  have r: "r < 268435456" "unat v = r + (if 16384 \<le> unat high then 268435456 else 0)"
  proof -
    have "unat high mod 16384 \<le> 16383" "unat low mod 16384 \<le> 16383" by simp_all
    then show "r < 268435456" unfolding r_def by linarith
    show "unat v = r + (if 16384 \<le> unat high then 268435456 else 0)"
      using assms v by (simp add: r_def le_mod_geq diff_mult_distrib)
  qed
  have b: "bit v 28 \<longleftrightarrow> 16384 \<le> unat high"
  proof -
    have "unat v div 268435456 = (if 16384 \<le> unat high then 1 else 0)"
      using r div_add_self2 [of 268435456 r] by simp
    then show ?thesis by (simp add: bit_unat)
  qed
  have or: "NOT (v OR 0x20000000) AND 0xFFFFFFF = NOT v AND 0xFFFFFFF" "bit (v OR 0x20000000) 28 = bit v 28"
  proof -
    have e: "(0xFFFFFFF :: u32) = mask 28" by (simp add: mask_eq_decr_exp)
    have "(0x20000000 :: u32) = push_bit 29 1" by simp
    then have b29: "bit (0x20000000 :: u32) n \<longleftrightarrow> n = 29" for n
      by (simp only: bit_push_bit_iff bit_1_iff) auto
    show "NOT (v OR 0x20000000) AND 0xFFFFFFF = NOT v AND 0xFFFFFFF"
      unfolding e by (rule bit_word_eqI, simp only: bit_not_iff bit_and_iff bit_or_iff bit_mask_iff b29) auto
    show "bit (v OR 0x20000000) 28 = bit v 28" by (simp add: bit_or_iff b29)
  qed
  have m: "unat v mod 268435456 = r" using r by simp
  have i: "int r + (if 16384 \<le> unat high then 268435456 else 0) = int (unat high) * 16384 + int (unat low mod 16384)"
    using r(2) v by (auto simp flip: of_nat_add of_nat_mult split: if_splits)
  show ?thesis
    unfolding v_def [symmetric] Let_def agc_double_to_i64_def u32_bit_test
    using b or m i unat_not_28 [of v] r(1)
    by (simp add: uint_unat u32_and_FFFFFFF of_nat_diff split: if_splits)
qed

lemma single_value:
  fixes low :: u16
  assumes "bit low 14 = bit low 15"
  shows "agc_double_to_i64 (let v = (ucast (sign_extend_raw low) :: u32);
            v = (if v AND 0x8000 \<noteq> 0 then v OR 0xFFFF0000 else v)
        in v AND 0x3FFFFFFF) = (if bit low 15 then - int (65535 - unat low) else int (unat low))"
proof -
  have "bit (sign_extend_raw low) n = bit low n" for n
    using assms bit_u16_high [of n low] by (cases "n < 15 \<or> n = 15") (auto simp: bit_sign_extend_raw)
  then have s: "sign_extend_raw low = low" by (simp add: bit_word_eqI)
  have e: "(0xFFFFFFF :: u32) = mask 28" "(0x3FFFFFFF :: u32) = mask 30" "(0xFFFF0000 :: u32) = push_bit 16 (mask 16)"
    by (simp_all add: mask_eq_decr_exp)
  let ?v = "ucast low :: u32"
  show ?thesis
  proof (cases "bit low 15")
    case True
    have "NOT ((?v OR 0xFFFF0000) AND 0x3FFFFFFF) AND 0xFFFFFFF = (ucast (NOT low) :: u32)"
      unfolding e by (rule bit_word_eqI) (auto simp: bit_simps dest: bit_u16_high)
    moreover have "bit ((?v OR 0xFFFF0000) AND 0x3FFFFFFF) 28"
      unfolding e by (simp add: bit_simps)
    ultimately show ?thesis using True
      by (simp add: s Let_def u32_bit_test bit_ucast_u16 agc_double_to_i64_def uint_unat unat_simps)
  next
    case False
    have small: "bit low n \<Longrightarrow> n < 16" for n using bit_imp_le_length [of low n] by simp
    have "?v AND 0x3FFFFFFF = ?v" "?v AND 0xFFFFFFF = ?v" "\<not> bit ?v 28"
      unfolding e by (auto simp: bit_simps intro!: bit_word_eqI dest!: small)
    then show ?thesis using False
      by (simp add: s Let_def u32_bit_test bit_ucast_u16 agc_double_to_i64_def uint_unat unat_simps)
  qed
qed

lemma unat_not_15: "unat (NOT (x :: u16) AND 0x7FFF) = 32767 - unat x mod 32768"
  by (simp only: unat_simps complement_mod [OF u16_less])

text \<open>
  The double word that \<open>DV\<close> divides is the value of A and L taken together, except when A is
  positive and L is minus zero.  There the source compares the sixteen-bit L with the
  fifteen-bit minus zero, borrows from A, and loses the borrow.
\<close>

lemma dividend_value:
  assumes h: "word_ok h" and w: "word_ok w"
  shows "agc_double_to_i64 (sp_to_decent (raw h) (reg_raw (sign_extend w)))
    = to_i32_lossy_zero h * 16384 + to_i32_lossy_zero w
      - (if 0 < to_i32_lossy_zero h \<and> w = NEGATIVE_ZERO then 16384 else 0)"
proof -
  define H where "H = unat (raw h)"
  define W where "W = unat (raw w)"
  define low where "low = reg_raw (sign_extend w)"
  have b: "H < 32768" "W < 32768" using h w by (simp_all add: H_def W_def word_ok_iff)
  have low: "unat low = W + (if 16384 \<le> W then 32768 else 0)"
    unfolding low_def unat_sign_extend [OF w] is_negative_iff [OF w] W_def by simp
  have hv: "to_i32_lossy_zero h = (if H < 16384 then int H else int H - 32767)"
    and wv: "to_i32_lossy_zero w = (if W < 16384 then int W else int W - 32767)"
    by (simp_all add: to_i32_unat h w H_def W_def)
  have nz: "w = NEGATIVE_ZERO \<longleftrightarrow> W = 32767"
    by (cases w) (simp add: W_def NEGATIVE_ZERO_def word_eq_unat_iff WORD_MASK_def)
  have sign: "low AND 0x4000 \<noteq> raw h AND 0x4000 \<longleftrightarrow> (16384 \<le> W) \<noteq> (16384 \<le> H)"
    using b low by (auto simp: word_eq_unat_iff unat_and_4000 bit_14_iff H_def)
  show ?thesis
  proof (cases "raw h = 0 \<or> raw h = 0x7FFF")
    case True
    then have H: "H = 0 \<or> H = 32767" by (auto simp: H_def)
    have "bit low 14 = bit low 15" "bit low 15 = (16384 \<le> W)"
      using b low by (auto simp: bit_14_iff bit_15_iff le_mod_geq)
    then show ?thesis
      using True H b low single_value [of low]
      by (auto simp: sp_to_decent_def hv wv simp flip: low_def)
  next
    case False
    then have H: "H \<noteq> 0" "H \<noteq> 32767" by (auto simp: H_def word_eq_unat_iff)
    obtain h2 l2 where al: "align_signs (raw h) low = (h2, l2)" by (cases "align_signs (raw h) low")
    have "agc_double_to_i64 (sp_to_decent (raw h) low)
        = (if 16384 \<le> unat h2 then (int (unat h2) - 32767) * 16384 + int (unat l2 mod 16384) - 16383
           else int (unat h2) * 16384 + int (unat l2 mod 16384))" if "unat h2 < 32768"
      using double_value [OF that, of l2] False by (simp add: sp_to_decent_def al)
    moreover
    consider (same) "(16384 \<le> W) = (16384 \<le> H)" | (borrow) "H < 16384" "16384 \<le> W"
      | (zero) "16384 \<le> H" "W = 0" | (carry) "16384 \<le> H" "W < 16384" "W \<noteq> 0" by linarith
    then have "unat h2 < 32768 \<and> (if 16384 \<le> unat h2 then (int (unat h2) - 32767) * 16384 + int (unat l2 mod 16384) - 16383
           else int (unat h2) * 16384 + int (unat l2 mod 16384))
      = (if H < 16384 then int H else int H - 32767) * 16384 + (if W < 16384 then int W else int W - 32767)
        - (if 0 < H \<and> H < 16384 \<and> W = 32767 then 16384 else 0)"
    proof cases
      case same
      then have "h2 = raw h" "l2 = low" using al sign by (simp_all add: align_signs_def)
      then show ?thesis using same b low by (auto simp: H_def [symmetric] le_mod_geq)
    next
      case borrow
      have "raw h AND 0x4000 = 0" using borrow by (simp add: word_eq_unat_iff unat_and_4000 bit_14_iff H_def [symmetric])
      moreover have "low \<noteq> 0 \<and> low \<noteq> 0x7FFF" using borrow low by (auto simp: word_eq_unat_iff)
      ultimately have "h2 = raw h - 1" "l2 = (low + 0x4001) AND 0x7FFF"
        using al sign borrow by (simp_all add: align_signs_def Let_def)
      moreover have "unat (low + 0x4001 AND 0x7FFF) = W - 16383"
        using low borrow b by (simp add: unat_simps unat_word_ariths le_mod_geq)
      ultimately have "unat h2 = H - 1" "unat l2 = W - 16383"
        using False by (simp_all add: unat_minus_one H_def)
      then show ?thesis using borrow b H by (auto simp: of_nat_diff)
    next
      case zero
      have "raw h AND 0x4000 \<noteq> 0" using zero b by (simp add: word_eq_unat_iff unat_and_4000 bit_14_iff H_def [symmetric])
      moreover have "low = 0" using zero low by (simp add: word_eq_unat_iff)
      ultimately have "h2 = raw h" "l2 = 0x7FFF"
        using al by (simp_all add: align_signs_def)
      then show ?thesis using zero b by (simp add: H_def [symmetric])
    next
      case carry
      have "raw h AND 0x4000 \<noteq> 0" using carry b by (simp add: word_eq_unat_iff unat_and_4000 bit_14_iff H_def [symmetric])
      moreover have "low \<noteq> 0 \<and> low \<noteq> 0x7FFF" using carry low by (auto simp: word_eq_unat_iff)
      ultimately have "h2 = NOT ((NOT (raw h) AND 0x7FFF) - 1) AND 0x7FFF"
        "l2 = NOT ((NOT low AND 0x7FFF) + 0x4001 AND 0x7FFF) AND 0x7FFF"
        using al sign carry by (simp_all add: align_signs_def Let_def)
      moreover define p q where "p = NOT (raw h) AND 0x7FFF" and "q = NOT low AND 0x7FFF"
      moreover have p: "unat p = 32767 - H" "unat q = 32767 - W"
        using b low carry by (simp_all add: unat_not_15 H_def p_def q_def)
      moreover have "unat (p - 1) = 32766 - H"
        using H b p(1) by (subst unat_minus_one) (auto simp: word_eq_unat_iff)
      moreover have "unat ((q + 0x4001) AND 0x7FFF) = 16384 - W"
        using carry p(2) by (simp add: unat_simps unat_word_ariths le_mod_geq)
      ultimately have "unat h2 = H + 1" "unat l2 = 16383 + W"
        using H b carry by (simp_all only: unat_not_15) simp_all
      then show ?thesis using carry b H by (auto simp: le_mod_geq)
    qed
    ultimately show ?thesis using H b(1) by (simp add: hv wv nz flip: low_def)
  qed
qed

end
