(* ===== verification/Agc_Cpu_Function.thy ===== *)
theory Agc_Cpu_Function
  imports Agc_Cpu_Arith
begin

text \<open>
  What the instructions compute: equations for the register and memory accesses of an
  instruction, and the functional behaviour of \<open>MP\<close>, \<open>DV\<close>, \<open>CCS\<close>, \<open>MSU\<close>, of interrupts and of
  the timers.
\<close>

section \<open>Registers and words seen by an instruction\<close>

definition reg :: "exec_state \<Rightarrow> nat \<Rightarrow> u16" where
  "reg x i = central (cpu_memory (machine x)) ! i"

definition word_at :: "exec_state \<Rightarrow> u16 \<Rightarrow> agc_word" where
  "word_at x a = value_at (cpu_memory (machine x)) (location_of (cpu_memory (machine x)) a)"

definition well_formed :: "exec_state \<Rightarrow> bool" where
  "well_formed x \<longleftrightarrow> mem_ok (cpu_memory (machine x))"

definition in_mem :: "(memory \<Rightarrow> memory) \<Rightarrow> exec_state \<Rightarrow> exec_state" where
  "in_mem g x = x\<lparr>machine := (machine x)\<lparr>cpu_memory := g (cpu_memory (machine x))\<rparr>\<rparr>"

definition put_reg :: "nat \<Rightarrow> u16 \<Rightarrow> exec_state \<Rightarrow> exec_state" where
  "put_reg i r = in_mem (\<lambda>m. m\<lparr>central := put_central i r (central m)\<rparr>)"

definition edit_at :: "u16 \<Rightarrow> exec_state \<Rightarrow> exec_state" where
  "edit_at a = in_mem (\<lambda>m. edited (location_of m a) m)"

definition note_access :: "memory_access \<Rightarrow> exec_state \<Rightarrow> exec_state" where
  "note_access a = event_update (te_memory_update (\<lambda>es. es @ [memory_event_of a]))"

lemma well_formed_kept [simp]:
  "well_formed x \<Longrightarrow> i < 49 \<Longrightarrow> well_formed (put_reg i r x)"
  "well_formed x \<Longrightarrow> unat a < 4096 \<Longrightarrow> well_formed (edit_at a x)"
  "well_formed (note_access e x) = well_formed x"
  by (simp_all add: well_formed_def put_reg_def edit_at_def in_mem_def note_access_def mem_ok_central central_ok_put mem_okD
      mem_ok_edited physical_of)

lemma nth_put_central_same:
  assumes "length cs = 49" "i < 49"
  shows "put_central i r cs ! i = r AND register_mask i"
  unfolding nth_put_central [OF assms assms(2)] by (simp cong: conj_cong)

lemma reg_put [simp]:
  assumes "well_formed x" "i < 49" "j < 49" "\<not> (i \<in> {3, 4, 6} \<and> j \<in> {3, 4, 6})"
  shows "reg (put_reg i r x) j = (if i = j then r AND register_mask i else reg x j)"
proof -
  have len: "length (central (cpu_memory (machine x))) = 49" using assms(1) by (simp add: well_formed_def mem_okD(2))
  show ?thesis
    using len nth_put_central_same [OF len assms(2), of r] nth_put_central_other [OF len assms(2-3) _ assms(4), of r]
    by (auto simp: reg_def put_reg_def in_mem_def)
qed

lemma reg_note [simp]: "reg (note_access e x) j = reg x j" "word_at (note_access e x) a = word_at x a"
  by (simp_all add: reg_def note_access_def word_at_def)

lemma reg_edit [simp]:
  assumes "well_formed x" "unat a < 4096" "j < 16"
  shows "reg (edit_at a x) j = reg x j"
proof -
  have "central (edited l m) ! j = central m ! j" if "mem_ok m" for l m
  proof (cases l)
    case (Central i)
    then show ?thesis
      using nth_put_central_other [of "central m" "unat i" j] assms(3) mem_okD(2) [OF that]
      by (simp add: edited_def put_at_def)
  qed (simp_all add: edited_def)
  then show ?thesis using assms(1) by (simp add: reg_def edit_at_def in_mem_def well_formed_def)
qed

lemma register_masks [simp]:
  "register_mask 0 = 0xFFFF" "register_mask (Suc 0) = 0xFFFF" "register_mask 2 = 0xFFFF" "register_mask 5 = 0xFFF"
  "register_mask 13 = 0xFFFF" "register_mask 15 = 0xFFFF"
  by (simp_all add: register_mask_def)

lemma reg_Z_mask: "well_formed x \<Longrightarrow> reg x 5 AND 0xFFF = reg x 5"
  using masked_nth [of "central (cpu_memory (machine x))" 5] by (simp add: reg_def well_formed_def mem_okD)

lemma word_at_ok [simp]: "well_formed x \<Longrightarrow> unat a < 4096 \<Longrightarrow> word_ok (word_at x a)"
  by (simp add: word_at_def well_formed_def value_at_ok physical_of)

lemma runs_registers:
  assumes "well_formed x"
  shows "runs (on_cpu a_register) x Q E = Q (AgcRegister (reg x 0)) x"
    "runs (on_cpu l_register) x Q E = Q (AgcRegister (reg x 1)) x"
    "runs (on_cpu a_raw) x R E = R (reg x 0) x"
    "runs (on_cpu a_word) x W E = W (overflow_correct (AgcRegister (reg x 0))) x"
    "runs (on_cpu program_counter) x R E = R (reg x 5) x"
  using assms reg_Z_mask [OF assms]
  by (simp_all add: on_cpu_def a_register_def l_register_def a_raw_def a_word_def program_counter_def cpu_register_def
      in_memory_def runs_central_register well_formed_def reg_def)

lemma runs_cpu_set:
  assumes "well_formed x" "unat i < 16"
  shows "runs (on_cpu (cpu_set_central_register i v)) x Q E = Q () (put_reg (unat i) (reg_raw v) x)"
  using assms by (simp add: on_cpu_def cpu_set_central_register_def in_memory_def runs_set_central_register
      well_formed_def put_reg_def in_mem_def)

lemma runs_set_z:
  "well_formed x \<Longrightarrow> runs (on_cpu (set_z a)) x Q E = Q () (put_reg 5 (a AND 0xFFF) x)"
  by (simp add: set_z_def register_from_raw_def runs_cpu_set)

lemma runs_set_registers:
  assumes "well_formed x"
  shows "runs (on_cpu (set_a_register v)) x Q E = Q () (put_reg 0 (reg_raw v) x)"
    "runs (on_cpu (set_l_register v)) x Q E = Q () (put_reg 1 (reg_raw v) x)"
    "runs (on_cpu (set_a_raw r)) x Q E = Q () (put_reg 0 r x)"
    "runs (on_cpu (set_a_word w)) x Q E = Q () (put_reg 0 (reg_raw (sign_extend w)) x)"
    "runs (on_cpu (set_l_word w)) x Q E = Q () (put_reg 1 (reg_raw (sign_extend w)) x)"
    "runs (on_cpu (set_q_raw r)) x Q E = Q () (put_reg 2 r x)"
  using assms
  by (simp_all add: runs_cpu_set set_a_register_def set_l_register_def set_a_raw_def set_a_word_def set_l_word_def
      set_q_raw_def register_from_raw_def)

lemma runs_skip:
  assumes "well_formed x"
  shows "runs (on_cpu (skip_words k)) x Q E = Q () (put_reg 5 ((reg x 5 + k) AND 0xFFF) x)"
proof -
  have "runs (on_cpu (skip_words k)) x Q E
      = runs (on_cpu program_counter) x (\<lambda>pc y. runs (on_cpu (set_z ((pc + k) AND 0xFFF))) y Q E) E"
    by (simp add: skip_words_def on_cpu_def)
  then show ?thesis using assms by (simp add: runs_registers runs_set_z and.assoc)
qed

lemma runs_words:
  assumes "well_formed x" "unat a < 4096"
  shows "runs (read_word a) x Q E = Q (word_at x a) (note_access (access_of (cpu_memory (machine x)) ReadAccess a) x)"
    "runs (read_word_and_edit a) x Q E =
       Q (word_at x a) (note_access (access_of (cpu_memory (machine x)) ReadAccess a) (edit_at a x))"
  using assms
  by (simp_all add: read_word_def read_word_and_edit_def on_cpu_def try_memory_def runs_read_memory runs_read_and_edit
      well_formed_def push_memory_def set_event_def note_access_def word_at_def access_of_def edit_at_def in_mem_def)

text \<open>Operands outside the first three registers are the sign extension of the word.\<close>

lemma runs_operands:
  assumes "well_formed x" "unat a < 4096" "3 \<le> unat a"
  shows "runs (read_register_operand a) x Q E =
       Q (sign_extend (word_at x a)) (note_access (access_of (cpu_memory (machine x)) ReadAccess a) x)"
    "runs (read_register_operand_and_edit a) x Q E =
       Q (sign_extend (word_at x a)) (note_access (access_of (cpu_memory (machine x)) ReadAccess a) (edit_at a x))"
  using assms
  by (simp_all add: read_register_operand_def read_register_operand_and_edit_def operand_register_def on_cpu_def try_memory_def
      runs_read_memory runs_read_and_edit well_formed_def push_memory_def set_event_def note_access_def word_at_def access_of_def
      edit_at_def in_mem_def del: register_numbers)

lemmas runs_access = runs_registers runs_set_z runs_set_registers runs_skip runs_words runs_operands

lemma sign_of_word:
  assumes "word_ok w"
  shows "is_negative w \<Longrightarrow> to_i32_lossy_zero w \<le> 0" "\<not> is_negative w \<Longrightarrow> 0 \<le> to_i32_lossy_zero w"
  using word_okD [OF assms] by (simp_all add: to_i32_unat [OF assms] is_negative_iff [OF assms])

lemma signed_product:
  assumes "word_ok a" "word_ok b"
  shows "(if is_negative a \<noteq> is_negative b then - (\<bar>to_i32_lossy_zero a\<bar> * \<bar>to_i32_lossy_zero b\<bar>)
      else \<bar>to_i32_lossy_zero a\<bar> * \<bar>to_i32_lossy_zero b\<bar>) = to_i32_lossy_zero a * to_i32_lossy_zero b"
  using sign_of_word [OF assms(1)] sign_of_word [OF assms(2)]
  by (cases "is_negative a"; cases "is_negative b") auto

lemma product_bounds:
  assumes "word_ok a" "word_ok r"
  shows "0 \<le> \<bar>to_i32_lossy_zero a\<bar> * \<bar>to_i32_lossy_zero r\<bar>"
    "\<bar>to_i32_lossy_zero a\<bar> * \<bar>to_i32_lossy_zero r\<bar> \<le> 268435455"
proof -
  have "\<bar>to_i32_lossy_zero a\<bar> \<le> 16383" "\<bar>to_i32_lossy_zero r\<bar> \<le> 16383"
    using to_i32_bounds [OF assms(1)] to_i32_bounds [OF assms(2)] by auto
  then have "\<bar>to_i32_lossy_zero a\<bar> * \<bar>to_i32_lossy_zero r\<bar> \<le> 16383 * 16383" by (rule mult_mono) simp_all
  then show "\<bar>to_i32_lossy_zero a\<bar> * \<bar>to_i32_lossy_zero r\<bar> \<le> 268435455" by simp
qed simp

lemma double_minus_zero:
  "double_ok \<lparr>dw_high = NEGATIVE_ZERO, dw_low = NEGATIVE_ZERO\<rparr>"
  "to_i64_lossy_zero \<lparr>dw_high = NEGATIVE_ZERO, dw_low = NEGATIVE_ZERO\<rparr> = 0"
proof -
  show ok: "double_ok \<lparr>dw_high = NEGATIVE_ZERO, dw_low = NEGATIVE_ZERO\<rparr>" by (simp add: double_ok_def)
  show "to_i64_lossy_zero \<lparr>dw_high = NEGATIVE_ZERO, dw_low = NEGATIVE_ZERO\<rparr> = 0"
    unfolding to_i64_unat [OF ok] by (simp add: is_negative_def NEGATIVE_ZERO_def WORD_SIGN_def WORD_MASK_def)
qed

text \<open>
  C9 \<open>MP\<close> leaves in A and L the double word whose value is the exact product of the
  overflow-corrected accumulator and the operand, and touches no other register of the
  instruction.
\<close>

theorem multiply_exact:
  assumes "well_formed x" "unat k < 4096"
  shows "succeeds (multiply k) x (\<lambda>_ y. well_formed y \<and> reg y 2 = reg x 2 \<and> reg y 5 = reg x 5 \<and>
    (\<exists>p. reg y 0 = reg_raw (sign_extend (dw_high p)) \<and> reg y 1 = reg_raw (sign_extend (dw_low p))
       \<and> double_ok p
       \<and> to_i64_lossy_zero p
           = to_i32_lossy_zero (overflow_correct (AgcRegister (reg x 0))) * to_i32_lossy_zero (word_at x k)))"
proof -
  define a where "a = overflow_correct (AgcRegister (reg x 0))"
  define r where "r = word_at x k"
  define n where "n = (is_negative a \<noteq> is_negative r)"
  define m where "m = \<bar>to_i32_lossy_zero a\<bar> * \<bar>to_i32_lossy_zero r\<bar>"
  have ok: "word_ok a" "word_ok r" using assms by (simp_all add: a_def r_def)
  have bounds: "- 268435455 \<le> (if n then - m else m)" "(if n then - m else m) \<le> 268435455"
    using product_bounds [OF ok] unfolding m_def [symmetric] by auto
  obtain p where p: "from_i64 (if n then - m else m) = Inr p" "double_ok p"
    using from_i64_ok [OF bounds] by blast
  have v: "to_i64_lossy_zero p = to_i32_lossy_zero a * to_i32_lossy_zero r"
    using to_i64_from_i64 [OF bounds p(1)] signed_product [OF ok] by (simp only: n_def m_def)
  let ?y = "note_access (access_of (cpu_memory (machine x)) ReadAccess k) x"
  have store: "succeeds (seq (on_cpu (set_a_word (dw_high q))) (on_cpu (set_l_word (dw_low q))) :: (exec_state, cpu_error, unit) prog) ?y
      (\<lambda>_ y. well_formed y \<and> reg y 2 = reg x 2 \<and> reg y 5 = reg x 5 \<and>
    (\<exists>p. reg y 0 = reg_raw (sign_extend (dw_high p)) \<and> reg y 1 = reg_raw (sign_extend (dw_low p))
       \<and> double_ok p \<and> to_i64_lossy_zero p = to_i32_lossy_zero a * to_i32_lossy_zero r))"
    if "double_ok q" "to_i64_lossy_zero q = to_i32_lossy_zero a * to_i32_lossy_zero r" for q
    using assms that by (simp add: runs_access) blast
  have zero: "to_i32_lossy_zero a * to_i32_lossy_zero r = 0" if "m = 0" using that by (simp add: m_def)
  show ?thesis
    unfolding multiply_def runs_and_then [of "on_cpu a_word"] runs_and_then [of "read_word k"]
      runs_registers(4) [OF assms(1)] runs_words(1) [OF assms] Let_def a_def [symmetric] r_def [symmetric]
      m_def [symmetric] n_def [symmetric] runs_if p(1) sum.case
    using store [OF p(2) v] store [OF double_minus_zero(1)] double_minus_zero(2) zero by simp
qed


lemma i32_of_from: "\<bar>v\<bar> \<le> 16383 \<Longrightarrow> from_i32 v = Inr w \<Longrightarrow> word_ok w \<and> to_i32_lossy_zero w = v"
  using from_i32_ok [of v] by (auto simp: abs_le_iff to_i32_unat split: if_splits)

lemma zero_words: "to_i32_lossy_zero POSITIVE_ZERO = 0" "to_i32_lossy_zero NEGATIVE_ZERO = 0"
  by (simp_all add: to_i32_lossy_zero_def POSITIVE_ZERO_def NEGATIVE_ZERO_def is_negative_def WORD_MASK_def WORD_SIGN_def)

definition divides :: "exec_state \<Rightarrow> int \<Rightarrow> int \<Rightarrow> exec_state \<Rightarrow> bool" where
  "divides x n d y \<longleftrightarrow> well_formed y \<and> reg y 2 = reg x 2 \<and> reg y 5 = reg x 5 \<and>
     (\<exists>q r. word_ok q \<and> word_ok r \<and> reg y 0 = reg_raw (sign_extend q) \<and> reg y 1 = reg_raw (sign_extend r)
        \<and> to_i32_lossy_zero q * d + to_i32_lossy_zero r = n \<and> \<bar>to_i32_lossy_zero r\<bar> < \<bar>d\<bar>
        \<and> 0 \<le> to_i32_lossy_zero r * n)"

lemma run_divide:
  assumes x: "well_formed x" and k: "unat k < 4096" "3 \<le> unat k" "unat k \<noteq> 5"
    and n: "normalize_double (reg x 0) (reg x 1) = (high, low, decent)" "n = agc_double_to_i64 decent"
    and d: "d = to_i32_lossy_zero (word_at x k)" and less: "n \<noteq> 0" "\<bar>n\<bar> < \<bar>d\<bar> * 16384"
  shows "succeeds (cpu_divide k) x (\<lambda>_ y. divides x n d y)"
proof -
  define w where "w = word_at x k"
  have w: "word_ok w" using x k by (simp add: w_def)
  define e where "e = reg_raw (sign_extend w)"
  have e: "overflow_correct_raw e = w" "\<not> has_overflow (register_from_raw e)"
    using w by (simp_all add: e_def overflow_correct_raw_eq register_from_raw_def has_overflow_bit bit_sign_extend)
  have ka: "\<not> k < REG_EB" using k(2) by (simp add: word_less_nat_alt)
  have kz: "k \<noteq> REG_A" "k \<noteq> REG_L" "k \<noteq> REG_Z" using k by (auto simp: word_eq_unat_iff)
  note nf = normalize_fields [OF n(1)]
  have abs_k: "int (unat (absolute_sp (raw w))) = \<bar>d\<bar>" using absolute_sp_value [OF w] by (simp add: d w_def)
  have abs_n: "\<bar>n\<bar> = int (unat (absolute_sp high)) * 16384 + int (unat (absolute_sp low))" using nf(2) n(2) by simp
  have "int (unat (absolute_sp high)) * 16384 < int (unat (absolute_sp (raw w))) * 16384"
    using less(2) unfolding abs_k abs_n by linarith
  then have a: "absolute_sp high < absolute_sp (raw w)" by (simp add: word_less_nat_alt)
  have nz: "\<not> (absolute_sp high = 0 \<and> absolute_sp low = 0)" using less(1) abs_n by auto
  note q = keeps_quotient [OF n(1) _ _ _ _ refl w, folded n(2) d [folded w_def]]
  have qr: "d \<noteq> 0" "\<bar>signed_divide n d\<bar> \<le> 16383" "\<bar>signed_modulo n d\<bar> \<le> 16383"
    using q a nz by (auto simp: word_less_nat_alt word_eq_unat_iff)
  obtain u v where u: "from_i32 (signed_divide n d) = Inr u" and v: "from_i32 (signed_modulo n d) = Inr v"
    using from_i32_total qr(2,3) by blast
  have uv: "word_ok u" "to_i32_lossy_zero u = signed_divide n d" "word_ok v" "to_i32_lossy_zero v = signed_modulo n d"
    using i32_of_from [OF qr(2) u] i32_of_from [OF qr(3) v] by auto
  let ?y = "note_access (access_of (cpu_memory (machine x)) ReadAccess k) x"
  have y: "well_formed ?y" using x by simp
  have select: "runs (on_cpu (select_divisor k (reg x 0) (reg x 1) b w)) ?y Q E = Q e ?y" for b Q E
    by (simp add: select_divisor_def on_cpu_def e_def ka kz del: register_numbers less_EB)
  have c: "\<not> (absolute_sp (raw w) < absolute_sp high \<or> absolute_sp high = absolute_sp (raw w) \<and> absolute_sp low \<noteq> 0
        \<or> has_overflow (register_from_raw e))"
    "\<not> (absolute_sp high = absolute_sp (raw w) \<and> absolute_sp low = 0)" using a e(2) by auto
  have div: "signed_divide n d * d + signed_modulo n d = n" by (rule sdiv_mult_smod_eq)
  have small: "\<bar>signed_modulo n d\<bar> < \<bar>d\<bar>" "0 \<le> signed_modulo n d * n"
    using qr(1) by (simp_all add: smod_int_alt_def abs_mult abs_sgn_eq sgn_mult_self_eq mult.assoc mult.commute [of n])
      (auto simp: sgn_if intro!: mult_nonneg_nonpos)
  have stored: "divides x n d (put_reg 1 (reg_raw (sign_extend r)) (put_reg 0 (reg_raw (sign_extend u)) ?y))"
    if "word_ok r" "to_i32_lossy_zero r = signed_modulo n d" for r
    unfolding divides_def using x y that uv div small by (intro conjI exI [of _ u] exI [of _ r]) simp_all
  show ?thesis
    unfolding cpu_divide_def runs_and_then [of "read_word k"] runs_words(1) [OF x k(1)] runs_and_then [of "on_cpu a_raw"]
      runs_and_then [of "on_cpu l_register"] runs_registers(2,3) [OF y] reg_note agc_register.sel Let_def n(1) prod.case
      runs_and_then [of "on_cpu (select_divisor k v u b w)" for v u b w] w_def [symmetric] select e(1)
      if_not_P [OF c(1)] if_not_P [OF nz] if_not_P [OF c(2)] n(2) [symmetric] d [folded w_def, symmetric]
      if_not_P [OF qr(1)] u v sum.case
    using y stored uv zero_words by (simp add: runs_access)
qed


text \<open>A state for evaluating instructions: the initial processor with given A, L and ARUPT.\<close>

definition sample :: "u16 \<Rightarrow> u16 \<Rightarrow> u16 \<Rightarrow> exec_state" where
  "sample a l v = put_reg 8 v (put_reg 1 l (put_reg 0 a
     \<lparr>machine = cpu_initial blank, event = trace_event_new 0 0 0 POSITIVE_ZERO, watch = None\<rparr>))"

lemma sample_ok [simp]: "well_formed (sample a l v)"
proof -
  have "well_formed \<lparr>machine = cpu_initial blank, event = trace_event_new 0 0 0 POSITIVE_ZERO, watch = None\<rparr>"
    by (simp add: well_formed_def cpu_initial_def mem_ok_reset mem_ok_blank)
  then show ?thesis by (simp add: sample_def)
qed

lemma sample_regs [simp]: "reg (sample a l v) 0 = a" "reg (sample a l v) (Suc 0) = l" "reg (sample a l v) 8 = v"
proof -
  have "well_formed \<lparr>machine = cpu_initial blank, event = trace_event_new 0 0 0 POSITIVE_ZERO, watch = None\<rparr>"
    by (simp add: well_formed_def cpu_initial_def mem_ok_reset mem_ok_blank)
  then show "reg (sample a l v) 0 = a" "reg (sample a l v) (Suc 0) = l" "reg (sample a l v) 8 = v"
    by (simp_all add: sample_def register_mask_def)
qed

lemma word_at_8 [simp]: "word_at x 8 = from_raw_truncate (reg x 8)"
  by (simp add: word_at_def reg_def physical_of_def translate_def locate_def value_at_def special_value_def)

theorem multiply_exact_witness:
  "succeeds (multiply 8) (sample 0x7FF 0 0xFFFD) (\<lambda>_ y. \<exists>p. reg y 0 = reg_raw (sign_extend (dw_high p)) \<and> to_i64_lossy_zero p = 2047 * (- 2))"
  apply (rule succeeds_mono [OF multiply_exact [OF sample_ok]])
  apply simp
  apply (simp add: overflow_correct_def from_raw_truncate_def to_i32_lossy_zero_def is_negative_def WORD_MASK_def WORD_SIGN_def Let_def)
  by auto

lemma run_divide_value:
  assumes "well_formed x" "unat k < 4096" "3 \<le> unat k" "unat k \<noteq> 5"
    and l: "word_ok l" "reg x 1 = reg_raw (sign_extend l)"
    and n: "n = to_i32_lossy_zero (overflow_correct (AgcRegister (reg x 0))) * 16384 + to_i32_lossy_zero l
      - (if 0 < to_i32_lossy_zero (overflow_correct (AgcRegister (reg x 0))) \<and> l = NEGATIVE_ZERO then 16384 else 0)"
    and d: "n \<noteq> 0" "\<bar>n\<bar> < \<bar>to_i32_lossy_zero (word_at x k)\<bar> * 16384"
  shows "succeeds (cpu_divide k) x (\<lambda>_ y. divides x n (to_i32_lossy_zero (word_at x k)) y)"
proof -
  obtain high low decent where nd: "normalize_double (reg x 0) (reg x 1) = (high, low, decent)"
    by (cases "normalize_double (reg x 0) (reg x 1)")
  then have "decent = sp_to_decent (raw (overflow_correct (AgcRegister (reg x 0)))) (reg_raw (sign_extend l))"
    using l by (auto simp: normalize_double_def Let_def overflow_correct_raw_eq)
  then have "n = agc_double_to_i64 decent" by (simp add: dividend_value l n)
  from run_divide [OF assms(1-4) nd this refl d] show ?thesis .
qed


lemma sample_words:
  "to_i32_lossy_zero (overflow_correct (AgcRegister 2)) = 2" "to_i32_lossy_zero (overflow_correct (AgcRegister 5)) = 5"
  "to_i32_lossy_zero (AgcWord 5) = 5" "to_i32_lossy_zero (from_raw_truncate 7) = 7" "reg_raw (sign_extend (AgcWord 5)) = 5"
  "word_ok (AgcWord 5)" "AgcWord 5 \<noteq> NEGATIVE_ZERO"
  by (simp_all add: sign_extend_def is_negative_def WORD_SIGN_def overflow_correct_def from_raw_truncate_def
      to_i32_lossy_zero_def WORD_MASK_def NEGATIVE_ZERO_def Let_def word_ok_iff)


text \<open>
  When A is positive and L is minus zero, \<open>DV\<close> divides a double word that is \<open>2^14\<close> too
  small: the borrow taken from A to give L its sign is lost, because the sixteen-bit minus zero
  of L is not recognised as a zero.
\<close>

theorem divide_loses_borrow:
  assumes "well_formed x" "unat k < 4096" "3 \<le> unat k" "unat k \<noteq> 5" "reg x 1 = 0xFFFF"
    and "h = to_i32_lossy_zero (overflow_correct (AgcRegister (reg x 0)))" "1 < h" "h - 1 < \<bar>d\<bar>"
    and "d = to_i32_lossy_zero (word_at x k)"
  shows "succeeds (cpu_divide k) x (\<lambda>_ y. \<exists>q r. reg y 0 = reg_raw (sign_extend q) \<and> reg y 1 = reg_raw (sign_extend r)
        \<and> to_i32_lossy_zero q * d + to_i32_lossy_zero r = (h - 1) * 16384 \<and> \<bar>to_i32_lossy_zero r\<bar> < \<bar>d\<bar>)"
proof -
  have l: "word_ok NEGATIVE_ZERO" "reg x 1 = reg_raw (sign_extend NEGATIVE_ZERO)"
    using assms(5) by (simp_all add: sign_extend_def NEGATIVE_ZERO_def is_negative_def WORD_SIGN_def WORD_MASK_def word_ok_iff)
  show ?thesis
    by (rule succeeds_mono [OF run_divide_value [OF assms(1-4) l, of "(h - 1) * 16384"]])
      (use assms(6-9) in \<open>auto simp: divides_def zero_words abs_mult\<close>)
qed

theorem divide_loses_borrow_witness:
  "succeeds (cpu_divide 8) (sample 5 0xFFFF 7) (\<lambda>_ y. \<exists>q r. reg y 0 = reg_raw (sign_extend q) \<and> reg y 1 = reg_raw (sign_extend r)
     \<and> to_i32_lossy_zero q * 7 + to_i32_lossy_zero r = 65536)"
  by (rule succeeds_mono [OF divide_loses_borrow [OF sample_ok, where h = 5 and d = 7]])
    (auto simp: sample_words)


lemma unat_complement_sign_extend:
  assumes "word_ok w"
  shows "unat (if reg_raw (sign_extend w) AND 0x8000 = 0 then reg_raw (sign_extend w) else NOT (reg_raw (sign_extend w)))
    = nat \<bar>to_i32_lossy_zero w\<bar>"
proof -
  have "unat (reg_raw (sign_extend w)) = unat (raw w) + (if 16384 \<le> unat (raw w) then 32768 else 0)"
    using unat_sign_extend [OF assms] is_negative_iff [OF assms] by simp
  moreover from this have "reg_raw (sign_extend w) AND 0x8000 = 0 \<longleftrightarrow> unat (raw w) < 16384"
    using top_bits_iff(3) [of "reg_raw (sign_extend w)"] word_okD [OF assms] by (auto simp: bit_15_iff)
  ultimately show ?thesis
    using word_okD [OF assms] by (simp add: to_i32_unat [OF assms] unat_simps split: if_splits)
qed

lemma sign_class_value:
  assumes "word_ok w"
  shows "word_sign_class w = (if 0 < to_i32_lossy_zero w then Positive else if w = POSITIVE_ZERO then PositiveZero
     else if to_i32_lossy_zero w < 0 then Negative else NegativeZero)"
proof -
  have "raw w AND WORD_SIGN = 0 \<longleftrightarrow> unat (raw w) < 16384"
    using is_negative_iff [OF assms] by (auto simp: is_negative_def not_le)
  moreover have "raw w = 0 \<longleftrightarrow> unat (raw w) = 0" "raw w = WORD_MASK \<longleftrightarrow> unat (raw w) = 32767"
    "w = POSITIVE_ZERO \<longleftrightarrow> unat (raw w) = 0"
    by (cases w; simp add: word_eq_unat_iff WORD_MASK_def POSITIVE_ZERO_def)+
  ultimately show ?thesis
    using word_okD [OF assms] by (auto simp: word_sign_class_def to_i32_unat [OF assms])
qed

lemma unat_Z_skip:
  fixes z k :: u16
  assumes "unat z < 4096" "unat k \<le> 3"
  shows "unat ((z + k) AND 0xFFF) = (unat z + unat k) mod 4096"
proof -
  have "unat (z + k) = unat z + unat k" using assms by (simp add: unat_word_ariths)
  then show ?thesis by (simp add: unat_simps)
qed

lemma reg_Z_less: "well_formed x \<Longrightarrow> unat (reg x 5) < 4096"
  using u16_and_FFF [of "reg x 5"] by (simp add: reg_Z_mask)

text \<open>
  \<open>CCS\<close> leaves the diminished absolute value of the operand in A and skips none, one, two or
  three words for an operand that is positive, plus zero, negative or minus zero.
\<close>

theorem ccs_four_way:
  assumes "well_formed x" "unat k < 4096" "3 \<le> unat k" "w = word_at x k" "v = to_i32_lossy_zero w"
  shows "succeeds (ccs k) x (\<lambda>_ y. well_formed y \<and> unat (reg y 0) = nat (\<bar>v\<bar> - 1)
     \<and> unat (reg y 5) = (unat (reg x 5) + (if 0 < v then 0 else if w = POSITIVE_ZERO then 1 else if v < 0 then 2 else 3)) mod 4096)"
proof -
  have w: "word_ok w" using assms by simp
  have kb: "\<not> k < REG_EB" using assms(3) by (simp add: word_less_nat_alt)
  let ?e = "sign_extend w"
  define m where "m = (if reg_raw ?e AND 0x8000 = 0 then reg_raw ?e else NOT (reg_raw ?e))"
  have m: "unat m = nat \<bar>v\<bar>" unfolding m_def assms(5) by (rule unat_complement_sign_extend [OF w])
  define r where "r = (if m = 0 then 0 else m - 1)"
  define g where "g = nat (\<bar>v\<bar> - 1)"
  have r: "unat r = g" unfolding g_def
    using m by (cases "m = 0") (auto simp: r_def unat_minus_one nat_diff_distrib)
  define y where "y = note_access (access_of (cpu_memory (machine x)) ReadAccess k) (edit_at k x)"
  have y: "well_formed y" "reg y 5 = reg x 5" using assms(1,2) by (simp_all add: y_def)
  have z: "unat (reg x 5) < 4096" by (rule reg_Z_less [OF assms(1)])
  define t where "t = put_reg 0 r y"
  have t: "well_formed t" "reg t 5 = reg x 5" "reg t 0 = r" using y by (simp_all add: t_def)
  have skips: "succeeds (on_cpu (skip_words j) :: (exec_state, cpu_error, unit) prog) t (\<lambda>_ t. well_formed t \<and> unat (reg t 0) = g
      \<and> unat (reg t 5) = (unat (reg x 5) + unat j) mod 4096)" if "unat j \<le> 3" for j
    using t r z that by (simp add: runs_skip unat_Z_skip and.assoc)
  have cls: "word_sign_class (overflow_correct ?e) = word_sign_class w" using w by simp
  show ?thesis
    unfolding ccs_def runs_and_then [of "read_register_operand_and_edit k"] runs_operands(2) [OF assms(1-3)]
      assms(4) [symmetric] y_def [symmetric] Let_def m_def [symmetric] r_def [symmetric]
      runs_and_then [of "on_cpu (set_a_raw r)"] runs_set_registers(3) [OF y(1)] t_def [symmetric] cls
      sign_class_value [OF w] assms(5) [symmetric] g_def [symmetric]
    using skips [of 1] skips [of 2] skips [of 3] t r z kb
    by (cases "0 < v"; cases "w = POSITIVE_ZERO"; cases "v < 0") (simp_all del: register_numbers less_EB)
qed

text \<open>
  \<open>MSU\<close> subtracts two's-complement words modulo \<open>2^15\<close> and leaves the difference as a
  one's-complement word; only the difference \<open>-2^14\<close>, which has no such word, becomes the
  largest positive one.
\<close>

theorem modular_subtract_value:
  assumes "well_formed x" "unat k < 4096" "a = overflow_correct (AgcRegister (reg x 0))" "b = word_at x k"
    and "d = (int (unat (raw a)) - int (unat (raw b)) + 16384) mod 32768 - 16384"
  shows "succeeds (modular_subtract k) x (\<lambda>_ y. well_formed y \<and>
     (\<exists>r. reg y 0 = reg_raw (sign_extend r) \<and> word_ok r \<and> to_i32_lossy_zero r = (if d = - 16384 then 16383 else d)))"
proof -
  have ok: "word_ok a" "word_ok b" using assms by simp_all
  have y: "well_formed (note_access (access_of (cpu_memory (machine x)) ReadAccess k) (edit_at k x))"
    using assms(1,2) by simp
  define t where "t = (raw a - raw b) AND 0x7FFF"
  define u where "u = (if t AND 0x4000 \<noteq> 0 then (t - 1) AND 0x7FFF else t)"
  have t: "int (unat t) = (int (unat (raw a)) - int (unat (raw b))) mod 32768"
  proof -
    have "int (unat (raw a - raw b)) = (int (unat (raw a)) - int (unat (raw b))) mod 65536"
      using uint_word_ariths(2) [of "raw a" "raw b"] by (simp add: uint_unat)
    then show ?thesis by (simp add: t_def u16_and_7FFF zmod_int mod_mod_cancel)
  qed
  then have tb: "unat t < 32768" by (simp add: t_def u16_and_7FFF)
  have "t AND 0x4000 \<noteq> 0 \<longleftrightarrow> 16384 \<le> unat t" using tb top_bits_iff(4) [of t] by (simp add: bit_14_iff)
  then have u: "unat u = (if 16384 \<le> unat t then unat t - 1 else unat t)"
    using tb by (auto simp: u_def u16_and_7FFF unat_minus_one word_eq_unat_iff)
  have dt: "d = (if unat t < 16384 then int (unat t) else int (unat t) - 32768)"
  proof -
    define e where "e = int (unat (raw a)) - int (unat (raw b))"
    have "(e + 16384) mod 32768 = (if e mod 32768 < 16384 then e mod 32768 + 16384 else e mod 32768 - 16384)"
    proof -
      define q where "q = e mod 32768"
      have "(e + 16384) mod 32768 = (q + 16384) mod 32768" by (simp add: q_def mod_add_left_eq)
      moreover have "0 \<le> q" "q < 32768" by (simp_all add: q_def)
      moreover have "(q + 16384) mod 32768 = (q - 16384) mod 32768"
        using mod_add_self2 [of "q - 16384" 32768] by (simp add: add.commute)
      ultimately show ?thesis
        using mod_pos_pos_trivial [of "q + 16384" 32768] mod_pos_pos_trivial [of "q - 16384" 32768]
        by (cases "q < 16384") (simp_all flip: q_def)
    qed
    then show ?thesis using t assms(5) by (auto simp: e_def [symmetric])
  qed
  have "raw (from_raw_truncate u) = u"
    using u tb by (simp add: word_eq_unat_iff unat_raw_truncate)
  then have v: "to_i32_lossy_zero (from_raw_truncate u) = (if d = - 16384 then 16383 else d)"
    using u tb dt by (auto simp: to_i32_unat)
  show ?thesis
    unfolding modular_subtract_def runs_and_then runs_words(2) [OF assms(1,2)] Let_def runs_registers(4) [OF y]
      reg_note reg_edit [OF assms(1,2), of 0, simplified] assms(3,4) [symmetric] t_def [symmetric] u_def [symmetric]
      runs_set_registers(4) [OF y]
    using y v by (intro conjI exI [of _ "from_raw_truncate u"]) simp_all
qed

lemma pop_first_Min: "s \<noteq> {} \<Longrightarrow> pop_first s = (Some (Min s), s - {Min s})"
  by (simp add: pop_first_def)

lemma runs_cpu_registers:
  assumes "mem_ok (cpu_memory c)"
  shows "runs a_register c Q E = Q (AgcRegister (central (cpu_memory c) ! 0)) c"
    "runs (set_z a) c R E = R () (c\<lparr>cpu_memory := (cpu_memory c)\<lparr>central := put_central 5 (a AND 0xFFF) (central (cpu_memory c))\<rparr>\<rparr>)"
    "unat i < 16 \<Longrightarrow> runs (try_memory (set_central_register i v)) c R F =
       R () (c\<lparr>cpu_memory := (cpu_memory c)\<lparr>central := put_central (unat i) (reg_raw v) (central (cpu_memory c))\<rparr>\<rparr>)"
    "unat i < 16 \<Longrightarrow> runs (try_memory (central_register i)) c Q F = Q (AgcRegister (central (cpu_memory c) ! unat i)) c"
  using assms
  by (simp_all add: a_register_def set_z_def cpu_register_def cpu_set_central_register_def in_memory_def try_memory_def
      register_from_raw_def runs_central_register runs_set_central_register)

lemma vector_mask: "vector j AND 0xFFF = vector j"
  by (cases j) (simp_all add: vector_def)

lemma accept_taken:
  assumes "mem_ok (cpu_memory c)" "pending_interrupts c \<noteq> {}" "di_mnemonic i \<noteq> EdrupT"
    and "interrupt_enabled c" "\<not> in_interrupt c" "\<not> extended c"
       "\<not> has_overflow (AgcRegister (central (cpu_memory c) ! 0))" "raw (di_raw i) \<notin> {3, 4, 6}"
    and p: "p = pending_interrupts c" and j: "j = Min p"
  shows "succeeds (accept_interrupt i pc) c (\<lambda>r d. r = Some (Some j, vector j) \<and> mem_ok (cpu_memory d)
      \<and> pending_interrupts d = p - {j} \<and> in_interrupt d \<and> \<not> extended d \<and> indexed d = None
      \<and> central (cpu_memory d) ! 5 = vector j \<and> central (cpu_memory d) ! 13 = (pc + 1) AND 0xFFF
      \<and> central (cpu_memory d) ! 15 = reg_raw (sign_extend (di_raw i)))"
proof -
  have pop: "pop_first (pending_interrupts c) = (Some j, p - {j})" using assms(2) by (simp add: pop_first_Min p j)
  have len: "length (central (cpu_memory c)) = 49" using assms(1) by (rule mem_okD)
  have m: "mem_ok ((cpu_memory c)\<lparr>central := put_central b s (central (cpu_memory c))\<rparr>)" if "b < 49" for b s
    using that assms(1) by (simp add: mem_ok_central central_ok_put mem_okD(1))
  have mm: "mem_ok ((cpu_memory c)\<lparr>central := put_central a r (put_central b s (central (cpu_memory c)))\<rparr>)"
    if "a < 49" "b < 49" for a b r s
    using that assms(1) by (simp add: mem_ok_central central_ok_put mem_okD(1))
  have mmm: "mem_ok ((cpu_memory c)\<lparr>central := put_central e q (put_central a r (put_central b s (central (cpu_memory c))))\<rparr>)"
    if "e < 49" "a < 49" "b < 49" for e q a b r s
    using that assms(1) by (simp add: mem_ok_central central_ok_put mem_okD(1))
  show ?thesis
    using assms(1-8) len vector_mask [of j]
    by (simp add: accept_interrupt_def runs_cpu_registers pop m mm mmm Let_def register_from_raw_def
        nth_put_central_same nth_put_central_other and.assoc)
qed

text \<open>
  When interrupts are enabled, none is being handled, the next instruction is not an extracode
  and A has no overflow, the interrupt of highest priority that is pending is taken, at its
  vector, with the return address and the interrupted instruction saved; the others stay
  pending.  Otherwise, except for \<open>EDRUPT\<close>, nothing is taken and nothing changes.
\<close>

theorem interrupt_priority:
  assumes "mem_ok (cpu_memory c)" "di_mnemonic i \<noteq> EdrupT"
    and "maskable = (interrupt_enabled c \<and> \<not> in_interrupt c \<and> \<not> extended c
       \<and> \<not> has_overflow (AgcRegister (central (cpu_memory c) ! 0)) \<and> raw (di_raw i) \<notin> {3, 4, 6})"
  shows "succeeds (accept_interrupt i pc) c (\<lambda>r d.
     if maskable \<and> pending_interrupts c \<noteq> {} then
       (\<exists>j\<in>pending_interrupts c. (\<forall>k\<in>pending_interrupts c. j \<le> k)
          \<and> r = Some (Some j, 0x800 + 4 * of_nat (interrupt_number j))
          \<and> pending_interrupts d = pending_interrupts c - {j} \<and> in_interrupt d \<and> \<not> extended d \<and> indexed d = None
          \<and> central (cpu_memory d) ! 5 = 0x800 + 4 * of_nat (interrupt_number j)
          \<and> central (cpu_memory d) ! 13 = (pc + 1) AND 0xFFF
          \<and> central (cpu_memory d) ! 15 = reg_raw (sign_extend (di_raw i)))
     else r = None \<and> d = c)"
proof (cases "maskable \<and> pending_interrupts c \<noteq> {}")
  case False
  then show ?thesis
    using assms
    by (auto simp: accept_interrupt_def runs_cpu_registers pop_first_def)
next
  case True
  define p where "p = pending_interrupts c"
  define j where "j = Min p"
  have p: "p \<noteq> {}" using True by (simp add: p_def)
  have fin: "finite p" by (rule finite)
  have j: "j \<in> p" "\<forall>k\<in>p. j \<le> k" using Min_in [OF fin p] Min_le [OF fin] by (simp_all add: j_def)
  have v: "vector j = 0x800 + 4 * of_nat (interrupt_number j)" by (simp add: vector_def)
  show ?thesis
    by (rule succeeds_mono [OF accept_taken [OF assms(1) _ assms(2) _ _ _ _ _ p_def j_def]])
      (use True assms(3) j v p_def in auto)
qed

lemma cpu_initial_core:
  "mem_ok (cpu_memory (cpu_initial blank))" "central (cpu_memory (cpu_initial blank)) ! 0 = 0"
  by (simp_all add: cpu_initial_def mem_ok_reset [OF mem_ok_blank])
    (simp add: reset_volatile_def blank_def)

theorem interrupt_priority_witness:
  "succeeds (accept_interrupt \<lparr>di_mnemonic = Tc, di_operand = 16, di_raw = AgcWord 16, di_extended = False, di_cycles = 1\<rparr> 0x800)
     (cpu_initial blank) (\<lambda>r d. r = Some (Some Downrupt, 0x820) \<and> central (cpu_memory d) ! 13 = 0x801)"
proof -
  have m: "True = (interrupt_enabled (cpu_initial blank) \<and> \<not> in_interrupt (cpu_initial blank) \<and> \<not> extended (cpu_initial blank)
       \<and> \<not> has_overflow (AgcRegister (central (cpu_memory (cpu_initial blank)) ! 0)) \<and> (16 :: u16) \<notin> {3, 4, 6})"
    using cpu_initial_core(2) by (simp add: cpu_initial_def has_overflow_def)
  have p: "pending_interrupts (cpu_initial blank) = {Downrupt}" by (simp add: cpu_initial_def)
  show ?thesis
    by (rule succeeds_mono [OF interrupt_priority [OF cpu_initial_core(1), where maskable = True]]) (use m p in simp_all)
qed

lemma truncate_sign_extend: "word_ok w \<Longrightarrow> from_raw_truncate (reg_raw (sign_extend w)) = w"
  by (cases w) (auto simp: from_raw_truncate_def WORD_MASK_def word_ok_bit intro!: bit_word_eqI
      simp: bit_and_iff bit_masks bit_sign_extend)

lemma word_at_15: "word_ok w \<Longrightarrow> reg x 15 = reg_raw (sign_extend w) \<Longrightarrow> word_at x 15 = w"
  using truncate_sign_extend [of w]
  by (simp add: word_at_def reg_def physical_of_def translate_def locate_def value_at_def special_value_def)

lemma unat_pred_mask: "unat ((q - 1) AND (0xFFF :: u16)) = (unat q + 4095) mod 4096"
proof -
  have e: "unat (- 1 :: u16) = 65535" by (simp add: unsigned_minus_1_eq_mask mask_eq_exp_minus_1)
  have "q - 1 = q + - 1" by simp
  then have "unat (q - 1) = (unat q + 65535) mod 65536" by (simp only: unat_word_ariths e) simp
  moreover have "(unat q + 65535) mod 65536 mod 4096 = (unat q + 65535) mod 4096" by (rule mod_mod_cancel) simp
  ultimately have "unat ((q - 1) AND 0xFFF) = (unat q + 65535) mod 4096" by (simp only: u16_and_FFF)
  also have "unat q + 65535 = unat q + 4095 + 15 * 4096" by simp
  finally show ?thesis by (simp only: mod_mult_self1)
qed

lemma runs_resume:
  assumes "well_formed x"
  shows "succeeds resume x (\<lambda>_ y. well_formed y \<and> reg y 5 = (reg x 13 - 1) AND 0xFFF \<and> reg y 15 = reg x 15
     \<and> substitute_instruction (machine y) \<and> \<not> in_interrupt (machine y) \<and> \<not> extended (machine y))"
proof -
  have m: "mem_ok (cpu_memory (machine x))" using assms by (simp add: well_formed_def)
  have z: "((reg x 13 AND 0xFFF) - 1) AND 0xFFF = (reg x 13 - 1) AND 0xFFF"
    by (simp only: word_eq_unat_iff unat_pred_mask) (simp only: u16_and_FFF mod_add_left_eq)
  show ?thesis
    using m assms
    by (simp add: resume_def on_cpu_def runs_cpu_registers push_interrupt_def set_event_def reg_def well_formed_def
        mem_ok_central central_ok_put mem_okD nth_put_central_same nth_put_central_other and.assoc z [unfolded reg_def])
qed

text \<open>
  Taking an interrupt and resuming comes back: Z holds the interrupted address again, the
  interrupted instruction is substituted for the next fetch, and no interrupt is being handled.
\<close>

theorem interrupt_resume_round_trip:
  assumes "mem_ok (cpu_memory c)" "pending_interrupts c \<noteq> {}" "di_mnemonic i \<noteq> EdrupT" "unat pc < 4096" "word_ok (di_raw i)"
    and "interrupt_enabled c" "\<not> in_interrupt c" "\<not> extended c"
       "\<not> has_overflow (AgcRegister (central (cpu_memory c) ! 0))" "raw (di_raw i) \<notin> {3, 4, 6}"
  shows "succeeds (accept_interrupt i pc) c (\<lambda>r d. r \<noteq> None \<and>
     succeeds resume \<lparr>machine = d, event = e, watch = v\<rparr> (\<lambda>_ y. reg y 5 = pc \<and> word_at y REG_BRUPT = di_raw i
       \<and> substitute_instruction (machine y) \<and> \<not> in_interrupt (machine y) \<and> \<not> extended (machine y)))"
proof -
  have pc: "((pc + 1) AND 0xFFF) - 1 AND 0xFFF = pc"
  proof -
    have "unat (pc + 1) = unat pc + 1" using assms(4) by (simp add: unat_word_ariths)
    then have "unat (((pc + 1) AND 0xFFF) - 1 AND 0xFFF) = (unat pc + 4096) mod 4096"
      by (simp only: unat_pred_mask) (simp add: u16_and_FFF mod_add_left_eq)
    then show ?thesis using assms(4) by (simp add: word_eq_unat_iff)
  qed
  have "succeeds resume \<lparr>machine = d, event = e, watch = v\<rparr> (\<lambda>_ y. reg y 5 = pc \<and> word_at y REG_BRUPT = di_raw i
       \<and> substitute_instruction (machine y) \<and> \<not> in_interrupt (machine y) \<and> \<not> extended (machine y))"
    if "mem_ok (cpu_memory d)" "central (cpu_memory d) ! 13 = (pc + 1) AND 0xFFF"
      "central (cpu_memory d) ! 15 = reg_raw (sign_extend (di_raw i))" for d
    using that pc assms(5)
    by (intro succeeds_mono [OF runs_resume]) (auto simp: well_formed_def reg_def word_at_15)
  then show ?thesis
    by (intro succeeds_mono [OF accept_taken [OF assms(1-3,6-10) refl refl]]) auto
qed

text \<open>
  The register arithmetic the processor repeats in sixteen-bit form is that of the word
  crate: overflow correction, sign extension and end-around addition agree, and the overflow
  sign is zero exactly for registers without overflow.
\<close>

theorem raw_helpers_agree:
  "overflow_correct_raw v = overflow_correct (register_from_raw v)
   \<and> sign_extend_raw v = reg_raw (sign_extend (from_raw_truncate v))
   \<and> add_sp16 a b = reg_raw (register_wrapping_add (register_from_raw a) (register_from_raw b))
   \<and> (register_overflow_sign v \<noteq> 0) = has_overflow (register_from_raw v)"
proof (intro conjI)
  show "overflow_correct_raw v = overflow_correct (register_from_raw v)"
    by (simp add: overflow_correct_raw_eq register_from_raw_def)
  show "sign_extend_raw v = reg_raw (sign_extend (from_raw_truncate v))"
  proof -
    have "bit (raw (from_raw_truncate v)) n \<longleftrightarrow> n < 15 \<and> bit v n" for n
      by (auto simp: from_raw_truncate_def WORD_MASK_def bit_and_iff bit_masks)
    then show ?thesis
      by (intro bit_word_eqI) (auto simp: bit_sign_extend_raw bit_sign_extend)
  qed
  show "add_sp16 a b = reg_raw (register_wrapping_add (register_from_raw a) (register_from_raw b))"
  proof -
    define s :: u32 where "s = ucast a + ucast b"
    have s: "unat s = unat a + unat b" "unat s < 131071"
    proof -
      have "unat a + unat b < 131071" using u16_less [of a] u16_less [of b] by linarith
      then show "unat s = unat a + unat b" "unat s < 131071" by (simp_all add: s_def unat_word_ariths unat_ucast_u16_u32)
    qed
    have q: "unat s div 65536 = (if 65536 \<le> unat s then 1 else 0)" "unat s mod 65536 = (if 65536 \<le> unat s then unat s - 65536 else unat s)"
      using s(2) by (auto simp: le_div_geq le_mod_geq)
    have carry: "s AND 0x10000 \<noteq> 0 \<longleftrightarrow> 65536 \<le> unat s"
      using bit_iff_and_push_bit_not_eq_0 [of s 16] q(1) by (simp add: bit_unat split: if_splits)
    have d: "unat (drop_bit 16 s) = (if 65536 \<le> unat s then 1 else 0)" using q(1) by (simp add: unat_drop_bit)
    define f where "f = (s AND 0xFFFF) + drop_bit 16 s"
    have f: "unat f = (if 65536 \<le> unat s then unat s - 65535 else unat s)" "unat f < 65536"
      using s(2) d q(2) by (auto simp: f_def unat_word_ariths u32_and_FFFF)
    then have "drop_bit 16 f = 0" "f AND 0xFFFF = f"
      by (simp_all add: word_eq_unat_iff unat_drop_bit u32_and_FFFF)
    moreover have "unat ((s + 1) AND 0xFFFF) = unat s - 65535" if "65536 \<le> unat s"
    proof -
      have "unat (s + 1) = unat s + 1" using s(2) by (simp add: unat_word_ariths)
      then show ?thesis using that s(2) by (simp add: u32_and_FFFF le_mod_geq)
    qed
    ultimately have "65536 \<le> unat s \<Longrightarrow> (s + 1) AND 0xFFFF = f" "\<not> 65536 \<le> unat s \<Longrightarrow> s = f"
      "(f AND 0xFFFF) + drop_bit 16 f = f"
      using f by (auto simp: word_eq_unat_iff [of _ f])
    then show ?thesis
      using carry by (auto simp: add_sp16_def register_wrapping_add_def register_from_raw_def Let_def simp flip: s_def f_def)
  qed
  show "(register_overflow_sign v \<noteq> 0) = has_overflow (register_from_raw v)"
    by (simp add: register_overflow_sign_def has_overflow_def register_from_raw_def)
qed

text \<open>
  A timer counts one up per pulse; from its largest value it wraps to plus zero and requests
  its interrupt, which it does in no other case.
\<close>

theorem timer_tick:
  assumes "well_formed x" "unat a \<in> {20..48}" "w = word_at x a"
  shows "succeeds (increment_timer a i) x (\<lambda>_ y. well_formed y \<and>
     (if to_i32_lossy_zero w = 16383
      then word_at y a = POSITIVE_ZERO \<and> pending_interrupts (machine y) = insert i (pending_interrupts (machine x))
      else to_i32_lossy_zero (word_at y a) = to_i32_lossy_zero w + 1
        \<and> pending_interrupts (machine y) = pending_interrupts (machine x)))"
proof -
  have a: "unat a < 4096" "unat a < 1024" using assms(2) by auto
  have w: "word_ok w" using assms(1,3) a by simp
  have l: "location_of m a = Central a" for m
    using assms(2) by (simp add: physical_of_def translate_def locate_def word_le_nat_alt word_less_nat_alt)
  obtain nxt overflow where c: "counter_pinc w = (nxt, overflow)" by (cases "counter_pinc w")
  have n: "word_ok nxt" using counter_pinc_ok [OF w] c by simp
  have eqs: "raw w = 0x3FFF \<longleftrightarrow> unat (raw w) = 16383" "raw w = 0x7FFF \<longleftrightarrow> unat (raw w) = 32767"
    by (simp_all add: word_eq_unat_iff)
  have v: "if to_i32_lossy_zero w = 16383 then nxt = POSITIVE_ZERO \<and> overflow
     else to_i32_lossy_zero nxt = to_i32_lossy_zero w + 1 \<and> \<not> overflow"
  proof -
    have "unat (raw w + 1) = unat (raw w) + 1" using word_okD [OF w] by (simp add: unat_word_ariths)
    then have "unat (raw (from_raw_truncate (raw w + 1))) = unat (raw w) + 1" if "unat (raw w) < 32767"
      using that by (simp add: unat_raw_truncate)
    then show ?thesis
      using c word_okD [OF w] eqs
      by (auto simp: counter_pinc_def to_i32_unat [OF w] to_i32_unat [OF word_ok_truncate] unat_raw_truncate split: if_splits)
  qed
  let ?m = "cpu_memory (machine x)"
  have m: "mem_ok ?m" using assms(1) by (simp add: well_formed_def)
  have st: "stored_value (Central a) nxt = nxt"
  proof -
    have "special_raw a nxt = raw nxt" "register_mask (unat a) = 0x7FFF"
      using assms(2) by (auto simp: special_raw_def register_mask_def word_eq_unat_iff word_less_nat_alt)
    moreover have "raw nxt AND 0x7FFF = raw nxt" using word_okD [OF n] by (simp add: word_eq_unat_iff u16_and_7FFF)
    ultimately show ?thesis using assms(2) by (auto simp: stored_value_def)
  qed
  have p: "mem_ok (put_at (Central a) nxt ?m)" "value_at (put_at (Central a) nxt ?m) (Central a) = nxt"
    using value_at_put_same [OF m _ n, of "Central a"] st assms(2)
    by (simp_all add: mem_ok_put_at m n location_ok_def)
  have r: "ma_value (access_of ?m ReadAccess a) = w" by (simp add: access_of_def assms(3) word_at_def)
  show ?thesis
    using p v m n a
    by (simp add: increment_timer_def on_cpu_def try_memory_def runs_read_memory runs_write_memory r c l
        request_interrupt_event_def push_interrupt_def push_memory_def set_event_def word_at_def well_formed_def
        split: if_splits)
qed


theorem timer_tick_witness:
  "succeeds (increment_timer 22 Time3) (sample 0 0 0)
     (\<lambda>_ y. to_i32_lossy_zero (word_at y 22) = to_i32_lossy_zero (word_at (sample 0 0 0) 22) + 1
        \<or> Time3 \<in> pending_interrupts (machine y))"
  by (rule succeeds_mono [OF timer_tick [OF sample_ok _ refl]]) (auto split: if_splits)

theorem ccs_four_way_witness:
  "succeeds (ccs 8) (sample 3 4 7) (\<lambda>_ y. unat (reg y 0) = 6)"
  by (rule succeeds_mono [OF ccs_four_way [OF sample_ok _ _ refl refl]]) (simp_all add: sample_words)

theorem modular_subtract_value_witness:
  "succeeds (modular_subtract 8) (sample 5 4 7) (\<lambda>_ y. \<exists>r. reg y 0 = reg_raw (sign_extend r) \<and> to_i32_lossy_zero r = - 2)"
  by (rule succeeds_mono [OF modular_subtract_value [OF sample_ok _ refl refl refl]])
    (auto simp: from_raw_truncate_def overflow_correct_def WORD_MASK_def Let_def)

theorem interrupt_resume_round_trip_witness:
  "succeeds (accept_interrupt \<lparr>di_mnemonic = Tc, di_operand = 16, di_raw = AgcWord 16, di_extended = False, di_cycles = 1\<rparr> 0x800)
     (cpu_initial blank) (\<lambda>r d. r \<noteq> None \<and> succeeds resume
       \<lparr>machine = d, event = trace_event_new 0 0 0 POSITIVE_ZERO, watch = None\<rparr>
       (\<lambda>_ y. reg y 5 = 0x800 \<and> word_at y REG_BRUPT = AgcWord 16))"
  by (rule succeeds_mono [OF interrupt_resume_round_trip [OF cpu_initial_core(1), where e = "trace_event_new 0 0 0 POSITIVE_ZERO" and v = None]])
    (use cpu_initial_core(2) in \<open>auto simp: cpu_initial_def has_overflow_def word_ok_iff elim!: succeeds_mono\<close>)

end
