(* ===== verification/Agc_Loader.thy ===== *)
theory Agc_Loader
  imports Agc_Memory_Laws
begin

text \<open>
  The rope loader of \<open>crates/agc-loader\<close>: the four file layouts, the word-by-word decoder with its
  parity and reserved-bit checks, and the encoder of the standard layout. Reading the file is an
  argument of \<open>load_file\<close>; everything after it works on bytes.
\<close>

section \<open>Formats and images\<close>

datatype rope_format = Yayul | YayulParity | Hardware | PhysicalWords

record rope_image =
  ri_words :: "agc_word list"
  ri_format :: rope_format
  ri_parity_words :: nat

datatype loader_error =
    RopeIo string string
  | RopeSize nat nat
  | ReservedBit nat u16
  | ParityError nat u16

definition into_memory :: "rope_image \<Rightarrow> memory_error + memory" where
  "into_memory rope = with_rope (ri_words rope)"

section \<open>Bytes\<close>

definition count_ones :: "u16 \<Rightarrow> nat" where
  "count_ones r = length (filter (bit r) [0..<16])"

definition from_be_bytes :: "u8 \<Rightarrow> u8 \<Rightarrow> u16" where
  "from_be_bytes a b = push_bit 8 (ucast a) OR ucast b"

definition to_be_bytes :: "u16 \<Rightarrow> u8 list" where
  "to_be_bytes r = [ucast (drop_bit 8 r), ucast r]"

text \<open>\<open>chunks_exact(2)\<close>, which drops an odd last byte.\<close>

fun be_words :: "u8 list \<Rightarrow> u16 list" where
  "be_words (a # b # bs) = from_be_bytes a b # be_words bs"
| "be_words bs = []"

section \<open>Decoding\<close>

text \<open>The fifteen data bits of a word in the file, and whether its parity was checked.\<close>

definition decode_word :: "rope_format \<Rightarrow> nat \<Rightarrow> u16 \<Rightarrow> loader_error + u16 \<times> bool" where
  "decode_word format index r = (case format of
       Yayul \<Rightarrow> if r AND 1 \<noteq> 0 then Inl (ReservedBit index r) else Inr (drop_bit 1 r, False)
     | YayulParity \<Rightarrow> if count_ones r mod 2 \<noteq> 1 then Inl (ParityError index r) else Inr (drop_bit 1 r, True)
     | Hardware \<Rightarrow>
         if count_ones r mod 2 \<noteq> 1 then Inl (ParityError index r)
         else Inr (drop_bit 1 (r AND 0x8000) OR (r AND 0x3FFF), True)
     | PhysicalWords \<Rightarrow> if r AND 0x8000 \<noteq> 0 then Inl (ReservedBit index r) else Inr (r, False))"

definition flip_bank :: "nat \<Rightarrow> nat" where
  "flip_bank b = (if b < 4 then b XOR 2 else b)"

definition file_bank_to_physical :: "rope_format \<Rightarrow> nat \<Rightarrow> nat" where
  "file_bank_to_physical format b = (if format \<in> {Yayul, YayulParity} then flip_bank b else b)"

definition rope_index :: "rope_format \<Rightarrow> nat \<Rightarrow> nat" where
  "rope_index format index =
     file_bank_to_physical format (index div FIXED_WORDS_PER_BANK) * FIXED_WORDS_PER_BANK
       + index mod FIXED_WORDS_PER_BANK"

record rope_build =
  physical :: "agc_word list"
  parity_words :: nat

fun decode_words :: "rope_format \<Rightarrow> nat \<Rightarrow> u16 list \<Rightarrow> (rope_build, loader_error, unit) prog" where
  "decode_words format index [] = ok ()"
| "decode_words format index (r # rs) =
     and_then (of_result (decode_word format index r)) (\<lambda>(data, checked).
     seq (when_do checked (modify (parity_words_update Suc))) (
     seq (store physical physical_update (rope_index format index) (from_raw_truncate data))
         (decode_words format (Suc index) rs)))"

definition decode_bytes :: "u8 list \<Rightarrow> rope_format \<Rightarrow> (loader_error + rope_image) option" where
  "decode_bytes bytes format =
     (let words = FIXED_BANKS * FIXED_WORDS_PER_BANK; expected = words * 2
      in if length bytes \<noteq> expected then Some (Inl (RopeSize expected (length bytes)))
         else case decode_words format 0 (be_words bytes)
                     \<lparr>physical = replicate words POSITIVE_ZERO, parity_words = 0\<rparr> of
                None \<Rightarrow> None
              | Some (Inl e, st) \<Rightarrow> Some (Inl e)
              | Some (Inr u, st) \<Rightarrow> Some (Inr \<lparr>ri_words = physical st, ri_format = format,
                                                   ri_parity_words = parity_words st\<rparr>))"

text \<open>Reading the file is an argument: it gives the bytes, or the text of its error.\<close>

definition load_file :: "(string \<Rightarrow> string + u8 list) \<Rightarrow> string \<Rightarrow> rope_format \<Rightarrow> (loader_error + rope_image) option" where
  "load_file read path format = (case read path of
       Inl source \<Rightarrow> Some (Inl (RopeIo path source))
     | Inr bytes \<Rightarrow> decode_bytes bytes format)"

section \<open>Encoding\<close>

definition encode_yayul :: "agc_word list \<Rightarrow> loader_error + u8 list" where
  "encode_yayul words =
     (let expected_words = FIXED_BANKS * FIXED_WORDS_PER_BANK
      in if length words \<noteq> expected_words then Inl (RopeSize (expected_words * 2) (length words * 2))
         else Inr (concat (map (\<lambda>file_bank.
                let bank = flip_bank file_bank
                in concat (map (\<lambda>w. to_be_bytes (push_bit 1 (raw w)))
                     (take FIXED_WORDS_PER_BANK (drop (bank * FIXED_WORDS_PER_BANK) words))))
              [0..<FIXED_BANKS])))"

end
