(* ===== verification/Agc_Loader_Laws.thy ===== *)
theory Agc_Loader_Laws
  imports Agc_Loader
begin

text \<open>
  Laws of the rope loader. The bank swap of the yaYUL layouts is an involution on word positions,
  so the decoder's loop stores every word once; with that the decoder is a word-wise map, encoding
  and decoding are inverse, and a file with parity reveals every single-bit error.
\<close>

section \<open>Laws\<close>

lemma rope_sizes [simp]: "FIXED_BANKS = 36" "FIXED_WORDS_PER_BANK = 1024"
  by (simp_all add: FIXED_BANKS_def FIXED_WORDS_PER_BANK_def)

lemma flip_bank: "flip_bank b < 36 \<longleftrightarrow> b < 36" "flip_bank (flip_bank b) = b"
proof -
  have "b < 4 \<Longrightarrow> b = 0 \<or> b = 1 \<or> b = 2 \<or> b = 3" by arith
  then show "flip_bank b < 36 \<longleftrightarrow> b < 36" "flip_bank (flip_bank b) = b" by (auto simp: flip_bank_def)
qed

lemma file_bank: "file_bank_to_physical f b < 36 \<longleftrightarrow> b < 36"
  "file_bank_to_physical f (file_bank_to_physical f b) = b"
  by (simp_all add: file_bank_to_physical_def flip_bank)

lemma rope_index_less: "rope_index f i < 36864 \<longleftrightarrow> i < 36864"
proof -
  have "rope_index f i < 36864 \<longleftrightarrow> file_bank_to_physical f (i div 1024) < 36"
  proof -
    have "i mod 1024 < 1024" by simp
    then show ?thesis unfolding rope_index_def rope_sizes by linarith
  qed
  also have "\<dots> \<longleftrightarrow> i div 1024 < 36" by (rule file_bank)
  also have "\<dots> \<longleftrightarrow> i < 36864" by (simp add: div_less_iff_less_mult)
  finally show ?thesis .
qed

lemma rope_index_involution [simp]: "rope_index f (rope_index f i) = i"
  by (simp add: rope_index_def file_bank)

lemma rope_index_inj: "rope_index f i = rope_index f j \<longleftrightarrow> i = j"
  by (metis rope_index_involution)

lemma from_to_be_bytes: "from_be_bytes (ucast (drop_bit 8 r)) (ucast r) = r"
  by (rule bit_word_eqI) (auto simp: from_be_bytes_def bit_simps)

lemma be_words_append [simp]: "be_words (to_be_bytes r @ bs) = r # be_words bs"
  by (simp add: to_be_bytes_def from_to_be_bytes)

lemma be_words_concat: "be_words (concat (map to_be_bytes rs)) = rs"
  by (induction rs) simp_all

lemma length_be_words: "length (be_words bs) = length bs div 2"
  by (induction bs rule: be_words.induct) simp_all

lemma bit_u8_high: "\<not> bit (b :: u8) (8 + n)"
  using bit_imp_le_length [of b "8 + n"] by auto

lemma to_from_be_bytes: "to_be_bytes (from_be_bytes a b) = [a, b]"
  by (auto simp: to_be_bytes_def from_be_bytes_def intro!: bit_word_eqI simp: bit_simps bit_u8_high)

lemma concat_be_words: "even (length bs) \<Longrightarrow> concat (map to_be_bytes (be_words bs)) = bs"
  by (induction bs rule: be_words.induct) (simp_all add: to_from_be_bytes)

text \<open>A word per file position, in blocks, is the image of all positions.\<close>

lemma concat_blocks:
  "concat (map (\<lambda>b. map (\<lambda>o'. g (b * m + o')) [0..<m]) [0..<n]) = map g [0..<n * m]"
proof (induction n)
  case (Suc n)
  have "map (\<lambda>o'. g (n * m + o')) [0..<m] = map g [n * m..<n * m + m]"
    by (simp add: map_add_upt [symmetric] comp_def add.commute del: map_add_upt)
  moreover have "map g [0..<n * m] @ map g [n * m..<n * m + m] = map g [0..<Suc n * m]"
    using upt_add_eq_append [of 0 "n * m" m] by (simp add: add.commute flip: map_append)
  ultimately show ?case using Suc by simp
qed simp

lemma concat_map_concat: "concat (map (\<lambda>x. concat (f x)) xs) = concat (concat (map f xs))"
  by (induction xs) simp_all

definition file_word :: "agc_word list \<Rightarrow> nat \<Rightarrow> u16" where
  "file_word words i = push_bit 1 (raw (words ! rope_index Yayul i))"

lemma encode_yayul_words:
  assumes "length words = 36864"
  shows "encode_yayul words = Inr (concat (map to_be_bytes (map (file_word words) [0..<36864])))"
proof -
  have block: "map (\<lambda>w. to_be_bytes (push_bit 1 (raw w))) (take 1024 (drop (flip_bank b * 1024) words))
      = map (\<lambda>o'. to_be_bytes (file_word words (b * 1024 + o'))) [0..<1024]" if "b < 36" for b
  proof (rule nth_equalityI)
    have "flip_bank b \<le> 35" using that flip_bank(1) [of b] by simp
    then have le: "flip_bank b * 1024 + 1024 \<le> length words" using assms by simp
    then show l: "length (map (\<lambda>w. to_be_bytes (push_bit 1 (raw w))) (take 1024 (drop (flip_bank b * 1024) words)))
      = length (map (\<lambda>o'. to_be_bytes (file_word words (b * 1024 + o'))) [0..<1024])" by simp
    fix i assume "i < length (map (\<lambda>w. to_be_bytes (push_bit 1 (raw w))) (take 1024 (drop (flip_bank b * 1024) words)))"
    then show "map (\<lambda>w. to_be_bytes (push_bit 1 (raw w))) (take 1024 (drop (flip_bank b * 1024) words)) ! i
      = map (\<lambda>o'. to_be_bytes (file_word words (b * 1024 + o'))) [0..<1024] ! i"
      using le by (simp add: file_word_def rope_index_def file_bank_to_physical_def)
  qed
  have "map (\<lambda>b. concat (map (\<lambda>w. to_be_bytes (push_bit 1 (raw w))) (take 1024 (drop (flip_bank b * 1024) words)))) [0..<36]
      = map (\<lambda>b. concat (map (\<lambda>o'. to_be_bytes (file_word words (b * 1024 + o'))) [0..<1024])) [0..<36]"
    by (rule map_cong [OF refl]) (simp only: block set_upt atLeastLessThan_iff)
  moreover have "concat (map (\<lambda>b. concat (map (\<lambda>o'. to_be_bytes (file_word words (b * 1024 + o'))) [0..<1024])) [0..<36])
     = concat (concat (map (\<lambda>b. map (\<lambda>o'. to_be_bytes (file_word words (b * 1024 + o'))) [0..<1024]) [0..<36]))"
    by (rule concat_map_concat)
  ultimately show ?thesis
    using assms unfolding encode_yayul_def Let_def rope_sizes
    by (simp only: concat_blocks [where g = "\<lambda>i. to_be_bytes (file_word words i)"] map_map comp_def) simp
qed

text \<open>The loop over the file: every word ends at its physical place.\<close>

definition data_of :: "rope_format \<Rightarrow> nat \<Rightarrow> u16 \<Rightarrow> agc_word" where
  "data_of f i r = (case decode_word f i r of Inr (d, c) \<Rightarrow> from_raw_truncate d | Inl e \<Rightarrow> POSITIVE_ZERO)"

definition checks_parity :: "rope_format \<Rightarrow> bool" where
  "checks_parity f \<longleftrightarrow> f \<in> {YayulParity, Hardware}"

lemma decode_word_checked: "decode_word f i r = Inr (d, c) \<Longrightarrow> c = checks_parity f"
  by (cases f) (auto simp: decode_word_def checks_parity_def split: if_splits)

lemma run_decode_words:
  "(\<And>j. j < length rs \<Longrightarrow> \<exists>v. decode_word f (i + j) (rs ! j) = Inr v) \<Longrightarrow> i + length rs \<le> 36864 \<Longrightarrow>
   length (physical st) = 36864 \<Longrightarrow>
   succeeds (decode_words f i rs) st (\<lambda>_ st'. length (physical st') = 36864
     \<and> parity_words st' = parity_words st + (if checks_parity f then length rs else 0)
     \<and> (\<forall>p < 36864. physical st' ! p = (let j = rope_index f p in
          if i \<le> j \<and> j < i + length rs then data_of f j (rs ! (j - i)) else physical st ! p)))"
proof (induction rs arbitrary: i st)
  case Nil
  then show ?case by (auto simp: Let_def)
next
  case (Cons r rs)
  obtain d c where d: "decode_word f i r = Inr (d, c)"
    using Cons.prems(1) [of 0] by auto
  have c: "c = checks_parity f" by (rule decode_word_checked [OF d])
  have idx: "rope_index f i < 36864" using Cons.prems(2) by (simp add: rope_index_less)
  define st1 where "st1 = (if c then parity_words_update Suc st else st)
    \<lparr>physical := (physical st)[rope_index f i := from_raw_truncate d]\<rparr>"
  have len: "length (physical st1) = 36864" using Cons.prems(3) by (simp add: st1_def)
  have ok: "\<exists>v. decode_word f (Suc i + j) (rs ! j) = Inr v" if "j < length rs" for j
    using Cons.prems(1) [of "Suc j"] that by simp
  have IH: "succeeds (decode_words f (Suc i) rs) st1 (\<lambda>_ st'. length (physical st') = 36864
     \<and> parity_words st' = parity_words st1 + (if checks_parity f then length rs else 0)
     \<and> (\<forall>p < 36864. physical st' ! p = (let j = rope_index f p in
          if Suc i \<le> j \<and> j < Suc i + length rs then data_of f j (rs ! (j - Suc i)) else physical st1 ! p)))"
    by (rule Cons.IH [OF ok _ len]) (use Cons.prems(2) in auto)
  have p1: "physical st1 ! p = (if rope_index f p = i then from_raw_truncate d else physical st ! p)" if "p < 36864" for p
    using Cons.prems(3) that idx rope_index_involution [of f p] rope_index_involution [of f i]
    by (auto simp: st1_def nth_list_update)
  have "succeeds (decode_words f i (r # rs)) st Q = succeeds (decode_words f (Suc i) rs) st1 Q" for Q
    using idx Cons.prems(3) by (simp add: d st1_def)
  moreover have "data_of f i r = from_raw_truncate d" by (simp add: data_of_def d)
  ultimately show ?case
    using IH p1 c
    by (simp only:) (erule succeeds_mono, auto simp: st1_def Let_def nth_Cons' Suc_le_eq)
qed

lemma refuse_decode_words:
  assumes "j < length rs" "\<And>k. k < j \<Longrightarrow> \<exists>v. decode_word f (i + k) (rs ! k) = Inr v" "decode_word f (i + j) (rs ! j) = Inl e"
    "i + length rs \<le> 36864" "length (physical st) = 36864"
  shows "runs (decode_words f i rs) st (\<lambda>_ _. False) (\<lambda>x _. x = e)"
  using assms
proof (induction rs arbitrary: i j st)
  case (Cons r rs)
  show ?case
  proof (cases j)
    case 0
    then show ?thesis using Cons.prems by simp
  next
    case (Suc k)
    obtain d c where d: "decode_word f i r = Inr (d, c)"
      using Cons.prems(2) [of 0] Suc by auto
    have idx: "rope_index f i < 36864" using Cons.prems(4) by (simp add: rope_index_less)
    define st1 where "st1 = (if c then parity_words_update Suc st else st)
      \<lparr>physical := (physical st)[rope_index f i := from_raw_truncate d]\<rparr>"
    have "runs (decode_words f (Suc i) rs) st1 (\<lambda>_ _. False) (\<lambda>x _. x = e)"
      by (rule Cons.IH [of k]) (use Cons.prems Suc Cons.prems(2) [of "Suc _"] in \<open>auto simp: st1_def\<close>)
    then show ?thesis using idx Cons.prems(5) by (cases c) (simp_all add: d st1_def)
  qed
qed simp

lemma decode_bytes_ok:
  assumes "length bs = 73728" "\<And>j. j < 36864 \<Longrightarrow> \<exists>v. decode_word f j (be_words bs ! j) = Inr v"
  shows "decode_bytes bs f = Some (Inr \<lparr>ri_words = map (\<lambda>p. data_of f (rope_index f p) (be_words bs ! rope_index f p)) [0..<36864],
     ri_format = f, ri_parity_words = (if checks_parity f then 36864 else 0)\<rparr>)"
proof -
  have len: "length (be_words bs) = 36864" using assms(1) by (simp add: length_be_words)
  let ?st = "\<lparr>physical = replicate 36864 POSITIVE_ZERO, parity_words = 0\<rparr>"
  have "succeeds (decode_words f 0 (be_words bs)) ?st (\<lambda>_ st'. st' = \<lparr>physical =
      map (\<lambda>p. data_of f (rope_index f p) (be_words bs ! rope_index f p)) [0..<36864],
      parity_words = (if checks_parity f then 36864 else 0)\<rparr>)"
    apply (rule succeeds_mono [OF run_decode_words])
       apply (use assms(2) len in simp)
      apply (use len in simp)
     apply simp
    subgoal for u st'
      by (cases st') (auto simp: len Let_def rope_index_less intro!: nth_equalityI)
    done
  then show ?thesis
    using assms(1) by (auto simp: decode_bytes_def Let_def succeeds_iff)
qed

lemma decode_bytes_refused:
  assumes "length bs = 73728" "j < 36864" "\<And>k. k < j \<Longrightarrow> \<exists>v. decode_word f k (be_words bs ! k) = Inr v"
    "decode_word f j (be_words bs ! j) = Inl e"
  shows "decode_bytes bs f = Some (Inl e)"
proof -
  have len: "length (be_words bs) = 36864" using assms(1) by (simp add: length_be_words)
  have "runs (decode_words f 0 (be_words bs)) \<lparr>physical = replicate 36864 POSITIVE_ZERO, parity_words = 0\<rparr> (\<lambda>_ _. False) (\<lambda>x _. x = e)"
    by (rule refuse_decode_words [of j]) (use assms len in simp_all)
  then show ?thesis using assms(1) by (auto simp: decode_bytes_def Let_def runs_iff)
qed


lemma decode_bytes_total:
  assumes "length bs = 73728"
  obtains (ok) "\<And>j. j < 36864 \<Longrightarrow> \<exists>v. decode_word f j (be_words bs ! j) = Inr v"
  | (refused) j e where "j < 36864" "\<And>k. k < j \<Longrightarrow> \<exists>v. decode_word f k (be_words bs ! k) = Inr v"
      "decode_word f j (be_words bs ! j) = Inl e" "decode_bytes bs f = Some (Inl e)"
proof (cases "\<exists>j<36864. \<exists>e. decode_word f j (be_words bs ! j) = Inl e")
  case True
  define j where "j = (LEAST j. j < 36864 \<and> (\<exists>e. decode_word f j (be_words bs ! j) = Inl e))"
  have j: "j < 36864 \<and> (\<exists>e. decode_word f j (be_words bs ! j) = Inl e)"
    unfolding j_def by (rule LeastI_ex) (use True in blast)
  then obtain e where e: "decode_word f j (be_words bs ! j) = Inl e" by blast
  have less: "\<exists>v. decode_word f k (be_words bs ! k) = Inr v" if "k < j" for k
    using not_less_Least [of k "\<lambda>j. j < 36864 \<and> (\<exists>e. decode_word f j (be_words bs ! j) = Inl e)"] that j
    by (cases "decode_word f k (be_words bs ! k)") (auto simp flip: j_def)
  show ?thesis using refused [OF _ less e decode_bytes_refused [OF assms _ less e]] j by simp
next
  case False
  show ?thesis
    by (rule ok) (use False in \<open>metis sum.exhaust_sel sum.collapse(1) sum.collapse(2)\<close>)
qed

lemma yayul_word: "decode_word Yayul j r = Inr v \<longleftrightarrow> r AND 1 = 0 \<and> v = (drop_bit 1 r, False)"
  by (auto simp: decode_word_def)

lemma unpack: "word_ok w \<Longrightarrow> drop_bit 1 (push_bit 1 (raw w)) = raw w"
proof (rule bit_word_eqI)
  fix n assume w: "word_ok w" and "n < LENGTH(16)"
  then have n: "n < 16" by simp
  have "\<not> bit (raw w) 15" using w by (simp add: word_ok_bit)
  then show "bit (drop_bit 1 (push_bit 1 (raw w))) n = bit (raw w) n"
    using n unfolding bit_drop_bit_eq comp_apply bit_push_bit_iff by (cases "n = 15") auto
qed

lemma yayul_pack:
  fixes r :: u16
  shows "r AND 1 = 0 \<Longrightarrow> push_bit 1 (raw (from_raw_truncate (drop_bit 1 r))) = r"
  "word_ok w \<Longrightarrow> from_raw_truncate (drop_bit 1 (push_bit 1 (raw w))) = w"
  "push_bit 1 (raw w) AND (1 :: u16) = 0"
proof -
  show zero: "push_bit 1 (raw w) AND (1 :: u16) = 0" for w
    by (rule bit_word_eqI) (auto simp: bit_simps bit_u16_double)
  show "push_bit 1 (raw (from_raw_truncate (drop_bit 1 r))) = r" if "r AND 1 = 0"
  proof (rule bit_word_eqI)
    fix n
    assume "n < LENGTH(16)"
    then have n: "n < 16" by simp
    have zero: "\<not> bit r 0" using that bit_and_iff [of r 1 0] by simp
    have raw: "bit (raw (from_raw_truncate x)) m \<longleftrightarrow> m < 15 \<and> bit x m" for x m
      by (auto simp: from_raw_truncate_def WORD_MASK_def bit_and_iff bit_masks)
    show "bit (push_bit 1 (raw (from_raw_truncate (drop_bit 1 r)))) n = bit r n"
    proof (cases n)
      case 0
      then show ?thesis using zero by (simp only: bit_push_bit_iff) simp
    next
      case (Suc m)
      then show ?thesis using n by (simp only: bit_push_bit_iff raw bit_drop_bit_eq) simp
    qed
  qed
  show "from_raw_truncate (drop_bit 1 (push_bit 1 (raw w))) = w" if "word_ok w"
    using that by (simp only: unpack [OF that]) simp
qed

lemma decode_encoded_yayul:
  assumes e: "encode_yayul (ri_words rope) = Inr bs \<and> words_ok (ri_words rope) \<and> ri_format rope = Yayul \<and> ri_parity_words rope = 0"
  shows "decode_bytes bs Yayul = Some (Inr rope)"
proof -
  have l: "length (ri_words rope) = 36864" using e by (simp add: encode_yayul_def Let_def split: if_splits)
  have bs: "bs = concat (map to_be_bytes (map (file_word (ri_words rope)) [0..<36864]))"
    using e encode_yayul_words [OF l] by simp
  have b: "be_words bs = map (file_word (ri_words rope)) [0..<36864]" unfolding bs by (rule be_words_concat)
  have len: "length bs = 73728" unfolding bs by (simp add: length_concat to_be_bytes_def comp_def sum_list_triv)
  have w: "word_ok (ri_words rope ! p)" if "p < 36864" for p using e l that by (simp add: words_ok_nth)
  have "decode_word Yayul j (be_words bs ! j) = Inr (raw (ri_words rope ! rope_index Yayul j), False)" if "j < 36864" for j
  proof -
    have r: "word_ok (ri_words rope ! rope_index Yayul j)" by (rule w) (simp add: rope_index_less that)
    have "be_words bs ! j = push_bit 1 (raw (ri_words rope ! rope_index Yayul j))"
      using that by (simp only: b) (simp add: file_word_def)
    then show ?thesis by (simp only: yayul_word unpack [OF r] yayul_pack(3) simp_thms)
  qed
  note word = this
  have "map (\<lambda>p. data_of Yayul (rope_index Yayul p) (be_words bs ! rope_index Yayul p)) [0..<36864] = ri_words rope"
    using l w by (intro nth_equalityI) (simp_all add: data_of_def word rope_index_less)
  then show ?thesis
    using decode_bytes_ok [OF len, of Yayul, OF exI, OF word] e
    by (cases rope) (simp add: checks_parity_def)
qed

section \<open>Properties\<close>

text \<open>
  C11 Decoding a file in the yaYUL layout and encoding a rope are inverse to each other: a file
  decodes to a rope exactly when it is the encoding of that rope, which holds valid words.
\<close>

theorem rope_codec:
  "decode_bytes bs Yayul = Some (Inr rope)
     \<longleftrightarrow> encode_yayul (ri_words rope) = Inr bs \<and> words_ok (ri_words rope) \<and> ri_format rope = Yayul \<and> ri_parity_words rope = 0"
proof
  assume d: "decode_bytes bs Yayul = Some (Inr rope)"
  then have len: "length bs = 73728" by (simp add: decode_bytes_def Let_def split: if_splits)
  have ok: "\<exists>v. decode_word Yayul j (be_words bs ! j) = Inr v" if "j < 36864" for j
    by (rule decode_bytes_total [OF len, of Yayul]) (use that d in auto)
  note rope = decode_bytes_ok [OF len ok]
  have even: "be_words bs ! j AND 1 = 0" if "j < 36864" for j using ok [OF that] by (auto simp: yayul_word)
  have words: "ri_words rope = map (\<lambda>p. from_raw_truncate (drop_bit 1 (be_words bs ! rope_index Yayul p))) [0..<36864]"
    using d rope by (auto simp: data_of_def decode_word_def even rope_index_less)
  have packed: "push_bit 1 (raw (from_raw_truncate (drop_bit 1 (be_words bs ! j)))) = be_words bs ! j" if "j < 36864" for j
    by (rule yayul_pack(1) [OF even [OF that]])
  have "map (file_word (ri_words rope)) [0..<36864] = be_words bs"
    using len packed [simplified] by (intro nth_equalityI) (simp_all add: length_be_words file_word_def words rope_index_less)
  then have "encode_yayul (ri_words rope) = Inr bs"
    using concat_be_words [of bs] len by (simp add: encode_yayul_words words)
  then show "encode_yayul (ri_words rope) = Inr bs \<and> words_ok (ri_words rope) \<and> ri_format rope = Yayul \<and> ri_parity_words rope = 0"
    using d rope words by (auto simp: words_ok_def checks_parity_def)
qed (simp add: decode_encoded_yayul)

lemma filter_parity:
  "distinct xs \<Longrightarrow> n \<in> set xs \<Longrightarrow> (\<And>i. Q i = (P i \<noteq> (i = n))) \<Longrightarrow>
   odd (length (filter Q xs)) \<noteq> odd (length (filter P xs))"
proof (induction xs)
  case (Cons x xs)
  show ?case
  proof (cases "x = n")
    case True
    have "i \<in> set xs \<Longrightarrow> Q i = P i" for i using Cons.prems(1,3) True by auto
    then have "filter Q xs = filter P xs" by (rule filter_cong [OF refl])
    then show ?thesis using True Cons.prems(3) [of n] by (cases "P n") simp_all
  next
    case False
    then have "odd (length (filter Q xs)) \<noteq> odd (length (filter P xs))"
      using Cons.prems by (intro Cons.IH) simp_all
    moreover have "Q x = P x" using False Cons.prems(3) by simp
    ultimately show ?thesis by (cases "P x") simp_all
  qed
qed simp

lemma count_ones_flip: "n < 16 \<Longrightarrow> odd (count_ones (r XOR push_bit n 1)) \<noteq> odd (count_ones r)"
  unfolding count_ones_def by (rule filter_parity [where n = n]) (auto simp: bit_xor_iff bit_exp_iff)

text \<open>
  C12 Decoding always returns, and a file with parity that decodes is refused once any one bit of
  any word is inverted, naming the word.
\<close>

theorem parity_detects_flips:
  assumes "decode_bytes bs f = Some (Inr rope)" "f = YayulParity \<or> f = Hardware" "i < 36864" "n < 16"
    and "length bs' = length bs" "be_words bs' = (be_words bs)[i := be_words bs ! i XOR push_bit n 1]"
  shows "decode_bytes bs' f = Some (Inl (ParityError i (be_words bs ! i XOR push_bit n 1)))"
proof -
  have len: "length bs = 73728" using assms(1) by (simp add: decode_bytes_def Let_def split: if_splits)
  have ok: "\<exists>v. decode_word f j (be_words bs ! j) = Inr v" if "j < 36864" for j
    by (rule decode_bytes_total [OF len, of f]) (use that assms(1) in auto)
  have l: "length (be_words bs) = 36864" using len by (simp add: length_be_words)
  have "odd (count_ones (be_words bs ! i))"
    using ok [OF assms(3)] assms(2) by (auto simp: decode_word_def odd_iff_mod_2_eq_one split: if_splits)
  then have "count_ones (be_words bs ! i XOR push_bit n 1) mod 2 \<noteq> 1"
    using count_ones_flip [OF assms(4)] odd_iff_mod_2_eq_one by blast
  then have "decode_word f i (be_words bs' ! i) = Inl (ParityError i (be_words bs ! i XOR push_bit n 1))"
    using assms(2,3,6) l by (auto simp: decode_word_def)
  then show ?thesis
    using assms(3,5,6) ok len l by (intro decode_bytes_refused) auto
qed

lemma decodes_marked:
  "decode_bytes (concat (map to_be_bytes (replicate 36864 1))) YayulParity
     = Some (Inr \<lparr>ri_words = map (\<lambda>p. data_of YayulParity (rope_index YayulParity p)
         (be_words (concat (map to_be_bytes (replicate 36864 1))) ! rope_index YayulParity p)) [0..<36864],
         ri_format = YayulParity, ri_parity_words = 36864\<rparr>)"
  (is "decode_bytes ?bs _ = _")
proof -
  have "length ?bs = 73728" by (simp add: length_concat to_be_bytes_def comp_def sum_list_triv sum_list_replicate)
  moreover have "\<exists>v. decode_word YayulParity j (be_words ?bs ! j) = Inr v" if "j < 36864" for j
    using that unfolding be_words_concat by (auto simp: decode_word_def count_ones_def upt_rec)
  ultimately show ?thesis by (simp only: decode_bytes_ok) (simp add: checks_parity_def)
qed

lemma parity_detects_flips_witness:
  "decode_bytes (concat (map to_be_bytes ((replicate 36864 1)[5 := 3]))) YayulParity = Some (Inl (ParityError 5 3))"
proof -
  have length: "length (concat (map to_be_bytes ws)) = 2 * length ws" for ws
    by (induction ws) (simp_all add: to_be_bytes_def)
  have "decode_bytes (concat (map to_be_bytes ((replicate 36864 1)[5 := 3]))) YayulParity
      = Some (Inl (ParityError 5 (be_words (concat (map to_be_bytes (replicate 36864 1))) ! 5 XOR push_bit 1 1)))"
    by (rule parity_detects_flips [OF decodes_marked]) (simp_all only: be_words_concat length, simp_all)
  then show ?thesis by (simp only: be_words_concat) simp
qed

end
