(* ===== verification/Rust_Collections.thy ===== *)
theory Rust_Collections
  imports Prelude "HOL-Library.Product_Lexorder" "HOL-Library.Multiset"
begin

text \<open>
  \<open>BTreeMap\<close> as the sorted list of its entries, and the queue that the runtime and the fault
  engine both build on it: entries keyed by a boundary number and an insertion number, delivered
  in key order once their boundary is reached. The locale \<open>due_queue\<close> states what the delivery
  loop needs of one entry's application and proves the order and totality of the loop once.
\<close>

section \<open>Ordered maps\<close>

text \<open>\<open>BTreeMap\<close>: the entries in increasing order of their keys.\<close>

type_synonym ('k, 'v) btree_map = "('k \<times> 'v) list"

fun btree_insert :: "'k::linorder \<Rightarrow> 'v \<Rightarrow> ('k, 'v) btree_map \<Rightarrow> ('k, 'v) btree_map" where
  "btree_insert k v [] = [(k, v)]"
| "btree_insert k v ((k', v') # m) =
     (if k < k' then (k, v) # (k', v') # m
      else if k = k' then (k, v) # m
      else (k', v') # btree_insert k v m)"

definition btree_get :: "'k::linorder \<Rightarrow> ('k, 'v) btree_map \<Rightarrow> 'v option" where
  "btree_get k m = map_of m k"

definition btree_remove :: "'k::linorder \<Rightarrow> ('k, 'v) btree_map \<Rightarrow> ('k, 'v) btree_map" where
  "btree_remove k m = filter (\<lambda>e. fst e \<noteq> k) m"

text \<open>The keys of \<open>range(..=k)\<close>.\<close>

definition btree_keys_to :: "'k::linorder \<Rightarrow> ('k, 'v) btree_map \<Rightarrow> 'k list" where
  "btree_keys_to k m = map fst (filter (\<lambda>e. fst e \<le> k) m)"

definition btree_ok :: "('k::linorder, 'v) btree_map \<Rightarrow> bool" where
  "btree_ok m \<longleftrightarrow> sorted_wrt (<) (map fst m)"

lemma btree_ok_simps [simp]:
  "btree_ok []"
  "btree_ok (e # m) \<longleftrightarrow> (\<forall>x \<in> set m. fst e < fst x) \<and> btree_ok m"
  by (auto simp: btree_ok_def)

lemma set_btree_insert: "set (map fst (btree_insert k v m)) = insert k (fst ` set m)"
  by (induction k v m rule: btree_insert.induct) auto

lemma btree_insert_keys: "x \<in> set (btree_insert k v m) \<Longrightarrow> fst x = k \<or> x \<in> set m"
  by (induction k v m rule: btree_insert.induct) (auto split: if_splits)

lemma btree_insert_ok [simp]: "btree_ok m \<Longrightarrow> btree_ok (btree_insert k v m)"
  by (induction k v m rule: btree_insert.induct) (auto dest!: btree_insert_keys)

lemma btree_get_insert [simp]:
  "btree_ok m \<Longrightarrow> btree_get k' (btree_insert k v m) = (if k' = k then Some v else btree_get k' m)"
  by (induction k v m rule: btree_insert.induct) (auto simp: btree_get_def)

lemma btree_remove_ok [simp]: "btree_ok m \<Longrightarrow> btree_ok (btree_remove k m)"
  by (induction m) (auto simp: btree_remove_def)

lemma btree_get_remove [simp]: "btree_get k' (btree_remove k m) = (if k' = k then None else btree_get k' m)"
  by (induction m) (auto simp: btree_get_def btree_remove_def)

lemma btree_remove_first: "btree_ok ((k, v) # m) \<Longrightarrow> btree_remove k ((k, v) # m) = m"
  unfolding btree_remove_def by (auto intro!: filter_True)

lemma btree_insert_new: "k \<notin> fst ` set m \<Longrightarrow> mset (btree_insert k v m) = add_mset (k, v) (mset m)"
  by (induction k v m rule: btree_insert.induct) auto

section \<open>Queues of things due at a boundary\<close>

text \<open>
  The runtime keeps its events, and the fault engine its faults, in a map from the boundary and
  an insertion number.  Their delivery loops take the keys that are due, then remove and apply
  each entry in turn.
\<close>

type_synonym 'v due_map = "(nat \<times> nat, 'v) btree_map"

definition U64_MAX :: nat where "U64_MAX = 18446744073709551615"

definition take_entry :: "('s \<Rightarrow> ('k::linorder, 'v) btree_map) \<Rightarrow>
    ((('k, 'v) btree_map \<Rightarrow> ('k, 'v) btree_map) \<Rightarrow> 's \<Rightarrow> 's) \<Rightarrow> 'k \<Rightarrow> ('s, 'e, 'v) prog" where
  "take_entry field update k = (\<lambda>s. case btree_get k (field s) of
       None \<Rightarrow> None
     | Some v \<Rightarrow> Some (Inr v, update (btree_remove k) s))"

lemma runs_take_entry [wp, simp]:
  "runs (take_entry field update k) s Q E \<longleftrightarrow>
     (case btree_get k (field s) of None \<Rightarrow> False | Some v \<Rightarrow> Q v (update (btree_remove k) s))"
  by (simp add: runs_def take_entry_def split: option.split)

text \<open>What the boundary number and the insertion order of a queue are, without the numbering.\<close>

definition contents :: "'v due_map \<Rightarrow> (nat \<times> 'v) list" where
  "contents q = map (\<lambda>((c, s), v). (c, v)) q"

definition numbered :: "nat \<Rightarrow> 'v due_map \<Rightarrow> bool" where
  "numbered n q \<longleftrightarrow> btree_ok q \<and> n \<le> U64_MAX \<and> (\<forall>((c, s), v) \<in> set q. s < n)"

lemma contents_simps [simp]:
  "contents [] = []" "contents (((c, s), v) # q) = (c, v) # contents q" "contents (p @ q) = contents p @ contents q"
  by (simp_all add: contents_def)

lemma sorted_contents: "btree_ok q \<Longrightarrow> sorted (map fst (contents q))"
proof (induction q)
  case (Cons x q)
  obtain c s v where x: "x = ((c, s), v)" by (metis prod.exhaust)
  have "c \<le> fst y" if "y \<in> set (contents q)" for y
    using that Cons.prems by (auto simp: x contents_def less_prod_def)
  then show ?case using Cons by (simp add: x)
qed simp

lemma mset_contents_insert:
  "(c, s) \<notin> fst ` set q \<Longrightarrow> mset (contents (btree_insert (c, s) v q)) = add_mset (c, v) (mset (contents q))"
  by (simp add: contents_def btree_insert_new)

lemma filter_contents_insert:
  "btree_ok q \<Longrightarrow> (\<And>c s v. ((c, s), v) \<in> set q \<Longrightarrow> s < n) \<Longrightarrow>
   filter (\<lambda>x. fst x = k) (contents (btree_insert (c, n) v q))
     = filter (\<lambda>x. fst x = k) (contents q) @ (if k = c then [(c, v)] else [])"
proof (induction q)
  case (Cons x q)
  obtain c' s' v' where x: "x = ((c', s'), v')" by (metis prod.exhaust)
  have s': "s' < n" using Cons.prems(2) [of c' s' v'] by (simp add: x)
  have IH: "filter (\<lambda>x. fst x = k) (contents (btree_insert (c, n) v q))
     = filter (\<lambda>x. fst x = k) (contents q) @ (if k = c then [(c, v)] else [])"
    by (rule Cons.IH) (use Cons.prems in auto)
  show ?case
  proof (cases "c < c'")
    case True
    have "filter (\<lambda>x. fst x = c) (contents q) = []"
      using Cons.prems(1) True by (auto simp: x filter_empty_conv contents_def less_prod_def)
    then show ?thesis using True by (auto simp: x less_prod_def)
  next
    case False
    then have "btree_insert (c, n) v (x # q) = x # btree_insert (c, n) v q"
      using s' by (auto simp: x less_prod_def)
    then show ?thesis using IH by (simp add: x)
  qed
qed simp

lemma numbered_insert:
  assumes "numbered n q" "n < U64_MAX"
  shows "numbered (Suc n) (btree_insert (c, n) v q)"
proof -
  have "s < Suc n" if "((c', s), w) \<in> set (btree_insert (c, n) v q)" for c' s w
    using btree_insert_keys [OF that] assms(1) by (force simp: numbered_def)
  then show ?thesis using assms by (force simp: numbered_def)
qed

text \<open>Inserting with a fresh number is inserting stably.\<close>

lemma contents_insert:
  assumes "numbered n q" "contents q = sort_key fst log"
  shows "contents (btree_insert (c, n) v q) = sort_key fst (log @ [(c, v)])"
proof (rule properties_for_sort_key [symmetric])
  have q: "btree_ok q" "\<And>c s v. ((c, s), v) \<in> set q \<Longrightarrow> s < n" using assms(1) by (auto simp: numbered_def)
  then have "(c, n) \<notin> fst ` set q" by fastforce
  then show "mset (contents (btree_insert (c, n) v q)) = mset (log @ [(c, v)])"
    by (simp add: mset_contents_insert assms(2))
  show "sorted (map fst (contents (btree_insert (c, n) v q)))" by (simp add: sorted_contents q)
  fix k
  have "filter (\<lambda>x. fst x = fst k) (sort_key fst log) = filter (\<lambda>x. fst x = fst k) log"
    by (rule sort_key_stable)
  then have "filter (\<lambda>x. fst x = fst k) (contents q) = filter (\<lambda>x. fst x = fst k) log" by (simp add: assms(2))
  then show "filter (\<lambda>x. fst k = fst x) (contents (btree_insert (c, n) v q)) = filter (\<lambda>x. fst k = fst x) (log @ [(c, v)])"
    using filter_contents_insert [where k = "fst k" and c = c and v = v, OF q] by (simp add: eq_commute [of "fst k"])
qed

lemma in_contents: "((c, s), v) \<in> set q \<Longrightarrow> (c, v) \<in> set (contents q)"
  unfolding contents_def by force

lemma contents_cases:
  assumes "x \<in> set (contents q)"
  obtains c s v where "x = (c, v)" "((c, s), v) \<in> set q"
  using assms unfolding contents_def by auto

definition deliver_due ::
  "('s \<Rightarrow> 'v due_map) \<Rightarrow> (('v due_map \<Rightarrow> 'v due_map) \<Rightarrow> 's \<Rightarrow> 's) \<Rightarrow> ('s \<Rightarrow> nat) \<Rightarrow>
   ('v \<Rightarrow> ('s, 'e, unit) prog) \<Rightarrow> ('s, 'e, unit) prog" where
  "deliver_due field update now apply_one =
     and_then (gets (\<lambda>s. btree_keys_to (now s, U64_MAX) (field s))) (\<lambda>keys.
     for_each keys (\<lambda>k. and_then (take_entry field update k) apply_one))"

lemma due_iff: "numbered n q \<Longrightarrow> ((c, s), v) \<in> set q \<Longrightarrow> (c, s) \<le> (t, U64_MAX) \<longleftrightarrow> c \<le> t"
proof -
  assume "numbered n q" "((c, s), v) \<in> set q"
  then have "s < n" "n \<le> U64_MAX" by (auto simp: numbered_def)
  then show "(c, s) \<le> (t, U64_MAX) \<longleftrightarrow> c \<le> t" by (auto simp: less_eq_prod_def)
qed

lemma due_keys: "numbered n q \<Longrightarrow> btree_keys_to (t, U64_MAX) q = map fst (filter (\<lambda>e. fst (fst e) \<le> t) q)"
  unfolding btree_keys_to_def
  by (rule arg_cong [where f = "map fst"], rule filter_cong [OF refl]) (metis due_iff prod.collapse)

lemma numbered_tail: "numbered n (e # q) \<Longrightarrow> numbered n q"
  by (simp add: numbered_def)

lemma filter_tail:
  assumes "btree_ok (((c, s), v) # q)" "\<not> c \<le> (t :: nat)"
  shows "filter (\<lambda>e. fst (fst e) \<le> t) q = []"
  using assms by (fastforce simp: filter_empty_conv less_prod_def)

locale due_queue =
  fixes queue :: "'s \<Rightarrow> 'v due_map"
    and update :: "('v due_map \<Rightarrow> 'v due_map) \<Rightarrow> 's \<Rightarrow> 's"
    and apply_one :: "'v \<Rightarrow> ('s, 'e, unit) prog"
    and good :: "'s \<Rightarrow> bool"
    and sound :: "'v \<Rightarrow> bool"
  assumes queue_update: "queue (update f s) = f (queue s)"
    and update_cong: "f (queue s) = g (queue s) \<Longrightarrow> update f s = update g s"
    and apply_queue: "apply_one v s = Some (r, s') \<Longrightarrow> queue s' = queue s"
    and apply_good: "good s \<Longrightarrow> queue s = (k, v) # q \<Longrightarrow> sound v \<Longrightarrow>
      succeeds (apply_one v) (update tl s) (\<lambda>_. good)"
begin

definition deliver :: "nat \<times> nat \<Rightarrow> ('s, 'e, unit) prog" where
  "deliver k = and_then (take_entry queue update k) apply_one"

lemma deliver_first:
  assumes "queue s = (k, v) # q" "btree_ok (queue s)"
  shows "deliver k s = apply_one v (update tl s)"
proof -
  have "update (btree_remove k) s = update tl s"
    by (rule update_cong) (use assms btree_remove_first [of k v q] in simp)
  then show ?thesis
    using assms by (simp add: deliver_def and_then_def take_entry_def btree_get_def)
qed

text \<open>The loop over the keys applies the due entries in the order of the queue.\<close>

lemma loop_in_order:
  "queue s = q \<Longrightarrow> btree_ok q \<Longrightarrow>
   for_each (map fst (filter (\<lambda>e. fst (fst e) \<le> t) q)) deliver s
     = for_each (filter (\<lambda>(c, v). c \<le> t) (contents q)) (\<lambda>(c, v). seq (modify (update tl)) (apply_one v)) s"
proof (induction q arbitrary: s)
  case (Cons e q)
  obtain c i v where e: "e = ((c, i), v)" by (metis prod.exhaust)
  show ?case
  proof (cases "c \<le> t")
    case True
    have first: "deliver (c, i) s = apply_one v (update tl s)" by (rule deliver_first) (use Cons.prems e in simp_all)
    have "for_each (map fst (filter (\<lambda>e. fst (fst e) \<le> t) q)) deliver s'
        = for_each (filter (\<lambda>(c, v). c \<le> t) (contents q)) (\<lambda>(c, v). seq (modify (update tl)) (apply_one v)) s'"
      if "apply_one v (update tl s) = Some (r, s')" for r s'
      by (rule Cons.IH) (use Cons.prems apply_queue [OF that] in \<open>simp_all add: queue_update\<close>)
    then show ?thesis
      using True by (auto simp: e first and_then_def modify_def split: option.splits sum.splits)
  next
    case False
    then have "filter (\<lambda>e. fst (fst e) \<le> t) q = []" using filter_tail [of c i v q t] Cons.prems(2) e by simp
    moreover have "filter (\<lambda>(c, v). c \<le> t) (contents q) = []"
      using calculation by (auto simp: contents_def filter_empty_conv)
    ultimately show ?thesis using False by (simp add: e)
  qed
qed simp

lemma loop_good:
  "queue s = q \<Longrightarrow> btree_ok q \<Longrightarrow> good s \<Longrightarrow> (\<And>c i v. ((c, i), v) \<in> set q \<Longrightarrow> c \<le> t \<Longrightarrow> sound v) \<Longrightarrow>
   succeeds (for_each (map fst (filter (\<lambda>e. fst (fst e) \<le> t) q)) deliver) s
     (\<lambda>_ s'. good s' \<and> queue s' = filter (\<lambda>e. \<not> fst (fst e) \<le> t) q)"
proof (induction q arbitrary: s)
  case (Cons e q)
  obtain c i v where e: "e = ((c, i), v)" by (metis prod.exhaust)
  show ?case
  proof (cases "c \<le> t")
    case True
    have first: "deliver (c, i) s = apply_one v (update tl s)" by (rule deliver_first) (use Cons.prems e in simp_all)
    have "succeeds (apply_one v) (update tl s) (\<lambda>_. good)"
      by (rule apply_good) (use Cons.prems True e in auto)
    then obtain s' where s': "deliver (c, i) s = Some (Inr (), s')" "good s'" "queue s' = q"
      using apply_queue [of v "update tl s"] Cons.prems(1) by (auto simp: succeeds_iff first queue_update)
    have "succeeds (for_each (map fst (filter (\<lambda>e. fst (fst e) \<le> t) q)) deliver) s'
       (\<lambda>_ s'. good s' \<and> queue s' = filter (\<lambda>e. \<not> fst (fst e) \<le> t) q)"
      by (rule Cons.IH) (use Cons.prems s' in auto)
    then show ?thesis using True s'(1) by (simp add: e runs_def [of "deliver (c, i)"])
  next
    case False
    then have none: "filter (\<lambda>e. fst (fst e) \<le> t) q = []" using filter_tail [of c i v q t] Cons.prems(2) e by simp
    then have "filter (\<lambda>e. \<not> fst (fst e) \<le> t) q = q" by (auto simp: filter_empty_conv intro: filter_True)
    then show ?thesis using False Cons.prems none by (simp add: e)
  qed
qed simp

lemma deliver_due_eq:
  assumes "numbered n (queue s)"
  shows "deliver_due queue update now apply_one s
     = for_each (map fst (filter (\<lambda>e. fst (fst e) \<le> now s) (queue s))) deliver s"
proof -
  have "(\<lambda>k. and_then (take_entry queue update k) apply_one) = deliver" by (rule ext) (simp add: deliver_def)
  then show ?thesis unfolding deliver_due_def by (simp add: run_and_then run_basic due_keys [OF assms])
qed

theorem delivers_in_order:
  assumes "numbered n (queue s)" "contents (queue s) = sort_key fst log"
  shows "deliver_due queue update now apply_one s
     = for_each (sort_key fst (filter (\<lambda>(c, v). c \<le> now s) log)) (\<lambda>(c, v). seq (modify (update tl)) (apply_one v)) s"
  using assms(1) loop_in_order [OF refl, of s "now s"]
  by (simp add: deliver_due_eq [OF assms(1)] numbered_def assms(2) filter_sort)

theorem delivers_all:
  assumes "numbered n (queue s)" "good s" "\<And>c i v. ((c, i), v) \<in> set (queue s) \<Longrightarrow> c \<le> now s \<Longrightarrow> sound v"
  shows "succeeds (deliver_due queue update now apply_one) s
     (\<lambda>_ s'. good s' \<and> queue s' = filter (\<lambda>e. \<not> fst (fst e) \<le> now s) (queue s))"
  using loop_good [OF refl _ assms(2,3)] assms(1)
  by (simp add: runs_def deliver_due_eq [OF assms(1)] numbered_def)

end

section \<open>Ordered sets and tallies\<close>

text \<open>\<open>BTreeSet\<close>: its elements in increasing order.\<close>

fun btree_add :: "'a::linorder \<Rightarrow> 'a list \<Rightarrow> 'a list" where
  "btree_add x [] = [x]"
| "btree_add x (y # ys) = (if x < y then x # y # ys else if x = y then y # ys else y # btree_add x ys)"

text \<open>\<open>*map.entry(k).or_insert(d)\<close> changed by a function.\<close>

definition btree_entry :: "'k::linorder \<Rightarrow> 'v \<Rightarrow> ('v \<Rightarrow> 'v) \<Rightarrow> ('k, 'v) btree_map \<Rightarrow> ('k, 'v) btree_map" where
  "btree_entry k d f m = btree_insert k (f (case btree_get k m of Some v \<Rightarrow> v | None \<Rightarrow> d)) m"

lemma btree_add_insort: "sorted xs \<Longrightarrow> distinct xs \<Longrightarrow> btree_add x xs = (if x \<in> set xs then xs else insort x xs)"
  by (induction x xs rule: btree_add.induct) auto

lemma sorted_list_insert:
  "finite A \<Longrightarrow> sorted_list_of_set (insert x A)
     = (if x \<in> A then sorted_list_of_set A else insort x (sorted_list_of_set A))"
  by (metis insert_absorb sorted_list_of_set.fold_insort_key.insert)

lemma fold_btree_add: "fold btree_add xs [] = sorted_list_of_set (set xs)"
  by (induction xs rule: rev_induct) (simp_all add: btree_add_insort sorted_list_insert del: sorted_list_of_set_insert_remove)

text \<open>
  Items tallied one by one under their keys: the map holds, for every key in increasing order, what
  the items with that key amount to.
\<close>

definition tallied :: "('x \<Rightarrow> 'k::linorder) \<Rightarrow> 'v \<Rightarrow> ('x \<Rightarrow> 'v \<Rightarrow> 'v) \<Rightarrow> 'x list \<Rightarrow> ('k, 'v) btree_map" where
  "tallied key d f xs = fold (\<lambda>x. btree_entry (key x) d (f x)) xs []"

lemma tallied_Nil [simp]: "tallied key d f [] = []"
  by (simp add: tallied_def)

lemma tallied_snoc: "tallied key d f (xs @ [x]) = btree_entry (key x) d (f x) (tallied key d f xs)"
  by (simp add: tallied_def)

lemma btree_insert_sorted:
  "sorted ks \<Longrightarrow> distinct ks \<Longrightarrow> btree_insert k v (map (\<lambda>j. (j, g j)) ks)
     = map (\<lambda>j. (j, (g(k := v)) j)) (if k \<in> set ks then ks else insort k ks)"
  by (induction ks) auto

lemma tallied_keys:
  "tallied key d f xs = map (\<lambda>k. (k, fold f (filter (\<lambda>x. key x = k) xs) d)) (sorted_list_of_set (key ` set xs))"
proof (induction xs rule: rev_induct)
  case (snoc x xs)
  let ?g = "\<lambda>xs k. fold f (filter (\<lambda>x. key x = k) xs) d" and ?K = "sorted_list_of_set (key ` set xs)"
  have none: "filter (\<lambda>y. key y = key x) xs = []" if "key x \<notin> key ` set xs"
    using that by (auto simp: filter_empty_conv image_iff)
  have "(case btree_get (key x) (map (\<lambda>k. (k, ?g xs k)) ?K) of Some v \<Rightarrow> v | None \<Rightarrow> d) = ?g xs (key x)"
    by (cases "key x \<in> key ` set xs")
      (auto simp: btree_get_def map_of_map_restrict restrict_map_def none)
  moreover have "sorted_list_of_set (key ` set (xs @ [x])) = (if key x \<in> set ?K then ?K else insort (key x) ?K)"
    by (simp add: sorted_list_insert del: sorted_list_of_set_insert_remove)
  moreover have "(?g xs)(key x := f x (?g xs (key x))) = ?g (xs @ [x])"
    by (auto simp: fun_eq_iff)
  ultimately show ?case
    unfolding tallied_snoc snoc.IH btree_entry_def by (simp add: btree_insert_sorted del: set_append)
qed simp

end
