(* ===== verification/Agc_Runtime.thy ===== *)
theory Agc_Runtime
  imports Agc_Cpu_Steps Rust_Collections
begin

text \<open>
  \<open>crates/agc-runtime\<close>: the event queue, the peripherals and the flight-software observer
  around the processor. Counters of type \<open>u64\<close> are naturals; the insertion number, which is
  part of the queue's key, is checked against its maximum.
\<close>

section \<open>State\<close>

datatype runtime_event =
    ChannelEvent u16 agc_word
  | InterruptEvent interrupt
  | ErasableEvent u8 u16 agc_word
  | ImuPulses u16 u16 u16
  | RadarEvent agc_word agc_word
  | DskyKey u8

record scheduled_event =
  se_cycle :: nat
  se_sequence :: nat
  se_event :: runtime_event

record imu_state =
  imu_x :: int
  imu_y :: int
  imu_z :: int

record radar_state =
  radar_range :: agc_word
  radar_rate :: agc_word
  radar_samples :: nat

record downlink_frame =
  dl_cycle :: nat
  dl_word1 :: agc_word
  dl_word2 :: agc_word

record hardware_state =
  imu :: imu_state
  radar :: radar_state
  downlink :: "downlink_frame list"
  pending_downlink_1 :: "agc_word option"
  pending_downlink_2 :: "agc_word option"

definition default_hardware :: hardware_state where
  "default_hardware =
     \<lparr>imu = \<lparr>imu_x = 0, imu_y = 0, imu_z = 0\<rparr>,
      radar = \<lparr>radar_range = POSITIVE_ZERO, radar_rate = POSITIVE_ZERO, radar_samples = 0\<rparr>,
      downlink = [], pending_downlink_1 = None, pending_downlink_2 = None\<rparr>"

record executive_slot =
  es_slot :: u8
  es_address_word :: u16
  es_priority_word :: u16

record executive_job =
  ej_slot :: u8
  ej_entry :: u16
  ej_priority :: agc_word

record waitlist_slot =
  ws_slot :: u8
  ws_delay_word :: u16
  ws_task_word :: u16

record waitlist_task =
  wt_slot :: u8
  wt_delay :: agc_word
  wt_entry :: u16

record observer_state =
  executive_slots :: "executive_slot list"
  waitlist_slots :: "waitlist_slot list"

datatype runtime_error = RuntimeCpu cpu_error | RuntimeMemory memory_error | RuntimeChannel u16

record runtime =
  rt_cpu :: cpu
  rt_events :: "runtime_event due_map"
  next_event_sequence :: nat
  hardware :: hardware_state
  observer :: observer_state

definition runtime_new :: "cpu \<Rightarrow> runtime" where
  "runtime_new c =
     \<lparr>rt_cpu = c, rt_events = [], next_event_sequence = 0, hardware = default_hardware,
      observer = \<lparr>executive_slots = [], waitlist_slots = []\<rparr>\<rparr>"

definition set_observer :: "observer_state \<Rightarrow> runtime \<Rightarrow> runtime" where
  "set_observer obs r = r\<lparr>observer := obs\<rparr>"

definition on_processor :: "(cpu, cpu_error, 'a) prog \<Rightarrow> (runtime, runtime_error, 'a) prog" where
  "on_processor m = zoom rt_cpu (\<lambda>c r. r\<lparr>rt_cpu := c\<rparr>) RuntimeCpu m"

definition on_memory :: "(memory, memory_error, 'a) prog \<Rightarrow> (runtime, runtime_error, 'a) prog" where
  "on_memory m = zoom (\<lambda>r. cpu_memory (rt_cpu r))
     (\<lambda>m r. r\<lparr>rt_cpu := (rt_cpu r)\<lparr>cpu_memory := m\<rparr>\<rparr>) RuntimeMemory m"

section \<open>Observing the flight software\<close>

text \<open>The result of a computation as a value, without \<open>?\<close>.\<close>

definition attempt :: "('s, 'e, 'a) prog \<Rightarrow> ('s, 'f, 'e + 'a) prog" where
  "attempt m = (\<lambda>s. case m s of None \<Rightarrow> None | Some (r, s') \<Rightarrow> Some (Inr r, s'))"

definition observe_word :: "u16 \<Rightarrow> (cpu, 'e, memory_error + agc_word) prog" where
  "observe_word address = zoom cpu_memory (\<lambda>m c. c\<lparr>cpu_memory := m\<rparr>) (\<lambda>e. e)
     (attempt (and_then (read_memory address ReadAccess) (\<lambda>access. ok (ma_value access))))"

fun executive_jobs :: "executive_slot list \<Rightarrow> (cpu, runtime_error, executive_job list) prog" where
  "executive_jobs [] = ok []"
| "executive_jobs (slot # slots) =
     and_then (observe_word (es_address_word slot)) (\<lambda>entry.
     and_then (observe_word (es_priority_word slot)) (\<lambda>priority.
     case (entry, priority) of
       (Inr e, Inr p) \<Rightarrow>
         if \<not> is_zero e
         then and_then (executive_jobs slots) (\<lambda>jobs.
              ok (\<lparr>ej_slot = es_slot slot, ej_entry = raw e AND 0xFFF, ej_priority = p\<rparr> # jobs))
         else executive_jobs slots
     | (Inl x, _) \<Rightarrow> fail (RuntimeMemory x)
     | (Inr _, Inl x) \<Rightarrow> fail (RuntimeMemory x)))"

fun waitlist_tasks :: "waitlist_slot list \<Rightarrow> (cpu, runtime_error, waitlist_task list) prog" where
  "waitlist_tasks [] = ok []"
| "waitlist_tasks (slot # slots) =
     and_then (observe_word (ws_delay_word slot)) (\<lambda>delay.
     and_then (observe_word (ws_task_word slot)) (\<lambda>entry.
     case (delay, entry) of
       (Inr d, Inr e) \<Rightarrow>
         if \<not> is_zero e
         then and_then (waitlist_tasks slots) (\<lambda>tasks.
              ok (\<lparr>wt_slot = ws_slot slot, wt_delay = d, wt_entry = raw e AND 0xFFF\<rparr> # tasks))
         else waitlist_tasks slots
     | (Inl x, _) \<Rightarrow> fail (RuntimeMemory x)
     | (Inr _, Inl x) \<Rightarrow> fail (RuntimeMemory x)))"

section \<open>Events\<close>

definition schedule :: "nat \<Rightarrow> runtime_event \<Rightarrow> (runtime, 'e, scheduled_event) prog" where
  "schedule cycle e =
     and_then (gets next_event_sequence) (\<lambda>n.
     seq (modify (rt_events_update (btree_insert (cycle, n) e))) (
     seq (if n < U64_MAX then modify (\<lambda>r. r\<lparr>next_event_sequence := n + 1\<rparr>) else panic)
         (ok \<lparr>se_cycle = cycle, se_sequence = n, se_event = e\<rparr>)))"

definition queued_events :: "runtime \<Rightarrow> scheduled_event list" where
  "queued_events r =
     map (\<lambda>((cycle, n), e). \<lparr>se_cycle = cycle, se_sequence = n, se_event = e\<rparr>) (rt_events r)"

text \<open>An \<open>i16\<close> is a sixteen-bit word read by its sign; the \<open>i32\<close> sums panic when they overflow.\<close>

definition add_i32 :: "int \<Rightarrow> int \<Rightarrow> int option" where
  "add_i32 a b = (if -2147483648 \<le> a + b \<and> a + b \<le> 2147483647 then Some (a + b) else None)"

definition pulse_delta :: "u16 \<Rightarrow> agc_word" where
  "pulse_delta pulses = (case from_i32 (sint pulses) of Inr d \<Rightarrow> d | Inl _ \<Rightarrow> from_raw_truncate pulses)"

definition count_pulses :: "u16 \<Rightarrow> u16 \<Rightarrow> u16 \<Rightarrow> (runtime, 'e, unit) prog" where
  "count_pulses x y z =
     and_then (gets (\<lambda>r. imu (hardware r))) (\<lambda>i.
     and_then (of_option (add_i32 (imu_x i) (sint x))) (\<lambda>sx.
     and_then (of_option (add_i32 (imu_y i) (sint y))) (\<lambda>sy.
     and_then (of_option (add_i32 (imu_z i) (sint z))) (\<lambda>sz.
     modify (hardware_update (\<lambda>h. h\<lparr>imu := \<lparr>imu_x = sx, imu_y = sy, imu_z = sz\<rparr>\<rparr>))))))"

definition pulse_counter :: "u16 \<times> u16 \<Rightarrow> (runtime, runtime_error, unit) prog" where
  "pulse_counter p = (case p of (address, pulses) \<Rightarrow>
     and_then (on_memory (read_memory address ReadAccess)) (\<lambda>access.
     and_then (on_memory (write_memory address (wrapping_add (ma_value access) (pulse_delta pulses)))) (\<lambda>_.
     ok ())))"

definition apply_event :: "runtime_event \<Rightarrow> (runtime, runtime_error, unit) prog" where
  "apply_event e = (case e of
       ChannelEvent channel v \<Rightarrow> (case channel_address_new channel of
           Inl _ \<Rightarrow> fail (RuntimeChannel channel)
         | Inr address \<Rightarrow> on_memory (write_channel address v))
     | InterruptEvent i \<Rightarrow> modify (rt_cpu_update (request_interrupt i))
     | ErasableEvent bank offset v \<Rightarrow> on_memory (write_erasable_physical bank offset v)
     | ImuPulses x y z \<Rightarrow>
         seq (count_pulses x y z) (for_each [(0x1A, x), (0x1B, y), (0x1C, z)] pulse_counter)
     | RadarEvent distance rate \<Rightarrow>
         seq (modify (hardware_update (radar_update (\<lambda>d.
                \<lparr>radar_range = distance, radar_rate = rate, radar_samples = radar_samples d + 1\<rparr>)))) (
         and_then (on_memory (write_memory 0x26 distance)) (\<lambda>_.
         and_then (on_memory (write_memory 0x25 rate)) (\<lambda>_.
         modify (rt_cpu_update (request_interrupt Radar)))))
     | DskyKey code \<Rightarrow>
         and_then (expect (of_result (channel_address_new 0xD))) (\<lambda>address.
         seq (on_memory (write_channel address (from_raw_truncate (ucast (code AND 0x1F)))))
             (modify (rt_cpu_update (request_interrupt Key1)))))"

definition apply_due_events :: "(runtime, runtime_error, unit) prog" where
  "apply_due_events = deliver_due rt_events rt_events_update (\<lambda>r. cycles (rt_cpu r)) apply_event"

section \<open>Stepping\<close>

text \<open>One written channel word: the pending words are taken, and a frame needs both of them.\<close>

definition capture_word :: "nat \<Rightarrow> io_event \<Rightarrow> hardware_state \<Rightarrow> hardware_state" where
  "capture_word cycle_end io h =
     (if \<not> io_write io then h
      else
        let h = (if io_channel io = 0x1C then h\<lparr>pending_downlink_1 := Some (io_value io)\<rparr>
                 else if io_channel io = 0x1D then h\<lparr>pending_downlink_2 := Some (io_value io)\<rparr>
                 else h);
            taken = h\<lparr>pending_downlink_1 := None, pending_downlink_2 := None\<rparr>
        in case (pending_downlink_1 h, pending_downlink_2 h) of
             (Some word1, Some word2) \<Rightarrow>
               taken\<lparr>downlink := downlink h @ [\<lparr>dl_cycle = cycle_end, dl_word1 = word1, dl_word2 = word2\<rparr>]\<rparr>
           | _ \<Rightarrow> taken)"

definition capture_output :: "step_outcome \<Rightarrow> (runtime, 'e, unit) prog" where
  "capture_output outcome =
     modify (hardware_update (fold (capture_word (te_cycle_end (so_trace outcome))) (te_io (so_trace outcome))))"

definition runtime_step :: "(runtime, runtime_error, step_outcome) prog" where
  "runtime_step =
     seq apply_due_events (
     and_then (on_processor step) (\<lambda>outcome.
     seq (capture_output outcome) (ok outcome)))"

text \<open>The loop of \<open>run\<close>, with the fuel of the processor's own run loop.\<close>

fun runtime_rounds :: "nat \<Rightarrow> nat \<Rightarrow> nat \<Rightarrow> (runtime, runtime_error, unit) prog" where
  "runtime_rounds 0 start limit = panic"
| "runtime_rounds (Suc fuel) start limit =
     and_then (gets (\<lambda>r. sequence (rt_cpu r) - start)) (\<lambda>executed.
     if executed < limit then and_then runtime_step (\<lambda>_. runtime_rounds fuel start limit) else ok ())"

definition runtime_run :: "nat \<Rightarrow> (runtime, runtime_error, run_outcome) prog" where
  "runtime_run limit =
     and_then (gets (\<lambda>r. sequence (rt_cpu r))) (\<lambda>start.
     seq (runtime_rounds (2 * limit + 2) start limit)
         (gets (\<lambda>r. \<lparr>ro_reason = InstructionLimit, ro_instructions = sequence (rt_cpu r) - start,
                     ro_cycles = cycles (rt_cpu r)\<rparr>)))"

end
