(* ===== verification/Agc_Faults.thy ===== *)
theory Agc_Faults
  imports Agc_Runtime
begin

text \<open>
  \<open>crates/agc-faults\<close>: fault injection around the runtime. The engine keeps its faults in the same
  kind of queue as the runtime keeps its events; a step applies the due faults, forces the stuck
  channels, steps the runtime and counts the channel faults down.
\<close>

section \<open>State\<close>

datatype fault =
    ErasableBitFlip u16 u16
  | PhysicalErasableBitFlip u8 u16 u16
  | RopeBitFlip u8 u16 u16
  | RegisterFault u16 u16
  | StuckChannel u16 agc_word nat
  | DropInterrupt interrupt
  | TimerJump u16 int
  | ImuBias u16 u16 u16
  | RadarSample agc_word agc_word

record scheduled_fault =
  sf_instruction :: nat
  sf_sequence :: nat
  sf_fault :: fault

record applied_fault =
  af_instruction :: nat
  af_cycle :: nat
  af_fault :: fault
  af_resulting_word :: "u16 option"

datatype fault_error =
    FaultRuntime runtime_error
  | FaultMemory memory_error
  | TimerAddress u16
  | FaultChannel u16
  | FaultDelta int
  | FaultPhysicalErasable u8 u16

record active_channel_fault =
  ac_channel :: u16
  ac_value :: agc_word
  ac_remaining :: nat

record fault_engine =
  scheduled :: "fault due_map"
  active_channels :: "active_channel_fault list"
  next_sequence :: nat
  applied :: "applied_fault list"

definition default_engine :: fault_engine where
  "default_engine = \<lparr>scheduled = [], active_channels = [], next_sequence = 0, applied = []\<rparr>"

text \<open>The methods of the engine take the runtime by mutable reference.\<close>

record campaign =
  engine :: fault_engine
  target :: runtime

definition on_target :: "(runtime, runtime_error, 'a) prog \<Rightarrow> (campaign, fault_error, 'a) prog" where
  "on_target m = zoom target (\<lambda>r s. s\<lparr>target := r\<rparr>) FaultRuntime m"

definition on_target_memory :: "(memory, memory_error, 'a) prog \<Rightarrow> (campaign, fault_error, 'a) prog" where
  "on_target_memory m = zoom (\<lambda>s. cpu_memory (rt_cpu (target s)))
     (\<lambda>m s. s\<lparr>target := (target s)\<lparr>rt_cpu := (rt_cpu (target s))\<lparr>cpu_memory := m\<rparr>\<rparr>\<rparr>) FaultMemory m"

text \<open>\<open>map_err\<close> that discards the error.\<close>

definition or_error :: "'f \<Rightarrow> ('s, 'e, 'a) prog \<Rightarrow> ('s, 'f, 'a) prog" where
  "or_error x m = (\<lambda>s. case m s of
       None \<Rightarrow> None
     | Some (r, s') \<Rightarrow> Some (case r of Inl e \<Rightarrow> Inl x | Inr a \<Rightarrow> Inr a, s'))"

definition schedule_fault :: "nat \<Rightarrow> fault \<Rightarrow> (fault_engine, 'e, scheduled_fault) prog" where
  "schedule_fault instruction f =
     and_then (gets next_sequence) (\<lambda>n.
     seq (modify (scheduled_update (btree_insert (instruction, n) f))) (
     seq (if n < U64_MAX then modify (\<lambda>x. x\<lparr>next_sequence := n + 1\<rparr>) else panic)
         (ok \<lparr>sf_instruction = instruction, sf_sequence = n, sf_fault = f\<rparr>)))"

section \<open>Applying a fault\<close>

text \<open>Reading a word, changing it and writing it back: the value the write reports.\<close>

definition change_word :: "u16 \<Rightarrow> (agc_word \<Rightarrow> agc_word) \<Rightarrow> (campaign, fault_error, u16 option) prog" where
  "change_word address f =
     and_then (on_target_memory (read_memory address ReadAccess)) (\<lambda>current.
     and_then (on_target_memory (write_memory address (f (ma_value current)))) (\<lambda>written.
     ok (Some (raw (ma_value written)))))"

definition flip_physical :: "u8 \<Rightarrow> u16 \<Rightarrow> u16 \<Rightarrow> (campaign, fault_error, u16 option) prog" where
  "flip_physical bank offset bits =
     and_then (on_target_memory (read_erasable_physical bank offset)) (\<lambda>found.
     case found of
       None \<Rightarrow> fail (FaultPhysicalErasable bank offset)
     | Some current \<Rightarrow>
         let next' = from_raw_truncate (raw current XOR bits)
         in seq (or_error (FaultPhysicalErasable bank offset)
                  (on_target_memory (write_erasable_physical bank offset next')))
              (ok (Some (raw next'))))"

definition flip_register :: "u16 \<Rightarrow> u16 \<Rightarrow> (campaign, fault_error, u16 option) prog" where
  "flip_register index bits =
     and_then (on_target (on_processor (try_memory (central_register index)))) (\<lambda>current.
     and_then (expect (of_result (register_try_from_raw (ucast (reg_raw current XOR bits))))) (\<lambda>next'.
     seq (on_target_memory (set_central_register index next'))
         (ok (Some (reg_raw next')))))"

definition stick_channel :: "u16 \<Rightarrow> agc_word \<Rightarrow> nat \<Rightarrow> (campaign, fault_error, u16 option) prog" where
  "stick_channel channel v instructions = (case channel_address_new channel of
       Inl _ \<Rightarrow> fail (FaultChannel channel)
     | Inr _ \<Rightarrow>
         seq (modify (engine_update (active_channels_update (\<lambda>cs.
                cs @ [\<lparr>ac_channel = channel, ac_value = v, ac_remaining = instructions\<rparr>]))))
             (ok (Some (raw v))))"

definition drop_interrupt :: "interrupt \<Rightarrow> (campaign, fault_error, u16 option) prog" where
  "drop_interrupt i =
     and_then (gets (\<lambda>s. cancel_interrupt i (rt_cpu (target s)))) (\<lambda>(removed, c).
     seq (modify (target_update (rt_cpu_update (\<lambda>_. c))))
         (ok (Some (if removed then 1 else 0))))"

definition jump_timer :: "u16 \<Rightarrow> int \<Rightarrow> (campaign, fault_error, u16 option) prog" where
  "jump_timer address delta =
     (if \<not> (0x14 \<le> address \<and> address \<le> 0x19) then fail (TimerAddress address)
      else case from_i32 delta of
             Inl _ \<Rightarrow> fail (FaultDelta delta)
           | Inr d \<Rightarrow> change_word address (\<lambda>current. wrapping_add current d))"

definition schedule_now :: "runtime_event \<Rightarrow> (campaign, fault_error, u16 option) prog" where
  "schedule_now e =
     and_then (gets (\<lambda>s. cycles (rt_cpu (target s)))) (\<lambda>now.
     and_then (on_target (schedule now e)) (\<lambda>_. ok None))"

definition apply_fault :: "fault \<Rightarrow> (campaign, fault_error, unit) prog" where
  "apply_fault f =
     and_then (case f of
         ErasableBitFlip address bits \<Rightarrow> change_word address (\<lambda>current. from_raw_truncate (raw current XOR bits))
       | PhysicalErasableBitFlip bank offset bits \<Rightarrow> flip_physical bank offset bits
       | RopeBitFlip bank offset bits \<Rightarrow>
           and_then (on_target_memory (inject_fixed_bit_flip bank offset bits)) (\<lambda>w. ok (Some (raw w)))
       | RegisterFault index bits \<Rightarrow> flip_register index bits
       | StuckChannel channel v instructions \<Rightarrow> stick_channel channel v instructions
       | DropInterrupt i \<Rightarrow> drop_interrupt i
       | TimerJump address delta \<Rightarrow> jump_timer address delta
       | ImuBias x y z \<Rightarrow> schedule_now (ImuPulses x y z)
       | RadarSample distance rate \<Rightarrow> schedule_now (RadarEvent distance rate)) (\<lambda>result.
     and_then (gets (\<lambda>s. rt_cpu (target s))) (\<lambda>c.
     modify (engine_update (applied_update (\<lambda>fs. fs @ [\<lparr>af_instruction = sequence c, af_cycle = cycles c,
       af_fault = f, af_resulting_word = result\<rparr>])))))"

definition apply_due_faults :: "(campaign, fault_error, unit) prog" where
  "apply_due_faults = deliver_due (\<lambda>s. scheduled (engine s)) (\<lambda>f. engine_update (scheduled_update f))
     (\<lambda>s. sequence (rt_cpu (target s))) apply_fault"

definition enforce_channels :: "(campaign, fault_error, unit) prog" where
  "enforce_channels =
     and_then (gets (\<lambda>s. active_channels (engine s))) (\<lambda>cs.
     for_each cs (\<lambda>c. case channel_address_new (ac_channel c) of
         Inl _ \<Rightarrow> fail (FaultChannel (ac_channel c))
       | Inr address \<Rightarrow> on_target_memory (write_channel address (ac_value c))))"

section \<open>Steps\<close>

text \<open>\<open>retain_mut\<close>: count down every channel fault and keep those with boundaries left.\<close>

definition retain_active :: "active_channel_fault list \<Rightarrow> active_channel_fault list" where
  "retain_active cs = filter (\<lambda>c. ac_remaining c \<noteq> 0) (map (ac_remaining_update (\<lambda>n. n - 1)) cs)"

definition fault_step :: "(campaign, fault_error, step_outcome) prog" where
  "fault_step =
     seq apply_due_faults (
     seq enforce_channels (
     and_then (on_target runtime_step) (\<lambda>outcome.
     seq (modify (engine_update (active_channels_update retain_active))) (ok outcome))))"

fun fault_rounds :: "nat \<Rightarrow> nat \<Rightarrow> nat \<Rightarrow> (campaign, fault_error, unit) prog" where
  "fault_rounds 0 start limit = panic"
| "fault_rounds (Suc fuel) start limit =
     and_then (gets (\<lambda>s. sequence (rt_cpu (target s)) - start)) (\<lambda>executed.
     if executed < limit then and_then fault_step (\<lambda>_. fault_rounds fuel start limit) else ok ())"

definition fault_run :: "nat \<Rightarrow> (campaign, fault_error, unit) prog" where
  "fault_run instructions =
     and_then (gets (\<lambda>s. sequence (rt_cpu (target s)))) (\<lambda>start.
     fault_rounds (2 * instructions + 2) start instructions)"

section \<open>Recovery\<close>

record recovery_comparison =
  first_divergence :: "nat option"
  baseline_instructions :: nat
  faulted_instructions :: nat
  baseline_pc :: u16
  faulted_pc :: u16
  registers_recovered :: bool

definition pc_of :: "cpu \<Rightarrow> u16 option" where
  "pc_of c = (case (program_counter :: (cpu, cpu_error, u16) prog) c of Some (Inr pc, _) \<Rightarrow> Some pc | _ \<Rightarrow> None)"

definition compare_recovery :: "runtime \<Rightarrow> runtime \<Rightarrow> recovery_comparison option" where
  "compare_recovery baseline faulted =
     (let a = trace (rt_cpu baseline); b = trace (rt_cpu faulted)
      in case (pc_of (rt_cpu baseline), pc_of (rt_cpu faulted)) of
           (Some pa, Some pb) \<Rightarrow> Some
             \<lparr>first_divergence = map_option td_index (first_difference a b),
              baseline_instructions = sequence (rt_cpu baseline),
              faulted_instructions = sequence (rt_cpu faulted),
              baseline_pc = pa, faulted_pc = pb,
              registers_recovered = (map_option te_after (last_event (events a)) = map_option te_after (last_event (events b)))\<rparr>
         | _ \<Rightarrow> None)"

end
