(* ===== verification/Agc_Runtime_Laws.thy ===== *)
theory Agc_Runtime_Laws
  imports Agc_Runtime
begin

text \<open>
  Laws of the runtime: totality of every event, the interpretation of the delivery queue on the
  runtime's own events, steps and runs, the observer, and the fate of the downlink words.
\<close>

section \<open>Laws\<close>

text \<open>What the events leave alone, and the room the pulse sums need for the queued events.\<close>

definition processor_frame :: "cpu \<Rightarrow> nat \<times> nat \<times> bool \<times> bool" where
  "processor_frame c = (cycles c, sequence c, in_interrupt c, extended c)"

definition hardware_frame :: "hardware_state \<Rightarrow> downlink_frame list \<times> agc_word option \<times> agc_word option" where
  "hardware_frame h = (downlink h, pending_downlink_1 h, pending_downlink_2 h)"

definition imu_room :: "nat \<Rightarrow> hardware_state \<Rightarrow> bool" where
  "imu_room n h \<longleftrightarrow> (\<forall>s \<in> {imu_x (imu h), imu_y (imu h), imu_z (imu h)}. \<bar>s\<bar> + 32768 * int n \<le> 2147483647)"

definition event_sound :: "runtime_event \<Rightarrow> bool" where
  "event_sound e = (case e of
       ChannelEvent channel v \<Rightarrow> unat channel < 512 \<and> word_ok v
     | ErasableEvent bank offset v \<Rightarrow> unat bank < 8 \<and> unat offset < 256 \<and> word_ok v
     | RadarEvent distance rate \<Rightarrow> word_ok distance \<and> word_ok rate
     | _ \<Rightarrow> True)"

definition runtime_inv :: "nat \<times> nat \<times> bool \<times> bool \<Rightarrow> downlink_frame list \<times> agc_word option \<times> agc_word option \<Rightarrow> nat \<Rightarrow> runtime \<Rightarrow> bool" where
  "runtime_inv p h n r \<longleftrightarrow> cpu_ok (rt_cpu r) \<and> processor_frame (rt_cpu r) = p
     \<and> hardware_frame (hardware r) = h \<and> imu_room n (hardware r)"

lemma cpu_ok_memory: "cpu_ok c \<Longrightarrow> mem_ok (cpu_memory c)"
  by (simp add: cpu_ok_def core_ok_def)

lemma runtime_inv_memory [simp]:
  "runtime_inv p h n r \<Longrightarrow> mem_ok m \<Longrightarrow> runtime_inv p h n (r\<lparr>rt_cpu := (rt_cpu r)\<lparr>cpu_memory := m\<rparr>\<rparr>)"
  by (simp add: runtime_inv_def cpu_ok_update processor_frame_def)

lemma runtime_inv_request [simp]:
  "runtime_inv p h n r \<Longrightarrow> runtime_inv p h n (rt_cpu_update (request_interrupt i) r)"
  by (simp add: runtime_inv_def request_interrupt_def cpu_ok_update processor_frame_def)

lemma runtime_inv_events [simp]: "runtime_inv p h n (rt_events_update f r) = runtime_inv p h n r"
  by (simp add: runtime_inv_def)

lemma imu_room_mono: "imu_room n h \<Longrightarrow> m \<le> n \<Longrightarrow> imu_room m h"
  by (auto simp: imu_room_def)

lemma runtime_inv_mono: "runtime_inv p h n r \<Longrightarrow> m \<le> n \<Longrightarrow> runtime_inv p h m r"
  by (auto simp: runtime_inv_def intro: imu_room_mono)

lemma runtime_inv_mem_ok: "runtime_inv p h n r \<Longrightarrow> mem_ok (cpu_memory (rt_cpu r))"
  by (simp add: runtime_inv_def cpu_ok_memory)

lemma runs_on_memory: "runs (on_memory m) r Q E = runs m (cpu_memory (rt_cpu r))
   (\<lambda>a m. Q a (r\<lparr>rt_cpu := (rt_cpu r)\<lparr>cpu_memory := m\<rparr>\<rparr>))
   (\<lambda>e m. E (RuntimeMemory e) (r\<lparr>rt_cpu := (rt_cpu r)\<lparr>cpu_memory := m\<rparr>\<rparr>))"
  by (simp add: on_memory_def)

lemma keeps_on_memory:
  assumes "keeps mem_ok m P"
  shows "keeps (runtime_inv p h n) (on_memory m) P"
  unfolding on_memory_def
  by (rule keeps_zoom [OF assms]) (simp_all add: runtime_inv_mem_ok)

lemma keeps_write_at: "unat a < 1024 \<Longrightarrow> word_ok v \<Longrightarrow> keeps (runtime_inv p h n) (on_memory (write_memory a v)) (\<lambda>_. True)"
  by (rule keeps_on_memory [OF logical.wr_total])

lemma sint_i16: "- 32768 \<le> sint (x :: u16)" "sint (x :: u16) < 32768"
  using sint_ge [of x] sint_lt [of x] by simp_all

lemma word_ok_from_i32: "from_i32 v = Inr w \<Longrightarrow> word_ok w"
  using from_i32_ok [of v] from_i32_error [of v] by (cases "- 16383 \<le> v \<and> v \<le> 16383") auto

lemma keeps_counter [keeps_rules]:
  assumes "unat (fst q) < 1024"
  shows "keeps (runtime_inv p h n) (pulse_counter q) (\<lambda>_. True)"
proof -
  have "word_ok (pulse_delta d)" for d
    by (simp add: pulse_delta_def word_ok_from_i32 split: sum.split)
  then show ?thesis
    using assms unfolding pulse_counter_def
    by (cases q) (simp, intro keeps_bind [OF keeps_on_memory [OF logical.rd_total]] keeps_bind [OF keeps_write_at] keeps_ok; simp)
qed

lemma keeps_for_each [keeps_rules]:
  "(\<And>x. x \<in> set xs \<Longrightarrow> keeps I (f x) (\<lambda>_. True)) \<Longrightarrow> keeps I (for_each xs f) (\<lambda>_. True)"
  by (induction xs) (auto intro: keeps_rules)

lemma add_i32_room: "\<bar>a\<bar> + 32768 \<le> 2147483647 \<Longrightarrow> add_i32 a (sint (x :: u16)) = Some (a + sint x)"
  using sint_i16 [of x] by (auto simp: add_i32_def)

lemma run_count_pulses:
  assumes "runtime_inv p h (Suc n) r"
  shows "succeeds (count_pulses x y z) r (\<lambda>_. runtime_inv p h n)"
proof -
  note rg = sint_i16 [of x] sint_i16 [of y] sint_i16 [of z]
  have "\<bar>a\<bar> + 32768 \<le> 2147483647" if "a \<in> {imu_x (imu (hardware r)), imu_y (imu (hardware r)), imu_z (imu (hardware r))}" for a
    using assms that by (auto simp: runtime_inv_def imu_room_def)
  then show ?thesis
    using assms rg
    by (simp add: count_pulses_def add_i32_room) (auto simp: runtime_inv_def hardware_frame_def imu_room_def)
qed

lemma run_apply_event:
  assumes "event_sound e" "runtime_inv p h (Suc n) r"
  shows "succeeds (apply_event e) r (\<lambda>_. runtime_inv p h n)"
proof -
  have inv: "runtime_inv p h n r" using runtime_inv_mono [OF assms(2)] by simp
  have keep: "succeeds m r (\<lambda>_. runtime_inv p h n)" if "keeps (runtime_inv p h n) m (\<lambda>_. True)" for m :: "(runtime, runtime_error, unit) prog"
    using keepsD [OF that inv] by simp
  have request: "keeps (runtime_inv p h n) (modify (rt_cpu_update (request_interrupt i))) (\<lambda>_. True)" for i
    by (rule keeps_modify) simp
  have channel: "keeps (runtime_inv p h n) (on_memory (write_channel (ChannelAddress c) v)) (\<lambda>_. True)"
    if "unat c < 512" "word_ok v" for c v
    by (rule keeps_on_memory [OF io.wr_total [OF that]])
  show ?thesis
  proof (cases e)
    case (ChannelEvent c v)
    then show ?thesis using assms(1) keep [OF channel [of c v]]
      by (simp add: apply_event_def event_sound_def channel_address_new_ok)
  next
    case (InterruptEvent i)
    then show ?thesis using inv by (simp add: apply_event_def)
  next
    case (ErasableEvent b f v)
    then have "location_ok (locate (Erasable b f))" using assms(1) by (intro locate_ok) (simp add: physical_ok_def event_sound_def)
    then show ?thesis using assms inv ErasableEvent
      by (simp add: apply_event_def event_sound_def runs_on_memory runs_write_erasable_physical runtime_inv_mem_ok
          mem_ok_put_at)
  next
    case (ImuPulses x y z)
    have "keeps (runtime_inv p h n) (for_each [(0x1A, x), (0x1B, y), (0x1C, z)] pulse_counter) (\<lambda>_. True)"
      by (rule keeps_for_each, rule keeps_counter) auto
    note counters = this
    have "succeeds (for_each [(0x1A, x), (0x1B, y), (0x1C, z)] pulse_counter) r' (\<lambda>_. runtime_inv p h n)"
      if "runtime_inv p h n r'" for r'
      by (rule succeeds_mono [OF keepsD [OF counters that]]) simp
    note counters = this
    show ?thesis
      unfolding ImuPulses apply_event_def runtime_event.case runs_and_then [of "count_pulses a b c" for a b c]
      by (rule succeeds_mono [OF run_count_pulses [OF assms(2)]]) (use counters in simp)
  next
    case (RadarEvent d v)
    have "keeps (runtime_inv p h n) (apply_event e) (\<lambda>_. True)"
      unfolding RadarEvent apply_event_def runtime_event.case
      by (rule keeps_rules keeps_write_at request keeps_modify | use assms(1) RadarEvent in \<open>simp add: event_sound_def runtime_inv_def hardware_frame_def imu_room_def\<close>)+
    then show ?thesis by (rule keep)
  next
    case (DskyKey k)
    have "keeps (runtime_inv p h n) (seq (on_memory (write_channel (ChannelAddress 0xD) (from_raw_truncate w)))
        (modify (rt_cpu_update (request_interrupt Key1)))) (\<lambda>_. True)" for w
      by (rule keeps_bind [OF channel request]) simp_all
    from keep [OF this [of "ucast (k AND 0x1F)"]] show ?thesis by (simp add: DskyKey apply_event_def channel_address_new_ok)
  qed
qed

section \<open>Delivery\<close>

lemma zoom_keeps: "zoom get put conv m t = Some (r, t') \<Longrightarrow> (\<And>s. P (put s t)) \<Longrightarrow> P t'"
  by (auto simp: zoom_def split: option.splits)

text \<open>No event touches the queue, nor the captured downlink.\<close>

definition same_queue :: "runtime \<Rightarrow> runtime \<Rightarrow> bool" where
  "same_queue r r' \<longleftrightarrow> rt_events r' = rt_events r \<and> next_event_sequence r' = next_event_sequence r
     \<and> observer r' = observer r \<and> hardware_frame (hardware r') = hardware_frame (hardware r)"

lemma same_queue_order: "reflp same_queue" "transp same_queue"
  by (auto simp: same_queue_def intro!: reflpI transpI)

lemma leaves_on_memory: "leaves same_queue (on_memory m)"
  unfolding on_memory_def by (rule leavesI) (erule zoom_keeps, simp add: same_queue_def)

lemma leaves_on_processor: "leaves same_queue (on_processor m)"
  unfolding on_processor_def by (rule leavesI) (erule zoom_keeps, simp add: same_queue_def)

lemmas leaves_rules = leaves_bind [OF same_queue_order] leaves_for_each [OF same_queue_order]
  leaves_simple(1) [OF same_queue_order(1)] leaves_simple(2) [OF same_queue_order(1)] leaves_simple(3)
  leaves_simple(4) [OF same_queue_order(1)] leaves_simple(5) [OF same_queue_order(1)] leaves_simple(6) [OF same_queue_order(1)]
  leaves_expect leaves_on_memory leaves_on_processor

lemma apply_event_queue: "leaves same_queue (apply_event e)"
proof -
  have frame: "leaves same_queue (modify (rt_cpu_update f))" for f
    by (rule leaves_simple(7)) (simp add: same_queue_def)
  have radar: "leaves same_queue (modify (hardware_update (radar_update f)))" for f
    by (rule leaves_simple(7)) (simp add: same_queue_def hardware_frame_def)
  have imu: "leaves same_queue (count_pulses x y z)" for x y z
    unfolding count_pulses_def
    by (intro leaves_rules leaves_simple(7)) (simp add: same_queue_def hardware_frame_def)
  have counter: "leaves same_queue (pulse_counter q)" for q
    unfolding pulse_counter_def by (cases q) (simp, intro leaves_rules)
  have chan: "leaves same_queue (case w of Inl x \<Rightarrow> fail (RuntimeChannel c) | Inr a \<Rightarrow> on_memory (write_channel a v))" for w c v
    by (cases w) (simp_all add: leaves_rules)
  show ?thesis
    by (cases e) (simp_all add: apply_event_def, (intro leaves_rules frame radar imu counter chan)+)
qed

interpretation runtime_queue: due_queue rt_events rt_events_update apply_event
    "\<lambda>r. runtime_inv p h (length (rt_events r) + k) r" event_sound
proof
  fix f g :: "runtime_event due_map \<Rightarrow> runtime_event due_map" and r :: runtime
  show "rt_events (rt_events_update f r) = f (rt_events r)" by simp
  assume "f (rt_events r) = g (rt_events r)"
  then show "rt_events_update f r = rt_events_update g r" by (cases r) simp
next
  fix e r x r'
  assume "apply_event e r = Some (x, r')"
  then show "rt_events r' = rt_events r" using leavesD [OF apply_event_queue] by (auto simp: same_queue_def)
next
  fix r i e q
  assume a: "runtime_inv p h (length (rt_events r) + k) r" "rt_events r = (i, e) # q" "event_sound e"
  have "succeeds (apply_event e) (rt_events_update tl r) (\<lambda>_. runtime_inv p h (length q + k))"
    by (rule run_apply_event [OF a(3)]) (use a(1,2) in simp)
  then obtain r' where "apply_event e (rt_events_update tl r) = Some (Inr (), r')" "runtime_inv p h (length q + k) r'"
    by (auto simp: succeeds_iff)
  then show "succeeds (apply_event e) (rt_events_update tl r) (\<lambda>_ r. runtime_inv p h (length (rt_events r) + k) r)"
    using leavesD [OF apply_event_queue] a(2) by (auto simp: succeeds_iff same_queue_def)
qed

section \<open>Steps\<close>

text \<open>A well-formed runtime with room for \<open>k\<close> more events.\<close>

definition runtime_ok :: "nat \<Rightarrow> runtime \<Rightarrow> bool" where
  "runtime_ok k r \<longleftrightarrow> cpu_ok (rt_cpu r) \<and> numbered (next_event_sequence r) (rt_events r)
     \<and> next_event_sequence r + k \<le> U64_MAX \<and> imu_room (length (rt_events r) + k) (hardware r) \<and> (\<forall>x \<in> set (contents (rt_events r)). event_sound (snd x))"

lemma same_queue_deliver: "apply_due_events r = Some (x, r') \<Longrightarrow>
    next_event_sequence r' = next_event_sequence r \<and> observer r' = observer r
  \<and> hardware_frame (hardware r') = hardware_frame (hardware r)"
proof -
  assume a: "apply_due_events r = Some (x, r')"
  define R :: "runtime \<Rightarrow> runtime \<Rightarrow> bool" where "R r r' \<longleftrightarrow> next_event_sequence r' = next_event_sequence r \<and> observer r' = observer r
    \<and> hardware_frame (hardware r') = hardware_frame (hardware r)" for r r'
  have o': "reflp R" "transp R" by (auto simp: R_def intro!: reflpI transpI)
  have "leaves R (apply_event e)" for e
    using apply_event_queue by (auto simp: leaves_def R_def same_queue_def)
  moreover have "leaves R (take_entry rt_events rt_events_update k)" for k
    by (auto simp: leaves_def R_def take_entry_def split: option.splits)
  ultimately have "leaves R apply_due_events"
    unfolding apply_due_events_def deliver_due_def
    by (intro leaves_bind leaves_for_each leaves_simple o')
  from leavesD [OF this a] show ?thesis by (simp add: R_def)
qed

lemma runtime_ok_inv:
  "runtime_ok k r \<Longrightarrow> runtime_inv (processor_frame (rt_cpu r)) (hardware_frame (hardware r)) (length (rt_events r) + k) r"
  by (simp add: runtime_ok_def runtime_inv_def)

lemma run_apply_due:
  assumes "runtime_ok k r"
  shows "succeeds apply_due_events r (\<lambda>_ r'. runtime_ok k r' \<and> processor_frame (rt_cpu r') = processor_frame (rt_cpu r)
    \<and> rt_events r' = filter (\<lambda>e. \<not> fst (fst e) \<le> cycles (rt_cpu r)) (rt_events r))"
proof -
  have n: "numbered (next_event_sequence r) (rt_events r)" using assms by (simp add: runtime_ok_def)
  have sound: "event_sound e" if "((c, i), e) \<in> set (rt_events r)" for c i e
  proof -
    have "(c, e) \<in> set (contents (rt_events r))" using that by (rule in_contents)
    then show ?thesis using assms by (fastforce simp: runtime_ok_def)
  qed
  obtain r' where r': "apply_due_events r = Some (Inr (), r')"
      "runtime_inv (processor_frame (rt_cpu r)) (hardware_frame (hardware r)) (length (rt_events r') + k) r'"
      "rt_events r' = filter (\<lambda>e. \<not> fst (fst e) \<le> cycles (rt_cpu r)) (rt_events r)"
    using runtime_queue.delivers_all [OF n runtime_ok_inv [OF assms], of "\<lambda>r. cycles (rt_cpu r)"] sound
    by (auto simp: succeeds_iff apply_due_events_def)
  have "numbered (next_event_sequence r) (rt_events r')"
    using n by (auto simp: numbered_def r'(3) btree_ok_def sorted_wrt_map sorted_wrt_filter)
  moreover have "set (contents (rt_events r')) \<subseteq> set (contents (rt_events r))"
    by (auto simp: r'(3) elim!: contents_cases intro: in_contents)
  ultimately have "runtime_ok k r'"
    using assms r'(2) same_queue_deliver [OF r'(1)] by (auto simp: runtime_ok_def runtime_inv_def)
  then show ?thesis using r' by (simp add: succeeds_iff runtime_inv_def)
qed

lemma runs_on_processor: "runs (on_processor m) r Q E = runs m (rt_cpu r)
   (\<lambda>a c. Q a (r\<lparr>rt_cpu := c\<rparr>)) (\<lambda>e c. E (RuntimeCpu e) (r\<lparr>rt_cpu := c\<rparr>))"
  by (simp add: on_processor_def)

text \<open>Captured words leave no pending word behind, and complete no frame when none was pending.\<close>

lemma capture_word_none:
  "pending_downlink_1 h = None \<Longrightarrow> pending_downlink_2 h = None \<Longrightarrow> capture_word n io h = h"
  by (cases h) (simp add: capture_word_def Let_def)

lemma fold_capture_none:
  "pending_downlink_1 h = None \<Longrightarrow> pending_downlink_2 h = None \<Longrightarrow> fold (capture_word n) ios h = h"
  by (induction ios) (simp_all add: capture_word_none)

lemma capture_word_imu: "imu (capture_word n io h) = imu h"
  by (simp add: capture_word_def Let_def split: option.split)

lemma fold_capture_imu: "imu (fold (capture_word n) ios h) = imu h"
  by (induction ios arbitrary: h) (simp_all add: capture_word_imu)

definition runtime_advanced :: "nat \<Rightarrow> runtime \<Rightarrow> step_outcome \<Rightarrow> runtime \<Rightarrow> bool" where
  "runtime_advanced k r out r' \<longleftrightarrow> runtime_ok k r'
     \<and> rt_events r' = filter (\<lambda>e. \<not> fst (fst e) \<le> cycles (rt_cpu r)) (rt_events r)
     \<and> cycles (rt_cpu r) < cycles (rt_cpu r')
     \<and> events (trace (rt_cpu r')) \<noteq> [] \<and> last (events (trace (rt_cpu r'))) = so_trace out
     \<and> (case so_kind out of
          StepInstruction i \<Rightarrow> sequence (rt_cpu r') = Suc (sequence (rt_cpu r))
        | StepInterruptEntry i target \<Rightarrow> sequence (rt_cpu r') = sequence (rt_cpu r) \<and> in_interrupt (rt_cpu r') \<and> \<not> extended (rt_cpu r')
            \<and> \<not> (in_interrupt (rt_cpu r) \<and> \<not> extended (rt_cpu r)))"

lemma run_runtime_step:
  assumes "runtime_ok k r"
  shows "succeeds runtime_step r (\<lambda>out r'. runtime_advanced k r out r')"
proof -
  have finish: "succeeds (and_then (on_processor step) (\<lambda>outcome. seq (capture_output outcome) (ok outcome))) s
      (\<lambda>out r'. runtime_advanced k r out r')"
    if s: "runtime_ok k s" "processor_frame (rt_cpu s) = processor_frame (rt_cpu r)"
      "rt_events s = filter (\<lambda>e. \<not> fst (fst e) \<le> cycles (rt_cpu r)) (rt_events r)" for s
  proof -
    have c: "cpu_ok (rt_cpu s)" using s(1) by (simp add: runtime_ok_def)
    show ?thesis
      unfolding runs_and_then [of "on_processor m" for m] runs_on_processor
      by (rule succeeds_mono [OF run_step_ok [OF c]])
        (use s in \<open>auto simp: capture_output_def runtime_advanced_def runtime_ok_def step_done_def imu_room_def
            fold_capture_imu processor_frame_def split: step_kind.splits\<close>)
  qed
  show ?thesis
    unfolding runtime_step_def runs_and_then [of apply_due_events]
    by (rule succeeds_mono [OF run_apply_due [OF assms]], elim conjE, rule finish)
qed

lemma runtime_rounds_decrease:
  assumes "runtime_advanced k r out r'" "start \<le> sequence (rt_cpu r)" "sequence (rt_cpu r) - start < limit"
  shows "rounds_left start limit (rt_cpu r') < rounds_left start limit (rt_cpu r)" "start \<le> sequence (rt_cpu r')"
    "sequence (rt_cpu r') - start \<le> limit" "runtime_ok k r'"
  using assms by (auto simp: rounds_left_def runtime_advanced_def split: step_kind.splits)

lemma run_runtime_rounds:
  "runtime_ok k r \<Longrightarrow> start \<le> sequence (rt_cpu r) \<Longrightarrow> sequence (rt_cpu r) - start \<le> limit \<Longrightarrow>
   rounds_left start limit (rt_cpu r) < fuel \<Longrightarrow>
   succeeds (runtime_rounds fuel start limit) r (\<lambda>_ r'. runtime_ok k r' \<and> sequence (rt_cpu r') - start = limit \<and> start \<le> sequence (rt_cpu r'))"
proof (induction fuel arbitrary: r)
  case (Suc fuel)
  show ?case
  proof (cases "sequence (rt_cpu r) - start < limit")
    case True
    have "succeeds (and_then runtime_step (\<lambda>_. runtime_rounds fuel start limit)) r
        (\<lambda>_ r'. runtime_ok k r' \<and> sequence (rt_cpu r') - start = limit \<and> start \<le> sequence (rt_cpu r'))"
      unfolding runs_and_then
    proof (rule succeeds_mono [OF run_runtime_step [OF Suc.prems(1)]])
      fix out r'
      assume a: "runtime_advanced k r out r'"
      note less = runtime_rounds_decrease [OF a Suc.prems(2) True]
      show "succeeds (runtime_rounds fuel start limit) r'
        (\<lambda>_ r'. runtime_ok k r' \<and> sequence (rt_cpu r') - start = limit \<and> start \<le> sequence (rt_cpu r'))"
        by (rule Suc.IH) (use less Suc.prems(4) in auto)
    qed
    then show ?thesis using True by simp
  next
    case False
    then show ?thesis using Suc.prems by simp
  qed
qed simp

lemma run_runtime_run:
  assumes "runtime_ok k r"
  shows "succeeds (runtime_run n) r (\<lambda>out r'. runtime_ok k r' \<and> out = \<lparr>ro_reason = InstructionLimit, ro_instructions = n, ro_cycles = cycles (rt_cpu r')\<rparr>
     \<and> sequence (rt_cpu r') = sequence (rt_cpu r) + n)"
proof -
  have "rounds_left (sequence (rt_cpu r)) n (rt_cpu r) < 2 * n + 2" by (simp add: rounds_left_def)
  from run_runtime_rounds [OF assms order_refl _ this]
  have "succeeds (runtime_rounds (2 * n + 2) (sequence (rt_cpu r)) n) r
     (\<lambda>_ r'. runtime_ok k r' \<and> sequence (rt_cpu r') = sequence (rt_cpu r) + n)"
    by (rule succeeds_mono) auto
  then show ?thesis
    unfolding runtime_run_def runs_and_then runs_gets by (rule succeeds_mono) simp
qed

section \<open>Observation\<close>

lemma runs_attempt: "runs (attempt m) s Q E = runs m s (\<lambda>a. Q (Inr a)) (\<lambda>e. Q (Inl e))"
  by (auto simp: runs_def attempt_def split: option.splits sum.splits)

lemma runs_observe:
  assumes "mem_ok (cpu_memory c)" "unat a < 4096"
  shows "runs (observe_word a) c Q E = Q (Inr (ma_value (access_of (cpu_memory c) ReadAccess a))) c"
  using assms by (simp add: observe_word_def runs_attempt runs_read_memory)

definition word_read :: "cpu \<Rightarrow> u16 \<Rightarrow> agc_word" where
  "word_read c a = ma_value (access_of (cpu_memory c) ReadAccess a)"

lemma run_executive_jobs:
  assumes "mem_ok (cpu_memory c)"
  shows "(\<And>s. s \<in> set slots \<Longrightarrow> unat (es_address_word s) < 4096 \<and> unat (es_priority_word s) < 4096) \<Longrightarrow>
    runs (executive_jobs slots) c Q E = Q (map (\<lambda>s. \<lparr>ej_slot = es_slot s, ej_entry = raw (word_read c (es_address_word s)) AND 0xFFF,
        ej_priority = word_read c (es_priority_word s)\<rparr>)
      (filter (\<lambda>s. \<not> is_zero (word_read c (es_address_word s))) slots)) c"
  by (induction slots arbitrary: Q) (simp_all add: runs_observe [OF assms] word_read_def)

lemma run_waitlist_tasks:
  assumes "mem_ok (cpu_memory c)"
  shows "(\<And>s. s \<in> set slots \<Longrightarrow> unat (ws_delay_word s) < 4096 \<and> unat (ws_task_word s) < 4096) \<Longrightarrow>
    runs (waitlist_tasks slots) c Q E = Q (map (\<lambda>s. \<lparr>wt_slot = ws_slot s, wt_delay = word_read c (ws_delay_word s),
        wt_entry = raw (word_read c (ws_task_word s)) AND 0xFFF\<rparr>)
      (filter (\<lambda>s. \<not> is_zero (word_read c (ws_task_word s))) slots)) c"
  by (induction slots arbitrary: Q) (simp_all add: runs_observe [OF assms] word_read_def)

section \<open>Reachable runtimes\<close>

text \<open>
  What a user of the crate can do: create a runtime around any processor, schedule events, step
  and run it, change the processor through \<open>cpu_mut\<close> and replace the observer.  Nothing is
  assumed about the processor or the events.
\<close>

inductive runtime_reachable :: "runtime \<Rightarrow> bool" where
  runtime_created: "runtime_reachable (runtime_new c)"
| runtime_scheduled: "runtime_reachable r \<Longrightarrow> (schedule c e :: (runtime, runtime_error, scheduled_event) prog) r = Some (x, r') \<Longrightarrow> runtime_reachable r'"
| runtime_stepped: "runtime_reachable r \<Longrightarrow> runtime_step r = Some (y, r') \<Longrightarrow> runtime_reachable r'"
| runtime_ran: "runtime_reachable r \<Longrightarrow> runtime_run n r = Some (z, r') \<Longrightarrow> runtime_reachable r'"
| processor_changed: "runtime_reachable r \<Longrightarrow> runtime_reachable (r\<lparr>rt_cpu := c\<rparr>)"
| observer_set: "runtime_reachable r \<Longrightarrow> runtime_reachable (set_observer b r)"

definition no_downlink :: "runtime \<Rightarrow> runtime \<Rightarrow> bool" where
  "no_downlink r r' \<longleftrightarrow> (hardware_frame (hardware r) = ([], None, None) \<longrightarrow> hardware_frame (hardware r') = ([], None, None))"

lemma no_downlink_order: "reflp no_downlink" "transp no_downlink"
  by (auto simp: no_downlink_def intro!: reflpI transpI)

lemma no_downlink_step: "leaves no_downlink runtime_step"
proof -
  have "leaves no_downlink apply_due_events"
    by (rule leavesI) (use same_queue_deliver in \<open>auto simp: no_downlink_def\<close>)
  moreover have "leaves no_downlink (on_processor step)"
    using leaves_on_processor [of step] by (auto simp: leaves_def no_downlink_def same_queue_def)
  moreover have "leaves no_downlink (capture_output out)" for out
    by (auto simp: leaves_def capture_output_def modify_def no_downlink_def hardware_frame_def fold_capture_none)
  ultimately show ?thesis
    unfolding runtime_step_def by (intro leaves_bind leaves_simple no_downlink_order)
qed

lemma no_downlink_run: "leaves no_downlink (runtime_run n)"
proof -
  have "leaves no_downlink (runtime_rounds fuel start limit)" for fuel start limit
  proof (induction fuel)
    case (Suc fuel)
    have "leaves no_downlink (if b then and_then runtime_step (\<lambda>_. runtime_rounds fuel start limit) else ok ())" for b
      using Suc by (simp add: leaves_bind no_downlink_order no_downlink_step leaves_simple)
    then show ?case by (simp add: leaves_bind no_downlink_order leaves_simple)
  qed (simp add: leaves_simple)
  then show ?thesis
    unfolding runtime_run_def by (intro leaves_bind leaves_simple no_downlink_order)
qed

lemma runtime_reachable_frame: "runtime_reachable r \<Longrightarrow> hardware_frame (hardware r) = ([], None, None)"
proof (induction rule: runtime_reachable.induct)
  case (runtime_stepped r y r')
  then show ?case using leavesD [OF no_downlink_step] by (auto simp: no_downlink_def)
next
  case (runtime_ran r n z r')
  then show ?case using leavesD [OF no_downlink_run] by (auto simp: no_downlink_def)
qed (auto simp: runtime_new_def default_hardware_def hardware_frame_def schedule_def run_simps set_observer_def split: if_splits)

section \<open>Properties\<close>

text \<open>
  C13 The event queue refines the list of pending events in the order they were scheduled:
  scheduling appends to the list, the queue is always its stable sort by cycle, and a step
  applies the events that are due, one after the other, in that order.
\<close>

theorem event_queue_refines:
  assumes "numbered (next_event_sequence r) (rt_events r)" "contents (rt_events r) = sort_key fst log"
    and "next_event_sequence r < U64_MAX"
  shows "(\<exists>s r'. (schedule c e :: (runtime, runtime_error, scheduled_event) prog) r = Some (Inr s, r')
       \<and> s = \<lparr>se_cycle = c, se_sequence = next_event_sequence r, se_event = e\<rparr>
       \<and> numbered (next_event_sequence r') (rt_events r') \<and> contents (rt_events r') = sort_key fst (log @ [(c, e)]))
     \<and> apply_due_events r = for_each (sort_key fst (filter (\<lambda>(c, e). c \<le> cycles (rt_cpu r)) log))
         (\<lambda>(c, e). seq (modify (rt_events_update tl)) (apply_event e)) r"
proof
  have "(schedule c e :: (runtime, runtime_error, scheduled_event) prog) r
      = Some (Inr \<lparr>se_cycle = c, se_sequence = next_event_sequence r, se_event = e\<rparr>,
          r\<lparr>rt_events := btree_insert (c, next_event_sequence r) e (rt_events r), next_event_sequence := Suc (next_event_sequence r)\<rparr>)"
    using assms(3) by (simp add: schedule_def run_simps)
  then show "\<exists>s r'. (schedule c e :: (runtime, runtime_error, scheduled_event) prog) r = Some (Inr s, r')
       \<and> s = \<lparr>se_cycle = c, se_sequence = next_event_sequence r, se_event = e\<rparr>
       \<and> numbered (next_event_sequence r') (rt_events r') \<and> contents (rt_events r') = sort_key fst (log @ [(c, e)])"
    by (simp add: numbered_insert assms(1,3) contents_insert [OF assms(1,2)])
  show "apply_due_events r = for_each (sort_key fst (filter (\<lambda>(c, e). c \<le> cycles (rt_cpu r)) log))
         (\<lambda>(c, e). seq (modify (rt_events_update tl)) (apply_event e)) r"
    unfolding apply_due_events_def by (rule runtime_queue.delivers_in_order [OF assms(1,2)])
qed

theorem event_queue_refines_witness:
  "\<exists>c s r'. (schedule 7 (DskyKey 17) :: (runtime, runtime_error, scheduled_event) prog) (runtime_new c) = Some (Inr s, r')
     \<and> contents (rt_events r') = [(7, DskyKey 17)]"
proof -
  fix c
  have "numbered (next_event_sequence (runtime_new c)) (rt_events (runtime_new c))"
    "contents (rt_events (runtime_new c)) = sort_key fst []" "next_event_sequence (runtime_new c) < U64_MAX"
    by (simp_all add: runtime_new_def numbered_def U64_MAX_def)
  from event_queue_refines [OF this, of 7 "DskyKey 17"] show ?thesis by auto
qed

text \<open>
  A runtime whose processor is well formed and whose queued events name existing channels
  and cells always completes a step: it neither panics nor fails, it removes exactly the events
  that are due, takes time, and its last trace event is the step's.
\<close>

theorem runtime_step_total:
  assumes "runtime_ok k r"
  shows "\<exists>out r'. runtime_step r = Some (Inr out, r') \<and> runtime_ok k r'
     \<and> rt_events r' = filter (\<lambda>e. \<not> fst (fst e) \<le> cycles (rt_cpu r)) (rt_events r)
     \<and> cycles (rt_cpu r) < cycles (rt_cpu r') \<and> last (events (trace (rt_cpu r'))) = so_trace out"
  using run_runtime_step [OF assms] by (auto simp: succeeds_iff runtime_advanced_def)

lemma runtime_ok_new: "cpu_ok c \<Longrightarrow> k \<le> 65535 \<Longrightarrow> runtime_ok k (runtime_new c)"
  by (simp add: runtime_ok_def runtime_new_def numbered_def U64_MAX_def imu_room_def default_hardware_def)

theorem runtime_step_total_witness:
  "\<exists>c out r'. cpu_new blank = Some c \<and> runtime_step (runtime_new c) = Some (Inr out, r') \<and> rt_events r' = []"
proof -
  obtain c where c: "cpu_new blank = Some c" "cpu_ok c" using cpu_new_ok [OF mem_ok_blank] by blast
  from runtime_step_total [OF runtime_ok_new [OF c(2), of 0]] c(1) show ?thesis by (auto simp: runtime_new_def)
qed

text \<open>
  C14 Running a runtime terminates: from a well-formed runtime, \<open>run\<close> always comes back, having
  executed exactly the requested number of instructions.
\<close>

theorem runtime_run_progress:
  assumes "runtime_ok k r"
  shows "\<exists>out r'. runtime_run n r = Some (Inr out, r') \<and> runtime_ok k r' \<and> ro_instructions out = n
     \<and> ro_reason out = InstructionLimit \<and> sequence (rt_cpu r') = sequence (rt_cpu r) + n"
  using run_runtime_run [OF assms, of n] by (auto simp: succeeds_iff)

theorem runtime_run_progress_witness:
  "\<exists>c out r'. cpu_new blank = Some c \<and> runtime_run 100 (runtime_new c) = Some (Inr out, r') \<and> ro_instructions out = 100"
proof -
  obtain c where c: "cpu_new blank = Some c" "cpu_ok c" using cpu_new_ok [OF mem_ok_blank] by blast
  from runtime_run_progress [OF runtime_ok_new [OF c(2), of 0], of 100] c(1) show ?thesis by auto
qed

text \<open>
  C15 No reachable runtime has captured a telemetry frame: each written channel word takes both
  pending downlink words out again, so that the two words of a frame are never pending together.
\<close>

theorem downlink_never_captured:
  assumes "runtime_reachable r"
  shows "downlink (hardware r) = [] \<and> pending_downlink_1 (hardware r) = None \<and> pending_downlink_2 (hardware r) = None"
  using runtime_reachable_frame [OF assms] by (simp add: hardware_frame_def)

theorem downlink_never_captured_witness:
  "\<exists>c out r'. runtime_step (runtime_new c) = Some (Inr out, r') \<and> downlink (hardware r') = []"
proof -
  obtain c where c: "cpu_ok c" using cpu_new_ok [OF mem_ok_blank] by blast
  obtain out r' where "runtime_step (runtime_new c) = Some (Inr out, r')"
    using run_runtime_step [OF runtime_ok_new [OF c, of 0]] by (auto simp: succeeds_iff)
  moreover have "runtime_reachable r'"
    by (rule runtime_stepped [OF runtime_created]) (rule calculation)
  ultimately show ?thesis using downlink_never_captured by blast
qed

text \<open>
  The observer reads the Executive's core sets and the Waitlist without changing the
  processor: the jobs and tasks it reports are those of the slots whose entry word is not zero,
  in slot order.
\<close>

theorem observer_reads_slots:
  assumes "cpu_ok c"
    and "\<And>s. s \<in> set slots \<Longrightarrow> unat (es_address_word s) < 4096 \<and> unat (es_priority_word s) < 4096"
    and "\<And>s. s \<in> set tasks \<Longrightarrow> unat (ws_delay_word s) < 4096 \<and> unat (ws_task_word s) < 4096"
  shows "executive_jobs slots c = Some (Inr (map (\<lambda>s. \<lparr>ej_slot = es_slot s, ej_entry = raw (word_read c (es_address_word s)) AND 0xFFF,
        ej_priority = word_read c (es_priority_word s)\<rparr>)
      (filter (\<lambda>s. \<not> is_zero (word_read c (es_address_word s))) slots)), c)
    \<and> waitlist_tasks tasks c = Some (Inr (map (\<lambda>s. \<lparr>wt_slot = ws_slot s, wt_delay = word_read c (ws_delay_word s),
        wt_entry = raw (word_read c (ws_task_word s)) AND 0xFFF\<rparr>)
      (filter (\<lambda>s. \<not> is_zero (word_read c (ws_task_word s))) tasks)), c)"
  using run_executive_jobs [OF cpu_ok_memory [OF assms(1)], of slots "\<lambda>a s. a = _ \<and> s = c" "\<lambda>_ _. False"]
    run_waitlist_tasks [OF cpu_ok_memory [OF assms(1)], of tasks "\<lambda>a s. a = _ \<and> s = c" "\<lambda>_ _. False"] assms(2,3)
  by (auto simp: succeeds_iff)

theorem observer_reads_slots_witness:
  "\<exists>c. cpu_new blank = Some c \<and> executive_jobs [\<lparr>es_slot = 0, es_address_word = 0x100, es_priority_word = 0x101\<rparr>] c = Some (Inr [], c)"
proof -
  obtain c where c: "cpu_new blank = Some c" "cpu_ok c" using cpu_new_ok [OF mem_ok_blank] by blast
  have "erasable (cpu_memory c) = erasable (reset_volatile blank)"
    using c(1) by (auto simp: cpu_new_def set_z_run cpu_initial_def mem_ok_reset mem_ok_blank)
  then have "erasable (cpu_memory c) ! 256 = POSITIVE_ZERO"
    by (simp add: reset_volatile_def blank_def ERASABLE_BANKS_def ERASABLE_WORDS_PER_BANK_def)
  then have "word_read c 0x100 = POSITIVE_ZERO"
    by (simp add: word_read_def access_of_def physical_of_def translate_def value_at_def locate_def erasable_index_def
        ERASABLE_WORDS_PER_BANK_def)
  with observer_reads_slots [OF c(2), of "[\<lparr>es_slot = 0, es_address_word = 0x100, es_priority_word = 0x101\<rparr>]" "[]"] c(1)
  show ?thesis by (simp add: is_zero_def)
qed

end
