(* ===== verification/Agc_Faults_Laws.thy ===== *)
theory Agc_Faults_Laws
  imports Agc_Faults Agc_Runtime_Laws
begin

text \<open>
  Laws of the fault engine: totality of every fault, the interpretation of the delivery queue on the
  waiting faults, the audit trail, the countdown of stuck channels, and campaigns without faults.
\<close>

section \<open>Laws\<close>

definition fault_sound :: "fault \<Rightarrow> bool" where
  "fault_sound f = (case f of
       ErasableBitFlip address bits \<Rightarrow> unat address < 1024
     | PhysicalErasableBitFlip bank offset bits \<Rightarrow> unat bank < 8 \<and> unat offset < 256
     | RopeBitFlip bank offset bits \<Rightarrow> unat bank < 36 \<and> unat offset < 1024
     | RegisterFault index bits \<Rightarrow> unat index < 16
     | StuckChannel channel v instructions \<Rightarrow> unat channel < 512 \<and> word_ok v
     | TimerJump address delta \<Rightarrow> 0x14 \<le> address \<and> address \<le> 0x19 \<and> - 16383 \<le> delta \<and> delta \<le> 16383
     | RadarSample distance rate \<Rightarrow> word_ok distance \<and> word_ok rate
     | _ \<Rightarrow> True)"

definition active_ok :: "active_channel_fault \<Rightarrow> bool" where
  "active_ok c \<longleftrightarrow> unat (ac_channel c) < 512 \<and> word_ok (ac_value c)"

definition campaign_inv :: "nat \<times> nat \<times> bool \<times> bool \<Rightarrow> nat \<Rightarrow> campaign \<Rightarrow> bool" where
  "campaign_inv p n s \<longleftrightarrow> runtime_ok n (target s) \<and> processor_frame (rt_cpu (target s)) = p
     \<and> (\<forall>c \<in> set (active_channels (engine s)). active_ok c)"

lemma runtime_ok_memory: "runtime_ok n r \<Longrightarrow> mem_ok m \<Longrightarrow> runtime_ok n (r\<lparr>rt_cpu := (rt_cpu r)\<lparr>cpu_memory := m\<rparr>\<rparr>)"
  by (simp add: runtime_ok_def cpu_ok_update)

lemma runtime_ok_mono: "runtime_ok n r \<Longrightarrow> m \<le> n \<Longrightarrow> runtime_ok m r"
  by (auto simp: runtime_ok_def intro: imu_room_mono)

lemma campaign_inv_memory:
  "campaign_inv p n s \<Longrightarrow> mem_ok m \<Longrightarrow> campaign_inv p n (s\<lparr>target := (target s)\<lparr>rt_cpu := (rt_cpu (target s))\<lparr>cpu_memory := m\<rparr>\<rparr>\<rparr>)"
  by (simp add: campaign_inv_def runtime_ok_memory processor_frame_def)

lemma campaign_inv_mem_ok: "campaign_inv p n s \<Longrightarrow> mem_ok (cpu_memory (rt_cpu (target s)))"
  by (simp add: campaign_inv_def runtime_ok_def cpu_ok_memory)

lemma campaign_inv_mono: "campaign_inv p n s \<Longrightarrow> m \<le> n \<Longrightarrow> campaign_inv p m s"
  by (auto simp: campaign_inv_def intro: runtime_ok_mono)

lemma keeps_target_memory:
  assumes "keeps mem_ok m P"
  shows "keeps (campaign_inv p n) (on_target_memory m) P"
  unfolding on_target_memory_def
  by (rule keeps_zoom [OF assms]) (simp_all add: campaign_inv_mem_ok campaign_inv_memory)

lemma keeps_or_error: "keeps I m P \<Longrightarrow> keeps I (or_error x m) P"
  by (fastforce simp: keeps_def or_error_def runs_def split: option.splits sum.splits)

lemma keeps_change_word:
  assumes "unat a < 1024" "\<And>w. word_ok w \<Longrightarrow> word_ok (f w)"
  shows "keeps (campaign_inv p n) (change_word a f) (\<lambda>_. True)"
  unfolding change_word_def
  by (rule keeps_bind [OF keeps_target_memory [OF logical.rd_total]], use assms in simp,
      rule keeps_bind [OF keeps_target_memory [OF logical.wr_total]]) (use assms in \<open>auto intro: keeps_ok\<close>)

lemma keeps_physical:
  assumes "unat b < 8" "unat f < 256"
  shows "keeps mem_ok (read_erasable_physical b f) (\<lambda>w. w \<noteq> None)"
    "word_ok v \<Longrightarrow> keeps mem_ok (write_erasable_physical b f v) (\<lambda>_. True)"
proof -
  have "location_ok (locate (Erasable b f))" using assms by (intro locate_ok) (simp add: physical_ok_def)
  then show "keeps mem_ok (read_erasable_physical b f) (\<lambda>w. w \<noteq> None)"
    "word_ok v \<Longrightarrow> keeps mem_ok (write_erasable_physical b f v) (\<lambda>_. True)"
    using assms by (auto intro!: keepsI simp: runs_read_erasable_physical runs_write_erasable_physical mem_ok_put_at)
qed

lemma keeps_flip_physical:
  assumes "unat b < 8" "unat f < 256"
  shows "keeps (campaign_inv p n) (flip_physical b f bits) (\<lambda>_. True)"
  unfolding flip_physical_def Let_def
  by (rule keeps_bind [OF keeps_target_memory [OF keeps_physical(1) [OF assms]]])
    (auto intro!: keeps_bind [OF keeps_or_error [OF keeps_target_memory [OF keeps_physical(2) [OF assms]]]] keeps_ok)

lemma keeps_inject:
  "unat b < 36 \<Longrightarrow> unat f < 1024 \<Longrightarrow> keeps mem_ok (inject_fixed_bit_flip b f bits) (\<lambda>_. True)"
  by (rule keepsI) (simp add: runs_inject_fixed_bit_flip mem_ok_rope_flipped)

lemma keeps_flip_register:
  assumes "unat i < 16"
  shows "keeps (campaign_inv p n) (flip_register i bits) (\<lambda>_. True)"
proof -
  have "keeps (campaign_inv p n) (on_target (on_processor (try_memory (central_register i)))) (\<lambda>_. True)"
  proof (rule keepsI)
    fix s
    assume s: "campaign_inv p n s"
    then have "mem_ok (cpu_memory (rt_cpu (target s)))" by (rule campaign_inv_mem_ok)
    then show "succeeds (on_target (on_processor (try_memory (central_register i)))) s (\<lambda>a s'. campaign_inv p n s' \<and> True)"
      using assms s by (simp add: on_target_def on_processor_def try_memory_def runs_central_register)
  qed
  moreover have "succeeds (on_target_memory (set_central_register i v)) s (\<lambda>_. campaign_inv p n)" if "campaign_inv p n s" for s v
    using keepsD [OF keeps_target_memory [OF keeps_set_central_register [OF assms]] that] by simp
  ultimately show ?thesis
    unfolding flip_register_def by (intro keeps_bind [where P = "\<lambda>_. True"]) (auto intro!: keepsI)
qed

lemma keeps_modify_engine:
  "(\<And>s. campaign_inv p n s \<Longrightarrow> (\<forall>c \<in> set (active_channels (f (engine s))). active_ok c)) \<Longrightarrow>
   keeps (campaign_inv p n) (modify (engine_update f)) (\<lambda>_. True)"
  by (rule keeps_modify) (simp add: campaign_inv_def)

lemma length_contents [simp]: "length (contents q) = length q"
  by (simp add: contents_def)

lemma run_schedule:
  assumes "runtime_ok (Suc n) r" "event_sound e"
  shows "succeeds (schedule c e) r (\<lambda>_ r'. runtime_ok n r' \<and> rt_cpu r' = rt_cpu r \<and> observer r' = observer r)"
proof -
  let ?q = "rt_events r"
  have q: "numbered (next_event_sequence r) ?q" "next_event_sequence r < U64_MAX" using assms(1) by (simp_all add: runtime_ok_def)
  have m: "mset (contents (btree_insert (c, next_event_sequence r) e ?q)) = add_mset (c, e) (mset (contents ?q))"
    using q(1) by (intro mset_contents_insert) (fastforce simp: numbered_def)
  then have "set (contents (btree_insert (c, next_event_sequence r) e ?q)) = insert (c, e) (set (contents ?q))"
    by (metis set_mset_mset set_mset_add_mset_insert)
  moreover have "length (btree_insert (c, next_event_sequence r) e ?q) = Suc (length ?q)"
    using arg_cong [OF m, of size] by simp
  ultimately show ?thesis
    using assms q numbered_insert [OF q, of c e] by (simp add: schedule_def runtime_ok_def)
qed

lemma run_schedule_now:
  assumes "campaign_inv p (Suc n) s" "event_sound e"
  shows "succeeds (schedule_now e) s (\<lambda>_. campaign_inv p n)"
proof -
  have "runtime_ok (Suc n) (target s)" using assms by (simp add: campaign_inv_def)
  from run_schedule [OF this assms(2), of "cycles (rt_cpu (target s))"] show ?thesis
    unfolding schedule_now_def on_target_def runs_and_then runs_gets runs_zoom
    by (rule succeeds_mono) (use assms in \<open>auto simp: campaign_inv_def\<close>)
qed

text \<open>A sound fault succeeds; it may use up the room for one more event of the runtime.\<close>

definition fault_effect :: "fault \<Rightarrow> (campaign, fault_error, u16 option) prog" where
  "fault_effect f = (case f of
         ErasableBitFlip address bits \<Rightarrow> change_word address (\<lambda>current. from_raw_truncate (raw current XOR bits))
       | PhysicalErasableBitFlip bank offset bits \<Rightarrow> flip_physical bank offset bits
       | RopeBitFlip bank offset bits \<Rightarrow>
           and_then (on_target_memory (inject_fixed_bit_flip bank offset bits)) (\<lambda>w. ok (Some (raw w)))
       | RegisterFault index bits \<Rightarrow> flip_register index bits
       | StuckChannel channel v instructions \<Rightarrow> stick_channel channel v instructions
       | DropInterrupt i \<Rightarrow> drop_interrupt i
       | TimerJump address delta \<Rightarrow> jump_timer address delta
       | ImuBias x y z \<Rightarrow> schedule_now (ImuPulses x y z)
       | RadarSample distance rate \<Rightarrow> schedule_now (RadarEvent distance rate))"

definition audit :: "fault \<Rightarrow> u16 option \<Rightarrow> (campaign, 'e, unit) prog" where
  "audit f result = and_then (gets (\<lambda>s. rt_cpu (target s))) (\<lambda>c.
     modify (engine_update (applied_update (\<lambda>fs. fs @ [\<lparr>af_instruction = sequence c, af_cycle = cycles c,
       af_fault = f, af_resulting_word = result\<rparr>]))))"

lemma apply_fault_split: "apply_fault f = and_then (fault_effect f) (audit f)"
  by (simp add: apply_fault_def fault_effect_def audit_def [abs_def])

lemma run_fault_effect:
  assumes "fault_sound f" "campaign_inv p (Suc n) s"
  shows "succeeds (fault_effect f) s (\<lambda>_. campaign_inv p n)"
proof -
  have inv: "campaign_inv p n s" using campaign_inv_mono [OF assms(2)] by simp
  have keep: "succeeds m s (\<lambda>_. campaign_inv p n)" if "keeps (campaign_inv p n) m (\<lambda>_. True)" for m :: "(campaign, fault_error, u16 option) prog"
    using keepsD [OF that inv] by simp
  have truncated: "keeps (campaign_inv p n) (change_word a (\<lambda>w. from_raw_truncate (g w))) (\<lambda>_. True)" if "unat a < 1024" for a g
    by (rule keeps_change_word [OF that]) simp
  show ?thesis
  proof (cases f)
    case (TimerJump a d)
    have a: "unat a < 1024" using assms(1) by (simp add: fault_sound_def TimerJump word_le_nat_alt)
    obtain w where w: "from_i32 d = Inr w" "word_ok w"
      using from_i32_ok [of d] assms(1) by (auto simp: fault_sound_def TimerJump)
    have "keeps (campaign_inv p n) (change_word a (\<lambda>v. wrapping_add v w)) (\<lambda>_. True)"
      by (rule keeps_change_word [OF a]) (simp add: w)
    from keep [OF this] show ?thesis
      using assms(1) w by (simp add: fault_effect_def jump_timer_def fault_sound_def TimerJump)
  next
    case (StuckChannel c v k)
    then show ?thesis
      using inv assms(1) by (simp add: fault_effect_def stick_channel_def fault_sound_def channel_address_new_ok campaign_inv_def active_ok_def)
  next
    case (DropInterrupt i)
    then show ?thesis
      using inv by (simp add: fault_effect_def drop_interrupt_def cancel_interrupt_def campaign_inv_def runtime_ok_def
          cpu_ok_update processor_frame_def)
  next
    case (ErasableBitFlip a b)
    then show ?thesis using assms(1) keep [OF truncated] by (simp add: fault_effect_def fault_sound_def)
  next
    case (PhysicalErasableBitFlip b o' m)
    then show ?thesis using assms(1) keep [OF keeps_flip_physical] by (simp add: fault_effect_def fault_sound_def)
  next
    case (RopeBitFlip b o' m)
    have "keeps (campaign_inv p n) (fault_effect f) (\<lambda>_. True)"
      unfolding RopeBitFlip fault_effect_def fault.case
      by (rule keeps_bind [OF keeps_target_memory [OF keeps_inject]])
        (use assms(1) RopeBitFlip in \<open>auto simp: fault_sound_def intro: keeps_ok\<close>)
    then show ?thesis by (rule keep)
  next
    case (RegisterFault i b)
    then show ?thesis using assms(1) keep [OF keeps_flip_register] by (simp add: fault_effect_def fault_sound_def)
  next
    case (ImuBias x y z)
    then show ?thesis using run_schedule_now [OF assms(2)] by (simp add: fault_effect_def event_sound_def)
  next
    case (RadarSample d v)
    then show ?thesis using run_schedule_now [OF assms(2)] assms(1)
      by (simp add: fault_effect_def event_sound_def fault_sound_def)
  qed
qed

lemma run_apply_fault:
  assumes "fault_sound f" "campaign_inv p (Suc n) s"
  shows "succeeds (apply_fault f) s (\<lambda>_. campaign_inv p n)"
  unfolding apply_fault_split runs_and_then
  by (rule succeeds_mono [OF run_fault_effect [OF assms]]) (simp add: audit_def campaign_inv_def)

text \<open>Neither the waiting faults nor the audit trail are touched by a fault's effect.\<close>

definition same_plan :: "campaign \<Rightarrow> campaign \<Rightarrow> bool" where
  "same_plan s s' \<longleftrightarrow> scheduled (engine s') = scheduled (engine s) \<and> next_sequence (engine s') = next_sequence (engine s)"

definition same_audit :: "campaign \<Rightarrow> campaign \<Rightarrow> bool" where
  "same_audit s s' \<longleftrightarrow> same_plan s s' \<and> applied (engine s') = applied (engine s)"

lemma same_audit_order: "reflp same_audit" "transp same_audit"
  by (auto simp: same_audit_def same_plan_def intro!: reflpI transpI)

lemma leaves_or_error: "leaves R m \<Longrightarrow> leaves R (or_error x m)"
  by (auto simp: leaves_def or_error_def split: option.splits)

lemma leaves_target_memory:
  assumes "\<And>s c. R s (s\<lparr>target := (target s)\<lparr>rt_cpu := c\<rparr>\<rparr>)"
  shows "leaves R (on_target_memory m)" "leaves R (on_target (on_processor n))"
  using assms by (auto simp: leaves_def on_target_memory_def on_target_def on_processor_def run_simps split: option.splits)

text \<open>
  A fault's effect stays within any relation that allows a new processor, a new queue of the runtime
  and new channel faults.
\<close>

lemma fault_effect_leaves:
  assumes o: "reflp R" "transp R" and cpu: "\<And>s c. R s (s\<lparr>target := (target s)\<lparr>rt_cpu := c\<rparr>\<rparr>)"
    and queue: "\<And>s q n. R s (s\<lparr>target := (target s)\<lparr>rt_events := q, next_event_sequence := n\<rparr>\<rparr>)"
    and active: "\<And>s cs. R s (s\<lparr>engine := (engine s)\<lparr>active_channels := cs\<rparr>\<rparr>)"
  shows "leaves R (fault_effect f)"
proof -
  have target_rules: "leaves R (on_target_memory m)" "leaves R (on_target (on_processor n))" for m :: "(memory, memory_error, 'x) prog" and n :: "(cpu, cpu_error, 'y) prog"
    by (rule leaves_target_memory, rule cpu)+
  note rules = leaves_bind [OF o] leaves_for_each [OF o] leaves_simple(1,2) [OF o(1)] leaves_simple(3)
    leaves_simple(4,5,6) [OF o(1)] leaves_expect target_rules leaves_or_error
  have word: "leaves R (change_word a g)" for a g
    unfolding change_word_def by (intro rules)
  have physical: "leaves R (flip_physical b o' m)" for b o' m
    unfolding flip_physical_def Let_def by (intro rules) (auto split: option.split intro!: rules)
  have register: "leaves R (flip_register i b)" for i b
    unfolding flip_register_def by (intro rules)
  have frames: "leaves R (modify (engine_update (active_channels_update g)))" "leaves R (modify (target_update (rt_cpu_update h)))" for g h
  proof -
    have "R s (engine_update (active_channels_update g) s)" "R s (target_update (rt_cpu_update h) s)" for s
      using active [of s "g (active_channels (engine s))"] cpu [of s "h (rt_cpu (target s))"]
      by (cases s; cases "engine s"; cases "target s"; simp)+
    then show "leaves R (modify (engine_update (active_channels_update g)))" "leaves R (modify (target_update (rt_cpu_update h)))"
      by (auto intro: leaves_simple(7))
  qed
  have stuck: "leaves R (stick_channel c v k)" for c v k
    unfolding stick_channel_def by (auto split: sum.split intro!: rules frames)
  have drop: "leaves R (drop_interrupt i)" for i
    unfolding drop_interrupt_def by (intro rules) (auto split: prod.split intro!: rules frames)
  have timer: "leaves R (jump_timer a d)" for a d
    unfolding jump_timer_def by (auto split: sum.split intro!: rules word)
  have now: "leaves R (schedule_now e)" for e
  proof -
    have "R s (s\<lparr>target := (rt_events_update (btree_insert (c, next_event_sequence (target s)) e) (target s))
        \<lparr>next_event_sequence := Suc (next_event_sequence (target s))\<rparr>\<rparr>)" for s c
      using queue [where s = s and q = "btree_insert (c, next_event_sequence (target s)) e (rt_events (target s))" and n = "Suc (next_event_sequence (target s))"]
      by (cases s; cases "target s") simp
    then have "leaves R (on_target (schedule c e))" for c
      by (auto simp: leaves_def on_target_def schedule_def run_simps split: if_splits)
    then show ?thesis unfolding schedule_now_def by (intro rules)
  qed
  show ?thesis
    by (cases f) (auto simp: fault_effect_def intro!: word physical register stuck drop timer now rules)
qed

lemma fault_effect_audit: "leaves same_audit (fault_effect f)"
  by (rule fault_effect_leaves [OF same_audit_order]) (simp_all add: same_audit_def same_plan_def)

lemma apply_fault_plan: "leaves same_plan (apply_fault f)"
proof -
  have "leaves same_plan (fault_effect f)"
    using fault_effect_audit by (auto simp: leaves_def same_audit_def)
  moreover have "leaves same_plan (audit f x)" for x
    by (auto simp: leaves_def audit_def run_simps same_plan_def)
  ultimately show ?thesis
    unfolding apply_fault_split
    by (intro leaves_bind) (auto simp: same_plan_def intro!: reflpI transpI)
qed

abbreviation plan_of :: "campaign \<Rightarrow> fault due_map" where
  "plan_of s \<equiv> scheduled (engine s)"

abbreviation plan_update :: "(fault due_map \<Rightarrow> fault due_map) \<Rightarrow> campaign \<Rightarrow> campaign" where
  "plan_update f \<equiv> engine_update (scheduled_update f)"

interpretation fault_queue: due_queue plan_of plan_update apply_fault
    "\<lambda>s. campaign_inv p (length (plan_of s) + k) s" fault_sound
proof
  fix f g :: "fault due_map \<Rightarrow> fault due_map" and s :: campaign
  show "plan_of (plan_update f s) = f (plan_of s)" by simp
  assume "f (plan_of s) = g (plan_of s)"
  then show "plan_update f s = plan_update g s" by (cases s; cases "engine s") simp
next
  fix f s x s'
  assume "apply_fault f s = Some (x, s')"
  then show "plan_of s' = plan_of s" using leavesD [OF apply_fault_plan] by (auto simp: same_plan_def)
next
  fix s i f q
  assume a: "campaign_inv p (length (plan_of s) + k) s" "plan_of s = (i, f) # q" "fault_sound f"
  have "succeeds (apply_fault f) (plan_update tl s) (\<lambda>_. campaign_inv p (length q + k))"
    by (rule run_apply_fault [OF a(3)]) (use a(1,2) in \<open>simp add: campaign_inv_def\<close>)
  then obtain s' where "apply_fault f (plan_update tl s) = Some (Inr (), s')" "campaign_inv p (length q + k) s'"
    by (auto simp: succeeds_iff)
  then show "succeeds (apply_fault f) (plan_update tl s) (\<lambda>_ s. campaign_inv p (length (plan_of s) + k) s)"
    using leavesD [OF apply_fault_plan] a(2) by (auto simp: succeeds_iff same_plan_def)
qed

section \<open>Steps\<close>

definition campaign_ok :: "nat \<Rightarrow> campaign \<Rightarrow> bool" where
  "campaign_ok k s \<longleftrightarrow> runtime_ok (length (plan_of s) + k) (target s) \<and> numbered (next_sequence (engine s)) (plan_of s)
     \<and> (\<forall>x \<in> set (contents (plan_of s)). fault_sound (snd x)) \<and> (\<forall>c \<in> set (active_channels (engine s)). active_ok c)"

lemma campaign_ok_inv: "campaign_ok k s \<Longrightarrow> campaign_inv (processor_frame (rt_cpu (target s))) (length (plan_of s) + k) s"
  by (simp add: campaign_ok_def campaign_inv_def)

lemma deliver_next_sequence: "leaves (\<lambda>s s'. next_sequence (engine s') = next_sequence (engine s)) apply_due_faults"
proof -
  define R :: "campaign \<Rightarrow> campaign \<Rightarrow> bool" where "R s s' \<longleftrightarrow> next_sequence (engine s') = next_sequence (engine s)" for s s'
  have o': "reflp R" "transp R" by (auto simp: R_def intro!: reflpI transpI)
  have "leaves R (apply_fault f)" for f
    using apply_fault_plan by (auto simp: leaves_def R_def same_plan_def)
  moreover have "leaves R (take_entry plan_of plan_update k)" for k
    by (auto simp: leaves_def R_def take_entry_def split: option.splits)
  ultimately have "leaves R apply_due_faults"
    unfolding apply_due_faults_def deliver_due_def
    by (intro leaves_bind leaves_for_each leaves_simple o')
  then show ?thesis by (simp add: leaves_def R_def)
qed

lemma and_then_ok: "and_then m g s = Some (Inr b, s') \<Longrightarrow> \<exists>a t. m s = Some (Inr a, t) \<and> g a t = Some (Inr b, s')"
  by (auto simp: and_then_def split: option.splits sum.splits)

lemma seq_modify: "seq (modify h) m s = m (h s)"
  by (simp add: and_then_def modify_def)

text \<open>Every fault that is applied leaves its record, in order.\<close>

lemma apply_fault_audit:
  assumes "apply_fault f s = Some (Inr (), s')"
  shows "map af_fault (applied (engine s')) = map af_fault (applied (engine s)) @ [f]"
proof -
  obtain x t where t: "fault_effect f s = Some (Inr x, t)" "(audit f x :: (campaign, fault_error, unit) prog) t = Some (Inr (), s')"
    using and_then_ok [OF assms [unfolded apply_fault_split]] by blast
  then have "applied (engine t) = applied (engine s)"
    using leavesD [OF fault_effect_audit t(1)] by (simp add: same_audit_def)
  then show ?thesis using t(2) by (auto simp: audit_def run_simps)
qed

lemma loop_audit:
  "for_each xs (\<lambda>(c, f). seq (modify (plan_update tl)) (apply_fault f)) s = Some (Inr (), s') \<Longrightarrow>
   map af_fault (applied (engine s')) = map af_fault (applied (engine s)) @ map snd xs"
proof (induction xs arbitrary: s)
  case (Cons x xs)
  obtain c f where x: "x = (c, f)" by (cases x)
  obtain t where t: "apply_fault f (plan_update tl s) = Some (Inr (), t)"
      "for_each xs (\<lambda>(c, f). seq (modify (plan_update tl)) (apply_fault f)) t = Some (Inr (), s')"
    using and_then_ok [OF Cons.prems [unfolded for_each.simps]] by (auto simp: x seq_modify)
  from Cons.IH [OF t(2)] apply_fault_audit [OF t(1)] show ?case by (simp add: x)
qed (simp add: run_simps)

definition due_now :: "campaign \<Rightarrow> fault list" where
  "due_now s = map snd (filter (\<lambda>(n, f). n \<le> sequence (rt_cpu (target s))) (contents (plan_of s)))"

lemma run_apply_due_faults:
  assumes "campaign_ok k s"
  shows "succeeds apply_due_faults s (\<lambda>_ s'. campaign_ok k s' \<and> processor_frame (rt_cpu (target s')) = processor_frame (rt_cpu (target s))
    \<and> plan_of s' = filter (\<lambda>e. \<not> fst (fst e) \<le> sequence (rt_cpu (target s))) (plan_of s)
    \<and> map af_fault (applied (engine s')) = map af_fault (applied (engine s)) @ due_now s)"
proof -
  have n: "numbered (next_sequence (engine s)) (plan_of s)" using assms by (simp add: campaign_ok_def)
  have sound: "fault_sound f" if "((c, i), f) \<in> set (plan_of s)" for c i f
  proof -
    have "(c, f) \<in> set (contents (plan_of s))" using that by (rule in_contents)
    then show ?thesis using assms by (fastforce simp: campaign_ok_def)
  qed
  obtain s' where s': "apply_due_faults s = Some (Inr (), s')"
      "campaign_inv (processor_frame (rt_cpu (target s))) (length (plan_of s') + k) s'"
      "plan_of s' = filter (\<lambda>e. \<not> fst (fst e) \<le> sequence (rt_cpu (target s))) (plan_of s)"
    using fault_queue.delivers_all [OF n campaign_ok_inv [OF assms], of "\<lambda>s. sequence (rt_cpu (target s))"] sound
    by (auto simp: succeeds_iff apply_due_faults_def)
  have "numbered (next_sequence (engine s)) (plan_of s')"
    using n by (auto simp: numbered_def s'(3) btree_ok_def sorted_wrt_map sorted_wrt_filter)
  moreover have "set (contents (plan_of s')) \<subseteq> set (contents (plan_of s))"
    by (auto simp: s'(3) elim!: contents_cases intro: in_contents)
  moreover have "next_sequence (engine s') = next_sequence (engine s)"
    using leavesD [OF deliver_next_sequence s'(1)] .
  ultimately have "campaign_ok k s'"
    using assms s'(2) by (auto simp: campaign_ok_def campaign_inv_def)
  moreover have "map af_fault (applied (engine s')) = map af_fault (applied (engine s)) @ due_now s"
  proof -
    have "sorted (map fst (contents (plan_of s)))" using n by (simp add: numbered_def sorted_contents)
    then have "contents (plan_of s) = sort_key fst (contents (plan_of s))" by (simp add: sorted_sort_id sort_key_id_if_sorted)
    from fault_queue.delivers_in_order [OF n this, of "\<lambda>s. sequence (rt_cpu (target s))"] s'(1)
    have "for_each (sort_key fst (filter (\<lambda>(c, f). c \<le> sequence (rt_cpu (target s))) (contents (plan_of s))))
       (\<lambda>(c, f). seq (modify (plan_update tl)) (apply_fault f)) s = Some (Inr (), s')"
      by (simp add: apply_due_faults_def)
    from loop_audit [OF this] show ?thesis
      using \<open>sorted (map fst (contents (plan_of s)))\<close> by (simp add: due_now_def sort_key_id_if_sorted sorted_filter)
  qed
  ultimately show ?thesis using s' by (simp add: succeeds_iff campaign_inv_def)
qed

lemma keeps_enforce:
  assumes "\<forall>c \<in> set cs. active_ok c"
  shows "keeps (campaign_inv p n) (for_each cs (\<lambda>c. case channel_address_new (ac_channel c) of
         Inl _ \<Rightarrow> fail (FaultChannel (ac_channel c))
       | Inr address \<Rightarrow> on_target_memory (write_channel address (ac_value c)))) (\<lambda>_. True)"
proof (rule keeps_for_each)
  fix c
  assume "c \<in> set cs"
  then have c: "unat (ac_channel c) < 512" "word_ok (ac_value c)" using assms by (auto simp: active_ok_def)
  show "keeps (campaign_inv p n) (case channel_address_new (ac_channel c) of
         Inl _ \<Rightarrow> fail (FaultChannel (ac_channel c))
       | Inr address \<Rightarrow> on_target_memory (write_channel address (ac_value c))) (\<lambda>_. True)"
    by (simp add: channel_address_new_ok c keeps_target_memory [OF io.wr_total [OF c]])
qed

lemma enforce_engine: "leaves (\<lambda>s s'. engine s' = engine s) enforce_channels"
proof -
  define R :: "campaign \<Rightarrow> campaign \<Rightarrow> bool" where "R s s' \<longleftrightarrow> engine s' = engine s" for s s'
  have o': "reflp R" "transp R" by (auto simp: R_def intro!: reflpI transpI)
  have "leaves R (on_target_memory m)" for m :: "(memory, memory_error, unit) prog"
    unfolding on_target_memory_def by (rule leavesI) (erule zoom_keeps, simp add: R_def)
  then have "leaves R (case x of Inl _ \<Rightarrow> fail e | Inr a \<Rightarrow> on_target_memory (m a))" for x :: "word_error + channel_address" and m :: "channel_address \<Rightarrow> (memory, memory_error, unit) prog" and e
    by (cases x) (simp_all add: leaves_simple o')
  then have "leaves R enforce_channels"
    unfolding enforce_channels_def by (intro leaves_bind leaves_for_each leaves_simple o')
  then show ?thesis by (simp add: leaves_def R_def)
qed

lemma run_enforce:
  assumes "campaign_ok k s"
  shows "succeeds enforce_channels s (\<lambda>_ s'. campaign_ok k s' \<and> engine s' = engine s
    \<and> processor_frame (rt_cpu (target s')) = processor_frame (rt_cpu (target s)))"
proof -
  have "\<forall>c \<in> set (active_channels (engine s)). active_ok c" using assms by (simp add: campaign_ok_def)
  from keepsD [OF keeps_enforce [OF this] campaign_ok_inv [OF assms]]
  obtain s' where s': "enforce_channels s = Some (Inr (), s')"
      "campaign_inv (processor_frame (rt_cpu (target s))) (length (plan_of s) + k) s'"
    by (auto simp: enforce_channels_def run_simps succeeds_iff)
  moreover have "engine s' = engine s" using leavesD [OF enforce_engine s'(1)] .
  ultimately show ?thesis using assms by (simp add: succeeds_iff campaign_ok_def campaign_inv_def)
qed

definition campaign_advanced :: "nat \<Rightarrow> campaign \<Rightarrow> step_outcome \<Rightarrow> campaign \<Rightarrow> bool" where
  "campaign_advanced k s out s' \<longleftrightarrow> campaign_ok k s'
     \<and> plan_of s' = filter (\<lambda>e. \<not> fst (fst e) \<le> sequence (rt_cpu (target s))) (plan_of s)
     \<and> map af_fault (applied (engine s')) = map af_fault (applied (engine s)) @ due_now s
     \<and> cycles (rt_cpu (target s)) < cycles (rt_cpu (target s'))
     \<and> (case so_kind out of
          StepInstruction i \<Rightarrow> sequence (rt_cpu (target s')) = Suc (sequence (rt_cpu (target s)))
        | StepInterruptEntry i t \<Rightarrow> sequence (rt_cpu (target s')) = sequence (rt_cpu (target s))
            \<and> in_interrupt (rt_cpu (target s')) \<and> \<not> extended (rt_cpu (target s'))
            \<and> \<not> (in_interrupt (rt_cpu (target s)) \<and> \<not> extended (rt_cpu (target s))))"

lemma retain_active_ok: "\<forall>c \<in> set cs. active_ok c \<Longrightarrow> \<forall>c \<in> set (retain_active cs). active_ok c"
  by (auto simp: retain_active_def active_ok_def)

lemma run_fault_step:
  assumes "campaign_ok k s"
  shows "succeeds fault_step s (\<lambda>out s'. campaign_advanced k s out s')"
proof -
  have finish: "succeeds (and_then (on_target runtime_step) (\<lambda>outcome.
       seq (modify (engine_update (active_channels_update retain_active))) (ok outcome))) u (\<lambda>out s'. campaign_advanced k s out s')"
    if u: "campaign_ok k u" "processor_frame (rt_cpu (target u)) = processor_frame (rt_cpu (target s))"
      "plan_of u = filter (\<lambda>e. \<not> fst (fst e) \<le> sequence (rt_cpu (target s))) (plan_of s)"
      "map af_fault (applied (engine u)) = map af_fault (applied (engine s)) @ due_now s" for u
  proof -
    have r: "runtime_ok (length (plan_of u) + k) (target u)" using u(1) by (simp add: campaign_ok_def)
    have a: "\<forall>c \<in> set (retain_active (active_channels (engine u))). active_ok c"
      using u(1) by (intro retain_active_ok) (simp add: campaign_ok_def)
    show ?thesis
      unfolding on_target_def runs_and_then [of "zoom g p c m" for g p c m] runs_zoom
      by (rule succeeds_mono [OF run_runtime_step [OF r]])
        (use u a in \<open>auto simp: campaign_advanced_def campaign_ok_def runtime_advanced_def processor_frame_def split: step_kind.splits\<close>)
  qed
  show ?thesis
    unfolding fault_step_def runs_and_then [of apply_due_faults] runs_and_then [of enforce_channels]
    by (rule succeeds_mono [OF run_apply_due_faults [OF assms]], elim conjE, rule succeeds_mono [OF run_enforce], assumption)
      (elim conjE, rule finish, simp_all)
qed

lemma run_fault_rounds:
  "campaign_ok k s \<Longrightarrow> start \<le> sequence (rt_cpu (target s)) \<Longrightarrow> sequence (rt_cpu (target s)) - start \<le> limit \<Longrightarrow>
   rounds_left start limit (rt_cpu (target s)) < fuel \<Longrightarrow>
   succeeds (fault_rounds fuel start limit) s (\<lambda>_ s'. campaign_ok k s' \<and> sequence (rt_cpu (target s')) = start + limit)"
proof (induction fuel arbitrary: s)
  case (Suc fuel)
  show ?case
  proof (cases "sequence (rt_cpu (target s)) - start < limit")
    case True
    have "succeeds (and_then fault_step (\<lambda>_. fault_rounds fuel start limit)) s
        (\<lambda>_ s'. campaign_ok k s' \<and> sequence (rt_cpu (target s')) = start + limit)"
      unfolding runs_and_then
    proof (rule succeeds_mono [OF run_fault_step [OF Suc.prems(1)]])
      fix out s'
      assume "campaign_advanced k s out s'"
      then show "succeeds (fault_rounds fuel start limit) s'
          (\<lambda>_ s'. campaign_ok k s' \<and> sequence (rt_cpu (target s')) = start + limit)"
        using Suc.prems True
        by (intro Suc.IH) (auto simp: campaign_advanced_def rounds_left_def split: step_kind.splits)
    qed
    then show ?thesis using True by simp
  next
    case False
    then show ?thesis using Suc.prems by simp
  qed
qed simp

lemma run_fault_run:
  assumes "campaign_ok k s"
  shows "succeeds (fault_run n) s (\<lambda>_ s'. campaign_ok k s' \<and> sequence (rt_cpu (target s')) = sequence (rt_cpu (target s)) + n)"
proof -
  have "rounds_left (sequence (rt_cpu (target s))) n (rt_cpu (target s)) < 2 * n + 2" by (simp add: rounds_left_def)
  from run_fault_rounds [OF assms order_refl _ this] show ?thesis
    unfolding fault_run_def runs_and_then runs_gets by simp
qed

section \<open>The observer\<close>

text \<open>A step of the campaign leaves the observer of the runtime alone.\<close>

definition same_observer :: "campaign \<Rightarrow> campaign \<Rightarrow> bool" where
  "same_observer s s' \<longleftrightarrow> observer (target s') = observer (target s)"

lemma same_observer_order: "reflp same_observer" "transp same_observer"
  by (auto simp: same_observer_def intro!: reflpI transpI)

lemma runtime_step_observer: "runtime_step r = Some (x, r') \<Longrightarrow> observer r' = observer r"
  by (auto simp: runtime_step_def run_simps on_processor_def capture_output_def dest!: same_queue_deliver split: option.splits sum.splits)

lemma fault_step_observer: "leaves same_observer fault_step"
proof -
  have "leaves same_observer (fault_effect f)" for f
    by (rule fault_effect_leaves [OF same_observer_order]) (simp_all add: same_observer_def)
  moreover have "leaves same_observer (audit f x)" for f x
    by (auto simp: leaves_def audit_def run_simps same_observer_def)
  ultimately have "leaves same_observer (apply_fault f)" for f
    unfolding apply_fault_split by (intro leaves_bind same_observer_order)
  moreover have "leaves same_observer (take_entry plan_of plan_update k)" for k
    by (auto simp: leaves_def same_observer_def take_entry_def split: option.splits)
  ultimately have "leaves same_observer apply_due_faults"
    unfolding apply_due_faults_def deliver_due_def by (intro leaves_bind leaves_for_each leaves_simple same_observer_order)
  moreover have "leaves same_observer enforce_channels"
  proof -
    have "leaves same_observer (case x of Inl _ \<Rightarrow> fail e | Inr a \<Rightarrow> on_target_memory (m a))"
      for x :: "word_error + channel_address" and m :: "channel_address \<Rightarrow> (memory, memory_error, unit) prog" and e
      by (cases x) (simp_all add: leaves_simple same_observer_order leaves_target_memory(1) same_observer_def)
    then show ?thesis
      unfolding enforce_channels_def by (intro leaves_bind leaves_for_each leaves_simple same_observer_order)
  qed
  moreover have "leaves same_observer (on_target runtime_step)"
    by (auto simp: leaves_def on_target_def run_simps same_observer_def dest: runtime_step_observer split: option.splits)
  moreover have "leaves same_observer (modify (engine_update g))" for g
    by (rule leaves_simple(7)) (simp add: same_observer_def)
  ultimately show ?thesis
    unfolding fault_step_def
    by (intro leaves_bind leaves_simple(1) same_observer_order) (assumption | rule same_observer_order)+
qed

section \<open>Idle campaigns\<close>

lemma idle_step:
  assumes "scheduled (engine s) = []" "active_channels (engine s) = []"
  shows "fault_step s = on_target runtime_step s"
proof -
  have "apply_due_faults s = Some (Inr (), s)"
    using assms(1) by (simp add: apply_due_faults_def deliver_due_def btree_keys_to_def run_simps)
  moreover have "enforce_channels s = Some (Inr (), s)"
    using assms(2) by (simp add: enforce_channels_def run_simps)
  moreover have "engine_update (active_channels_update retain_active) (s\<lparr>target := r\<rparr>) = s\<lparr>target := r\<rparr>" for r
    using assms(2) by (cases s; cases "engine s") (simp add: retain_active_def)
  ultimately show ?thesis
    by (simp add: fault_step_def and_then_def on_target_def zoom_def modify_def ok_def split: option.split sum.split)
qed

lemma idle_rounds:
  "scheduled (engine s) = [] \<Longrightarrow> active_channels (engine s) = [] \<Longrightarrow>
   fault_rounds fuel start limit s = on_target (runtime_rounds fuel start limit) s"
proof (induction fuel arbitrary: s)
  case 0
  then show ?case by (simp add: on_target_def zoom_def panic_def)
next
  case (Suc fuel)
  have "fault_rounds fuel start limit (s\<lparr>target := r\<rparr>) = on_target (runtime_rounds fuel start limit) (s\<lparr>target := r\<rparr>)" for r
    by (rule Suc.IH) (use Suc.prems in simp_all)
  then show ?case
    by (simp add: and_then_def gets_def idle_step [OF Suc.prems] on_target_def zoom_def ok_def split: option.split sum.split)
qed

text \<open>The number of boundaries a stuck channel holds: at least one.\<close>

lemma retain_active_iterate:
  "(retain_active ^^ n) cs
     = map (\<lambda>c. c\<lparr>ac_remaining := ac_remaining c - n\<rparr>) (filter (\<lambda>c. n < max 1 (ac_remaining c)) cs)"
proof (induction n)
  case 0
  have "filter (\<lambda>c. 0 < max 1 (ac_remaining c)) cs = cs" by (rule filter_True) (simp add: less_max_iff_disj)
  then show ?case by simp
next
  case (Suc n)
  have "retain_active (map (\<lambda>c. c\<lparr>ac_remaining := ac_remaining c - n\<rparr>) xs)
      = map (\<lambda>c. c\<lparr>ac_remaining := ac_remaining c - Suc n\<rparr>) (filter (\<lambda>c. Suc n < ac_remaining c) xs)" for xs
    by (induction xs) (auto simp: retain_active_def)
  moreover have "filter (\<lambda>c. Suc n < ac_remaining c) (filter (\<lambda>c. n < max 1 (ac_remaining c)) cs)
      = filter (\<lambda>c. Suc n < max 1 (ac_remaining c)) cs"
    by (auto intro!: filter_cong)
  ultimately show ?case using Suc by simp
qed

lemma leaves_active: "leaves (\<lambda>s s'. active_channels (engine s') = active_channels (engine s)) (on_target m)"
  unfolding on_target_def by (rule leavesI) (erule zoom_keeps, simp)

lemma fault_step_active:
  assumes "fault_step s = Some (Inr out, s')" "scheduled (engine s) = []"
  shows "active_channels (engine s') = retain_active (active_channels (engine s))"
proof -
  have "apply_due_faults s = Some (Inr (), s)"
    using assms(2) by (simp add: apply_due_faults_def deliver_due_def btree_keys_to_def run_simps)
  then obtain t u where t: "enforce_channels s = Some (Inr (), t)" "on_target runtime_step t = Some (Inr out, u)"
      "s' = engine_update (active_channels_update retain_active) u"
    using assms(1) by (auto simp: fault_step_def and_then_def modify_def ok_def split: option.splits sum.splits)
  have "engine t = engine s" "active_channels (engine u) = active_channels (engine t)"
    using leavesD [OF enforce_engine t(1)] leavesD [OF leaves_active t(2)] by simp_all
  then show ?thesis by (simp add: t(3))
qed

definition fault_steps :: "nat \<Rightarrow> (campaign, fault_error, unit) prog" where
  "fault_steps n = repeat_do n (and_then fault_step (\<lambda>_. ok ()))"

lemma run_fault_steps:
  "campaign_ok k s \<Longrightarrow> scheduled (engine s) = [] \<Longrightarrow>
   succeeds (fault_steps n) s (\<lambda>_ s'. campaign_ok k s' \<and> active_channels (engine s') = (retain_active ^^ n) (active_channels (engine s)))"
proof (induction n arbitrary: s)
  case (Suc n)
  obtain out t where t: "fault_step s = Some (Inr out, t)" "campaign_advanced k s out t"
    using run_fault_step [OF Suc.prems(1)] by (auto simp: succeeds_iff)
  have "succeeds (fault_steps n) t (\<lambda>_ s'. campaign_ok k s' \<and> active_channels (engine s') = (retain_active ^^ n) (active_channels (engine t)))"
    by (rule Suc.IH) (use t(2) Suc.prems(2) in \<open>auto simp: campaign_advanced_def\<close>)
  then show ?case
    using t(1) by (simp add: fault_steps_def runs_def [of fault_step] fault_step_active [OF t(1) Suc.prems(2)] funpow_swap1)
qed (simp add: fault_steps_def)

section \<open>Properties\<close>


lemma campaign_ok_one:
  assumes "cpu_ok c" "fault_sound f" "x = \<lparr>scheduled = [((0, 0), f)], active_channels = [], next_sequence = 1, applied = []\<rparr>"
  shows "campaign_ok 0 \<lparr>engine = x, target = runtime_new c\<rparr>"
  using assms runtime_ok_new [OF assms(1), of 1] by (simp add: campaign_ok_def numbered_def U64_MAX_def)




text \<open>
  Without faults a campaign is the runtime itself: it runs to the same state, and comparing
  the two runs reports no divergence and recovered registers.
\<close>

theorem idle_campaign_is_runtime:
  assumes "scheduled (engine s) = []" "active_channels (engine s) = []" "runtime_ok k (target s)"
  shows "\<exists>out r' d. runtime_run n (target s) = Some (Inr out, r') \<and> fault_run n s = Some (Inr (), s\<lparr>target := r'\<rparr>)
     \<and> compare_recovery r' (target (s\<lparr>target := r'\<rparr>)) = Some d \<and> first_divergence d = None \<and> registers_recovered d"
proof -
  obtain out r' where r': "runtime_run n (target s) = Some (Inr out, r')" "runtime_ok k r'"
    using run_runtime_run [OF assms(3), of n] by (auto simp: succeeds_iff)
  have "runtime_rounds (2 * n + 2) (sequence (rt_cpu (target s))) n (target s) = Some (Inr (), r')"
    using and_then_ok [OF r'(1) [unfolded runtime_run_def]]
    by (auto simp only: run_basic option.inject prod.inject sum.inject old.unit.exhaust unit_eq dest!: and_then_ok)
  then have "fault_run n s = Some (Inr (), s\<lparr>target := r'\<rparr>)"
    unfolding fault_run_def run_and_then run_basic by (simp only: option.case prod.case sum.case idle_rounds [OF assms(1,2)] on_target_def zoom_def)
  moreover have "\<exists>pc. pc_of (rt_cpu r') = Some pc"
  proof -
    have "succeeds (program_counter :: (cpu, cpu_error, u16) prog) (rt_cpu r') (\<lambda>pc d. d = rt_cpu r')"
      by (rule succeeds_program_counter) (use r'(2) in \<open>simp add: runtime_ok_def\<close>)
    then show ?thesis by (auto simp: pc_of_def succeeds_iff)
  qed
  moreover have "first_unequal xs xs is = None" for xs "is" by (induction "is") simp_all
  then have "first_difference t t = None" for t by (simp add: first_difference_def Let_def)
  ultimately show ?thesis using r'(1) by (auto simp: compare_recovery_def Let_def)
qed

theorem idle_campaign_is_runtime_witness:
  "\<exists>c r' d. fault_run 5 \<lparr>engine = default_engine, target = runtime_new c\<rparr>
      = Some (Inr (), \<lparr>engine = default_engine, target = r'\<rparr>) \<and> compare_recovery r' r' = Some d \<and> first_divergence d = None"
proof -
  obtain c where c: "cpu_ok c" using cpu_new_ok [OF mem_ok_blank] by blast
  have "runtime_ok 0 (target \<lparr>engine = default_engine, target = runtime_new c\<rparr>)" using runtime_ok_new [OF c, of 0] by simp
  from idle_campaign_is_runtime [OF _ _ this, of 5] show ?thesis by (auto simp: default_engine_def)
qed

text \<open>
  Bit flips in the rope undo themselves: injecting the same flips twice restores the memory,
  and injecting them once changes no other word.
\<close>

theorem rope_flip_twice:
  assumes "mem_ok m" "unat b < 36" "unat f < 1024"
  shows "\<exists>w w' m'. (inject_fixed_bit_flip b f flips :: (memory, memory_error, agc_word) prog) m = Some (Inr w, m')
     \<and> (\<forall>i < 36864. i \<noteq> fixed_index b f \<longrightarrow> fixed_words m' ! i = fixed_words m ! i)
     \<and> inject_fixed_bit_flip b f flips m' = Some (Inr w', m)"
proof -
  let ?i = "fixed_index b f" and ?m = "rope_flipped (fixed_index b f) flips m"
  have run: "inject_fixed_bit_flip b f flips m = Some (Inr (fixed_words (rope_flipped ?i flips m) ! ?i), rope_flipped ?i flips m)"
    if "mem_ok m" for m
  proof -
    have "succeeds (inject_fixed_bit_flip b f flips) m (\<lambda>w m'. w = fixed_words (rope_flipped ?i flips m) ! ?i \<and> m' = rope_flipped ?i flips m)"
      using assms(2,3) by (simp add: runs_inject_fixed_bit_flip [OF that])
    then show ?thesis by (auto simp: succeeds_iff)
  qed
  have i: "?i < length (fixed_words m)" "length (fixed_words m) = 36864"
    using mem_okD [OF assms(1)] assms(2,3) by (simp_all add: fixed_index_def FIXED_WORDS_PER_BANK_def)
  have "from_raw_truncate (raw (from_raw_truncate (raw w XOR flips)) XOR flips) = w" if "word_ok w" for w
  proof -
    have "from_raw_truncate (raw (from_raw_truncate (raw w XOR flips)) XOR flips) = from_raw_truncate (raw w)"
      by (auto simp: from_raw_truncate_def WORD_MASK_def bit_simps bit_masks intro!: bit_word_eqI)
    then show ?thesis using that by simp
  qed
  moreover have "word_ok (fixed_words m ! ?i)" using mem_okD [OF assms(1)] i by (simp add: words_ok_nth)
  ultimately have "rope_flipped ?i flips ?m = m"
    using i by (cases m) (simp add: rope_flipped_def)
  then show ?thesis
    using run [OF assms(1)] run [OF mem_ok_rope_flipped [OF assms(1)]]
    by (auto simp: rope_flipped_def)
qed

theorem rope_flip_twice_witness:
  "\<exists>w w' m'. (inject_fixed_bit_flip 2 5 0x11 :: (memory, memory_error, agc_word) prog) blank = Some (Inr w, m')
     \<and> inject_fixed_bit_flip 2 5 0x11 m' = Some (Inr w', blank)"
  using rope_flip_twice [OF mem_ok_blank, of 2 5 "0x11"] by auto

end
