(* ===== verification/Agc_Interpreter.thy ===== *)
theory Agc_Interpreter
  imports Agc_Word_Laws
begin

text \<open>
  \<open>crates/agc-interpreter\<close>: the stack machine for scaled arithmetic.  The state is explicit, a
  fallible instruction is a computation over it, and a panic of the host is its lack of a result.
  An \<open>i64\<close> is an integer, checked where the code checks it.
\<close>

section \<open>Values and programs\<close>

datatype ivalue = Scalar int | Vector int int int

datatype interpreter_error =
    ProgramAddress nat
  | StackUnderflow
  | ReturnUnderflow
  | Undefined string
  | TypeMismatch string
  | ArithmeticError string
  | StepLimit nat

definition checked_scalar :: "ivalue \<Rightarrow> interpreter_error + int" where
  "checked_scalar v = (case v of Scalar x \<Rightarrow> Inr x | _ \<Rightarrow> Inl (TypeMismatch ''expected scalar''))"

definition checked_vector :: "ivalue \<Rightarrow> interpreter_error + int \<times> int \<times> int" where
  "checked_vector v = (case v of Vector x y z \<Rightarrow> Inr (x, y, z) | _ \<Rightarrow> Inl (TypeMismatch ''expected vector''))"

datatype instruction =
    Load string
  | Store string
  | Literal ivalue
  | Push
  | Pop
  | Add
  | Subtract
  | Multiply u8
  | Divide u8
  | Absolute
  | Negate
  | VectorAdd
  | VectorSubtract
  | Dot
  | Cross
  | Scale u8
  | SquareRoot
  | Branch nat
  | BranchZero nat
  | BranchNegative nat
  | Call nat
  | Return
  | Exit

record interpreter_state =
  it_pc :: nat
  accumulator :: ivalue
  stack :: "ivalue list"
  calls :: "nat list"
  storage :: "string \<Rightarrow> ivalue option"
  halted :: bool
  steps :: nat

definition default_state :: interpreter_state where
  "default_state = \<lparr>it_pc = 0, accumulator = Scalar 0, stack = [], calls = [], storage = (\<lambda>_. None),
     halted = False, steps = 0\<rparr>"

record transition =
  tr_pc :: nat
  tr_instruction :: instruction
  tr_before :: ivalue
  tr_after :: ivalue

section \<open>Arithmetic\<close>

text \<open>
  \<open>i64\<close> values are integers; results pass through \<open>i128\<close>, in which sums and products of two
  \<open>i64\<close> values are exact, and are checked on the way back.
\<close>

definition I64_MAX :: int where "I64_MAX = 9223372036854775807"
definition I128_MAX :: int where "I128_MAX = 170141183460469231731687303715884105727"

definition arithmetic :: "string \<Rightarrow> interpreter_error + 'a" where
  "arithmetic text = Inl (ArithmeticError text)"

definition checked_i64 :: "int \<Rightarrow> interpreter_error + int" where
  "checked_i64 v = (if - I64_MAX - 1 \<le> v \<and> v \<le> I64_MAX then Inr v else arithmetic ''host intermediate overflow'')"

definition checked_neg :: "string \<Rightarrow> int \<Rightarrow> interpreter_error + int" where
  "checked_neg text v = (if v = - I64_MAX - 1 then arithmetic text else Inr (- v))"

text \<open>Three fallible components, the first error winning.\<close>

definition vector_result :: "interpreter_error + int \<Rightarrow> interpreter_error + int \<Rightarrow> interpreter_error + int \<Rightarrow> interpreter_error + ivalue" where
  "vector_result a b c = (case a of Inl e \<Rightarrow> Inl e | Inr x \<Rightarrow>
     (case b of Inl e \<Rightarrow> Inl e | Inr y \<Rightarrow> (case c of Inl e \<Rightarrow> Inl e | Inr z \<Rightarrow> Inr (Vector x y z))))"

definition scalar_result :: "interpreter_error + int \<Rightarrow> interpreter_error + ivalue" where
  "scalar_result a = (case a of Inl e \<Rightarrow> Inl e | Inr x \<Rightarrow> Inr (Scalar x))"

definition add_values :: "ivalue \<Rightarrow> ivalue \<Rightarrow> interpreter_error + ivalue" where
  "add_values l r = (case (l, r) of
       (Scalar a, Scalar b) \<Rightarrow> scalar_result (checked_i64 (a + b))
     | (Vector a b c, Vector x y z) \<Rightarrow> vector_result (checked_i64 (a + x)) (checked_i64 (b + y)) (checked_i64 (c + z))
     | _ \<Rightarrow> Inl (TypeMismatch ''ADD operands have unlike types''))"

definition subtract_values :: "ivalue \<Rightarrow> ivalue \<Rightarrow> interpreter_error + ivalue" where
  "subtract_values l r = (case (l, r) of
       (Scalar a, Scalar b) \<Rightarrow> scalar_result (checked_i64 (a - b))
     | (Vector a b c, Vector x y z) \<Rightarrow> vector_result (checked_i64 (a - x)) (checked_i64 (b - y)) (checked_i64 (c - z))
     | _ \<Rightarrow> Inl (TypeMismatch ''SUBTRACT operands have unlike types''))"

text \<open>The shift of an \<open>i128\<close> panics for 128 bits or more, and otherwise rounds down.\<close>

definition scaled_product :: "int \<Rightarrow> int \<Rightarrow> u8 \<Rightarrow> (interpreter_error + int) option" where
  "scaled_product l r bits =
     (if 128 \<le> unat bits then None else Some (checked_i64 (l * r div 2 ^ unat bits)))"

text \<open>\<open>checked_shl\<close> refuses 128 bits or more; bits shifted out of the \<open>i128\<close> are lost.\<close>

definition wrap_i128 :: "int \<Rightarrow> int" where
  "wrap_i128 v = (v + I128_MAX + 1) mod (2 * (I128_MAX + 1)) - I128_MAX - 1"

definition checked_shl :: "int \<Rightarrow> u8 \<Rightarrow> int option" where
  "checked_shl v bits = (if 128 \<le> unat bits then None else Some (wrap_i128 (v * 2 ^ unat bits)))"

text \<open>Division of two \<open>i128\<close> values rounds towards zero and panics on overflow.\<close>

definition divide_i128 :: "int \<Rightarrow> int \<Rightarrow> int option" where
  "divide_i128 a b =
     (if b = 0 \<or> (a = - I128_MAX - 1 \<and> b = - 1) then None
      else Some (if (a < 0) = (b < 0) then \<bar>a\<bar> div \<bar>b\<bar> else - (\<bar>a\<bar> div \<bar>b\<bar>)))"

definition cross_component :: "int \<Rightarrow> int \<Rightarrow> int \<Rightarrow> int \<Rightarrow> interpreter_error + int" where
  "cross_component a b c d = checked_i64 (a * b - c * d)"

definition checked_add_i128 :: "int \<Rightarrow> int \<Rightarrow> int option" where
  "checked_add_i128 a b = (if - I128_MAX - 1 \<le> a + b \<and> a + b \<le> I128_MAX then Some (a + b) else None)"

fun dot_sum :: "int \<Rightarrow> (int \<times> int) list \<Rightarrow> int option" where
  "dot_sum acc [] = Some acc"
| "dot_sum acc ((l, r) # rest) = (case checked_add_i128 acc (l * r) of
       None \<Rightarrow> None | Some s \<Rightarrow> dot_sum s rest)"

definition valid_component :: "int \<Rightarrow> bool" where
  "valid_component v \<longleftrightarrow> - DOUBLE_MAX_MAGNITUDE \<le> v \<and> v \<le> DOUBLE_MAX_MAGNITUDE"

definition value_in_range :: "ivalue \<Rightarrow> bool" where
  "value_in_range v = (case v of
       Scalar x \<Rightarrow> valid_component x
     | Vector x y z \<Rightarrow> valid_component x \<and> valid_component y \<and> valid_component z)"

definition ensure_value_range :: "ivalue \<Rightarrow> interpreter_error + unit" where
  "ensure_value_range v = (if value_in_range v then Inr () else arithmetic ''value exceeds AGC double-precision range'')"

text \<open>Newton's iteration on \<open>u64\<close>; the midpoint does not overflow, a division by zero would panic.\<close>

function sqrt_loop :: "nat \<Rightarrow> nat \<Rightarrow> nat \<Rightarrow> nat option" where
  "sqrt_loop v current n =
     (if n < current then (if n = 0 then None else sqrt_loop v n ((n + v div n) div 2)) else Some current)"
  by auto
termination by (relation "measure (\<lambda>(v, current, n). current)") auto

declare sqrt_loop.simps [simp del]

definition integer_sqrt :: "nat \<Rightarrow> nat option" where
  "integer_sqrt v = (if v < 2 then Some v else sqrt_loop v v ((v + v div v) div 2))"

section \<open>Execution\<close>

definition pop_value :: "(interpreter_state, interpreter_error, ivalue) prog" where
  "pop_value =
     and_then (gets stack) (\<lambda>vs.
     if vs = [] then fail StackUnderflow
     else seq (modify (\<lambda>s. s\<lparr>stack := butlast vs\<rparr>)) (ok (last vs)))"

definition set_accumulator :: "ivalue \<Rightarrow> (interpreter_state, interpreter_error, unit) prog" where
  "set_accumulator v = modify (accumulator_update (\<lambda>_. v))"

definition set_target :: "nat \<Rightarrow> nat \<Rightarrow> (interpreter_state, interpreter_error, unit) prog" where
  "set_target target program_len =
     (if program_len \<le> target then fail (ProgramAddress target) else modify (it_pc_update (\<lambda>_. target)))"

definition scalar_accumulator :: "(interpreter_state, interpreter_error, int) prog" where
  "scalar_accumulator = and_then (gets accumulator) (\<lambda>v. of_result (checked_scalar v))"

definition vector_accumulator :: "(interpreter_state, interpreter_error, int \<times> int \<times> int) prog" where
  "vector_accumulator = and_then (gets accumulator) (\<lambda>v. of_result (checked_vector v))"

definition pop_scalar :: "(interpreter_state, interpreter_error, int) prog" where
  "pop_scalar = and_then pop_value (\<lambda>v. of_result (checked_scalar v))"

definition pop_vector :: "(interpreter_state, interpreter_error, int \<times> int \<times> int) prog" where
  "pop_vector = and_then pop_value (\<lambda>v. of_result (checked_vector v))"

text \<open>A fallible computation that may also panic.\<close>

definition of_checked :: "('e + 'a) option \<Rightarrow> ('s, 'e, 'a) prog" where
  "of_checked r = and_then (of_option r) of_result"

definition execute_op :: "instruction \<Rightarrow> nat \<Rightarrow> (interpreter_state, interpreter_error, unit) prog" where
  "execute_op i program_len = (case i of
       Load name \<Rightarrow> and_then (gets storage) (\<lambda>m. case m name of
           None \<Rightarrow> fail (Undefined name) | Some v \<Rightarrow> set_accumulator v)
     | Store name \<Rightarrow> modify (\<lambda>s. s\<lparr>storage := (storage s)(name \<mapsto> accumulator s)\<rparr>)
     | Literal v \<Rightarrow> set_accumulator v
     | Push \<Rightarrow> modify (\<lambda>s. s\<lparr>stack := stack s @ [accumulator s]\<rparr>)
     | Pop \<Rightarrow> and_then pop_value set_accumulator
     | Add \<Rightarrow> and_then pop_value (\<lambda>l. and_then (gets accumulator) (\<lambda>r.
         and_then (of_result (add_values l r)) set_accumulator))
     | VectorAdd \<Rightarrow> and_then pop_value (\<lambda>l. and_then (gets accumulator) (\<lambda>r.
         and_then (of_result (add_values l r)) set_accumulator))
     | Subtract \<Rightarrow> and_then pop_value (\<lambda>l. and_then (gets accumulator) (\<lambda>r.
         and_then (of_result (subtract_values l r)) set_accumulator))
     | VectorSubtract \<Rightarrow> and_then pop_value (\<lambda>l. and_then (gets accumulator) (\<lambda>r.
         and_then (of_result (subtract_values l r)) set_accumulator))
     | Multiply bits \<Rightarrow> and_then pop_scalar (\<lambda>l. and_then scalar_accumulator (\<lambda>r.
         and_then (of_checked (scaled_product l r bits)) (\<lambda>v. set_accumulator (Scalar v))))
     | Divide bits \<Rightarrow> and_then pop_scalar (\<lambda>numerator. and_then scalar_accumulator (\<lambda>denominator.
         if denominator = 0 then fail (ArithmeticError ''division by signed zero'')
         else case checked_shl numerator bits of
                None \<Rightarrow> fail (ArithmeticError ''division scale overflow'')
              | Some scaled \<Rightarrow>
                  and_then (of_option (divide_i128 scaled denominator)) (\<lambda>q.
                  and_then (of_result (checked_i64 q)) (\<lambda>v. set_accumulator (Scalar v)))))
     | Absolute \<Rightarrow> and_then scalar_accumulator (\<lambda>v.
         if v = - I64_MAX - 1 then fail (ArithmeticError ''absolute-value overflow'')
         else set_accumulator (Scalar \<bar>v\<bar>))
     | Negate \<Rightarrow> and_then (gets accumulator) (\<lambda>a.
         and_then (of_result (case a of
             Scalar v \<Rightarrow> scalar_result (checked_neg ''negation overflow'' v)
           | Vector x y z \<Rightarrow> vector_result (checked_neg ''vector negation overflow'' x)
               (checked_neg ''vector negation overflow'' y) (checked_neg ''vector negation overflow'' z))) set_accumulator)
     | Dot \<Rightarrow> and_then pop_vector (\<lambda>(a, b, c). and_then vector_accumulator (\<lambda>(x, y, z).
         case dot_sum 0 [(a, x), (b, y), (c, z)] of
           None \<Rightarrow> fail (ArithmeticError ''dot-product overflow'')
         | Some dot \<Rightarrow> and_then (of_result (checked_i64 dot)) (\<lambda>v. set_accumulator (Scalar v))))
     | Cross \<Rightarrow> and_then pop_vector (\<lambda>(a, b, c). and_then vector_accumulator (\<lambda>(x, y, z).
         and_then (of_result (vector_result (cross_component b z c y) (cross_component c x a z) (cross_component a y b x)))
           set_accumulator))
     | Scale bits \<Rightarrow> and_then pop_vector (\<lambda>(a, b, c). and_then scalar_accumulator (\<lambda>r.
         and_then (of_checked (scaled_product a r bits)) (\<lambda>x.
         and_then (of_checked (scaled_product b r bits)) (\<lambda>y.
         and_then (of_checked (scaled_product c r bits)) (\<lambda>z. set_accumulator (Vector x y z))))))
     | SquareRoot \<Rightarrow> and_then scalar_accumulator (\<lambda>v.
         if v < 0 then fail (ArithmeticError ''square root of negative value'')
         else and_then (of_option (integer_sqrt (nat v))) (\<lambda>r. set_accumulator (Scalar (int r))))
     | Branch target \<Rightarrow> set_target target program_len
     | BranchZero target \<Rightarrow> and_then scalar_accumulator (\<lambda>v. when_do (v = 0) (set_target target program_len))
     | BranchNegative target \<Rightarrow> and_then scalar_accumulator (\<lambda>v. when_do (v < 0) (set_target target program_len))
     | Call target \<Rightarrow> and_then (gets it_pc) (\<lambda>return_address.
         seq (set_target target program_len) (modify (\<lambda>s. s\<lparr>calls := calls s @ [return_address]\<rparr>)))
     | Return \<Rightarrow> and_then (gets calls) (\<lambda>cs.
         if cs = [] then fail ReturnUnderflow
         else modify (\<lambda>s. s\<lparr>calls := butlast cs, it_pc := last cs\<rparr>))
     | Exit \<Rightarrow> modify (halted_update (\<lambda>_. True)))"

definition execute_instruction :: "instruction \<Rightarrow> nat \<Rightarrow> (interpreter_state, interpreter_error, unit) prog" where
  "execute_instruction i program_len =
     seq (execute_op i program_len)
         (and_then (gets accumulator) (\<lambda>v. of_result (ensure_value_range v)))"

definition interpreter_step :: "instruction list \<Rightarrow> (interpreter_state, interpreter_error, transition) prog" where
  "interpreter_step program =
     and_then (gets halted) (\<lambda>h.
     and_then (gets it_pc) (\<lambda>pc.
     if h then fail (ProgramAddress pc)
     else if \<not> pc < length program then fail (ProgramAddress pc)
     else
       and_then (gets accumulator) (\<lambda>before.
       seq (modify (it_pc_update (\<lambda>_. pc + 1))) (
       seq (execute_instruction (program ! pc) (length program)) (
       seq (modify (steps_update Suc)) (
       gets (\<lambda>s. \<lparr>tr_pc = pc, tr_instruction = program ! pc, tr_before = before, tr_after = accumulator s\<rparr>)))))))"

text \<open>The loop of \<open>run\<close>: the remaining budget is the limit less the transitions made.\<close>

fun interpreter_loop :: "nat \<Rightarrow> instruction list \<Rightarrow> (interpreter_state, interpreter_error, transition list) prog" where
  "interpreter_loop 0 program = ok []"
| "interpreter_loop (Suc budget) program =
     and_then (gets halted) (\<lambda>h.
     if h then ok []
     else and_then (interpreter_step program) (\<lambda>t.
          and_then (interpreter_loop budget program) (\<lambda>ts. ok (t # ts))))"

definition interpreter_run :: "instruction list \<Rightarrow> nat \<Rightarrow> (interpreter_state, interpreter_error, transition list) prog" where
  "interpreter_run program step_limit =
     and_then (interpreter_loop step_limit program) (\<lambda>ts.
     and_then (gets halted) (\<lambda>h. if h then ok ts else fail (StepLimit step_limit)))"

end
