(* ===== verification/Agc_Interpreter_Laws.thy ===== *)
theory Agc_Interpreter_Laws
  imports Agc_Interpreter
begin

text \<open>
  Laws of the interpreter: the square root, type and range safety of an instruction, the history a
  run returns, and the shifts that go wrong.
\<close>

section \<open>The square root\<close>

text \<open>One step of Newton's iteration never falls below the root.\<close>

lemma newton_above:
  fixes a v r :: nat
  assumes "0 < a" "r * r \<le> v"
  shows "r \<le> (a + v div a) div 2"
proof -
  define q where "q = v div a"
  have "v < a * (q + 1)"
    using assms(1) dividend_less_times_div [of a v] by (simp add: q_def)
  then have lt: "int r * int r < int a * (int q + 1)"
    using assms(2) by (metis (no_types, lifting) le_less_trans of_nat_1 of_nat_add of_nat_less_iff of_nat_mult)
  have "int a * (2 * int r) \<le> int a * int a + int r * int r"
    using zero_le_square [of "int a - int r"] by (simp add: algebra_simps)
  also have "\<dots> < int a * (int a + int q + 1)" using lt by (simp add: algebra_simps)
  finally have "2 * int r < int a + int q + 1" using assms(1) by (simp add: mult_less_cancel_left_pos)
  then show ?thesis by (simp add: q_def [symmetric])
qed

lemma newton_done:
  fixes current v n :: nat
  assumes "0 < current" "current \<le> (current + v div current) div 2"
  shows "current * current \<le> v"
proof -
  have "current \<le> v div current" using assms(2) by linarith
  then show ?thesis using assms(1) by (simp add: less_eq_div_iff_mult_less_eq)
qed

lemma sqrt_loop_correct:
  assumes "r * r \<le> v" "v < (r + 1) * (r + 1)" "0 < r"
  shows "r \<le> current \<Longrightarrow> sqrt_loop v current ((current + v div current) div 2) = Some r"
proof (induction current rule: less_induct)
  case (less current)
  let ?n = "(current + v div current) div 2"
  have c: "0 < current" using less.prems assms(3) by simp
  have n: "r \<le> ?n" by (rule newton_above [OF c assms(1)])
  show ?case
  proof (cases "?n < current")
    case True
    then show ?thesis using less.IH [OF True n] n assms(3) by (subst sqrt_loop.simps) simp
  next
    case False
    then have "current * current \<le> v" using newton_done [OF c] by simp
    then have "current * current < (r + 1) * (r + 1)" using assms(2) by linarith
    then have "current < r + 1" by (metis mult_le_mono not_le)
    then show ?thesis using False less.prems by (subst sqrt_loop.simps) simp
  qed
qed

lemma root_exists: "\<exists>r. r * r \<le> v \<and> v < (r + 1) * (r + 1)" for v :: nat
proof -
  have "\<exists>r. v < (r + 1) * (r + 1)" by (intro exI [of _ v]) simp
  then obtain r where r: "v < (r + 1) * (r + 1)" "\<forall>k < r. \<not> v < (k + 1) * (k + 1)"
    using exists_least_iff [of "\<lambda>r. v < (r + 1) * (r + 1)"] by blast
  then have "r * r \<le> v" by (cases r) auto
  then show ?thesis using r(1) by blast
qed

lemma integer_sqrt_root:
  assumes "r * r \<le> v" "v < (r + 1) * (r + 1)"
  shows "integer_sqrt v = Some r"
proof (cases "v < 2")
  case True
  then have "v = 0 \<or> v = 1" by auto
  then have "r = v" using assms by (cases r) auto
  then show ?thesis using True by (simp add: integer_sqrt_def)
next
  case False
  have "0 < r" using assms False by (cases r) auto
  moreover have "r \<le> v" using assms(1) by (cases r) auto
  ultimately show ?thesis
    using False sqrt_loop_correct [OF assms, of v] by (simp only: integer_sqrt_def if_False)
qed

section \<open>Ranges\<close>

lemma valid_component_iff: "valid_component v \<longleftrightarrow> \<bar>v\<bar> \<le> 268435455"
  by (auto simp: valid_component_def DOUBLE_MAX_MAGNITUDE_def)

lemma product_bound: "\<bar>a :: int\<bar> \<le> 268435455 \<Longrightarrow> \<bar>b\<bar> \<le> 268435455 \<Longrightarrow> \<bar>a * b\<bar> \<le> 72057593501057025"
  using mult_mono [of "\<bar>a\<bar>" 268435455 "\<bar>b\<bar>" 268435455] by (simp add: abs_mult)

lemma shift_bound: "\<bar>x :: int\<bar> \<le> b \<Longrightarrow> \<bar>x div 2 ^ n\<bar> \<le> b + 1"
proof -
  assume x: "\<bar>x\<bar> \<le> b"
  have p: "(0 :: int) < 2 ^ n" by simp
  have "- b \<le> x div 2 ^ n"
  proof -
    have "- b * 2 ^ n \<le> - b * 1" using x by (intro mult_left_mono_neg) auto
    then have "- b * 2 ^ n \<le> x" using x by simp
    then have "- b * 2 ^ n div 2 ^ n \<le> x div 2 ^ n" using p by (intro zdiv_mono1) auto
    then show ?thesis by (simp only: nonzero_mult_div_cancel_right [OF less_imp_neq [OF p, symmetric]])
  qed
  moreover have "x div 2 ^ n \<le> b"
  proof -
    have "b * 1 \<le> b * 2 ^ n" using x by (intro mult_left_mono) auto
    then have "x \<le> b * 2 ^ n" using x by simp
    then have "x div 2 ^ n \<le> b * 2 ^ n div 2 ^ n" using p by (intro zdiv_mono1) auto
    then show ?thesis by simp
  qed
  ultimately show ?thesis by linarith
qed

lemma scaled_product_ok:
  assumes "valid_component l" "valid_component r" "unat bits < 128"
  shows "scaled_product l r bits = Some (Inr (l * r div 2 ^ unat bits))"
  using assms shift_bound [OF product_bound [of l r], of "unat bits"]
  by (auto simp: scaled_product_def checked_i64_def I64_MAX_def valid_component_iff)

lemma wrap_i128_id: "- I128_MAX - 1 \<le> v \<Longrightarrow> v \<le> I128_MAX \<Longrightarrow> wrap_i128 v = v"
  by (simp add: wrap_i128_def I128_MAX_def mod_pos_pos_trivial)

lemma checked_shl_exact:
  assumes "valid_component v" "unat bits \<le> 99"
  shows "checked_shl v bits = Some (v * 2 ^ unat bits)" "\<bar>v * 2 ^ unat bits\<bar> \<le> 2 ^ 127 - 1"
proof -
  have "(2 :: int) ^ unat bits \<le> 2 ^ 99" using assms(2) by (intro power_increasing) auto
  then have "\<bar>v\<bar> * 2 ^ unat bits \<le> 268435455 * 2 ^ 99"
    using assms(1) by (intro mult_mono) (auto simp: valid_component_iff)
  then show b: "\<bar>v * 2 ^ unat bits\<bar> \<le> 2 ^ 127 - 1" by (simp add: abs_mult)
  then have "- I128_MAX - 1 \<le> v * 2 ^ unat bits" "v * 2 ^ unat bits \<le> I128_MAX" by (auto simp: I128_MAX_def)
  from wrap_i128_id [OF this] show "checked_shl v bits = Some (v * 2 ^ unat bits)"
    using assms(2) by (simp add: checked_shl_def)
qed

section \<open>Totality\<close>

text \<open>
  A program is sound when its shifts stay below the width of the intermediate type, and its
  scaled divisions below the 99 bits for which no bit of the numerator is lost.
\<close>

definition instruction_sound :: "instruction \<Rightarrow> bool" where
  "instruction_sound i = (case i of
       Multiply bits \<Rightarrow> unat bits < 128
     | Scale bits \<Rightarrow> unat bits < 128
     | Divide bits \<Rightarrow> unat bits \<le> 99
     | _ \<Rightarrow> True)"

definition state_in_range :: "interpreter_state \<Rightarrow> bool" where
  "state_in_range s \<longleftrightarrow> value_in_range (accumulator s) \<and> (\<forall>v \<in> set (stack s). value_in_range v)
     \<and> (\<forall>name v. storage s name = Some v \<longrightarrow> value_in_range v)"

text \<open>The stack and the storage alone, between the steps of one instruction.\<close>

definition rest_in_range :: "interpreter_state \<Rightarrow> bool" where
  "rest_in_range s \<longleftrightarrow> (\<forall>v \<in> set (stack s). value_in_range v) \<and> (\<forall>name v. storage s name = Some v \<longrightarrow> value_in_range v)"

lemma rest_in_range_simps [simp]:
  "rest_in_range (accumulator_update f s) = rest_in_range s" "rest_in_range (it_pc_update g s) = rest_in_range s"
  "rest_in_range (halted_update h s) = rest_in_range s" "rest_in_range (calls_update k s) = rest_in_range s"
  "rest_in_range (steps_update j s) = rest_in_range s"
  by (simp_all add: rest_in_range_def)

lemma state_in_range_rest: "state_in_range s \<longleftrightarrow> value_in_range (accumulator s) \<and> rest_in_range s"
  by (auto simp: state_in_range_def rest_in_range_def)

lemma runs_pop:
  "runs pop_value s Q E = (if stack s = [] then E StackUnderflow s else Q (last (stack s)) (s\<lparr>stack := butlast (stack s)\<rparr>))"
  by (simp add: pop_value_def)

lemma checked_i64_cases:
  "(case checked_i64 v of Inl e \<Rightarrow> P e | Inr x \<Rightarrow> Q x) \<longleftrightarrow>
     (if - I64_MAX - 1 \<le> v \<and> v \<le> I64_MAX then Q v else P (ArithmeticError ''host intermediate overflow''))"
  by (simp add: checked_i64_def arithmetic_def)

text \<open>Whatever an instruction does, it does not panic, and it leaves stack and storage in range.\<close>

definition safely :: "interpreter_state \<Rightarrow> (interpreter_state, interpreter_error, unit) prog \<Rightarrow> bool" where
  "safely s m \<longleftrightarrow> runs m s (\<lambda>_. rest_in_range) (\<lambda>_. rest_in_range)"

lemma rest_pop: "rest_in_range s \<Longrightarrow> stack s \<noteq> [] \<Longrightarrow> rest_in_range (s\<lparr>stack := butlast (stack s)\<rparr>) \<and> value_in_range (last (stack s))"
  by (auto simp: rest_in_range_def dest: in_set_butlastD)

lemma divide_total:
  assumes "b \<noteq> 0" "\<bar>a\<bar> \<le> 2 ^ 127 - 1"
  shows "divide_i128 a b \<noteq> None"
  using assms by (auto simp: divide_i128_def I128_MAX_def)

lemma dot_total:
  assumes "valid_component a" "valid_component b" "valid_component c" "valid_component x" "valid_component y" "valid_component z"
  shows "dot_sum 0 [(a, x), (b, y), (c, z)] = Some (a * x + b * y + c * z)"
proof -
  have "\<bar>a * x\<bar> \<le> 72057593501057025" "\<bar>b * y\<bar> \<le> 72057593501057025" "\<bar>c * z\<bar> \<le> 72057593501057025"
    using assms by (auto intro!: product_bound simp: valid_component_iff)
  then have "\<bar>0 + a * x\<bar> \<le> 1000000000000000000" "\<bar>a * x + b * y\<bar> \<le> 1000000000000000000"
    "\<bar>a * x + b * y + c * z\<bar> \<le> 1000000000000000000" by linarith+
  moreover have add: "checked_add_i128 u v = Some (u + v)" if "\<bar>u + v\<bar> \<le> 1000000000000000000" for u v
    using that by (simp add: checked_add_i128_def I128_MAX_def abs_le_iff)
  ultimately show ?thesis by simp
qed

lemma execute_safe:
  assumes s: "state_in_range s" and i: "instruction_sound i"
  shows "safely s (execute_op i n)"
proof -
  have acc: "value_in_range (accumulator s)" and rest: "rest_in_range s" using s by (simp_all add: state_in_range_rest)
  note unfold = safely_def execute_op_def pop_scalar_def pop_vector_def scalar_accumulator_def vector_accumulator_def
    set_accumulator_def set_target_def runs_pop checked_scalar_def checked_vector_def of_checked_def
  have pop: "stack s \<noteq> [] \<Longrightarrow> rest_in_range (s\<lparr>stack := butlast (stack s)\<rparr>)" "stack s \<noteq> [] \<Longrightarrow> value_in_range (last (stack s))"
    using rest_pop [OF rest] by blast+
  show ?thesis
  proof (cases i)
    case (Load name)
    then show ?thesis using rest by (auto simp: unfold split: option.split)
  next
    case (Store name)
    then show ?thesis using rest acc by (auto simp: unfold rest_in_range_def)
  next
    case Push
    then show ?thesis using rest acc by (auto simp: unfold rest_in_range_def)
  next
    case (Multiply bits)
    then show ?thesis using rest acc pop i
      by (auto simp: unfold value_in_range_def instruction_sound_def scaled_product_ok split: ivalue.splits)
  next
    case (Divide bits)
    have "b = 0" if "divide_i128 (a * 2 ^ unat bits) b = None" "valid_component a" for a b
      using divide_total [OF _ checked_shl_exact(2) [OF that(2)], of b bits] that(1) i by (auto simp: Divide instruction_sound_def)
    then show ?thesis using rest acc pop i Divide
      by (auto simp: unfold value_in_range_def instruction_sound_def checked_shl_exact checked_i64_cases split: ivalue.splits option.splits)
  next
    case (Scale bits)
    then show ?thesis using rest acc pop i
      by (auto simp: unfold value_in_range_def instruction_sound_def scaled_product_ok split: ivalue.splits)
  next
    case Dot
    then show ?thesis using rest acc pop
      by (auto simp: unfold value_in_range_def dot_total checked_i64_cases simp del: dot_sum.simps split: ivalue.splits)
  next
    case SquareRoot
    have "\<exists>r. integer_sqrt v = Some r" for v using root_exists [of v] integer_sqrt_root by blast
    then have root: "False" if "integer_sqrt v = None" for v using that by (metis option.distinct(1))
    show ?thesis using rest acc SquareRoot by (auto simp: unfold dest: root split: ivalue.splits option.splits)
  qed (use rest acc pop in \<open>auto simp: unfold rest_in_range_def split: ivalue.splits sum.splits\<close>)
qed

section \<open>Steps and runs\<close>

definition program_sound :: "instruction list \<Rightarrow> bool" where
  "program_sound p \<longleftrightarrow> (\<forall>i \<in> set p. instruction_sound i)"

lemma state_in_range_simps [simp]:
  "state_in_range (it_pc_update g s) = state_in_range s" "state_in_range (steps_update j s) = state_in_range s"
  by (simp_all add: state_in_range_rest)

lemma run_execute_instruction:
  assumes "state_in_range s" "instruction_sound i"
  shows "runs (execute_instruction i n) s (\<lambda>_. state_in_range) (\<lambda>_. rest_in_range)"
proof -
  have "runs (execute_op i n) s (\<lambda>_. rest_in_range) (\<lambda>_. rest_in_range)"
    using execute_safe [OF assms] by (simp add: safely_def)
  then show ?thesis
    unfolding execute_instruction_def runs_and_then
    by (rule runs_mono) (simp_all add: ensure_value_range_def arithmetic_def state_in_range_rest)
qed

text \<open>Only \<open>Exit\<close> halts, and no instruction counts itself.\<close>

definition same_count :: "interpreter_state \<Rightarrow> interpreter_state \<Rightarrow> bool" where
  "same_count s s' \<longleftrightarrow> steps s' = steps s \<and> halted s' = halted s"

lemma same_count_order: "reflp same_count" "transp same_count"
  by (auto simp: same_count_def intro!: reflpI transpI)

lemmas count_rules = leaves_bind [OF same_count_order] leaves_simple(1) [OF same_count_order(1)]
  leaves_simple(2) [OF same_count_order(1)] leaves_simple(3) leaves_simple(4) [OF same_count_order(1)]
  leaves_simple(5) [OF same_count_order(1)] leaves_simple(6) [OF same_count_order(1)]

lemma count_modify: "(\<And>s. steps (f s) = steps s \<and> halted (f s) = halted s) \<Longrightarrow> leaves same_count (modify f)"
  by (rule leaves_simple(7)) (simp add: same_count_def)

lemma count_basic:
  "leaves same_count (set_accumulator v)" "leaves same_count pop_value" "leaves same_count (set_target t n)"
  "leaves same_count scalar_accumulator" "leaves same_count vector_accumulator"
  "leaves same_count pop_scalar" "leaves same_count pop_vector" "leaves same_count (of_checked r)"
proof -
  show a: "leaves same_count (set_accumulator v)" unfolding set_accumulator_def by (rule count_modify) simp
  show p: "leaves same_count pop_value"
    unfolding pop_value_def by (auto intro!: count_rules count_modify)
  show "leaves same_count (set_target t n)" unfolding set_target_def by (auto intro!: count_rules count_modify)
  show "leaves same_count scalar_accumulator" "leaves same_count vector_accumulator"
    unfolding scalar_accumulator_def vector_accumulator_def by (intro count_rules)+
  show "leaves same_count pop_scalar" "leaves same_count pop_vector"
    unfolding pop_scalar_def pop_vector_def by (intro count_rules p)+
  show "leaves same_count (of_checked r)" unfolding of_checked_def by (intro count_rules)
qed

lemma execute_op_count: "i \<noteq> Exit \<Longrightarrow> leaves same_count (execute_op i n)"
  by (cases i) (auto simp: execute_op_def when_do_def intro!: count_rules count_basic count_modify
      split: option.split prod.split)

lemma execute_op_steps:
  assumes "execute_op i n s = Some (Inr u, s')"
  shows "steps s' = steps s \<and> halted s' = (halted s \<or> i = Exit)"
proof (cases "i = Exit")
  case True
  then show ?thesis using assms by (auto simp: execute_op_def run_simps)
next
  case False
  then show ?thesis using leavesD [OF execute_op_count assms] by (simp add: same_count_def)
qed

lemma interpreter_step_effect:
  assumes "interpreter_step p s = Some (Inr t, s')"
  shows "steps s' = Suc (steps s) \<and> \<not> halted s \<and> tr_pc t = it_pc s \<and> it_pc s < length p \<and> tr_instruction t = p ! it_pc s
     \<and> tr_before t = accumulator s \<and> tr_after t = accumulator s' \<and> halted s' = (p ! it_pc s = Exit) \<and> value_in_range (tr_after t)"
proof -
  obtain v where v: "execute_op (p ! it_pc s) (length p) (s\<lparr>it_pc := it_pc s + 1\<rparr>) = Some (Inr (), v)"
      "value_in_range (accumulator v)" "s' = steps_update Suc v"
    and t: "\<not> halted s" "it_pc s < length p"
      "t = \<lparr>tr_pc = it_pc s, tr_instruction = p ! it_pc s, tr_before = accumulator s, tr_after = accumulator s'\<rparr>"
    using assms
    by (auto simp: interpreter_step_def execute_instruction_def run_simps ensure_value_range_def arithmetic_def
        split: option.splits sum.splits if_splits)
  from execute_op_steps [OF v(1)] show ?thesis using v t by simp
qed

lemma run_interpreter_step:
  assumes "state_in_range s" "program_sound p"
  shows "runs (interpreter_step p) s (\<lambda>t s'. state_in_range s') (\<lambda>_. rest_in_range)"
proof (cases "\<not> halted s \<and> it_pc s < length p")
  case True
  then have "instruction_sound (p ! it_pc s)" using assms(2) by (simp add: program_sound_def)
  then have "runs (execute_instruction (p ! it_pc s) (length p)) (it_pc_update (\<lambda>_. it_pc s + 1) s) (\<lambda>_. state_in_range) (\<lambda>_. rest_in_range)"
    using assms(1) by (intro run_execute_instruction) simp_all
  then show ?thesis
    using True by (auto simp: interpreter_step_def elim!: runs_mono)
next
  case False
  then show ?thesis using assms(1) by (auto simp: interpreter_step_def state_in_range_rest)
qed

text \<open>Only the budget of \<open>run\<close> reports a step limit.\<close>

definition no_limit :: "interpreter_error + 'a \<Rightarrow> bool" where
  "no_limit r \<longleftrightarrow> (\<forall>k. r \<noteq> Inl (StepLimit k))"

definition never_limit :: "(interpreter_state, interpreter_error, 'a) prog \<Rightarrow> bool" where
  "never_limit m \<longleftrightarrow> (\<forall>s r s'. m s = Some (r, s') \<longrightarrow> no_limit r)"

lemma never_limit_rules:
  "never_limit (ok a)" "(\<And>k. e \<noteq> StepLimit k) \<Longrightarrow> never_limit (fail e)" "never_limit panic" "never_limit (gets f)"
  "never_limit (modify g)" "no_limit r \<Longrightarrow> never_limit (of_result r)" "never_limit (of_option v)"
  by (auto simp: never_limit_def no_limit_def run_simps split: sum.splits option.splits)

lemma never_limit_bind: "never_limit m \<Longrightarrow> (\<And>a. never_limit (f a)) \<Longrightarrow> never_limit (and_then m f)"
  unfolding never_limit_def no_limit_def and_then_def by (fastforce split: option.splits sum.splits)

lemma no_limit_arithmetic:
  "no_limit (checked_i64 v)" "no_limit (checked_neg t v)" "no_limit (checked_scalar w)" "no_limit (checked_vector w)"
  "no_limit a \<Longrightarrow> no_limit (scalar_result a)" "no_limit a \<Longrightarrow> no_limit b \<Longrightarrow> no_limit c \<Longrightarrow> no_limit (vector_result a b c)"
  "no_limit (ensure_value_range w)" "no_limit (cross_component x y z u)"
  by (auto simp: no_limit_def checked_i64_def checked_neg_def checked_scalar_def checked_vector_def scalar_result_def vector_result_def
      ensure_value_range_def arithmetic_def cross_component_def split: ivalue.splits sum.splits)

lemma no_limit_values: "no_limit (add_values v w)" "no_limit (subtract_values v w)"
  by (auto simp: add_values_def subtract_values_def no_limit_arithmetic split: ivalue.split) (simp_all add: no_limit_def)

lemma of_checked_simps: "of_checked None = panic" "of_checked (Some r) = of_result r"
  by (rule ext, simp add: of_checked_def run_simps)+

lemma never_limit_product: "never_limit (of_checked (scaled_product x y b))"
  by (simp add: scaled_product_def of_checked_simps never_limit_rules no_limit_arithmetic)

lemma never_limit_basic:
  "never_limit pop_value" "never_limit (set_accumulator v)" "never_limit (set_target t n)" "never_limit scalar_accumulator"
  "never_limit vector_accumulator" "never_limit pop_scalar" "never_limit pop_vector"
  unfolding set_accumulator_def set_target_def scalar_accumulator_def vector_accumulator_def pop_scalar_def
    pop_vector_def pop_value_def
  by (auto intro!: never_limit_rules never_limit_bind no_limit_arithmetic)

lemma execute_op_limit: "never_limit (execute_op i n)"
  by (cases i) (auto simp: execute_op_def when_do_def intro!: never_limit_rules never_limit_bind never_limit_basic never_limit_product
      no_limit_values no_limit_arithmetic split: option.split prod.split ivalue.split)

lemma interpreter_loop_limit: "never_limit (interpreter_loop n p)"
proof (induction n)
  case (Suc n)
  have "never_limit (interpreter_step p)"
    unfolding interpreter_step_def execute_instruction_def
    by (auto intro!: never_limit_rules never_limit_bind execute_op_limit no_limit_arithmetic)
  then show ?case using Suc by (auto intro!: never_limit_rules never_limit_bind)
qed (simp add: never_limit_rules)

text \<open>Transitions that follow one another: each starts where the one before it stopped.\<close>

fun linked :: "ivalue \<Rightarrow> transition list \<Rightarrow> ivalue \<Rightarrow> bool" where
  "linked v [] w \<longleftrightarrow> v = w"
| "linked v (t # ts) w \<longleftrightarrow> tr_before t = v \<and> linked (tr_after t) ts w"

lemma loop_effect:
  "interpreter_loop n p s = Some (Inr ts, s') \<Longrightarrow>
   length ts \<le> n \<and> steps s' = steps s + length ts \<and> linked (accumulator s) ts (accumulator s') \<and> (halted s' \<or> length ts = n)"
proof (induction n arbitrary: s ts)
  case (Suc n)
  show ?case
  proof (cases "halted s")
    case True
    then show ?thesis using Suc.prems by (auto simp: run_simps)
  next
    case False
    obtain t u us where t: "interpreter_step p s = Some (Inr t, u)" "interpreter_loop n p u = Some (Inr us, s')" "ts = t # us"
      using Suc.prems False by (auto simp: run_simps split: option.splits sum.splits)
    from Suc.IH [OF t(2)] interpreter_step_effect [OF t(1)] show ?thesis by (simp add: t(3))
  qed
qed (auto simp: run_simps)

lemma run_interpreter_loop:
  "state_in_range s \<Longrightarrow> program_sound p \<Longrightarrow>
   runs (interpreter_loop n p) s (\<lambda>_. state_in_range) (\<lambda>_. rest_in_range)"
proof (induction n arbitrary: s)
  case (Suc n)
  have "runs (and_then (interpreter_step p) (\<lambda>t. and_then (interpreter_loop n p) (\<lambda>ts. ok (t # ts)))) s
      (\<lambda>_. state_in_range) (\<lambda>_. rest_in_range)"
    unfolding runs_and_then [of "interpreter_step p"]
    by (rule runs_mono [OF run_interpreter_step [OF Suc.prems]]) (simp_all, rule Suc.IH, simp_all add: Suc.prems)
  then show ?case using Suc.prems(1) by simp
qed simp

section \<open>Properties\<close>

text \<open>
  The square root is the integer square root: for every value the iteration comes to an end,
  without a division by zero, at the greatest integer whose square does not exceed the value.
\<close>

theorem integer_sqrt_correct:
  "\<exists>r. integer_sqrt v = Some r \<and> r * r \<le> v \<and> v < (r + 1) * (r + 1)"
  using root_exists [of v] integer_sqrt_root by blast

text \<open>
  C18 Sound programs do not go wrong: from a state whose accumulator, stack and storage hold
  double-precision values, running a program whose shifts stay below the limits neither panics
  nor loops, and unless it reports an error it leaves such values behind.
\<close>

theorem interpreter_type_safe:
  assumes "state_in_range s" "program_sound p"
  shows "\<exists>r s'. interpreter_run p n s = Some (r, s') \<and> rest_in_range s' \<and> (\<forall>ts. r = Inr ts \<longrightarrow> state_in_range s')"
proof -
  have "runs (interpreter_run p n) s (\<lambda>_. state_in_range) (\<lambda>_. rest_in_range)"
    unfolding interpreter_run_def runs_and_then
    by (rule runs_mono [OF run_interpreter_loop [OF assms]]) (simp_all add: state_in_range_rest)
  then show ?thesis by (auto simp: runs_iff state_in_range_rest)
qed

definition sample_program :: "instruction list" where
  "sample_program = [Literal (Scalar 3), Push, Literal (Scalar 4), Multiply 0, SquareRoot, Exit]"

theorem interpreter_type_safe_witness:
  "\<exists>r s'. interpreter_run sample_program 10 default_state = Some (r, s') \<and> rest_in_range s'"
proof -
  have "state_in_range default_state" by (simp add: state_in_range_def default_state_def value_in_range_def valid_component_iff)
  moreover have "program_sound sample_program" by (simp add: program_sound_def sample_program_def instruction_sound_def)
  ultimately show ?thesis using interpreter_type_safe [of default_state sample_program 10] by blast
qed

text \<open>
  A run that returns its transitions has stopped at \<open>EXIT\<close> within the budget, and the transitions
  are the whole history: each starts from the accumulator the one before it left.  A run that
  reports the step limit has made exactly that many steps without reaching \<open>EXIT\<close>.
\<close>

theorem interpreter_run_outcome:
  assumes "interpreter_run p n s = Some (r, s')"
  shows "case r of
      Inr ts \<Rightarrow> halted s' \<and> length ts \<le> n \<and> steps s' = steps s + length ts \<and> linked (accumulator s) ts (accumulator s')
    | Inl e \<Rightarrow> (\<forall>k. e = StepLimit k \<longrightarrow> k = n
        \<and> (\<exists>ts. interpreter_loop n p s = Some (Inr ts, s') \<and> length ts = n \<and> \<not> halted s'))"
proof (cases r)
  case (Inr ts)
  then have "interpreter_loop n p s = Some (Inr ts, s')" "halted s'"
    using assms by (auto simp: interpreter_run_def run_simps split: option.splits sum.splits if_splits)
  with loop_effect show ?thesis using Inr by auto
next
  case (Inl e)
  have "interpreter_loop n p s \<noteq> Some (Inl (StepLimit k), t)" for k t
    using interpreter_loop_limit [of n p] by (auto simp: never_limit_def no_limit_def)
  note never = this
  show ?thesis
    using Inl assms loop_effect [of n p s]
    by (auto simp: interpreter_run_def run_simps never split: option.splits sum.splits if_splits)
qed

theorem interpreter_run_outcome_witness:
  "\<exists>r s'. interpreter_run [Branch 0] 2 default_state = Some (r, s') \<and> (\<forall>ts. r \<noteq> Inr ts \<or> halted s')"
proof -
  have "state_in_range default_state" by (simp add: state_in_range_def default_state_def value_in_range_def valid_component_iff)
  moreover have "program_sound [Branch 0]" by (simp add: program_sound_def instruction_sound_def)
  ultimately have "runs (interpreter_run [Branch 0] 2) default_state (\<lambda>_ _. True) (\<lambda>_ _. True)"
    unfolding interpreter_run_def runs_and_then
    by (intro runs_mono [OF run_interpreter_loop]) simp_all
  then obtain r s' where r: "interpreter_run [Branch 0] 2 default_state = Some (r, s')"
    by (auto simp: runs_iff)
  from interpreter_run_outcome [OF this] r show ?thesis by (cases r) auto
qed

text \<open>
  Two shifts go wrong. A multiplication whose scale is 128 bits or more panics, where every other
  fault of a program is reported as an error; and a division whose scale pushes bits of the
  numerator out of the intermediate type loses them: 2 divided by 1 at 127 bits is 0, not an
  overflow.
\<close>

theorem interpreter_shift_faults:
  "interpreter_run [Literal (Scalar 1), Push, Multiply 128, Exit] 5 default_state = None
   \<and> (\<exists>ts s'. interpreter_run [Literal (Scalar 2), Push, Literal (Scalar 1), Divide 127, Exit] 5 default_state
     = Some (Inr ts, s') \<and> accumulator s' = Scalar 0)"
proof -
  have "case interpreter_run [Literal (Scalar 1), Push, Multiply 128, Exit] 5 default_state of None \<Rightarrow> True | _ \<Rightarrow> False"
    by code_simp
  then have panics: "interpreter_run [Literal (Scalar 1), Push, Multiply 128, Exit] 5 default_state = None"
    by (simp split: option.splits)
  have "checked_shl 2 127 = Some 0"
    by (simp add: checked_shl_def wrap_i128_def I128_MAX_def)
  then obtain ts s' where "interpreter_run [Literal (Scalar 2), Push, Literal (Scalar 1), Divide 127, Exit] 5 default_state
      = Some (Inr ts, s')" "accumulator s' = Scalar 0"
    by (simp add: interpreter_run_def eval_nat_numeral interpreter_step_def execute_instruction_def execute_op_def
        run_simps default_state_def set_accumulator_def pop_scalar_def pop_value_def scalar_accumulator_def
        checked_scalar_def ensure_value_range_def value_in_range_def valid_component_iff divide_i128_def checked_i64_def
        I64_MAX_def I128_MAX_def)
  with panics show ?thesis by blast
qed

end
