(* ===== verification/Agc_Dsky.thy ===== *)
theory Agc_Dsky
  imports Agc_Trace
begin

text \<open>
  \<open>crates/agc-dsky\<close>: the keyboard codes, the state machine of the V37 entry, and the display that
  the output channels of a run drive.  The display methods cannot fail and are functions of the
  state; the text view can panic on a digit that no character encodes.
\<close>

section \<open>Keys\<close>

datatype key =
    Digit u8 | VerbKey | NounKey | PlusKey | MinusKey | EnterKey | ClearKey | KeyRelease | ResetKey | Proceed

datatype dsky_error = DigitError u8 | CodeError u8

definition key_code :: "key \<Rightarrow> dsky_error + u8" where
  "key_code k = (case k of
       Digit d \<Rightarrow> if d = 0 then Inr 0x10 else if 1 \<le> d \<and> d \<le> 9 then Inr d else Inl (DigitError d)
     | VerbKey \<Rightarrow> Inr 0x11
     | ResetKey \<Rightarrow> Inr 0x12
     | KeyRelease \<Rightarrow> Inr 0x19
     | PlusKey \<Rightarrow> Inr 0x1A
     | MinusKey \<Rightarrow> Inr 0x1B
     | EnterKey \<Rightarrow> Inr 0x1C
     | ClearKey \<Rightarrow> Inr 0x1E
     | NounKey \<Rightarrow> Inr 0x1F
     | Proceed \<Rightarrow> Inr 0x10)"

definition key_from_code :: "u8 \<Rightarrow> dsky_error + key" where
  "key_from_code c =
     (if c = 0x10 then Inr (Digit 0)
      else if 1 \<le> c \<and> c \<le> 9 then Inr (Digit c)
      else if c = 0x11 then Inr VerbKey
      else if c = 0x12 then Inr ResetKey
      else if c = 0x19 then Inr KeyRelease
      else if c = 0x1A then Inr PlusKey
      else if c = 0x1B then Inr MinusKey
      else if c = 0x1C then Inr EnterKey
      else if c = 0x1E then Inr ClearKey
      else if c = 0x1F then Inr NounKey
      else Inl (CodeError c))"

section \<open>The V37 entry protocol\<close>

datatype v37_state =
    AwaitVerb
  | VerbTens
  | VerbOnes u8
  | VerbEnter u8
  | ProgramTens
  | ProgramOnes u8
  | ProgramEnter u8
  | Complete u8

datatype pinball_error =
    PinballDsky dsky_error
  | InvalidDigit u8
  | NotProgramChange u8
  | Unexpected v37_state key

record v37_program_change =
  protocol :: v37_state
  accepted_keys :: nat
  verb_register :: "u8 option"
  program_register :: "u8 option"

definition v37_default :: v37_program_change where
  "v37_default = \<lparr>protocol = AwaitVerb, accepted_keys = 0, verb_register = None, program_register = None\<rparr>"

definition decimal_pair :: "u8 \<Rightarrow> u8 \<Rightarrow> pinball_error + u8" where
  "decimal_pair tens units =
     (if tens \<le> 9 \<and> units \<le> 9 then Inr (tens * 10 + units) else Inl (InvalidDigit (max tens units)))"

text \<open>The arms of \<open>accept\<close>; an error leaves before the state is assigned and the key counted.\<close>

definition next_state :: "v37_state \<Rightarrow> key \<Rightarrow> (v37_program_change, pinball_error, v37_state) prog" where
  "next_state q k = (case (q, k) of
       (AwaitVerb, VerbKey) \<Rightarrow> ok VerbTens
     | (VerbTens, Digit tens) \<Rightarrow> ok (VerbOnes tens)
     | (VerbOnes tens, Digit units) \<Rightarrow>
         and_then (of_result (decimal_pair tens units)) (\<lambda>verb. ok (VerbEnter verb))
     | (VerbEnter verb, EnterKey) \<Rightarrow>
         if verb = 37 then seq (modify (verb_register_update (\<lambda>_. Some 37))) (ok ProgramTens)
         else fail (NotProgramChange verb)
     | (ProgramTens, Digit tens) \<Rightarrow> ok (ProgramOnes tens)
     | (ProgramOnes tens, Digit units) \<Rightarrow>
         and_then (of_result (decimal_pair tens units)) (\<lambda>program. ok (ProgramEnter program))
     | (ProgramEnter program, EnterKey) \<Rightarrow>
         seq (modify (program_register_update (\<lambda>_. Some program))) (ok (Complete program))
     | _ \<Rightarrow> fail (Unexpected q k))"

definition accept :: "key \<Rightarrow> (v37_program_change, pinball_error, v37_state) prog" where
  "accept k =
     and_then (gets protocol) (\<lambda>q.
     and_then (next_state q k) (\<lambda>q'.
     seq (modify (protocol_update (\<lambda>_. q')))
    (seq (modify (accepted_keys_update Suc)) (ok q'))))"

definition accept_code :: "u8 \<Rightarrow> (v37_program_change, pinball_error, v37_state) prog" where
  "accept_code c = (case key_from_code c of Inl e \<Rightarrow> fail (PinballDsky e) | Inr k \<Rightarrow> accept k)"

section \<open>The display\<close>

record sign =
  plus_segment :: bool
  minus_segment :: bool

record lamps =
  uplink_activity :: bool
  no_attitude :: bool
  standby :: bool
  key_release_lamp :: bool
  operator_error :: bool
  restart_lamp :: bool
  tracker :: bool
  altitude :: bool
  velocity :: bool
  computer_activity :: bool
  temperature :: bool
  gimbal_lock :: bool
  program_alarm :: bool

definition lamps_off :: lamps where
  "lamps_off = \<lparr>uplink_activity = False, no_attitude = False, standby = False, key_release_lamp = False,
     operator_error = False, restart_lamp = False, tracker = False, altitude = False, velocity = False,
     computer_activity = False, temperature = False, gimbal_lock = False, program_alarm = False\<rparr>"

type_synonym digit_cell = "u8 option"

record dsky_state =
  ds_program :: "digit_cell list"
  ds_verb :: "digit_cell list"
  ds_noun :: "digit_cell list"
  ds_registers :: "digit_cell list list"
  ds_signs :: "sign list"
  ds_lamps :: lamps
  ds_flash :: bool
  last_relay_word :: agc_word
  last_lamp_word :: agc_word

definition dsky_default :: dsky_state where
  "dsky_default = \<lparr>ds_program = [None, None], ds_verb = [None, None], ds_noun = [None, None],
     ds_registers = replicate 3 (replicate 5 None),
     ds_signs = replicate 3 \<lparr>plus_segment = False, minus_segment = False\<rparr>, ds_lamps = lamps_off,
     ds_flash = False, last_relay_word = POSITIVE_ZERO, last_lamp_word = POSITIVE_ZERO\<rparr>"

definition decode_digit :: "u8 \<Rightarrow> u8 option" where
  "decode_digit c =
     (if c = 0x15 then Some 0 else if c = 0x03 then Some 1 else if c = 0x19 then Some 2
      else if c = 0x1B then Some 3 else if c = 0x0F then Some 4 else if c = 0x1E then Some 5
      else if c = 0x1C then Some 6 else if c = 0x13 then Some 7 else if c = 0x1D then Some 8
      else if c = 0x1F then Some 9 else None)"

definition set_linear_digit :: "nat \<Rightarrow> digit_cell \<Rightarrow> dsky_state \<Rightarrow> dsky_state" where
  "set_linear_digit i d s =
     (if i < 15 then s\<lparr>ds_registers := (ds_registers s)[i div 5 := (ds_registers s ! (i div 5))[i mod 5 := d]]\<rparr> else s)"

definition set_minus :: "nat \<Rightarrow> bool \<Rightarrow> dsky_state \<Rightarrow> dsky_state" where
  "set_minus i b s = s\<lparr>ds_signs := (ds_signs s)[i := (ds_signs s ! i)\<lparr>minus_segment := b\<rparr>]\<rparr>"

definition set_plus :: "nat \<Rightarrow> bool \<Rightarrow> dsky_state \<Rightarrow> dsky_state" where
  "set_plus i b s = s\<lparr>ds_signs := (ds_signs s)[i := (ds_signs s ! i)\<lparr>plus_segment := b\<rparr>]\<rparr>"

text \<open>A bit of a channel word, given by its mask.\<close>

definition bit_set :: "u16 \<Rightarrow> u16 \<Rightarrow> bool" where
  "bit_set r m \<longleftrightarrow> r AND m \<noteq> 0"

definition write_relay :: "agc_word \<Rightarrow> dsky_state \<Rightarrow> dsky_state" where
  "write_relay value s0 =
     (let s = s0\<lparr>last_relay_word := value\<rparr>;
          r = raw value;
          relay = unat (drop_bit 11 r AND 0xF);
          upper = decode_digit (ucast (drop_bit 5 r AND 0x1F));
          lower = decode_digit (ucast (r AND 0x1F));
          sgn = bit_set r 0x400
      in if 1 \<le> relay \<and> relay \<le> 7 then
           (let linear = 14 - relay * 2
            in set_linear_digit (linear + 2) lower (set_linear_digit (linear + 1) upper s))
         else if relay = 8 then set_minus 0 sgn (set_linear_digit 0 lower s)
         else if relay = 9 then s\<lparr>ds_noun := [upper, lower]\<rparr>
         else if relay = 10 then s\<lparr>ds_verb := [upper, lower]\<rparr>
         else if relay = 11 then s\<lparr>ds_program := [upper, lower]\<rparr>
         else if relay = 12 then s\<lparr>ds_lamps := (ds_lamps s)
           \<lparr>velocity := bit_set r 0x4, no_attitude := bit_set r 0x8, altitude := bit_set r 0x10,
            gimbal_lock := bit_set r 0x20, tracker := bit_set r 0x40, program_alarm := bit_set r 0x80\<rparr>\<rparr>
         else s)"

definition iss_warning :: "u16 \<Rightarrow> lamps \<Rightarrow> lamps" where
  "iss_warning r l = l\<lparr>standby := bit_set r 0x100, restart_lamp := bit_set r 0x200\<rparr>"

definition write_lamps :: "agc_word \<Rightarrow> dsky_state \<Rightarrow> dsky_state" where
  "write_lamps value s0 =
     (let s = s0\<lparr>last_lamp_word := value\<rparr>;
          r = raw value;
          s1 = s\<lparr>ds_lamps := iss_warning r (ds_lamps s)\<rparr>
      in set_minus 2 (bit_set r 0x80) (set_plus 2 (bit_set r 0x40)
        (set_minus 1 (bit_set r 0x20) (set_plus 1 (bit_set r 0x10)
        (set_minus 0 (bit_set r 0x8) (set_plus 0 (bit_set r 0x4) s1))))))"

definition write_extended_lamps :: "agc_word \<Rightarrow> dsky_state \<Rightarrow> dsky_state" where
  "write_extended_lamps value s =
     (let r = raw value
      in s\<lparr>ds_lamps := (ds_lamps s)
        \<lparr>computer_activity := bit_set r 0x1, uplink_activity := bit_set r 0x2, temperature := bit_set r 0x4,
         key_release_lamp := bit_set r 0x8, operator_error := bit_set r 0x10\<rparr>\<rparr>)"

definition dsky_write_channel :: "u16 \<Rightarrow> agc_word \<Rightarrow> dsky_state \<Rightarrow> dsky_state" where
  "dsky_write_channel channel value s =
     (if channel = 0x08 then write_relay value s
      else if channel = 0x09 then write_lamps value s
      else if channel = 0x0B then s\<lparr>ds_flash := bit_set (raw value) 0x200\<rparr>
      else if channel = 0x73 then write_extended_lamps value s
      else s)"

definition consume_trace :: "trace_event \<Rightarrow> dsky_state \<Rightarrow> dsky_state" where
  "consume_trace event s =
     fold (\<lambda>io s. if io_write io then dsky_write_channel (io_channel io) (io_value io) s else s) (te_io event) s"

section \<open>The text view\<close>

text \<open>A digit above 207 overflows the addition to the character code, and panics.\<close>

definition digit_text :: "digit_cell \<Rightarrow> char option" where
  "digit_text d = (case d of
       None \<Rightarrow> Some (CHR '' '')
     | Some v \<Rightarrow> if 207 < v then None else Some (char_of (48 + unat v)))"

fun format_digits :: "digit_cell list \<Rightarrow> string option" where
  "format_digits [] = Some []"
| "format_digits (d # ds) = (case digit_text d of
       None \<Rightarrow> None
     | Some c \<Rightarrow> map_option ((#) c) (format_digits ds))"

definition lamp :: "bool \<Rightarrow> string" where
  "lamp on = (if on then ''ON'' else ''off'')"

text \<open>\<open>{:3}\<close> of a string: aligned left in three columns.\<close>

definition fmt_columns :: "nat \<Rightarrow> string \<Rightarrow> string" where
  "fmt_columns w s = s @ replicate (w - length s) (CHR '' '')"

definition sign_text :: "sign \<Rightarrow> string" where
  "sign_text g =
     (if plus_segment g \<and> minus_segment g then [CHR 0xB1]
      else if plus_segment g then ''+'' else if minus_segment g then ''-'' else '' '')"

definition newline :: string where "newline = [CHR 0x0A]"

fun register_lines :: "nat \<Rightarrow> digit_cell list list \<Rightarrow> sign list \<Rightarrow> string option" where
  "register_lines i [] signs = Some []"
| "register_lines i (ds # rest) signs =
     (if \<not> i < length signs then None
      else case format_digits ds of
        None \<Rightarrow> None
      | Some digits \<Rightarrow> (case register_lines (Suc i) rest signs of
          None \<Rightarrow> None
        | Some ls \<Rightarrow> Some (''| R'' @ fmt_int (int (i + 1)) @ ''   '' @ sign_text (signs ! i) @ digits
            @ ''                         |'' @ newline @ ls)))"

definition render_text :: "dsky_state \<Rightarrow> string option" where
  "render_text s =
     (case (format_digits (ds_program s), format_digits (ds_verb s), format_digits (ds_noun s),
            register_lines 0 (ds_registers s) (ds_signs s)) of
       (Some program, Some verb, Some noun, Some rows) \<Rightarrow>
         Some (''+---------------- DSKY ----------------+'' @ newline
           @ ''| PROG '' @ program @ ''   VERB '' @ verb @ ''   NOUN '' @ noun @ ''       |'' @ newline
           @ rows
           @ ''| COMP ACTY '' @ fmt_columns 3 (lamp (computer_activity (ds_lamps s)))
           @ ''  OPR ERR '' @ fmt_columns 3 (lamp (operator_error (ds_lamps s)))
           @ ''  PROG '' @ fmt_columns 3 (lamp (program_alarm (ds_lamps s))) @ '' |'' @ newline
           @ ''+--------------------------------------'' @ newline)
     | _ \<Rightarrow> None)"

end
