(* ===== verification/Agc_Dsky_Laws.thy ===== *)
theory Agc_Dsky_Laws
  imports Agc_Dsky Agc_Trace_Laws
begin

text \<open>
  Laws of the DSKY: keyboard codes and keys are inverse, the V37 machine accepts exactly the program
  changes, the panel keeps its shape and renders, and a refresh of the relay rows shows what it
  encodes.
\<close>

section \<open>Keyboard codes\<close>

lemma small_digit:
  fixes d :: u8
  assumes "1 \<le> d" "d \<le> 9"
  shows "d \<in> {1, 2, 3, 4, 5, 6, 7, 8, 9}"
proof -
  have "unat d \<le> 9" "1 \<le> unat d" using assms by (simp_all add: word_le_nat_alt)
  then have "unat d \<in> {1, 2, 3, 4, 5, 6, 7, 8, 9}" by auto
  then have "word_of_nat (unat d) \<in> (word_of_nat :: nat \<Rightarrow> u8) ` {1, 2, 3, 4, 5, 6, 7, 8, 9}" by (rule imageI)
  then show ?thesis by simp
qed

lemma key_from_code_inverse: "key_from_code c = Inr k \<Longrightarrow> key_code k = Inr c \<and> k \<noteq> Proceed"
  by (auto simp: key_from_code_def key_code_def split: if_splits)

lemma key_code_inverse: "key_code k = Inr c \<Longrightarrow> k \<noteq> Proceed \<Longrightarrow> key_from_code c = Inr k"
  by (auto simp: key_from_code_def key_code_def split: key.splits if_splits dest!: small_digit)

text \<open>
  The keyboard codes of channel 015 and the keys are inverse to each other: a code decodes to a
  key exactly when the key is not \<open>PRO\<close> and has that code.  Every code fits five bits, the invalid
  digits alone have none, and \<open>PRO\<close> has the code of the digit zero, to which that code decodes.
\<close>

theorem key_codes_inverse:
  "(key_from_code c = Inr k \<longleftrightarrow> key_code k = Inr c \<and> k \<noteq> Proceed)
   \<and> ((\<exists>e. key_code k = Inl e) \<longleftrightarrow> (\<exists>d. k = Digit d \<and> 9 < d))
   \<and> (case key_code k of Inr b \<Rightarrow> b AND 0x1F = b | Inl _ \<Rightarrow> True)
   \<and> key_code Proceed = key_code (Digit 0)"
proof (intro conjI)
  show "key_from_code c = Inr k \<longleftrightarrow> key_code k = Inr c \<and> k \<noteq> Proceed"
    using key_from_code_inverse key_code_inverse by blast
  have "d \<noteq> 0" if "9 < d" for d :: u8 using that by auto
  then show "(\<exists>e. key_code k = Inl e) \<longleftrightarrow> (\<exists>d. k = Digit d \<and> 9 < d)"
    by (auto simp: key_code_def word_le_nat_alt word_less_nat_alt unat_eq_0 [symmetric] simp del: unat_eq_0 split: key.splits)
  show "case key_code k of Inr b \<Rightarrow> b AND 0x1F = b | Inl _ \<Rightarrow> True"
    by (auto simp: key_code_def split: key.splits sum.splits dest!: small_digit)
  show "key_code Proceed = key_code (Digit 0)" by (simp add: key_code_def)
qed

section \<open>The V37 protocol\<close>

text \<open>The codes of a V37 entry, one list for every state, and the state after a list of codes.\<close>

fun typed :: "v37_state \<Rightarrow> (u8 list) set" where
  "typed AwaitVerb = {[]}"
| "typed VerbTens = {[0x11]}"
| "typed (VerbOnes tens) = {[0x11, c] |c. key_from_code c = Inr (Digit tens)}"
| "typed (VerbEnter verb) = {[0x11, c, d] |c d t u. key_from_code c = Inr (Digit t) \<and> key_from_code d = Inr (Digit u)
     \<and> verb = t * 10 + u}"
| "typed ProgramTens = {[0x11, 3, 7, 0x1C]}"
| "typed (ProgramOnes tens) = {[0x11, 3, 7, 0x1C, c] |c. key_from_code c = Inr (Digit tens)}"
| "typed (ProgramEnter program) = {[0x11, 3, 7, 0x1C, c, d] |c d t u. key_from_code c = Inr (Digit t)
     \<and> key_from_code d = Inr (Digit u) \<and> program = t * 10 + u}"
| "typed (Complete program) = {[0x11, 3, 7, 0x1C, c, d, 0x1C] |c d t u. key_from_code c = Inr (Digit t)
     \<and> key_from_code d = Inr (Digit u) \<and> program = t * 10 + u}"

definition type_codes :: "u8 list \<Rightarrow> (v37_program_change, pinball_error, unit) prog" where
  "type_codes cs = for_each cs (\<lambda>c. and_then (accept_code c) (\<lambda>_. ok ()))"

text \<open>The registers a state of the protocol implies.\<close>

definition registers_agree :: "v37_program_change \<Rightarrow> bool" where
  "registers_agree s \<longleftrightarrow>
     verb_register s = (case protocol s of AwaitVerb \<Rightarrow> None | VerbTens \<Rightarrow> None | VerbOnes _ \<Rightarrow> None | VerbEnter _ \<Rightarrow> None | _ \<Rightarrow> Some 37)
   \<and> program_register s = (case protocol s of Complete p \<Rightarrow> Some p | _ \<Rightarrow> None)"

lemma digit_code_small: "key_from_code c = Inr (Digit d) \<Longrightarrow> d \<le> 9 \<and> (d = 0 \<longrightarrow> c = 0x10) \<and> (d \<noteq> 0 \<longrightarrow> c = d)"
  by (auto simp: key_from_code_def split: if_splits)

lemma pair_37: "t \<le> 9 \<Longrightarrow> u \<le> 9 \<Longrightarrow> t * 10 + u = (37 :: u8) \<Longrightarrow> t = 3 \<and> u = 7"
proof -
  assume a: "t \<le> 9" "u \<le> 9" and e: "t * 10 + u = 37"
  have "unat t \<le> 9" "unat u \<le> 9" using a by (simp_all add: word_le_nat_alt)
  moreover from this have "unat (t * 10 + u) = unat t * 10 + unat u"
    by (simp add: unat_word_ariths)
  ultimately have "unat t * 10 + unat u = 37" "unat u \<le> 9" using e by auto
  then have "unat t = 3" "unat u = 7" by presburger+
  then have "t = word_of_nat 3" "u = word_of_nat 7" by (metis word_of_nat_unat)+
  then show ?thesis by simp
qed

lemma key_names: "key_from_code c = Inr VerbKey \<longleftrightarrow> c = 0x11" "key_from_code c = Inr EnterKey \<longleftrightarrow> c = 0x1C"
  by (auto simp: key_from_code_def split: if_splits)

lemma codes_37:
  assumes "key_from_code c = Inr (Digit t)" "key_from_code d = Inr (Digit u)" "t * 10 + u = 37"
  shows "c = 3 \<and> d = 7"
proof -
  have "t = 3" "u = 7" using pair_37 [of t u] digit_code_small [OF assms(1)] digit_code_small [OF assms(2)] assms(3) by auto
  with assms show ?thesis by (auto simp: key_from_code_def split: if_splits)
qed

lemma accept_typed:
  assumes "accept_code c s = Some (Inr q, s')" "cs \<in> typed (protocol s)" "registers_agree s"
  shows "cs @ [c] \<in> typed (protocol s') \<and> registers_agree s' \<and> accepted_keys s' = Suc (accepted_keys s)"
proof -
  obtain k where k: "key_from_code c = Inr k" "accept k s = Some (Inr q, s')"
    using assms(1) by (auto simp: accept_code_def run_simps split: sum.splits)
  show ?thesis
    using k assms(2,3)
    by (cases "protocol s"; cases k)
      (auto simp: accept_def next_state_def run_simps registers_agree_def decimal_pair_def key_names
        dest: codes_37 split: if_splits)
qed

lemma type_codes_snoc:
  "type_codes (cs @ [c]) s = (case type_codes cs s of
       None \<Rightarrow> None
     | Some (Inl e, s') \<Rightarrow> Some (Inl e, s')
     | Some (Inr u, s') \<Rightarrow> (case accept_code c s' of
         None \<Rightarrow> None | Some (Inl e, t) \<Rightarrow> Some (Inl e, t) | Some (Inr q, t) \<Rightarrow> Some (Inr (), t)))"
  by (induction cs arbitrary: s) (auto simp: type_codes_def run_simps split: option.splits sum.splits)

lemma type_codes_typed:
  assumes "type_codes cs v37_default = Some (Inr (), s)"
  shows "cs \<in> typed (protocol s) \<and> registers_agree s \<and> accepted_keys s = length cs"
  using assms
proof (induction cs arbitrary: s rule: rev_induct)
  case Nil
  then show ?case by (auto simp: type_codes_def v37_default_def registers_agree_def run_simps)
next
  case (snoc c cs)
  from snoc.prems obtain t q where t: "type_codes cs v37_default = Some (Inr (), t)" and a: "accept_code c t = Some (Inr q, s)"
    by (auto simp: type_codes_snoc split: option.splits sum.splits)
  from snoc.IH [OF t] accept_typed [OF a, of cs] show ?case by auto
qed

lemma entry_completes:
  assumes "key_code (Digit t) = Inr c" "key_code (Digit u) = Inr d"
  shows "\<exists>s. type_codes [0x11, 3, 7, 0x1C, c, d, 0x1C] v37_default = Some (Inr (), s) \<and> protocol s = Complete (t * 10 + u)"
proof -
  have k: "key_from_code c = Inr (Digit t)" "key_from_code d = Inr (Digit u)"
    using assms key_from_code_inverse key_code_inverse by blast+
  moreover have "t \<le> 9" "u \<le> 9" using k digit_code_small by blast+
  moreover have "key_from_code 3 = Inr (Digit 3)" "key_from_code 7 = Inr (Digit 7)"
    "key_from_code 0x11 = Inr VerbKey" "key_from_code 0x1C = Inr EnterKey" by (simp_all add: key_from_code_def)
  ultimately show ?thesis
    by (simp add: type_codes_def accept_code_def accept_def next_state_def run_simps v37_default_def decimal_pair_def)
qed

lemma when_all_accepted:
  assumes "\<And>s. x = Some (Inr (), s) \<Longrightarrow> P s"
  shows "case x of Some (Inr _, s) \<Rightarrow> P s | _ \<Rightarrow> True"
proof (cases x)
  case (Some y)
  then obtain r s where "x = Some (r, s)" by (cases y) simp
  then show ?thesis using assms [of s] by (cases r) simp_all
qed simp

lemma next_state_effect:
  "case next_state q k s of
     Some (Inr q', s') \<Rightarrow> accepted_keys s' = accepted_keys s
   | Some (Inl e, s') \<Rightarrow> s' = s
   | None \<Rightarrow> False"
  by (cases q; cases k) (simp_all add: next_state_def run_simps decimal_pair_def)

lemma accept_effect:
  "case accept k s of
     Some (Inr q, s') \<Rightarrow> protocol s' = q \<and> accepted_keys s' = accepted_keys s + 1
   | Some (Inl e, s') \<Rightarrow> s' = s
   | None \<Rightarrow> False"
  using next_state_effect [where q = "protocol s" and k = k and s = s]
  by (cases "next_state (protocol s) k s") (auto simp: accept_def run_simps split: sum.splits)

text \<open>
  C19 The V37 reconstruction completes with major mode \<open>p\<close> on exactly the entries \<open>V 3 7 E t u E\<close> of
  two decimal digits with value \<open>p\<close>, and then its registers hold the verb and the mode.  A key it
  rejects leaves it as it was; a key it accepts is counted.
\<close>

theorem v37_accepts_program_changes:
  "((\<exists>s. type_codes cs v37_default = Some (Inr (), s) \<and> protocol s = Complete p)
     \<longleftrightarrow> (\<exists>t u c d. cs = [0x11, 3, 7, 0x1C, c, d, 0x1C]
          \<and> key_code (Digit t) = Inr c \<and> key_code (Digit u) = Inr d \<and> p = t * 10 + u))
   \<and> (case type_codes cs v37_default of
        Some (Inr _, s) \<Rightarrow> registers_agree s \<and> accepted_keys s = length cs
      | _ \<Rightarrow> True)
   \<and> (case accept k s of
        Some (Inr q, s') \<Rightarrow> protocol s' = q \<and> accepted_keys s' = accepted_keys s + 1
      | Some (Inl e, s') \<Rightarrow> s' = s
      | None \<Rightarrow> False)"
proof (intro conjI)
  show "(\<exists>s. type_codes cs v37_default = Some (Inr (), s) \<and> protocol s = Complete p)
     \<longleftrightarrow> (\<exists>t u c d. cs = [0x11, 3, 7, 0x1C, c, d, 0x1C]
          \<and> key_code (Digit t) = Inr c \<and> key_code (Digit u) = Inr d \<and> p = t * 10 + u)" (is "?l \<longleftrightarrow> ?r")
  proof
    assume ?l
    then obtain s where "type_codes cs v37_default = Some (Inr (), s)" "protocol s = Complete p" by blast
    then have "cs \<in> typed (Complete p)" using type_codes_typed by metis
    then show ?r using key_from_code_inverse by fastforce
  qed (auto intro: entry_completes)
  show "case type_codes cs v37_default of
        Some (Inr _, s) \<Rightarrow> registers_agree s \<and> accepted_keys s = length cs | _ \<Rightarrow> True"
    by (rule when_all_accepted) (simp add: type_codes_typed)
  show "case accept k s of
        Some (Inr q, s') \<Rightarrow> protocol s' = q \<and> accepted_keys s' = accepted_keys s + 1
      | Some (Inl e, s') \<Rightarrow> s' = s
      | None \<Rightarrow> False"
    by (rule accept_effect)
qed

section \<open>The shape of the panel\<close>

definition cell_ok :: "digit_cell \<Rightarrow> bool" where
  "cell_ok d \<longleftrightarrow> (case d of None \<Rightarrow> True | Some v \<Rightarrow> v \<le> 9)"

definition cells_ok :: "nat \<Rightarrow> digit_cell list \<Rightarrow> bool" where
  "cells_ok n ds \<longleftrightarrow> length ds = n \<and> (\<forall>d \<in> set ds. cell_ok d)"

definition dsky_wf :: "dsky_state \<Rightarrow> bool" where
  "dsky_wf s \<longleftrightarrow> cells_ok 2 (ds_program s) \<and> cells_ok 2 (ds_verb s) \<and> cells_ok 2 (ds_noun s)
     \<and> length (ds_registers s) = 3 \<and> (\<forall>ds \<in> set (ds_registers s). cells_ok 5 ds) \<and> length (ds_signs s) = 3"

lemma dsky_wf_default: "dsky_wf dsky_default"
  by (simp add: dsky_wf_def dsky_default_def cells_ok_def cell_ok_def)

lemma cell_ok_decode [simp]: "cell_ok (decode_digit c)"
  by (simp add: cell_ok_def decode_digit_def)

lemma cells_ok_update: "cells_ok n ds \<Longrightarrow> cell_ok d \<Longrightarrow> cells_ok n (ds[i := d])"
  by (auto simp: cells_ok_def dest!: set_update_subset_insert [THEN subsetD])

lemma dsky_wf_digit: "dsky_wf s \<Longrightarrow> cell_ok d \<Longrightarrow> dsky_wf (set_linear_digit i d s)"
  by (auto simp: dsky_wf_def set_linear_digit_def cells_ok_update dest!: set_update_subset_insert [THEN subsetD])

lemma dsky_wf_sign: "dsky_wf s \<Longrightarrow> dsky_wf (set_plus i b s)" "dsky_wf s \<Longrightarrow> dsky_wf (set_minus i b s)"
  by (simp_all add: dsky_wf_def set_plus_def set_minus_def)

lemma dsky_wf_parts:
  "dsky_wf (s\<lparr>last_relay_word := w\<rparr>) = dsky_wf s" "dsky_wf (s\<lparr>last_lamp_word := w\<rparr>) = dsky_wf s"
  "dsky_wf (s\<lparr>ds_lamps := l\<rparr>) = dsky_wf s" "dsky_wf (s\<lparr>ds_flash := b\<rparr>) = dsky_wf s"
  by (simp_all add: dsky_wf_def)

lemma dsky_wf_pairs:
  assumes "dsky_wf s" "cell_ok a" "cell_ok b"
  shows "dsky_wf (s\<lparr>ds_program := [a, b]\<rparr>)" "dsky_wf (s\<lparr>ds_verb := [a, b]\<rparr>)" "dsky_wf (s\<lparr>ds_noun := [a, b]\<rparr>)"
  using assms by (simp_all add: dsky_wf_def cells_ok_def)

lemmas dsky_wf_rules = dsky_wf_digit dsky_wf_sign dsky_wf_parts dsky_wf_pairs

lemma dsky_wf_relay: "dsky_wf s \<Longrightarrow> dsky_wf (write_relay w s)"
  by (simp add: write_relay_def Let_def dsky_wf_rules)

lemma dsky_wf_write: "dsky_wf s \<Longrightarrow> dsky_wf (dsky_write_channel ch w s)"
  by (simp add: dsky_write_channel_def dsky_wf_relay write_lamps_def write_extended_lamps_def Let_def dsky_wf_rules)

lemma dsky_wf_consume: "dsky_wf s \<Longrightarrow> dsky_wf (consume_trace e s)"
proof -
  have "dsky_wf s \<Longrightarrow> dsky_wf (fold (\<lambda>io s. if io_write io then dsky_write_channel (io_channel io) (io_value io) s else s) ios s)" for ios
    by (induction ios arbitrary: s) (simp_all add: dsky_wf_write)
  then show "dsky_wf s \<Longrightarrow> dsky_wf (consume_trace e s)" by (simp add: consume_trace_def)
qed

section \<open>Rendering\<close>

lemma digit_text_ok: "cell_ok d \<Longrightarrow> \<exists>c. digit_text d = Some c"
  by (auto simp: cell_ok_def digit_text_def word_le_nat_alt word_less_nat_alt split: option.splits)

lemma format_digits_ok: "\<forall>d \<in> set ds. cell_ok d \<Longrightarrow> \<exists>t. format_digits ds = Some t \<and> length t = length ds"
  by (induction ds) (auto dest: digit_text_ok)

lemma format_cells: "cells_ok n ds \<Longrightarrow> \<exists>t. format_digits ds = Some t \<and> length t = n"
  using format_digits_ok by (auto simp: cells_ok_def)

lemma sign_text_length [simp]: "length (sign_text g) = 1"
  by (simp add: sign_text_def)

lemma lamp_columns [simp]: "length (fmt_columns 3 (lamp b)) = 3"
  by (simp add: fmt_columns_def lamp_def)

lemma fmt_small_int: "fmt_int 1 = ''1''" "fmt_int 2 = ''2''" "fmt_int 3 = ''3''"
  by code_simp+

lemma register_lines_ok:
  assumes "length rs = 3" "\<forall>ds \<in> set rs. cells_ok 5 ds" "length gs = 3"
  shows "\<exists>t. register_lines 0 rs gs = Some t \<and> length t = 120"
proof -
  obtain a b c where rs: "rs = [a, b, c]"
    using assms(1) by (auto simp: numeral_3_eq_3 length_Suc_conv)
  obtain x y z where "format_digits a = Some x" "length x = 5" "format_digits b = Some y" "length y = 5"
      "format_digits c = Some z" "length z = 5"
    using assms(2) format_cells unfolding rs by (metis list.set_intros)
  then show ?thesis using assms(3)
    by (simp add: rs fmt_small_int newline_def)
qed

lemma render_ok:
  assumes "dsky_wf s"
  shows "\<exists>t. render_text s = Some t \<and> length t = 280"
proof -
  obtain p v n where "format_digits (ds_program s) = Some p" "length p = 2" "format_digits (ds_verb s) = Some v"
      "length v = 2" "format_digits (ds_noun s) = Some n" "length n = 2"
    using assms format_cells unfolding dsky_wf_def by metis
  moreover obtain t where "register_lines 0 (ds_registers s) (ds_signs s) = Some t" "length t = 120"
    using assms register_lines_ok unfolding dsky_wf_def by blast
  ultimately show ?thesis by (simp add: render_text_def newline_def)
qed

text \<open>
  C20 The panel is always presentable: whatever a run commits, the display derived from its trace
  has two digits in \<open>PROG\<close>, \<open>VERB\<close> and \<open>NOUN\<close> and five in each register, every one blank or a
  decimal digit, and the text view renders without a panic to a text of fixed size.
\<close>

theorem dsky_always_renders:
  "dsky_wf (fold consume_trace es dsky_default)
   \<and> (\<exists>t. render_text (fold consume_trace es dsky_default) = Some t \<and> length t = 280)"
proof -
  have "dsky_wf s \<Longrightarrow> dsky_wf (fold consume_trace es s)" for s
    by (induction es arbitrary: s) (simp_all add: dsky_wf_consume)
  then have "dsky_wf (fold consume_trace es dsky_default)" by (simp add: dsky_wf_default)
  then show ?thesis using render_ok by blast
qed

section \<open>Refreshing the panel\<close>

text \<open>
  What the relay rows should show: fifteen register digits and the three pairs.  The rows eight to
  eleven carry the first register digit and the pairs, the rows one to seven two digits each.
\<close>

record panel =
  pn_digits :: "digit_cell list"
  pn_program :: "digit_cell \<times> digit_cell"
  pn_verb :: "digit_cell \<times> digit_cell"
  pn_noun :: "digit_cell \<times> digit_cell"

definition panel_ok :: "panel \<Rightarrow> bool" where
  "panel_ok p \<longleftrightarrow> cells_ok 15 (pn_digits p) \<and> cell_ok (fst (pn_program p)) \<and> cell_ok (snd (pn_program p))
     \<and> cell_ok (fst (pn_verb p)) \<and> cell_ok (snd (pn_verb p)) \<and> cell_ok (fst (pn_noun p)) \<and> cell_ok (snd (pn_noun p))"

definition digit_codes :: "nat list" where
  "digit_codes = [0x15, 0x03, 0x19, 0x1B, 0x0F, 0x1E, 0x1C, 0x13, 0x1D, 0x1F]"

definition cell_code :: "digit_cell \<Rightarrow> nat" where
  "cell_code d = (case d of None \<Rightarrow> 0 | Some v \<Rightarrow> digit_codes ! unat v)"

definition row_cells :: "panel \<Rightarrow> nat \<Rightarrow> digit_cell \<times> digit_cell" where
  "row_cells p r =
     (if r = 11 then pn_program p else if r = 10 then pn_verb p else if r = 9 then pn_noun p
      else if r = 8 then (None, pn_digits p ! 0) else (pn_digits p ! (15 - 2 * r), pn_digits p ! (16 - 2 * r)))"

definition relay_word :: "nat \<Rightarrow> digit_cell \<times> digit_cell \<Rightarrow> agc_word" where
  "relay_word r c = AgcWord (word_of_nat (r * 2048 + cell_code (fst c) * 32 + cell_code (snd c)))"

lemma digit_values:
  fixes v :: u8
  assumes "v \<le> 9"
  shows "v \<in> {0, 1, 2, 3, 4, 5, 6, 7, 8, 9}"
  using small_digit [of v] assms by (cases "v = 0") (auto simp: word_le_nat_alt unat_eq_0 [symmetric] Suc_le_eq simp del: unat_eq_0)

lemma cell_code_small: "cell_ok d \<Longrightarrow> cell_code d < 32"
  by (auto simp: cell_ok_def cell_code_def digit_codes_def dest!: digit_values split: option.splits)

lemma decode_cell_code: "cell_ok d \<Longrightarrow> decode_digit (word_of_nat (cell_code d)) = d"
  by (auto simp: cell_ok_def cell_code_def digit_codes_def decode_digit_def dest!: digit_values split: option.splits)

lemma u16_and_F: "unat ((x :: u16) AND 0xF) = unat x mod 16"
  by (rule trans [OF unat_and_eq_mask [of _ 4]]) (simp_all add: mask_eq_exp_minus_1)

lemma packed_fields:
  fixes r u l :: nat
  assumes "u < 32" "l < 32"
  shows "(r * 2048 + u * 32 + l) div 2048 = r" "(r * 2048 + u * 32 + l) div 32 mod 32 = u" "(r * 2048 + u * 32 + l) mod 32 = l"
proof -
  have word: "r * 2048 + u * 32 + l = (u * 32 + l) + 2048 * r" by simp
  have "u * 32 + l < 2048" using assms by linarith
  then have "(u * 32 + l) div 2048 = 0" by (rule div_less)
  then show "(r * 2048 + u * 32 + l) div 2048 = r" unfolding word by (subst div_mult_self2) simp_all
  have packed: "r * 2048 + u * 32 + l = l + 32 * (u + 32 * (2 * r))" by simp
  show "(r * 2048 + u * 32 + l) mod 32 = l" unfolding packed mod_mult_self2 using assms(2) by (rule mod_less)
  have "(r * 2048 + u * 32 + l) div 32 = u + 32 * (2 * r)"
    unfolding packed using assms(2) by (subst div_mult_self2) simp_all
  then show "(r * 2048 + u * 32 + l) div 32 mod 32 = u"
    by (simp only: mod_mult_self2 mod_less [OF assms(1)])
qed

lemma relay_fields:
  fixes u l r :: nat
  assumes "r < 16" "u < 32" "l < 32"
  defines "w \<equiv> word_of_nat (r * 2048 + u * 32 + l) :: u16"
  shows "unat (drop_bit 11 w AND 0xF) = r" "ucast (drop_bit 5 w AND 0x1F) = (word_of_nat u :: u8)"
    "ucast (w AND 0x1F) = (word_of_nat l :: u8)"
proof -
  have w: "unat w = r * 2048 + u * 32 + l"
  proof -
    have small: "r * 2048 + u * 32 + l < 65536" using assms(1-3) by linarith
    have size: "(2 :: nat) ^ LENGTH(16) = 65536" by simp
    show ?thesis unfolding w_def unat_of_nat size by (rule mod_less [OF small])
  qed
  have "unat (drop_bit 11 w AND 0xF) = unat w div 2048 mod 16"
    unfolding u16_and_F unat_drop_bit by simp
  also have "unat w div 2048 = r" unfolding w by (rule packed_fields [OF assms(2,3)])
  also have "r mod 16 = r" using assms(1) by (rule mod_less)
  finally show "unat (drop_bit 11 w AND 0xF) = r" .
  have "unat w div 32 mod 32 = u" unfolding w by (rule packed_fields [OF assms(2,3)])
  then have "unat (drop_bit 5 w AND 0x1F) = u" by (simp add: unat_simps unat_drop_bit)
  then show "ucast (drop_bit 5 w AND 0x1F) = (word_of_nat u :: u8)"
    using assms(2) by (simp add: word_eq_unat_iff unat_simps unat_of_nat)
  have "unat w mod 32 = l" unfolding w by (rule packed_fields [OF assms(2,3)])
  then have "unat (w AND 0x1F) = l" by (simp add: unat_simps)
  then show "ucast (w AND 0x1F) = (word_of_nat l :: u8)"
    using assms(3) by (simp add: word_eq_unat_iff unat_simps unat_of_nat)
qed

lemma relay_word_fields:
  assumes "r < 16" "cell_ok u" "cell_ok l"
  shows "unat (drop_bit 11 (raw (relay_word r (u, l))) AND 0xF) = r"
    "decode_digit (ucast (drop_bit 5 (raw (relay_word r (u, l))) AND 0x1F)) = u"
    "decode_digit (ucast (raw (relay_word r (u, l)) AND 0x1F)) = l"
  using relay_fields [OF assms(1) cell_code_small [OF assms(2)] cell_code_small [OF assms(3)]] assms
  by (simp_all add: relay_word_def decode_cell_code)

text \<open>The register digit at a position, and the relay row that carries it.\<close>

definition register_cell :: "dsky_state \<Rightarrow> nat \<Rightarrow> digit_cell" where
  "register_cell s i = ds_registers s ! (i div 5) ! (i mod 5)"

definition row_of :: "nat \<Rightarrow> nat" where
  "row_of i = (16 - i) div 2"

lemma register_cell_set:
  assumes "dsky_wf s" "i < 15" "j < 15"
  shows "register_cell (set_linear_digit j d s) i = (if i = j then d else register_cell s i)"
proof -
  have div: "i div 5 < 3" "j div 5 < 3" using assms by auto
  have shape: "length (ds_registers s) = 3" "length (ds_registers s ! (j div 5)) = 5"
    using assms(1) div by (auto simp: dsky_wf_def cells_ok_def)
  have "i = j" if "i div 5 = j div 5" "i mod 5 = j mod 5" using that by (metis mult_div_mod_eq)
  then show ?thesis
    using assms div shape by (auto simp: register_cell_def set_linear_digit_def nth_list_update)
qed

lemma register_cell_other [simp]:
  "register_cell (set_minus k b s) = register_cell s" "register_cell (s\<lparr>last_relay_word := w\<rparr>) = register_cell s"
  "register_cell (s\<lparr>ds_program := c\<rparr>) = register_cell s" "register_cell (s\<lparr>ds_verb := c\<rparr>) = register_cell s"
  "register_cell (s\<lparr>ds_noun := c\<rparr>) = register_cell s"
  by (simp_all add: register_cell_def set_minus_def fun_eq_iff)

lemma set_linear_digit_frame [simp]:
  "ds_program (set_linear_digit i d s) = ds_program s" "ds_verb (set_linear_digit i d s) = ds_verb s"
  "ds_noun (set_linear_digit i d s) = ds_noun s" "ds_lamps (set_linear_digit i d s) = ds_lamps s"
  "ds_flash (set_linear_digit i d s) = ds_flash s"
  by (simp_all add: set_linear_digit_def)

lemma set_minus_frame [simp]:
  "ds_program (set_minus i d s) = ds_program s" "ds_verb (set_minus i d s) = ds_verb s"
  "ds_noun (set_minus i d s) = ds_noun s" "ds_lamps (set_minus i d s) = ds_lamps s"
  "ds_flash (set_minus i d s) = ds_flash s"
  by (simp_all add: set_minus_def)

definition send_row :: "panel \<Rightarrow> nat \<Rightarrow> dsky_state \<Rightarrow> dsky_state" where
  "send_row p r = dsky_write_channel 0x08 (relay_word r (row_cells p r))"

lemma row_cells_ok:
  assumes "panel_ok p" "1 \<le> r" "r \<le> 11"
  shows "cell_ok (fst (row_cells p r)) \<and> cell_ok (snd (row_cells p r))"
proof -
  have "cell_ok (pn_digits p ! i)" if "i < 15" for i
    using assms(1) that by (auto simp: panel_ok_def cells_ok_def)
  then show ?thesis using assms by (auto simp: row_cells_def panel_ok_def cell_ok_def [of None])
qed

lemma write_relay_fields:
  assumes "unat (drop_bit 11 (raw w) AND 0xF) = r" "decode_digit (ucast (drop_bit 5 (raw w) AND 0x1F)) = u"
    "decode_digit (ucast (raw w AND 0x1F)) = l" "1 \<le> r" "r \<le> 11"
  shows "write_relay w s = (let s1 = s\<lparr>last_relay_word := w\<rparr>
     in if r \<le> 7 then set_linear_digit (14 - r * 2 + 2) l (set_linear_digit (14 - r * 2 + 1) u s1)
        else if r = 8 then set_minus 0 (bit_set (raw w) 0x400) (set_linear_digit 0 l s1)
        else if r = 9 then s1\<lparr>ds_noun := [u, l]\<rparr>
        else if r = 10 then s1\<lparr>ds_verb := [u, l]\<rparr>
        else s1\<lparr>ds_program := [u, l]\<rparr>)"
  unfolding write_relay_def Let_def assms(1-3) using assms(4,5) by simp

lemma send_row_relay:
  assumes "panel_ok p" "1 \<le> r" "r \<le> 11"
  shows "send_row p r s = (let w = relay_word r (row_cells p r); s1 = s\<lparr>last_relay_word := w\<rparr>
     in if r \<le> 7 then set_linear_digit (14 - r * 2 + 2) (snd (row_cells p r))
          (set_linear_digit (14 - r * 2 + 1) (fst (row_cells p r)) s1)
        else if r = 8 then set_minus 0 (bit_set (raw w) 0x400) (set_linear_digit 0 (snd (row_cells p r)) s1)
        else if r = 9 then s1\<lparr>ds_noun := [fst (row_cells p r), snd (row_cells p r)]\<rparr>
        else if r = 10 then s1\<lparr>ds_verb := [fst (row_cells p r), snd (row_cells p r)]\<rparr>
        else s1\<lparr>ds_program := [fst (row_cells p r), snd (row_cells p r)]\<rparr>)"
proof -
  have "cell_ok (fst (row_cells p r))" "cell_ok (snd (row_cells p r))"
    using row_cells_ok [OF assms] by auto
  note fields = relay_word_fields [of r, OF _ this, unfolded prod.collapse]
  have "r < 16" using assms(3) by simp
  then have "write_relay (relay_word r (row_cells p r)) s = (let s1 = s\<lparr>last_relay_word := relay_word r (row_cells p r)\<rparr>
     in if r \<le> 7 then set_linear_digit (14 - r * 2 + 2) (snd (row_cells p r))
          (set_linear_digit (14 - r * 2 + 1) (fst (row_cells p r)) s1)
        else if r = 8 then set_minus 0 (bit_set (raw (relay_word r (row_cells p r))) 0x400)
          (set_linear_digit 0 (snd (row_cells p r)) s1)
        else if r = 9 then s1\<lparr>ds_noun := [fst (row_cells p r), snd (row_cells p r)]\<rparr>
        else if r = 10 then s1\<lparr>ds_verb := [fst (row_cells p r), snd (row_cells p r)]\<rparr>
        else s1\<lparr>ds_program := [fst (row_cells p r), snd (row_cells p r)]\<rparr>)"
    using write_relay_fields [OF fields assms(2,3)] by blast
  then show ?thesis by (simp add: send_row_def dsky_write_channel_def Let_def)
qed

lemma row_digits:
  assumes "1 \<le> r" "r \<le> 7"
  shows "row_cells p r = (pn_digits p ! (14 - r * 2 + 1), pn_digits p ! (14 - r * 2 + 2))"
proof -
  have "14 - r * 2 + 1 = 15 - 2 * r" "14 - r * 2 + 2 = 16 - 2 * r" using assms by auto
  then show ?thesis using assms by (simp add: row_cells_def)
qed

lemma row_of_digits: "1 \<le> r \<Longrightarrow> r \<le> 7 \<Longrightarrow> i < 15 \<Longrightarrow> row_of i = r \<longleftrightarrow> i = 14 - r * 2 + 1 \<or> i = 14 - r * 2 + 2"
  unfolding row_of_def by presburger

lemma row_of_first: "i < 15 \<Longrightarrow> row_of i = 8 \<longleftrightarrow> i = 0"
  unfolding row_of_def by presburger

lemma row_of_small: "i < 15 \<Longrightarrow> 1 \<le> row_of i \<and> row_of i \<le> 8"
  unfolding row_of_def by presburger

lemma send_row_cell:
  assumes "dsky_wf s" "panel_ok p" "1 \<le> r" "r \<le> 11" "i < 15"
  shows "register_cell (send_row p r s) i = (if row_of i = r then pn_digits p ! i else register_cell s i)"
proof -
  consider "r \<le> 7" | "r = 8" | "9 \<le> r" by linarith
  then show ?thesis
  proof cases
    case 1
    let ?w = "relay_word r (row_cells p r)"
    have wf: "dsky_wf (s\<lparr>last_relay_word := ?w\<rparr>)" using assms(1) by (simp add: dsky_wf_parts)
    have ok: "cell_ok (pn_digits p ! (14 - r * 2 + 1))"
      using row_cells_ok [OF assms(2-4)] row_digits [OF assms(3) 1, of p] by simp
    have bounds: "14 - r * 2 + 1 < 15" "14 - r * 2 + 2 < 15" "14 - r * 2 + 1 \<noteq> 14 - r * 2 + 2" using assms(3) by auto
    have "register_cell (send_row p r s) i
        = (if i = 14 - r * 2 + 2 then pn_digits p ! (14 - r * 2 + 2)
           else if i = 14 - r * 2 + 1 then pn_digits p ! (14 - r * 2 + 1) else register_cell s i)"
      unfolding send_row_relay [OF assms(2-4)] Let_def
      using 1 register_cell_set [OF dsky_wf_digit [OF wf ok] assms(5) bounds(2)] register_cell_set [OF wf assms(5) bounds(1)]
        row_digits [OF assms(3) 1, of p] by simp
    then show ?thesis using row_of_digits [OF assms(3) 1 assms(5)] by auto
  next
    case 2
    have wf: "dsky_wf (s\<lparr>last_relay_word := w\<rparr>)" for w using assms(1) by (simp add: dsky_wf_parts)
    show ?thesis
      unfolding send_row_relay [OF assms(2-4)] Let_def
      using 2 row_of_first [OF assms(5)] register_cell_set [OF wf assms(5), of 0] by (simp add: row_cells_def)
  next
    case 3
    then show ?thesis
      unfolding send_row_relay [OF assms(2-4)] Let_def using row_of_small [OF assms(5)] by auto
  qed
qed

lemma send_row_pairs:
  assumes "panel_ok p" "1 \<le> r" "r \<le> 11"
  shows "ds_program (send_row p r s) = (if r = 11 then [fst (pn_program p), snd (pn_program p)] else ds_program s)"
    "ds_verb (send_row p r s) = (if r = 10 then [fst (pn_verb p), snd (pn_verb p)] else ds_verb s)"
    "ds_noun (send_row p r s) = (if r = 9 then [fst (pn_noun p), snd (pn_noun p)] else ds_noun s)"
    "ds_lamps (send_row p r s) = ds_lamps s" "ds_flash (send_row p r s) = ds_flash s"
  unfolding send_row_relay [OF assms] Let_def using assms(2,3) by (auto simp: row_cells_def)

lemma send_row_wf: "dsky_wf s \<Longrightarrow> dsky_wf (send_row p r s)"
  by (simp add: send_row_def dsky_wf_write)

lemma send_rows_shown:
  assumes "dsky_wf s" "panel_ok p" "set rows \<subseteq> {1 ..< 12}"
  defines "s' \<equiv> fold (send_row p) rows s"
  shows "dsky_wf s' \<and> (\<forall>i < 15. row_of i \<in> set rows \<longrightarrow> register_cell s' i = pn_digits p ! i)
     \<and> (11 \<in> set rows \<longrightarrow> ds_program s' = [fst (pn_program p), snd (pn_program p)])
     \<and> (10 \<in> set rows \<longrightarrow> ds_verb s' = [fst (pn_verb p), snd (pn_verb p)])
     \<and> (9 \<in> set rows \<longrightarrow> ds_noun s' = [fst (pn_noun p), snd (pn_noun p)])
     \<and> ds_lamps s' = ds_lamps s \<and> ds_flash s' = ds_flash s"
  using assms(3) unfolding s'_def
proof (induction rows rule: rev_induct)
  case (snoc r rows)
  then have r: "1 \<le> r" "r \<le> 11" by auto
  have IH: "dsky_wf (fold (send_row p) rows s)" using snoc by auto
  show ?case
    using snoc send_row_cell [OF IH assms(2) r] send_row_pairs [OF assms(2) r, of "fold (send_row p) rows s"] send_row_wf [OF IH]
    by auto
qed (simp add: assms(1))

lemma registers_concat:
  assumes "dsky_wf s" "length ds = 15" "\<forall>i < 15. register_cell s i = ds ! i"
  shows "concat (ds_registers s) = ds"
proof -
  obtain a b c where abc: "ds_registers s = [a, b, c]"
    using assms(1) by (auto simp: dsky_wf_def numeral_3_eq_3 length_Suc_conv)
  then have len: "length a = 5" "length b = 5" "length c = 5" using assms(1) by (auto simp: dsky_wf_def cells_ok_def)
  show ?thesis
  proof (rule nth_equalityI)
    show "length (concat (ds_registers s)) = length ds" using abc len assms(2) by simp
    fix i assume "i < length (concat (ds_registers s))"
    then have i: "i < 15" using abc len by simp
    have "concat (ds_registers s) ! i = register_cell s i"
    proof -
      consider "i < 5" | "5 \<le> i \<and> i < 10" | "10 \<le> i" by linarith
      then show ?thesis
      proof cases
        case 1
        then show ?thesis using abc len by (simp add: register_cell_def nth_append)
      next
        case 2
        then have "i div 5 = 1" "i mod 5 = i - 5" "i - 5 < 5" by presburger+
        then show ?thesis using 2 abc len by (simp add: register_cell_def nth_append)
      next
        case 3
        then have "i div 5 = 2" "i mod 5 = i - 10" "\<not> i - 5 < 5" using i by presburger+
        then show ?thesis using 3 abc len by (simp add: register_cell_def nth_append)
      qed
    qed
    then show "concat (ds_registers s) ! i = ds ! i" using assms(3) i by simp
  qed
qed

text \<open>
  C21 A refresh of the panel shows what it encodes: sending the eleven relay words of fifteen
  register digits and three pairs, in any order and with any repetitions, leaves exactly these
  digits on the display, whatever it showed before, and touches neither the lamps nor the flash.
\<close>

theorem panel_refresh_shows:
  assumes "dsky_wf s" "panel_ok p" "set rows = {1 ..< 12}"
  defines "s' \<equiv> fold (\<lambda>r. dsky_write_channel 0x08 (relay_word r (row_cells p r))) rows s"
  shows "concat (ds_registers s') = pn_digits p \<and> ds_program s' = [fst (pn_program p), snd (pn_program p)]
    \<and> ds_verb s' = [fst (pn_verb p), snd (pn_verb p)] \<and> ds_noun s' = [fst (pn_noun p), snd (pn_noun p)]
    \<and> ds_lamps s' = ds_lamps s \<and> ds_flash s' = ds_flash s"
proof -
  have s': "s' = fold (send_row p) rows s" unfolding s'_def send_row_def ..
  have rows: "row_of i \<in> set rows" if "i < 15" for i using row_of_small [OF that] assms(3) by auto
  note shown = send_rows_shown [OF assms(1,2), of rows, folded s']
  have "concat (ds_registers s') = pn_digits p"
    using shown rows assms(2,3) by (intro registers_concat) (auto simp: panel_ok_def cells_ok_def)
  then show ?thesis using shown assms(3) by auto
qed

definition sample_panel :: panel where
  "sample_panel = \<lparr>pn_digits = map Some [1, 2, 3, 4, 5, 6, 7, 8, 9, 0, 1, 2, 3, 4, 5], pn_program = (Some 6, Some 3),
     pn_verb = (Some 1, Some 6), pn_noun = (Some 6, None)\<rparr>"

theorem panel_refresh_shows_witness:
  "ds_program (fold (\<lambda>r. dsky_write_channel 0x08 (relay_word r (row_cells sample_panel r))) (rev [1 ..< 12]) dsky_default)
     = [Some 6, Some 3]"
  using panel_refresh_shows [of dsky_default sample_panel "rev [1 ..< 12]"] dsky_wf_default
  by (simp add: sample_panel_def panel_ok_def cells_ok_def cell_ok_def)

end
