(* ===== verification/Rust_Text.thy ===== *)
theory Rust_Text
  imports Rust_Std "HOL-Library.Char_ord" "HOL-Library.List_Lexorder"
begin

text \<open>
  What the source-processing crates use of Rust's standard library on text: slices, searches, pieces
  and lines, signed numbers, and the components of a path.  A text is its list of characters; the
  sources are ASCII, so a character is one byte and the decoding from UTF-8 is the identity.
\<close>

section \<open>Slices and searches\<close>

text \<open>\<open>&s[a..b]\<close> panics outside the text.\<close>

definition text_slice :: "nat \<Rightarrow> nat \<Rightarrow> string \<Rightarrow> string option" where
  "text_slice a b s = (if a \<le> b \<and> b \<le> length s then Some (take (b - a) (drop a s)) else None)"

definition starts_with :: "string \<Rightarrow> string \<Rightarrow> bool" where
  "starts_with p s \<longleftrightarrow> take (length p) s = p"

definition strip_suffix :: "string \<Rightarrow> string \<Rightarrow> string option" where
  "strip_suffix p s = map_option rev (strip_prefix (rev p) (rev s))"

definition before_char :: "char \<Rightarrow> string \<Rightarrow> string" where
  "before_char c s = takeWhile (\<lambda>x. x \<noteq> c) s"

text \<open>\<open>find\<close> of a character, with the text before and after it.\<close>

definition split_once :: "char \<Rightarrow> string \<Rightarrow> (string \<times> string) option" where
  "split_once c s = (if c \<in> set s then Some (before_char c s, tl (dropWhile (\<lambda>x. x \<noteq> c) s)) else None)"

definition ascii_lower :: "char \<Rightarrow> char" where
  "ascii_lower c =
     (let d = (of_char c :: nat) in if 65 \<le> d \<and> d \<le> 90 then char_of (d + 32) else c)"

definition to_ascii_lowercase :: "string \<Rightarrow> string" where
  "to_ascii_lowercase s = map ascii_lower s"

definition is_ascii_digit :: "char \<Rightarrow> bool" where
  "is_ascii_digit c = (let d = (of_char c :: nat) in 48 \<le> d \<and> d \<le> 57)"

definition is_ascii_alphanumeric :: "char \<Rightarrow> bool" where
  "is_ascii_alphanumeric c =
     (let d = (of_char c :: nat) in 48 \<le> d \<and> d \<le> 57 \<or> 65 \<le> d \<and> d \<le> 90 \<or> 97 \<le> d \<and> d \<le> 122)"

definition is_ascii_hexdigit :: "char \<Rightarrow> bool" where
  "is_ascii_hexdigit c =
     (let d = (of_char c :: nat) in 48 \<le> d \<and> d \<le> 57 \<or> 65 \<le> d \<and> d \<le> 70 \<or> 97 \<le> d \<and> d \<le> 102)"

text \<open>An octal digit, \<open>'0'..='7'\<close>.\<close>

definition is_octal_digit :: "char \<Rightarrow> bool" where
  "is_octal_digit c = (let d = (of_char c :: nat) in 48 \<le> d \<and> d \<le> 55)"

section \<open>Pieces of a text\<close>

fun split_on :: "char \<Rightarrow> string \<Rightarrow> string list" where
  "split_on c [] = [[]]"
| "split_on c (x # xs) =
     (if x = c then [] # split_on c xs
      else case split_on c xs of p # ps \<Rightarrow> (x # p) # ps | [] \<Rightarrow> [[x]])"

fun join :: "string \<Rightarrow> string list \<Rightarrow> string" where
  "join d [] = []"
| "join d [p] = p"
| "join d (p # q # ps) = p @ d @ join d (q # ps)"

text \<open>\<open>split_inclusive\<close>: every piece but perhaps the last ends in the separator, none is empty.\<close>

fun split_inclusive :: "char \<Rightarrow> string \<Rightarrow> string list" where
  "split_inclusive c [] = []"
| "split_inclusive c (x # xs) =
     (if x = c then [x] # split_inclusive c xs
      else case split_inclusive c xs of p # ps \<Rightarrow> (x # p) # ps | [] \<Rightarrow> [[x]])"

fun split_whitespace :: "string \<Rightarrow> string list" where
  "split_whitespace [] = []"
| "split_whitespace (x # xs) =
     (if is_ascii_space x then split_whitespace xs
      else let w = takeWhile (\<lambda>y. \<not> is_ascii_space y) xs
           in (x # w) # split_whitespace (drop (length w) xs))"

text \<open>\<open>lines\<close>: without the terminators \<open>\n\<close> and \<open>\r\n\<close>.\<close>

definition text_lines :: "string \<Rightarrow> string list" where
  "text_lines s = map (\<lambda>p. case strip_suffix [CHR 0x0D, CHR 0x0A] p of
       Some l \<Rightarrow> l
     | None \<Rightarrow> (case strip_suffix [CHR 0x0A] p of Some l \<Rightarrow> l | None \<Rightarrow> p)) (split_inclusive (CHR 0x0A) s)"

section \<open>Signed numbers\<close>

text \<open>\<open>from_str_radix\<close> of a signed type with the given bounds.\<close>

definition from_str_radix_signed :: "nat \<Rightarrow> int \<Rightarrow> int \<Rightarrow> string \<Rightarrow> int option" where
  "from_str_radix_signed b lo hi s =
     (let (negative, digits) = (case s of
            [] \<Rightarrow> (False, [])
          | c # cs \<Rightarrow> if c = CHR ''-'' then (True, cs) else if c = CHR ''+'' then (False, cs) else (False, s))
      in if digits = [] then None
         else case parse_digits b 0 digits of
                None \<Rightarrow> None
              | Some n \<Rightarrow> (let v = if negative then - int n else int n
                          in if lo \<le> v \<and> v \<le> hi then Some v else None))"

section \<open>Paths\<close>

text \<open>
  \<open>Path::components\<close> on Unix: repeated separators and \<open>.\<close> are dropped, except a leading \<open>.\<close> of a
  relative path.
\<close>

datatype component = RootDir | CurDir | ParentDir | Normal string

definition path_components :: "string \<Rightarrow> component list" where
  "path_components p =
     (let pieces = split_on (CHR ''/'') p;
          rooted = starts_with ''/'' p;
          named = map (\<lambda>x. if x = ''..'' then ParentDir else Normal x) (filter (\<lambda>x. x \<noteq> [] \<and> x \<noteq> ''.'') pieces)
      in (if rooted then [RootDir] else if hd pieces = ''.'' then [CurDir] else []) @ named)"

definition component_text :: "component \<Rightarrow> string" where
  "component_text c = (case c of RootDir \<Rightarrow> ''/'' | CurDir \<Rightarrow> ''.'' | ParentDir \<Rightarrow> ''..'' | Normal x \<Rightarrow> x)"

definition is_absolute :: "string \<Rightarrow> bool" where
  "is_absolute p \<longleftrightarrow> starts_with ''/'' p"

text \<open>The name of the last component, and its part after the last dot that does not start it.\<close>

definition file_name :: "string \<Rightarrow> string option" where
  "file_name p = (case rev (path_components p) of Normal x # _ \<Rightarrow> Some x | _ \<Rightarrow> None)"

definition name_extension :: "string \<Rightarrow> string option" where
  "name_extension x =
     (let tail = takeWhile (\<lambda>c. c \<noteq> CHR ''.'') (rev x)
      in if length tail + 1 < length x then Some (rev tail) else None)"

definition path_extension :: "string \<Rightarrow> string option" where
  "path_extension p = (case file_name p of None \<Rightarrow> None | Some x \<Rightarrow> name_extension x)"

section \<open>Results\<close>

text \<open>\<open>?\<close> on a pure result.\<close>

definition bind_result :: "'e + 'a \<Rightarrow> ('a \<Rightarrow> 'e + 'b) \<Rightarrow> 'e + 'b" where
  "bind_result r f = (case r of Inl e \<Rightarrow> Inl e | Inr a \<Rightarrow> f a)"

end
