(* ===== verification/Agc_Source.thy ===== *)
theory Agc_Source
  imports Rust_Text Prelude
begin

text \<open>
  \<open>crates/agc-source\<close>: program identities, the ordered identities of sources, the walk over the
  historical corpus, and its manifest.  The file system is a tree in which every access may fail;
  the digest and the commit that git reports are arguments.
\<close>

section \<open>Programs and source identities\<close>

datatype program = Comanche055 | Luminary099

definition directory :: "program \<Rightarrow> string" where
  "directory p = (case p of Comanche055 \<Rightarrow> ''Comanche055'' | Luminary099 \<Rightarrow> ''Luminary099'')"

definition role :: "program \<Rightarrow> string" where
  "role p = (case p of
       Comanche055 \<Rightarrow> ''Apollo 11 Command Module Guidance Computer''
     | Luminary099 \<Rightarrow> ''Apollo 11 Lunar Module Guidance Computer'')"

definition program_parse :: "string \<Rightarrow> program option" where
  "program_parse input =
     (let s = filter (\<lambda>c. c \<noteq> CHR ''_'' \<and> c \<noteq> CHR ''-'') (to_ascii_lowercase input)
      in if s \<in> {''comanche055'', ''comanche'', ''cm''} then Some Comanche055
         else if s \<in> {''luminary099'', ''luminary'', ''lm''} then Some Luminary099
         else None)"

definition slash_path :: "string \<Rightarrow> string" where
  "slash_path p = join ''/'' (map component_text (path_components p))"

datatype source_id = SourceId (sid_program: program) (relative_path: string)

definition source_id_new :: "program \<Rightarrow> string \<Rightarrow> source_id" where
  "source_id_new p path = SourceId p (slash_path path)"

definition source_id_display :: "source_id \<Rightarrow> string" where
  "source_id_display i = directory (sid_program i) @ ''/'' @ relative_path i"

text \<open>The derived order: the order of declaration for programs, and then the paths by their bytes.\<close>

definition program_rank :: "program \<Rightarrow> nat" where
  "program_rank p = (case p of Comanche055 \<Rightarrow> 0 | Luminary099 \<Rightarrow> 1)"

instantiation source_id :: linorder
begin

definition less_source_id :: "source_id \<Rightarrow> source_id \<Rightarrow> bool" where
  "a < b \<longleftrightarrow> program_rank (sid_program a) < program_rank (sid_program b)
     \<or> (program_rank (sid_program a) = program_rank (sid_program b) \<and> relative_path a < relative_path b)"

definition less_eq_source_id :: "source_id \<Rightarrow> source_id \<Rightarrow> bool" where
  "a \<le> b \<longleftrightarrow> a < b \<or> a = (b :: source_id)"

instance
proof
  have rank: "program_rank p = program_rank q \<longleftrightarrow> p = q" for p q
    by (cases p; cases q) (simp_all add: program_rank_def)
  fix x y z :: source_id
  show "x < y \<longleftrightarrow> x \<le> y \<and> \<not> y \<le> x" "x \<le> x" "x \<le> y \<Longrightarrow> y \<le> z \<Longrightarrow> x \<le> z" "x \<le> y \<Longrightarrow> y \<le> x \<Longrightarrow> x = y" "x \<le> y \<or> y \<le> x"
    by (cases x; cases y; cases z; auto simp: less_source_id_def less_eq_source_id_def rank)+
qed

end

section \<open>Files\<close>

record source_file =
  sf_id :: source_id
  sf_path :: string
  sf_bytes :: string

record manifest_entry =
  mf_source :: source_id
  mf_bytes :: nat
  mf_lines :: nat
  mf_sha256 :: string

record source_manifest =
  historical_commit :: "string option"
  mf_entries :: "manifest_entry list"

text \<open>The message of a mismatch, as its format and arguments.\<close>

datatype manifest_mismatch =
    CommitDiffers "string option" "string option"
  | EntryDiffers nat manifest_entry manifest_entry
  | CountDiffers nat nat

datatype source_error = SourceIo string string | SourceUtf8 string | Integrity manifest_mismatch

text \<open>
  What the file system holds, as the walk sees it: every listing, type query and read may fail.
\<close>

datatype fs_node =
    RegularFile "string + string"
  | Directory "string + (string \<times> fs_node) list"
  | UnknownType string
  | OtherNode

definition path_join :: "string \<Rightarrow> string \<Rightarrow> string" where
  "path_join a b = (if a = [] then b else a @ ''/'' @ b)"

text \<open>The results of the entries in the order of their names; the first error ends the walk.\<close>

fun first_error :: "('e + 'a list) list \<Rightarrow> 'e + 'a list" where
  "first_error [] = Inr []"
| "first_error (r # rs) = (case r of
       Inl e \<Rightarrow> Inl e
     | Inr xs \<Rightarrow> (case first_error rs of Inl e \<Rightarrow> Inl e | Inr ys \<Rightarrow> Inr (xs @ ys)))"

primrec walk_agc :: "fs_node \<Rightarrow> program \<Rightarrow> string \<Rightarrow> string \<Rightarrow> source_error + source_file list" where
  "walk_agc (RegularFile content) p root relative =
     (if path_extension relative = Some ''agc''
      then case content of
          Inl e \<Rightarrow> Inl (SourceIo (path_join root relative) e)
        | Inr bytes \<Rightarrow> Inr [\<lparr>sf_id = source_id_new p relative, sf_path = path_join root relative, sf_bytes = bytes\<rparr>]
      else Inr [])"
| "walk_agc (Directory listing) p root relative =
     (case map_sum id (map (map_prod id walk_agc)) listing of
        Inl e \<Rightarrow> Inl (SourceIo (path_join root relative) e)
      | Inr found \<Rightarrow> first_error (map (\<lambda>(name, walk). walk p root (path_join relative name)) (sort_key fst found)))"
| "walk_agc (UnknownType e) p root relative = Inl (SourceIo (path_join root relative) e)"
| "walk_agc OtherNode p root relative = Inr []"

text \<open>A corpus is the listing of the directory of each program.\<close>

type_synonym corpus = "program \<Rightarrow> string + (string \<times> fs_node) list"

definition discover :: "corpus \<Rightarrow> source_error + source_file list" where
  "discover c =
     (case walk_agc (Directory (c Comanche055)) Comanche055 (directory Comanche055) [] of
        Inl e \<Rightarrow> Inl e
      | Inr xs \<Rightarrow> (case walk_agc (Directory (c Luminary099)) Luminary099 (directory Luminary099) [] of
          Inl e \<Rightarrow> Inl e
        | Inr ys \<Rightarrow> Inr (sort_key sf_id (xs @ ys))))"

definition logical_line_count :: "string \<Rightarrow> nat" where
  "logical_line_count bytes =
     (if bytes = [] then 0
      else length (filter (\<lambda>b. b = CHR 0x0A) bytes) + (if last bytes = CHR 0x0A then 0 else 1))"

text \<open>The digest of the library sha2 and the commit that git reports are arguments.\<close>

definition manifest_of :: "(string \<Rightarrow> string) \<Rightarrow> source_file \<Rightarrow> manifest_entry" where
  "manifest_of sha256 f = \<lparr>mf_source = sf_id f, mf_bytes = length (sf_bytes f),
     mf_lines = logical_line_count (sf_bytes f), mf_sha256 = sha256 (sf_bytes f)\<rparr>"

definition manifest :: "(string \<Rightarrow> string) \<Rightarrow> string option \<Rightarrow> corpus \<Rightarrow> source_error + source_manifest" where
  "manifest sha256 git_commit c = (case discover c of
       Inl e \<Rightarrow> Inl e
     | Inr files \<Rightarrow> Inr \<lparr>historical_commit = git_commit, mf_entries = map (manifest_of sha256) files\<rparr>)"

fun first_entry_difference :: "nat \<Rightarrow> manifest_entry list \<Rightarrow> manifest_entry list \<Rightarrow> manifest_mismatch option" where
  "first_entry_difference i (e # es) (a # as) =
     (if e \<noteq> a then Some (EntryDiffers i e a) else first_entry_difference (Suc i) es as)"
| "first_entry_difference i es as = None"

definition manifest_difference :: "source_manifest \<Rightarrow> source_manifest \<Rightarrow> manifest_mismatch" where
  "manifest_difference expected actual =
     (if historical_commit expected \<noteq> historical_commit actual
      then CommitDiffers (historical_commit expected) (historical_commit actual)
      else case first_entry_difference 0 (mf_entries expected) (mf_entries actual) of
          Some d \<Rightarrow> d
        | None \<Rightarrow> CountDiffers (length (mf_entries expected)) (length (mf_entries actual)))"

definition verify ::
  "(string \<Rightarrow> string) \<Rightarrow> string option \<Rightarrow> corpus \<Rightarrow> source_manifest \<Rightarrow> source_error + unit" where
  "verify sha256 git_commit c expected = (case manifest sha256 git_commit c of
       Inl e \<Rightarrow> Inl e
     | Inr actual \<Rightarrow> if actual = expected then Inr () else Inl (Integrity (manifest_difference expected actual)))"

end
