(* ===== verification/Agc_Parser.thy ===== *)
theory Agc_Parser
  imports Agc_Source
begin

text \<open>
  \<open>crates/agc-ast\<close> and \<open>crates/agc-parser\<close>: the syntax tree that keeps the exact text, and the
  line-by-line parser that builds it.  Positions are byte offsets.
\<close>

section \<open>The syntax tree\<close>

record span =
  span_start :: nat
  span_end :: nat

definition span_new :: "nat \<Rightarrow> nat \<Rightarrow> span" where
  "span_new a b = \<lparr>span_start = a, span_end = b\<rparr>"

record spanned_text =
  sp_text :: string
  sp_span :: span

datatype statement_kind = InstructionKind | DirectiveKind | InterpretiveKind | UnknownKind

record statement =
  st_label :: "spanned_text option"
  st_operation :: spanned_text
  st_operand :: "spanned_text option"
  st_comment :: "spanned_text option"
  st_kind :: statement_kind
  st_raw :: string

datatype line_kind =
    Blank
  | Comment spanned_text
  | PageMarker spanned_text
  | Include spanned_text "spanned_text option"
  | LabelCard spanned_text "spanned_text option" string
  | StatementLine statement

record source_line =
  ln_number :: nat
  ln_span :: span
  ln_terminator :: string
  ln_kind :: line_kind

record source_unit =
  un_source :: source_id
  un_text :: string
  un_lines :: "source_line list"

fun reconstruct_lines :: "string \<Rightarrow> source_line list \<Rightarrow> string option" where
  "reconstruct_lines text [] = Some []"
| "reconstruct_lines text (l # ls) =
     (case text_slice (span_start (ln_span l)) (span_end (ln_span l)) text of
        None \<Rightarrow> None
      | Some s \<Rightarrow> map_option (\<lambda>r. s @ ln_terminator l @ r) (reconstruct_lines text ls))"

definition reconstruct :: "source_unit \<Rightarrow> string option" where
  "reconstruct u = reconstruct_lines (un_text u) (un_lines u)"

definition statements :: "source_unit \<Rightarrow> (source_line \<times> statement) list" where
  "statements u = List.map_filter (\<lambda>l. case ln_kind l of StatementLine s \<Rightarrow> Some (l, s) | _ \<Rightarrow> None) (un_lines u)"

definition include_lines :: "source_unit \<Rightarrow> (source_line \<times> spanned_text) list" where
  "include_lines u = List.map_filter (\<lambda>l. case ln_kind l of Include p _ \<Rightarrow> Some (l, p) | _ \<Rightarrow> None) (un_lines u)"

definition labels :: "source_unit \<Rightarrow> (source_line \<times> spanned_text) list" where
  "labels u = List.map_filter (\<lambda>l. case ln_kind l of LabelCard t _ _ \<Rightarrow> Some (l, t) | _ \<Rightarrow> None) (un_lines u)"

section \<open>Diagnostics of the parser\<close>

datatype severity = Error | Warning

record parse_diagnostic =
  pd_severity :: severity
  pd_code :: string
  pd_message :: string
  pd_span :: span
  pd_line :: nat

record parse_output =
  po_unit :: source_unit
  po_diagnostics :: "parse_diagnostic list"

section \<open>Tokens of a line\<close>

definition spanned :: "string \<Rightarrow> nat \<Rightarrow> spanned_text" where
  "spanned text start = \<lparr>sp_text = text, sp_span = span_new start (start + length text)\<rparr>"

definition split_comment :: "string \<Rightarrow> nat \<Rightarrow> string \<times> spanned_text option" where
  "split_comment input base = (case split_once (CHR ''#'') input of
       None \<Rightarrow> (input, None)
     | Some (code, comment) \<Rightarrow> (code, Some (spanned comment (base + length code + 1))))"

text \<open>The scan over the characters: the position, and the field that has been started.\<close>

fun scan_fields :: "nat \<Rightarrow> (nat \<times> string) option \<Rightarrow> string \<Rightarrow> spanned_text list" where
  "scan_fields pos started [] =
     (case started of None \<Rightarrow> [] | Some (start, text) \<Rightarrow> [spanned text start])"
| "scan_fields pos started (c # cs) =
     (if is_ascii_space c
      then (case started of None \<Rightarrow> [] | Some (start, text) \<Rightarrow> [spanned text start]) @ scan_fields (Suc pos) None cs
      else scan_fields (Suc pos)
        (case started of None \<Rightarrow> Some (pos, [c]) | Some (start, text) \<Rightarrow> Some (start, text @ [c])) cs)"

definition line_fields :: "string \<Rightarrow> nat \<Rightarrow> spanned_text list" where
  "line_fields input base = scan_fields base None input"

definition operand_after :: "string \<Rightarrow> nat \<Rightarrow> nat \<Rightarrow> spanned_text option" where
  "operand_after code base operation_end =
     (let remainder = drop (operation_end - base) code;
          trimmed = trim remainder
      in if trimmed = [] then None
         else Some (spanned trimmed (operation_end + (length remainder - length (trim_start remainder)))))"

definition is_page_marker :: "string \<Rightarrow> bool" where
  "is_page_marker input \<longleftrightarrow>
     starts_with ''## Page '' input \<or> starts_with ''# Page '' input
     \<or> (8 \<le> length input \<and> list_all (\<lambda>c. c \<in> {CHR ''*'', CHR ''-'', CHR ''=''}) input)"

definition is_relative_label :: "string \<Rightarrow> bool" where
  "is_relative_label input =
     (let unsigned = (case input of c # cs \<Rightarrow> if c = CHR ''+'' \<or> c = CHR ''-'' then cs else input | [] \<Rightarrow> input)
      in unsigned \<noteq> [] \<and> list_all is_ascii_digit unsigned)"

definition BASIC_OPERATIONS :: "string list" where
  "BASIC_OPERATIONS = [
    ''AD'', ''ADS'', ''AUG'', ''BZF'', ''BZMF'', ''CA'', ''CAF'', ''CCS'', ''COM'', ''CS'', ''DAS'', ''DCA'', ''DCOM'',
    ''DCS'', ''DIM'', ''DOUBLE'', ''DV'', ''DXCH'', ''EDRUPT'', ''EXTEND'', ''INCR'', ''INDEX'', ''LXCH'', ''MASK'',
    ''MP'', ''MSU'', ''NDX'', ''NOOP'', ''OVSK'', ''QXCH'', ''RAND'', ''READ'', ''RELINT'', ''RESUME'', ''RETURN'',
    ''ROR'', ''RXOR'', ''SQUARE'', ''SU'', ''TC'', ''TCR'', ''TS'', ''WAND'', ''WOR'', ''WRITE'', ''XCH'', ''XLQ'',
    ''XXALQ'', ''ZL'', ''ZQ'']"

definition DIRECTIVES :: "string list" where
  "DIRECTIVES = [
    ''='', ''1DNADR'', ''2BCADR'', ''2CADR'', ''2DEC'', ''2OCT'', ''ADRES'', ''BANK'', ''BBCON'', ''BLOCK'', ''BNKSUM'',
    ''CADR'', ''CHECK='', ''COUNT'', ''DEC'', ''DNCHAN'', ''ECADR'', ''EQUALS'', ''ERASE'', ''GENADR'', ''INCLUDE'',
    ''MEMORY'', ''OCT'', ''REMADR'', ''SETLOC'', ''SUBRO'', ''VN'', ''XCADR'']"

definition INTERPRETIVE_OPERATIONS :: "string list" where
  "INTERPRETIVE_OPERATIONS = [
    ''ABS'', ''ACOS'', ''ARCCOS'', ''ARCSIN'', ''ASIN'', ''AXC'', ''BDDV'', ''BDDV*'', ''BDSU'', ''BMN'', ''BOF'',
    ''BOFF'', ''BON'', ''BOV'', ''BOVB'', ''BPL'', ''BZE'', ''BZE/GOTO'', ''CALL'', ''CCALL'', ''CGOTO'', ''CLEAR'',
    ''COS'', ''DAD'', ''DCOMP'', ''DDV'', ''DLOAD'', ''DMPR'', ''DMPR*'', ''DOT'', ''DSQ'', ''DSU'', ''EXIT'', ''GOTO'',
    ''INCR'', ''ITCQ'', ''LXA'', ''MXV'', ''NORM'', ''PDDL'', ''PDVL'', ''PUSH'', ''ROUND'', ''RTB'', ''SET'', ''SIGN'',
    ''SIN'', ''SL'', ''SL1'', ''SLOAD'', ''SQRT'', ''SR'', ''SR1'', ''STADR'', ''STCALL'', ''STODL'', ''STORE'', ''STOVL'',
    ''STQ'', ''TAD'', ''TIX'', ''TLOAD'', ''TP'', ''TSLC'', ''V/SC'', ''VAD'', ''VCOMP'', ''VDEF'', ''VLOAD'', ''VPROJ'',
    ''VSL'', ''VSR'', ''VSQ'', ''VSU'', ''VXV'', ''VXSC'', ''XAD'']"

definition statement_kind_of :: "string \<Rightarrow> statement_kind" where
  "statement_kind_of operation =
     (let upper = to_ascii_uppercase (trim_end_matches (CHR ''*'') operation)
      in if upper \<in> set BASIC_OPERATIONS then InstructionKind
         else if upper \<in> set DIRECTIVES then DirectiveKind
         else if upper \<in> set INTERPRETIVE_OPERATIONS then InterpretiveKind
         else UnknownKind)"

definition is_known_operation :: "string \<Rightarrow> bool" where
  "is_known_operation operation \<longleftrightarrow> statement_kind_of operation \<noteq> UnknownKind"

text \<open>The position of the label, if there is one, and of the operation.\<close>

definition classify_fields :: "spanned_text list \<Rightarrow> bool \<Rightarrow> nat option \<times> nat" where
  "classify_fields fs starts_in_column_zero =
     (if starts_in_column_zero
         \<or> (2 \<le> length fs \<and> is_relative_label (sp_text (fs ! 0)) \<and> is_known_operation (sp_text (fs ! 1)))
      then (Some 0, 1) else (None, 0))"

definition is_blank_char :: "char \<Rightarrow> bool" where
  "is_blank_char c \<longleftrightarrow> c = CHR '' '' \<or> c = CHR 0x09"

definition missing_path :: "nat \<Rightarrow> nat \<Rightarrow> nat \<Rightarrow> parse_diagnostic" where
  "missing_path start len line = \<lparr>pd_severity = Error, pd_code = ''AGCP001'',
     pd_message = ''include directive has no path'', pd_span = span_new start (start + len), pd_line = line\<rparr>"

definition parse_include :: "string \<Rightarrow> nat \<Rightarrow> nat \<Rightarrow> line_kind \<times> parse_diagnostic list" where
  "parse_include directive include_base line =
     (let (body, comment) = split_comment directive include_base;
          path = trim body;
          path_start = include_base + (length body - length (trim_start body))
      in (Include (spanned path path_start) comment,
          if path = [] then [missing_path include_base (length directive) line] else []))"

definition parse_statement :: "string \<Rightarrow> nat \<Rightarrow> line_kind" where
  "parse_statement raw base =
     (let (code, comment) = split_comment raw base;
          fs = line_fields code base
      in if fs = [] then Comment (case comment of Some t \<Rightarrow> t | None \<Rightarrow> spanned [] (base + length raw))
         else let (label_index, operation_index) = classify_fields fs (\<not> is_blank_char (hd raw))
              in if \<not> operation_index < length fs then LabelCard (fs ! 0) comment raw
                 else let operation = fs ! operation_index
                      in StatementLine
                        \<lparr>st_label = map_option (\<lambda>i. fs ! i) label_index, st_operation = operation,
                         st_operand = operand_after code base (span_end (sp_span operation)),
                         st_comment = comment, st_kind = statement_kind_of (sp_text operation), st_raw = raw\<rparr>)"

definition parse_line :: "string \<Rightarrow> nat \<Rightarrow> nat \<Rightarrow> line_kind \<times> parse_diagnostic list" where
  "parse_line raw base line =
     (let trimmed = dropWhile is_blank_char raw;
          leading = length raw - length trimmed
      in case trimmed of
           [] \<Rightarrow> (Blank, [])
         | c # rest \<Rightarrow>
             if is_page_marker trimmed then (PageMarker (spanned trimmed (base + leading)), [])
             else if c = CHR ''#'' then (Comment (spanned rest (base + leading + 1)), [])
             else if c = CHR ''$'' then parse_include rest (base + leading + 1) line
             else (parse_statement raw base, []))"

section \<open>The lines of a text\<close>

text \<open>One turn of the loop: the line without its terminator, the terminator, and the length consumed.\<close>

definition next_line :: "string \<Rightarrow> string \<times> string \<times> nat" where
  "next_line rest =
     (let physical = before_char (CHR 0x0A) rest;
          terminated = CHR 0x0A \<in> set rest;
          content = (if physical \<noteq> [] \<and> last physical = CHR 0x0D then butlast physical else physical);
          terminator = (if terminated then (if length content < length physical then [CHR 0x0D, CHR 0x0A] else [CHR 0x0A]) else [])
      in (content, terminator, length physical + (if terminated then 1 else 0)))"

lemma next_line_shrinks:
  assumes "rest \<noteq> []" "(content, terminator, consumed) = next_line rest"
  shows "length (drop consumed rest) < length rest"
proof -
  have "0 < consumed" using assms by (cases rest) (auto simp: next_line_def Let_def before_char_def split: if_splits)
  then show ?thesis using assms(1) by simp
qed

text \<open>The loop of \<open>parse_str\<close> on what is left of the text from the offset on.\<close>

function parse_lines :: "string \<Rightarrow> nat \<Rightarrow> nat \<Rightarrow> source_line list \<times> parse_diagnostic list" where
  "parse_lines rest offset line_number =
     (if rest = [] then ([], [])
      else let (content, terminator, consumed) = next_line rest;
               (kind, diagnostics) = parse_line content offset line_number;
               (ls, ds) = parse_lines (drop consumed rest) (offset + consumed) (Suc line_number)
           in (\<lparr>ln_number = line_number, ln_span = span_new offset (offset + length content),
                ln_terminator = terminator, ln_kind = kind\<rparr> # ls, diagnostics @ ds))"
  by auto
termination
proof (relation "measure (\<lambda>(rest, _, _). length rest)", goal_cases)
  case 1
  show ?case by simp
next
  case (2 rest offset line_number x content y terminator consumed)
  then show ?case using next_line_shrinks [of rest content terminator consumed] by simp
qed

declare parse_lines.simps [simp del]

definition parse_output_of :: "source_id \<Rightarrow> string \<Rightarrow> parse_output" where
  "parse_output_of source text =
     (let (ls, ds) = parse_lines text 0 1
      in \<lparr>po_unit = \<lparr>un_source = source, un_text = text, un_lines = ls\<rparr>, po_diagnostics = ds\<rparr>)"

text \<open>The assertion at the end panics in a build with debug assertions.\<close>

definition parse_str :: "source_id \<Rightarrow> string \<Rightarrow> parse_output option" where
  "parse_str source text =
     (let out = parse_output_of source text
      in if reconstruct (po_unit out) = Some text then Some out else None)"

end
