(* ===== verification/Agc_Parser_Laws.thy ===== *)
theory Agc_Parser_Laws
  imports Agc_Parser
begin

text \<open>
  Laws of the parser: its lines join up to the text again, except for a final carriage return, and
  every token is the text at its span.
\<close>

section \<open>Lines and their text\<close>

lemma before_char_split: "c \<in> set s \<Longrightarrow> \<exists>rest. s = before_char c s @ c # rest"
proof -
  assume "c \<in> set s"
  then obtain ys zs where "s = ys @ c # zs" "c \<notin> set ys" by (blast dest: split_list_first)
  then show ?thesis by (auto simp: before_char_def takeWhile_append)
qed

lemma before_char_all: "c \<notin> set s \<Longrightarrow> before_char c s = s"
  by (auto simp: before_char_def takeWhile_eq_all_conv)

lemma next_line_terminated:
  assumes "CHR 0x0A \<in> set rest" "next_line rest = (content, terminator, consumed)"
  shows "rest = content @ terminator @ drop consumed rest" "consumed = length content + length terminator"
    "terminator \<noteq> []" "last terminator = CHR 0x0A"
proof -
  obtain p post where rest: "rest = p @ CHR 0x0A # post" and p: "before_char (CHR 0x0A) rest = p"
    using before_char_split [OF assms(1)] by blast
  have c: "consumed = length p + 1" using assms p by (simp add: next_line_def Let_def)
  then have post: "drop consumed rest = post" by (simp add: rest)
  have "(content = p \<and> terminator = [CHR 0x0A]) \<or> (p = content @ [CHR 0x0D] \<and> terminator = [CHR 0x0D, CHR 0x0A])"
  proof (cases "p \<noteq> [] \<and> last p = CHR 0x0D")
    case True
    then have "content = butlast p" "terminator = [CHR 0x0D, CHR 0x0A]" using assms p by (simp_all add: next_line_def Let_def)
    then show ?thesis using True by (metis append_butlast_last_id)
  next
    case False
    then show ?thesis using assms p by (auto simp: next_line_def Let_def)
  qed
  then show "rest = content @ terminator @ drop consumed rest" "consumed = length content + length terminator"
    "terminator \<noteq> []" "last terminator = CHR 0x0A"
    using rest post c by auto
qed

lemma next_line_final:
  assumes "CHR 0x0A \<notin> set rest" "rest \<noteq> []" "next_line rest = (content, terminator, consumed)"
  shows "terminator = []" "consumed = length rest" "content = (if last rest = CHR 0x0D then butlast rest else rest)"
  using assms by (auto simp: next_line_def Let_def before_char_all)

lemma parse_lines_step:
  assumes "rest \<noteq> []" "next_line rest = (content, terminator, consumed)"
    "parse_line content offset n = (kind, ds)" "parse_lines (drop consumed rest) (offset + consumed) (Suc n) = (ls, es)"
  shows "parse_lines rest offset n = (\<lparr>ln_number = n, ln_span = span_new offset (offset + length content),
     ln_terminator = terminator, ln_kind = kind\<rparr> # ls, ds @ es)"
  using assms by (subst parse_lines.simps) simp

text \<open>An unterminated last line that ends in a carriage return loses it.\<close>

definition kept_text :: "string \<Rightarrow> string" where
  "kept_text rest = (if rest \<noteq> [] \<and> last rest = CHR 0x0D then butlast rest else rest)"

lemma text_slice_at: "text_slice (length a) (length a + length s) (a @ s @ b) = Some s"
  by (simp add: text_slice_def)

lemma reconstruct_parse_lines:
  "fst (parse_lines rest (length pre) n) = ls \<Longrightarrow> reconstruct_lines (pre @ rest) ls = Some (kept_text rest)"
proof (induction "length rest" arbitrary: rest pre n ls rule: less_induct)
  case less
  show ?case
  proof (cases "rest = []")
    case True
    then show ?thesis using less.prems by (simp add: parse_lines.simps kept_text_def)
  next
    case False
    obtain content terminator consumed where nl: "next_line rest = (content, terminator, consumed)" by (metis prod_cases3)
    obtain kind ds where pl: "parse_line content (length pre) n = (kind, ds)" by (metis prod.exhaust)
    obtain ls' es where tail: "parse_lines (drop consumed rest) (length pre + consumed) (Suc n) = (ls', es)" by (metis prod.exhaust)
    have ls: "ls = \<lparr>ln_number = n, ln_span = span_new (length pre) (length pre + length content),
        ln_terminator = terminator, ln_kind = kind\<rparr> # ls'"
      using less.prems parse_lines_step [OF False nl pl tail] by simp
    show ?thesis
    proof (cases "CHR 0x0A \<in> set rest")
      case True
      obtain more where more: "drop consumed rest = more" by blast
      note parts = next_line_terminated [OF True nl, unfolded more]
      let ?line = "content @ terminator"
      have "length more < length rest" using next_line_shrinks [OF False nl [symmetric]] more by simp
      moreover have "length (pre @ ?line) = length pre + consumed" using parts(2) by simp
      ultimately have "reconstruct_lines ((pre @ ?line) @ more) ls' = Some (kept_text more)"
        using less.hyps [of more "pre @ ?line" "Suc n" ls'] tail more by simp
      then have tail': "reconstruct_lines (pre @ rest) ls' = Some (kept_text more)" using parts(1) by simp
      have "text_slice (length pre) (length pre + length content) (pre @ rest) = Some content"
        using text_slice_at [of pre content "terminator @ more"] parts(1) by simp
      moreover have "kept_text rest = content @ terminator @ kept_text more"
      proof (cases "more = []")
        case True
        then have "rest = content @ terminator" using parts(1) by simp
        then show ?thesis using parts(3,4) True by (auto simp: kept_text_def)
      next
        case False
        then show ?thesis unfolding kept_text_def parts(1) using False by (simp add: butlast_append)
      qed
      ultimately show ?thesis using tail' by (simp add: ls span_new_def)
    next
      case no: False
      note parts = next_line_final [OF no False nl]
      have "ls' = []" using tail parts(2) by (simp add: parse_lines.simps)
      moreover have "text_slice (length pre) (length pre + length content) (pre @ rest) = Some content"
        using text_slice_at [of pre content "drop (length content) rest"] parts(3) False
        by (metis append_butlast_last_id append_eq_conv_conj append_Nil2)
      ultimately show ?thesis using parts False by (simp add: ls span_new_def kept_text_def)
    qed
  qed
qed

lemma reconstruct_output: "reconstruct (po_unit (parse_output_of src text)) = Some (kept_text text)"
  using reconstruct_parse_lines [of "text" "[]" 1]
  by (cases "parse_lines text 0 1") (simp add: parse_output_of_def reconstruct_def)

lemma kept_text_same: "kept_text text = text \<longleftrightarrow> text = [] \<or> last text \<noteq> CHR 0x0D"
  by (auto simp: kept_text_def) (metis append_butlast_last_id append_self_conv not_Cons_self2)

text \<open>
  C22 Parsing keeps the text: the lines of every text that does not end in a carriage return join
  up to the text again, byte for byte.  A text whose last line is unterminated and ends in a
  carriage return loses that byte, and the assertion at the end of the parser panics.
\<close>

theorem parse_reconstructs:
  "reconstruct (po_unit (parse_output_of src text))
     = Some (if text \<noteq> [] \<and> last text = CHR 0x0D then butlast text else text)
   \<and> (parse_str src text = None \<longleftrightarrow> text \<noteq> [] \<and> last text = CHR 0x0D)"
  using kept_text_same [of "text"] by (auto simp: reconstruct_output kept_text_def parse_str_def Let_def)

section \<open>Spans\<close>

text \<open>The tokens a line keeps.\<close>

fun option_tokens :: "spanned_text option \<Rightarrow> spanned_text list" where
  "option_tokens None = []"
| "option_tokens (Some t) = [t]"

fun tokens :: "line_kind \<Rightarrow> spanned_text list" where
  "tokens Blank = []"
| "tokens (Comment t) = [t]"
| "tokens (PageMarker t) = [t]"
| "tokens (Include p c) = p # option_tokens c"
| "tokens (LabelCard l c r) = l # option_tokens c"
| "tokens (StatementLine s) = option_tokens (st_label s) @ st_operation s # option_tokens (st_operand s) @ option_tokens (st_comment s)"

text \<open>A token of a piece of text that starts at a position.\<close>

definition token_in :: "string \<Rightarrow> nat \<Rightarrow> spanned_text \<Rightarrow> bool" where
  "token_in piece base t \<longleftrightarrow> (\<exists>a b. piece = a @ sp_text t @ b \<and> t = spanned (sp_text t) (base + length a))"

lemma token_inI: "piece = a @ x @ b \<Longrightarrow> token_in piece base (spanned x (base + length a))"
  by (auto simp: token_in_def spanned_def)

lemma token_in_wider: "token_in piece (base + length pre) t \<Longrightarrow> token_in (pre @ piece @ post) base t"
  unfolding token_in_def by (metis append.assoc add.assoc length_append)

lemma token_in_prefix: "token_in piece base t \<Longrightarrow> token_in (piece @ post) base t"
  using token_in_wider [of piece base "[]"] by simp

lemma token_in_slice:
  assumes "token_in piece (length pre) t"
  shows "text_slice (span_start (sp_span t)) (span_end (sp_span t)) (pre @ piece @ post) = Some (sp_text t)"
proof -
  obtain a b where "piece = a @ sp_text t @ b" and t: "t = spanned (sp_text t) (length pre + length a)"
    using assms by (auto simp: token_in_def)
  then have "pre @ piece @ post = (pre @ a) @ sp_text t @ (b @ post)" by simp
  moreover have "sp_span t = span_new (length (pre @ a)) (length (pre @ a) + length (sp_text t))"
    by (subst t) (simp add: spanned_def)
  ultimately show ?thesis by (simp only: text_slice_at span_new_def span.simps)
qed

lemma trim_pieces: "\<exists>b. s = take (length s - length (trim_start s)) s @ trim s @ b"
proof -
  have start: "s = takeWhile is_ascii_space s @ trim_start s" by (simp add: trim_start_def)
  then have "length s = length (takeWhile is_ascii_space s) + length (trim_start s)" by (metis length_append)
  then have "take (length s - length (trim_start s)) s = takeWhile is_ascii_space s"
    by (metis add_diff_cancel_right' append_eq_conv_conj start)
  moreover have "\<exists>b. trim_start s = trim s @ b"
    unfolding trim_def trim_start_def
    by (metis rev_append rev_rev_ident takeWhile_dropWhile_id)
  ultimately show ?thesis using start by metis
qed

lemma trimmed_token: "token_in s base (spanned (trim s) (base + (length s - length (trim_start s))))"
proof -
  obtain b where s: "s = take (length s - length (trim_start s)) s @ trim s @ b" using trim_pieces by blast
  show ?thesis using token_inI [OF s, of base] by simp
qed

lemma split_comment_pieces:
  assumes "split_comment input base = (code, comment)"
  shows "\<exists>post. input = code @ post" "t \<in> set (option_tokens comment) \<Longrightarrow> token_in input base t"
proof -
  show "\<exists>post. input = code @ post"
    using assms by (auto simp: split_comment_def split_once_def before_char_def split: if_splits) (metis takeWhile_dropWhile_id)
  assume t: "t \<in> set (option_tokens comment)"
  then have hash: "CHR ''#'' \<in> set input" using assms by (auto simp: split_comment_def split_once_def split: if_splits)
  then obtain rest where rest: "input = before_char (CHR ''#'') input @ CHR ''#'' # rest" using before_char_split by blast
  then have "tl (dropWhile (\<lambda>x. x \<noteq> CHR ''#'') input) = rest"
    unfolding before_char_def by (metis append_same_eq list.sel(3) same_append_eq takeWhile_dropWhile_id)
  then have "comment = Some (spanned rest (base + length (before_char (CHR ''#'') input) + 1))"
    using assms hash by (auto simp: split_comment_def split_once_def)
  moreover have "input = (before_char (CHR ''#'') input @ [CHR ''#'']) @ rest @ []" using rest by simp
  ultimately show "token_in input base t"
    using t token_inI [of input "before_char (CHR ''#'') input @ [CHR ''#'']" rest "[]" base] by simp
qed

lemma scan_fields_tokens:
  assumes "t \<in> set (scan_fields (base + length done) started rest)"
    "case started of None \<Rightarrow> True | Some (start, x) \<Rightarrow> (\<exists>a. done = a @ x \<and> start = base + length a)"
  shows "token_in (done @ rest) base t"
  using assms
proof (induction rest arbitrary: "done" started)
  case Nil
  then show ?case using token_inI [of "done" _ _ "[]" base] by (auto split: option.splits)
next
  case (Cons c cs)
  have step: "base + length (done @ [c]) = Suc (base + length done)" by simp
  show ?case
  proof (cases "is_ascii_space c")
    case True
    then consider "t \<in> set (scan_fields (base + length (done @ [c])) None cs)"
      | start x where "started = Some (start, x)" "t = spanned x start"
      using Cons.prems(1) step by (auto split: option.splits)
    then show ?thesis
    proof cases
      case 1
      then show ?thesis using Cons.IH [of "done @ [c]" None] by simp
    next
      case 2
      then obtain a where "done = a @ x" "start = base + length a" using Cons.prems(2) by auto
      then show ?thesis using 2 token_inI [of "done @ c # cs" a x "c # cs" base] by simp
    qed
  next
    case False
    let ?started = "case started of None \<Rightarrow> Some (base + length done, [c]) | Some (start, x) \<Rightarrow> Some (start, x @ [c])"
    have "t \<in> set (scan_fields (base + length (done @ [c])) ?started cs)"
      using Cons.prems(1) False step by simp
    moreover have "case ?started of None \<Rightarrow> True | Some (start, x) \<Rightarrow> (\<exists>a. done @ [c] = a @ x \<and> start = base + length a)"
      using Cons.prems(2) by (auto split: option.splits)
    ultimately show ?thesis using Cons.IH [of "done @ [c]"] by simp
  qed
qed

lemma fields_tokens: "t \<in> set (line_fields code base) \<Longrightarrow> token_in code base t"
  using scan_fields_tokens [of t base "[]" None code] by (simp add: line_fields_def)

lemma operand_token:
  assumes "token_in code base op" "operand_after code base (span_end (sp_span op)) = Some t"
  shows "token_in code base t"
proof -
  obtain a b where code: "code = a @ sp_text op @ b" and op: "op = spanned (sp_text op) (base + length a)"
    using assms(1) by (auto simp: token_in_def)
  have e: "span_end (sp_span op) = base + length (a @ sp_text op)" by (subst op) (simp add: spanned_def span_new_def)
  have "drop (span_end (sp_span op) - base) code = b" unfolding e by (simp add: code)
  then have "t = spanned (trim b) (base + length (a @ sp_text op) + (length b - length (trim_start b)))"
    using assms(2) by (auto simp: operand_after_def Let_def e split: if_splits)
  then have "token_in b (base + length (a @ sp_text op)) t" using trimmed_token by simp
  from token_in_wider [OF this, of "[]"] show ?thesis by (simp add: code)
qed

lemma classify_label: "fst (classify_fields fs b) = None \<or> fst (classify_fields fs b) = Some 0"
  by (simp add: classify_fields_def)

lemma parse_statement_tokens:
  assumes "t \<in> set (tokens (parse_statement raw base))"
  shows "token_in raw base t"
proof -
  obtain code comment where split: "split_comment raw base = (code, comment)" by (metis prod.exhaust)
  obtain post where raw: "raw = code @ post" using split_comment_pieces(1) [OF split] by blast
  have com: "token_in raw base t" if "t \<in> set (option_tokens comment)" using split_comment_pieces(2) [OF split that] .
  have field: "token_in raw base x" if "x \<in> set (line_fields code base)" for x
    using token_in_prefix [OF fields_tokens [OF that]] raw by simp
  have operand: "token_in raw base t" if "x \<in> set (line_fields code base)" "operand_after code base (span_end (sp_span x)) = Some t" for x
    using token_in_prefix [OF operand_token [OF fields_tokens [OF that(1)] that(2)]] raw by simp
  have ending: "token_in raw base (spanned [] (base + length raw))" using token_inI [of raw raw "[]" "[]" base] by simp
  show ?thesis
  proof (cases "line_fields code base = []")
    case True
    then show ?thesis using assms com ending split by (auto simp: parse_statement_def split: option.splits)
  next
    case False
    let ?fs = "line_fields code base"
    have nth: "?fs ! i \<in> set ?fs" if "i < length ?fs" for i using that by simp
    have first: "?fs ! 0 \<in> set ?fs" using False by simp
    obtain li oi where cl: "classify_fields ?fs (\<not> is_blank_char (hd raw)) = (li, oi)" by (metis prod.exhaust)
    have li: "li = None \<or> li = Some 0" using classify_label [of ?fs "\<not> is_blank_char (hd raw)"] cl by simp
    show ?thesis
    proof (cases "oi < length ?fs")
      case True
      have "t \<in> set (option_tokens (map_option ((!) ?fs) li)) \<or> t = ?fs ! oi
          \<or> operand_after code base (span_end (sp_span (?fs ! oi))) = Some t \<or> t \<in> set (option_tokens comment)"
        using assms True False split cl
        by (cases "operand_after code base (span_end (sp_span (?fs ! oi)))") (auto simp: parse_statement_def Let_def)
      moreover have "t = ?fs ! 0" if "t \<in> set (option_tokens (map_option ((!) ?fs) li))"
        using that li by auto
      ultimately show ?thesis using field [OF first] field [OF nth [OF True]] operand [OF nth [OF True]] com by blast
    next
      case no: False
      then have "t = ?fs ! 0 \<or> t \<in> set (option_tokens comment)"
        using assms False split cl by (auto simp: parse_statement_def Let_def)
      then show ?thesis using field [OF first] com by blast
    qed
  qed
qed

lemma parse_line_tokens:
  assumes "t \<in> set (tokens (fst (parse_line raw base n)))"
  shows "token_in raw base t"
proof -
  let ?trimmed = "dropWhile is_blank_char raw"
  let ?pre = "takeWhile is_blank_char raw"
  have raw: "raw = ?pre @ ?trimmed" by simp
  have leading: "length raw - length ?trimmed = length ?pre" by (metis add_diff_cancel_right' length_append raw)
  show ?thesis
  proof (cases ?trimmed)
    case Nil
    then show ?thesis using assms unfolding parse_line_def Let_def Nil by simp
  next
    case (Cons c rest)
    have marker: "token_in raw base (spanned ?trimmed (base + length ?pre))"
      using token_inI [of raw ?pre ?trimmed "[]" base] by simp
    have raw': "raw = (?pre @ [c]) @ rest @ []" using raw Cons by simp
    have after: "token_in raw base x" if "token_in rest (base + length (?pre @ [c])) x" for x
      using token_in_wider [OF that, of "[]"] raw' by simp
    have path: "token_in rest b t" if "t \<in> set (tokens (fst (parse_include rest b n)))" for b
    proof -
      obtain body comment where split: "split_comment rest b = (body, comment)" by (metis prod.exhaust)
      obtain post where body: "rest = body @ post" using split_comment_pieces(1) [OF split] by blast
      have "t = spanned (trim body) (b + (length body - length (trim_start body))) \<or> t \<in> set (option_tokens comment)"
        using that split by (simp add: parse_include_def Let_def)
      then show ?thesis
        using split_comment_pieces(2) [OF split] token_in_prefix [OF trimmed_token [of body b], of post] body by auto
    qed
    consider "is_page_marker ?trimmed" | "\<not> is_page_marker ?trimmed" "c = CHR ''#''"
      | "\<not> is_page_marker ?trimmed" "c = CHR ''$''"
      | "\<not> is_page_marker ?trimmed" "c \<noteq> CHR ''#''" "c \<noteq> CHR ''$''" by blast
    then show ?thesis
    proof cases
      case 1
      then show ?thesis using assms Cons marker leading by (simp add: parse_line_def Let_def)
    next
      case 2
      then have "t = spanned rest (base + length (?pre @ [c]))" using assms Cons leading by (simp add: parse_line_def Let_def)
      then show ?thesis using token_inI [OF raw', of base] by simp
    next
      case 3
      then have "t \<in> set (tokens (fst (parse_include rest (base + length (?pre @ [c])) n)))"
        using assms Cons leading by (simp add: parse_line_def Let_def)
      then show ?thesis using path after by blast
    next
      case 4
      then have "t \<in> set (tokens (parse_statement raw base))" using assms Cons by (simp add: parse_line_def Let_def)
      then show ?thesis by (rule parse_statement_tokens)
    qed
  qed
qed

text \<open>What holds of every line of the tail of a text holds of the parsed lines.\<close>

definition line_exact :: "string \<Rightarrow> source_line \<Rightarrow> bool" where
  "line_exact whole l \<longleftrightarrow>
     (\<forall>t \<in> set (tokens (ln_kind l)).
        text_slice (span_start (sp_span t)) (span_end (sp_span t)) whole = Some (sp_text t)
        \<and> span_start (ln_span l) \<le> span_start (sp_span t) \<and> span_end (sp_span t) \<le> span_end (ln_span l))"

lemma token_in_line:
  assumes "token_in content (length pre) t"
  shows "length pre \<le> span_start (sp_span t) \<and> span_end (sp_span t) \<le> length pre + length content"
proof -
  obtain a b where "content = a @ sp_text t @ b" and t: "t = spanned (sp_text t) (length pre + length a)"
    using assms by (auto simp: token_in_def)
  moreover have "sp_span t = span_new (length pre + length a) (length pre + length a + length (sp_text t))"
    by (subst t) (simp add: spanned_def)
  ultimately show ?thesis by (simp add: span_new_def)
qed

lemma next_line_content:
  assumes "rest \<noteq> []" "next_line rest = (content, terminator, consumed)"
  shows "\<exists>post. rest = content @ post"
proof (cases "CHR 0x0A \<in> set rest")
  case True
  then show ?thesis using next_line_terminated(1) [OF True assms(2)] by blast
next
  case False
  then show ?thesis using next_line_final(3) [OF False assms] by (metis append_Nil2 append_butlast_last_id assms(1))
qed

lemma next_line_bound:
  assumes "rest \<noteq> []" "next_line rest = (content, terminator, consumed)"
  shows "consumed \<le> length rest"
proof (cases "CHR 0x0A \<in> set rest")
  case True
  then obtain p post where "rest = p @ CHR 0x0A # post" "before_char (CHR 0x0A) rest = p" using before_char_split by blast
  then show ?thesis using assms(2) by (auto simp: next_line_def Let_def)
next
  case False
  then show ?thesis using next_line_final(2) [OF False assms] by simp
qed

lemma parse_lines_exact:
  "fst (parse_lines rest (length pre) n) = ls \<Longrightarrow> \<forall>l \<in> set ls. line_exact (pre @ rest) l"
proof (induction "length rest" arbitrary: rest pre n ls rule: less_induct)
  case less
  show ?case
  proof (cases "rest = []")
    case True
    then show ?thesis using less.prems by (simp add: parse_lines.simps)
  next
    case False
    obtain content terminator consumed where nl: "next_line rest = (content, terminator, consumed)" by (metis prod_cases3)
    obtain kind ds where pl: "parse_line content (length pre) n = (kind, ds)" by (metis prod.exhaust)
    obtain ls' es where tail: "parse_lines (drop consumed rest) (length pre + consumed) (Suc n) = (ls', es)" by (metis prod.exhaust)
    let ?l = "\<lparr>ln_number = n, ln_span = span_new (length pre) (length pre + length content),
        ln_terminator = terminator, ln_kind = kind\<rparr>"
    have ls: "ls = ?l # ls'" using less.prems parse_lines_step [OF False nl pl tail] by simp
    obtain post where post: "rest = content @ post" using next_line_content [OF False nl] by blast
    have "line_exact (pre @ rest) ?l"
      unfolding line_exact_def
    proof
      fix t
      assume "t \<in> set (tokens (ln_kind ?l))"
      then have "token_in content (length pre) t" using parse_line_tokens [of t content "length pre" n] pl by simp
      then show "text_slice (span_start (sp_span t)) (span_end (sp_span t)) (pre @ rest) = Some (sp_text t)
        \<and> span_start (ln_span ?l) \<le> span_start (sp_span t) \<and> span_end (sp_span t) \<le> span_end (ln_span ?l)"
        using token_in_slice [of content pre t post] token_in_line [of content pre t] post by (simp add: span_new_def)
    qed
    moreover have "\<forall>l \<in> set ls'. line_exact (pre @ rest) l"
    proof -
      have short: "length (drop consumed rest) < length rest" using next_line_shrinks [OF False nl [symmetric]] .
      have "consumed \<le> length rest" using next_line_bound [OF False nl] .
      then have "length (pre @ take consumed rest) = length pre + consumed" by simp
      then show ?thesis
        using less.hyps [OF short, of "pre @ take consumed rest" "Suc n" ls'] tail by simp
    qed
    ultimately show ?thesis by (simp add: ls)
  qed
qed

text \<open>
  C23 Every token of a parsed text is the text at its span: the labels, operations, operands,
  comments, include paths and page markers carry exactly the bytes between their positions, and
  lie within the span of their line.
\<close>

theorem parsed_tokens_exact:
  "list_all (line_exact text) (un_lines (po_unit (parse_output_of src text)))"
proof -
  have "\<forall>l \<in> set (fst (parse_lines text 0 1)). line_exact text l" using parse_lines_exact [of "text" "[]" 1] by simp
  then show ?thesis by (cases "parse_lines text 0 1") (simp add: parse_output_of_def list_all_iff)
qed

end
