(* ===== verification/Agc_Symbols.thy ===== *)
theory Agc_Symbols
  imports Agc_Parser Agc_Word
begin

text \<open>
  \<open>crates/agc-ir\<close> and \<open>crates/agc-symbols\<close>: the records of the intermediate representation, the
  parser of operand fields, and the symbol table.
\<close>

section \<open>Records\<close>

record source_location =
  loc_file :: string
  loc_line :: nat
  loc_span :: span

datatype operand =
    NoOperand
  | LiteralOperand int
  | SymbolOperand string int
  | ExpressionOperand string

record ir_record =
  ir_location :: source_location
  ir_label :: "string option"
  ir_operation :: string
  ir_operand :: operand
  ir_kind :: statement_kind
  ir_bank :: "u8 option"
  ir_offset :: "u16 option"
  ir_word :: "agc_word option"

record program_ir =
  pi_program :: string
  pi_records :: "ir_record list"
  pi_hashes :: "(string \<times> string) list"

definition emitted_word :: "ir_record \<Rightarrow> (u8 \<times> u16 \<times> agc_word) option" where
  "emitted_word r = (case (ir_bank r, ir_offset r, ir_word r) of
       (Some b, Some offset, Some w) \<Rightarrow> Some (b, offset, w) | _ \<Rightarrow> None)"

definition emitted_words :: "program_ir \<Rightarrow> (u8 \<times> u16 \<times> agc_word) list" where
  "emitted_words p = List.map_filter emitted_word (pi_records p)"

section \<open>Operands\<close>

definition I64_LOW :: int where "I64_LOW = -9223372036854775808"
definition I64_HIGH :: int where "I64_HIGH = 9223372036854775807"
definition I32_LOW :: int where "I32_LOW = -2147483648"
definition I32_HIGH :: int where "I32_HIGH = 2147483647"

text \<open>A checked result in \<open>i64\<close>; leaving the type panics.\<close>

definition in_i64 :: "int \<Rightarrow> int option" where
  "in_i64 v = (if I64_LOW \<le> v \<and> v \<le> I64_HIGH then Some v else None)"

definition strip_minus :: "string \<Rightarrow> bool \<times> string" where
  "strip_minus input = (case strip_prefix ''-'' input of Some digits \<Rightarrow> (True, digits) | None \<Rightarrow> (False, input))"

text \<open>
  The value of the digits with the sign that was stripped: \<open>None\<close> where there is no number, and a
  panic (the outer \<open>None\<close>) where the negation overflows.
\<close>

definition signed_radix :: "bool \<Rightarrow> nat \<Rightarrow> string \<Rightarrow> int option option" where
  "signed_radix negative radix digits = (case from_str_radix_signed radix I64_LOW I64_HIGH digits of
       None \<Rightarrow> Some None
     | Some v \<Rightarrow> if negative then map_option Some (in_i64 (- v)) else Some (Some v))"

definition parse_number :: "string \<Rightarrow> int option option" where
  "parse_number input =
     (let (negative, digits) = strip_minus input
      in case strip_prefix ''0o'' digits of
           Some octal \<Rightarrow> signed_radix negative 8 octal
         | None \<Rightarrow> (case strip_suffix ''D'' digits of
             Some decimal \<Rightarrow> signed_radix negative 10 decimal
           | None \<Rightarrow> if list_all is_octal_digit digits then signed_radix negative 8 digits else Some None))"

text \<open>The last sign that does not start the text, and the number behind it.\<close>

definition split_symbol_offset :: "string \<Rightarrow> (string \<times> int) option" where
  "split_symbol_offset input =
     (let digits = rev (takeWhile (\<lambda>c. c \<noteq> CHR ''+'' \<and> c \<noteq> CHR ''-'') (rev input));
          name_and_sign = take (length input - length digits) input
      in if length name_and_sign < 2 then None
         else (case from_str_radix_signed 10 I32_LOW I32_HIGH digits of
             None \<Rightarrow> None
           | Some offset \<Rightarrow> Some (butlast name_and_sign, if last name_and_sign = CHR ''-'' then - offset else offset)))"

definition is_symbol_char :: "char \<Rightarrow> bool" where
  "is_symbol_char c \<longleftrightarrow> is_ascii_alphanumeric c \<or> c \<in> set ''_.$/+?-''"

definition parse_operand :: "string option \<Rightarrow> operand option" where
  "parse_operand input =
     (case map_option trim input of
        None \<Rightarrow> Some NoOperand
      | Some text \<Rightarrow>
          if text = [] then Some NoOperand
          else let first = (case split_whitespace text of w # _ \<Rightarrow> w | [] \<Rightarrow> text)
               in case parse_number first of
                    None \<Rightarrow> None
                  | Some (Some v) \<Rightarrow> Some (LiteralOperand v)
                  | Some None \<Rightarrow>
                      if list_all is_symbol_char first
                      then (case split_symbol_offset first of
                          Some (name, offset) \<Rightarrow> Some (SymbolOperand name offset)
                        | None \<Rightarrow> Some (SymbolOperand first 0))
                      else Some (ExpressionOperand text))"

section \<open>Symbols\<close>

datatype symbol_value =
    FixedValue u8 u16
  | ErasableValue u8 u16
  | ConstantValue agc_word
  | AbsoluteValue int

definition logical_address :: "symbol_value \<Rightarrow> u16 option" where
  "logical_address v = (case v of
       FixedValue b offset \<Rightarrow>
         if b = 2 then Some (0x800 OR offset) else if b = 3 then Some (0xC00 OR offset) else Some (0x400 OR offset)
     | ErasableValue b offset \<Rightarrow> if b \<le> 2 then Some (push_bit 8 (ucast b) OR offset) else Some (0x300 OR offset)
     | ConstantValue w \<Rightarrow> Some (raw w AND 0xFFF)
     | AbsoluteValue i \<Rightarrow> if 0 \<le> i \<and> i \<le> 0xFFF then Some (word_of_int i) else None)"

record symbol =
  sy_name :: string
  sy_value :: symbol_value
  sy_definition :: source_location
  sy_references :: "source_location list"

datatype symbol_error = Duplicate string source_location source_location | Unresolved string source_location

text \<open>The insertion-ordered map is the list of its entries.\<close>

type_synonym symbol_table = "(string \<times> symbol) list"

definition define_symbol :: "string \<Rightarrow> symbol_value \<Rightarrow> source_location \<Rightarrow> (symbol_table, symbol_error, unit) prog" where
  "define_symbol name value defined_at =
     and_then (gets (\<lambda>t. map_of t name)) (\<lambda>existing.
     case existing of
       Some e \<Rightarrow> fail (Duplicate name (sy_definition e) defined_at)
     | None \<Rightarrow> modify (\<lambda>t. t @ [(name, \<lparr>sy_name = name, sy_value = value, sy_definition = defined_at, sy_references = []\<rparr>)]))"

definition get_symbol :: "symbol_table \<Rightarrow> string \<Rightarrow> symbol option" where
  "get_symbol t name = map_of t name"

definition reference_symbol :: "string \<Rightarrow> source_location \<Rightarrow> (symbol_table, symbol_error, symbol_value) prog" where
  "reference_symbol name used_at =
     and_then (gets (\<lambda>t. map_of t name)) (\<lambda>found.
     case found of
       None \<Rightarrow> fail (Unresolved name used_at)
     | Some e \<Rightarrow>
         seq (modify (map (\<lambda>(n, s). if n = name then (n, s\<lparr>sy_references := sy_references s @ [used_at]\<rparr>) else (n, s))))
             (ok (sy_value e)))"

end
