(* ===== verification/Agc_Overlay.thy ===== *)
theory Agc_Overlay
  imports Agc_Source Rust_Collections
begin

text \<open>
  \<open>crates/agc-overlay\<close>: compatibility overlays, their validation, exact line edits of a source, and
  the resolution of includes below the program root.  Loading the JSON document and copying trees
  into a staging directory are left out.
\<close>

section \<open>Overlays\<close>

record evidence =
  ev_observation :: string
  ev_source :: string

record include_alias =
  al_original :: string
  al_replacement :: string
  al_rationale :: string
  al_evidence :: "evidence list"

record source_edit =
  ed_path :: string
  ed_line :: nat
  ed_expected :: string
  ed_replacement :: string
  ed_rationale :: string
  ed_evidence :: "evidence list"

record overlay =
  ov_schema_version :: u32
  ov_program :: program
  ov_historical_commit :: string
  ov_reference_toolchain :: string
  ov_include_aliases :: "include_alias list"
  ov_source_edits :: "source_edit list"

text \<open>The message of \<open>OverlayError::Invalid\<close>, as its format and arguments.\<close>

datatype overlay_error =
    UnsupportedSchema u32
  | CommitNotFull
  | ToolchainNotIdentified
  | AliasUnchanged string
  | AliasDuplicate string
  | AliasUnjustified string
  | AliasIncompleteEvidence string
  | EditLineZero string
  | EditEmptyOrBroken string nat
  | EditUnjustified string nat
  | EditDuplicate string nat
  | EditMismatch string nat string string
  | EditBeyondEnd string nat
  | UnsafePath string
  | IncludeEscapes string
  | IncludeNotRelative string

definition validate_relative_agc_path :: "string \<Rightarrow> overlay_error + unit" where
  "validate_relative_agc_path path =
     (if trim path = [] \<or> is_absolute path \<or> path_extension path \<noteq> Some ''agc''
         \<or> list_ex (\<lambda>c. c = ParentDir \<or> c = RootDir) (path_components path)
      then Inl (UnsafePath path) else Inr ())"

definition evidence_incomplete :: "evidence \<Rightarrow> bool" where
  "evidence_incomplete e \<longleftrightarrow> trim (ev_observation e) = [] \<or> trim (ev_source e) = []"

text \<open>The checks of one alias and of one edit, given what came before it.\<close>

definition validate_alias :: "string set \<Rightarrow> include_alias \<Rightarrow> overlay_error + unit" where
  "validate_alias originals a =
     (case validate_relative_agc_path (al_original a) of
        Inl e \<Rightarrow> Inl e
      | Inr _ \<Rightarrow> (case validate_relative_agc_path (al_replacement a) of
          Inl e \<Rightarrow> Inl e
        | Inr _ \<Rightarrow>
            if al_original a = al_replacement a then Inl (AliasUnchanged (al_original a))
            else if al_original a \<in> originals then Inl (AliasDuplicate (al_original a))
            else if trim (al_rationale a) = [] \<or> al_evidence a = [] then Inl (AliasUnjustified (al_original a))
            else if list_ex evidence_incomplete (al_evidence a) then Inl (AliasIncompleteEvidence (al_original a))
            else Inr ()))"

fun validate_aliases :: "string set \<Rightarrow> include_alias list \<Rightarrow> overlay_error + unit" where
  "validate_aliases originals [] = Inr ()"
| "validate_aliases originals (a # as) = (case validate_alias originals a of
       Inl e \<Rightarrow> Inl e
     | Inr _ \<Rightarrow> validate_aliases (insert (al_original a) originals) as)"

definition has_line_ending :: "string \<Rightarrow> bool" where
  "has_line_ending s \<longleftrightarrow> CHR 0x0D \<in> set s \<or> CHR 0x0A \<in> set s"

definition validate_edit :: "(string \<times> nat) set \<Rightarrow> source_edit \<Rightarrow> overlay_error + unit" where
  "validate_edit edited_lines d =
     (case validate_relative_agc_path (ed_path d) of
        Inl e \<Rightarrow> Inl e
      | Inr _ \<Rightarrow>
          if ed_line d = 0 then Inl (EditLineZero (ed_path d))
          else if ed_expected d = ed_replacement d \<or> has_line_ending (ed_expected d) \<or> has_line_ending (ed_replacement d)
          then Inl (EditEmptyOrBroken (ed_path d) (ed_line d))
          else if trim (ed_rationale d) = [] \<or> ed_evidence d = [] \<or> list_ex evidence_incomplete (ed_evidence d)
          then Inl (EditUnjustified (ed_path d) (ed_line d))
          else if (ed_path d, ed_line d) \<in> edited_lines then Inl (EditDuplicate (ed_path d) (ed_line d))
          else Inr ())"

fun validate_edits :: "(string \<times> nat) set \<Rightarrow> source_edit list \<Rightarrow> overlay_error + unit" where
  "validate_edits edited_lines [] = Inr ()"
| "validate_edits edited_lines (d # ds) = (case validate_edit edited_lines d of
       Inl e \<Rightarrow> Inl e
     | Inr _ \<Rightarrow> validate_edits (insert (ed_path d, ed_line d) edited_lines) ds)"

definition validate_overlay :: "overlay \<Rightarrow> overlay_error + overlay" where
  "validate_overlay v =
     (if ov_schema_version v \<noteq> 1 then Inl (UnsupportedSchema (ov_schema_version v))
      else if length (ov_historical_commit v) \<noteq> 40 \<or> \<not> list_all is_ascii_hexdigit (ov_historical_commit v) then Inl CommitNotFull
      else if trim (ov_reference_toolchain v) = [] then Inl ToolchainNotIdentified
      else case validate_aliases {} (ov_include_aliases v) of
          Inl e \<Rightarrow> Inl e
        | Inr _ \<Rightarrow> (case validate_edits {} (ov_source_edits v) of Inl e \<Rightarrow> Inl e | Inr _ \<Rightarrow> Inr v))"

definition resolve_include :: "overlay \<Rightarrow> string \<Rightarrow> string" where
  "resolve_include v include_text =
     (case List.find (\<lambda>a. al_original a = include_text) (ov_include_aliases v) of
        Some a \<Rightarrow> al_replacement a | None \<Rightarrow> include_text)"

definition alias_map :: "overlay \<Rightarrow> (string, string) btree_map" where
  "alias_map v = fold (\<lambda>a m. btree_insert (al_original a) (al_replacement a) m) (ov_include_aliases v) []"

section \<open>Edits of a source\<close>

text \<open>The content and the ending of one segment of \<open>split_inclusive('\n')\<close>.\<close>

definition split_ending :: "string \<Rightarrow> string \<times> string" where
  "split_ending segment = (case strip_suffix [CHR 0x0D, CHR 0x0A] segment of
       Some content \<Rightarrow> (content, [CHR 0x0D, CHR 0x0A])
     | None \<Rightarrow> (case strip_suffix [CHR 0x0A] segment of Some content \<Rightarrow> (content, [CHR 0x0A]) | None \<Rightarrow> (segment, [])))"

definition edits_for :: "overlay \<Rightarrow> string \<Rightarrow> (nat, source_edit) btree_map" where
  "edits_for v path =
     fold (\<lambda>d m. btree_insert (ed_line d) d m) (filter (\<lambda>d. ed_path d = path) (ov_source_edits v)) []"

text \<open>The output and the matched lines of the segments from a line on.\<close>

fun edit_segments :: "(nat, source_edit) btree_map \<Rightarrow> nat \<Rightarrow> string list \<Rightarrow> overlay_error + string \<times> nat set" where
  "edit_segments edits line [] = Inr ([], {})"
| "edit_segments edits line (segment # rest) =
     (let (content, ending) = split_ending segment
      in case btree_get line edits of
           Some d \<Rightarrow>
             if content \<noteq> ed_expected d then Inl (EditMismatch (ed_path d) (ed_line d) (ed_expected d) content)
             else (case edit_segments edits (Suc line) rest of
                 Inl e \<Rightarrow> Inl e
               | Inr (out, matched) \<Rightarrow> Inr (ed_replacement d @ ending @ out, insert line matched))
         | None \<Rightarrow> (case edit_segments edits (Suc line) rest of
               Inl e \<Rightarrow> Inl e
             | Inr (out, matched) \<Rightarrow> Inr (content @ ending @ out, matched)))"

definition apply_to_source :: "overlay \<Rightarrow> string \<Rightarrow> string \<Rightarrow> overlay_error + string" where
  "apply_to_source v path source =
     (let edits = edits_for v path
      in if edits = [] then Inr source
         else case edit_segments edits 1 (split_inclusive (CHR 0x0A) source) of
             Inl e \<Rightarrow> Inl e
           | Inr (out, matched) \<Rightarrow>
               (case List.find (\<lambda>line. line \<notin> matched) (map fst edits) of
                  Some missing \<Rightarrow> Inl (EditBeyondEnd path missing)
                | None \<Rightarrow> Inr out))"

section \<open>Includes\<close>

definition parent_path :: "string \<Rightarrow> component list" where
  "parent_path path = butlast (path_components path)"

text \<open>\<open>PathBuf::push\<close> and \<open>pop\<close> on the components collected so far.\<close>

fun normalize_components :: "string \<Rightarrow> string list \<Rightarrow> component list \<Rightarrow> overlay_error + string list" where
  "normalize_components include_text acc [] = Inr acc"
| "normalize_components include_text acc (c # cs) = (case c of
       Normal x \<Rightarrow> normalize_components include_text (acc @ [x]) cs
     | CurDir \<Rightarrow> normalize_components include_text acc cs
     | ParentDir \<Rightarrow> if acc = [] then Inl (IncludeEscapes include_text) else normalize_components include_text (butlast acc) cs
     | RootDir \<Rightarrow> Inl (IncludeNotRelative include_text))"

definition resolve_relative_include :: "source_id \<Rightarrow> string \<Rightarrow> overlay_error + string" where
  "resolve_relative_include containing include_text =
     (case validate_relative_agc_path include_text of
        Inl e \<Rightarrow> Inl e
      | Inr _ \<Rightarrow>
          map_sum id (join ''/'')
            (normalize_components include_text []
              (parent_path (relative_path containing) @ filter (\<lambda>c. c \<noteq> CurDir) (path_components include_text))))"

end
