(* ===== verification/Agc_Assembler.thy ===== *)
theory Agc_Assembler
  imports Agc_Symbols Agc_Overlay Agc_Loader Agc_Isa
begin

text \<open>
  \<open>crates/agc-assembler\<close>, the native assembler: evaluation of operands, the two passes over the
  records, the fixed point of the equates, and the rope image.  The locals of \<open>assemble\<close> are a state
  that its loops thread; the text of a message is kept as its format and its arguments.  An overflow
  of \<open>i64\<close> panics.
\<close>

section \<open>Diagnostics and images\<close>

datatype eval_error =
    UnresolvedName string
  | NoUsableAddress string
  | NoAddress string
  | SymbolFailed symbol_error
  | NotI32 int

text \<open>The message of a diagnostic, as its format and arguments.\<close>

datatype message =
    Text string
  | FixedOverflow u8 nat
  | ErasableOverflow u8 nat
  | UnsupportedOperation string string
  | UnresolvedEquate string
  | OperandTooWide int
  | RequiresExtend mnemonic
  | EncodingFailed encode_error
  | ValueOutOfRange int
  | EvaluationFailed eval_error
  | WordFailed word_error
  | SymbolProblem symbol_error

record diagnostic =
  dg_severity :: severity
  dg_code :: string
  dg_message :: message
  dg_location :: "source_location option"

datatype location_counter = FixedCounter u8 u16 | ErasableCounter u8 u16

record program_image =
  im_words :: "agc_word list"
  im_occupied :: "bool list"
  im_symbols :: symbol_table
  im_ir :: program_ir
  im_diagnostics :: "diagnostic list"

text \<open>The message of \<open>AssemblyError::Reference\<close>, as its format and arguments.\<close>

datatype reference_failure =
    EntryUnsafe string
  | ToolchainEmpty
  | ThresholdInvalid nat
  | EntryMissing string
  | ExitStatus nat nat nat
  | DiagnosticsNotClean nat nat nat nat
  | RopeBytes nat nat
  | FewNonzeroWords nat nat
  | InvalidBank nat string
  | BankOutside u8 nat
  | BankRepeated u8
  | DataBeforeBank nat
  | LostBank u8 nat
  | InvalidWord string nat
  | InvalidOctal nat
  | WordRejected nat word_error
  | BankTooLong u8
  | BanksMissing "u8 list"
  | BankLength u8 nat
  | BankChecksum u8 agc_word agc_word agc_word

datatype assembly_error =
    AsmSource source_error
  | ParserInclude string nat overlay_error
  | OverlayProgram program program
  | IncludeCycle string
  | DiagnosticsError nat "diagnostic list"
  | AsmOverlay overlay_error
  | ReferenceIo string string
  | ReferenceError reference_failure

definition ROPE_WORDS :: nat where "ROPE_WORDS = 36 * 1024"

text \<open>The locals of \<open>assemble\<close>.\<close>

record assembling =
  as_symbols :: symbol_table
  as_diagnostics :: "diagnostic list"
  as_location :: location_counter
  as_equates :: "(nat \<times> string) list"
  as_words :: "agc_word list"
  as_occupied :: "bool list"
  as_extend :: bool

type_synonym 'a assembly = "(assembling, assembly_error, 'a) prog"

definition push_diagnostic :: "diagnostic \<Rightarrow> unit assembly" where
  "push_diagnostic d = modify (as_diagnostics_update (\<lambda>ds. ds @ [d]))"

definition push_error :: "string \<Rightarrow> message \<Rightarrow> ir_record \<Rightarrow> unit assembly" where
  "push_error code text r =
     push_diagnostic \<lparr>dg_severity = Error, dg_code = code, dg_message = text, dg_location = Some (ir_location r)\<rparr>"

definition symbol_diagnostic :: "symbol_error \<Rightarrow> unit assembly" where
  "symbol_diagnostic e =
     push_diagnostic \<lparr>dg_severity = Error, dg_code = ''AGCA050'', dg_message = SymbolProblem e,
       dg_location = Some (case e of Duplicate _ _ second \<Rightarrow> second | Unresolved _ l \<Rightarrow> l)\<rparr>"

text \<open>A definition in the table of the assembler; its error becomes a diagnostic.\<close>

definition define_or_report :: "string \<Rightarrow> symbol_value \<Rightarrow> source_location \<Rightarrow> unit assembly" where
  "define_or_report name value defined_at =
     (\<lambda>s. case define_symbol name value defined_at (as_symbols s) of
        None \<Rightarrow> None
      | Some (Inr _, t) \<Rightarrow> Some (Inr (), s\<lparr>as_symbols := t\<rparr>)
      | Some (Inl e, t) \<Rightarrow> symbol_diagnostic e (s\<lparr>as_symbols := t\<rparr>))"

section \<open>Expressions\<close>

text \<open>Evaluation fails with a message, or panics where an addition leaves \<open>i64\<close>.\<close>

type_synonym evaluation = "(eval_error + int) option"

definition symbol_base :: "eval_error \<Rightarrow> symbol_value \<Rightarrow> eval_error + int" where
  "symbol_base e v = (case v of
       ConstantValue w \<Rightarrow> Inr (uint (raw w))
     | AbsoluteValue i \<Rightarrow> Inr i
     | _ \<Rightarrow> (case logical_address v of None \<Rightarrow> Inl e | Some a \<Rightarrow> Inr (uint a)))"

definition add_offset :: "int \<Rightarrow> eval_error + int \<Rightarrow> evaluation" where
  "add_offset offset base = (case base of Inl e \<Rightarrow> Some (Inl e) | Inr b \<Rightarrow> map_option Inr (in_i64 (b + offset)))"

definition evaluate_symbol :: "string \<Rightarrow> int \<Rightarrow> symbol_table \<Rightarrow> evaluation" where
  "evaluate_symbol name offset t = (case get_symbol t name of
       None \<Rightarrow> Some (Inl (UnresolvedName name))
     | Some s \<Rightarrow> add_offset offset (symbol_base (NoUsableAddress name) (sy_value s)))"

definition parse_numeric :: "string \<Rightarrow> int option option" where
  "parse_numeric input =
     (let (negative, digits) = strip_minus input
      in case strip_suffix ''D'' digits of
           Some decimal \<Rightarrow> signed_radix negative 10 decimal
         | None \<Rightarrow> if list_all is_octal_digit digits then signed_radix negative 8 digits else Some None)"

definition parse_atom :: "string \<Rightarrow> symbol_table \<Rightarrow> evaluation" where
  "parse_atom atom t = (case parse_numeric atom of
       None \<Rightarrow> None
     | Some (Some v) \<Rightarrow> Some (Inr v)
     | Some None \<Rightarrow> evaluate_symbol atom 0 t)"

definition evaluate_expression :: "string \<Rightarrow> symbol_table \<Rightarrow> evaluation" where
  "evaluate_expression expression t =
     (let words = split_whitespace expression
      in if length words = 3 \<and> words ! 1 \<in> {''+'', ''-''}
         then (case parse_atom (words ! 0) t of
             None \<Rightarrow> None
           | Some (Inl e) \<Rightarrow> Some (Inl e)
           | Some (Inr l) \<Rightarrow> (case parse_atom (words ! 2) t of
               None \<Rightarrow> None
             | Some (Inl e) \<Rightarrow> Some (Inl e)
             | Some (Inr r) \<Rightarrow> map_option Inr (in_i64 (if words ! 1 = ''+'' then l + r else l - r))))
         else parse_atom (trim expression) t)"

definition evaluate_operand :: "operand \<Rightarrow> symbol_table \<Rightarrow> evaluation" where
  "evaluate_operand x t = (case x of
       NoOperand \<Rightarrow> Some (Inr 0)
     | LiteralOperand v \<Rightarrow> Some (Inr v)
     | SymbolOperand name offset \<Rightarrow> evaluate_symbol name offset t
     | ExpressionOperand e \<Rightarrow> evaluate_expression e t)"

definition evaluate_and_reference :: "operand \<Rightarrow> source_location \<Rightarrow> (eval_error + int) assembly" where
  "evaluate_and_reference x used_at = (case x of
       SymbolOperand name offset \<Rightarrow> (\<lambda>s. case reference_symbol name used_at (as_symbols s) of
           None \<Rightarrow> None
         | Some (Inl e, t) \<Rightarrow> Some (Inr (Inl (SymbolFailed e)), s\<lparr>as_symbols := t\<rparr>)
         | Some (Inr v, t) \<Rightarrow> map_option (\<lambda>r. (Inr r, s\<lparr>as_symbols := t\<rparr>)) (add_offset offset (symbol_base (NoAddress name) v)))
     | _ \<Rightarrow> and_then (gets as_symbols) (\<lambda>t. of_option (evaluate_operand x t)))"

section \<open>Locations\<close>

definition current_value :: "location_counter \<Rightarrow> u8 option \<times> u16 \<times> symbol_value" where
  "current_value l = (case l of
       FixedCounter b offset \<Rightarrow> (Some b, offset, FixedValue b offset)
     | ErasableCounter b offset \<Rightarrow> (None, offset, ErasableValue b offset))"

definition advance :: "u16 \<Rightarrow> location_counter \<Rightarrow> message + location_counter" where
  "advance amount l = (case l of
       FixedCounter b offset \<Rightarrow>
         (let next_offset = unat offset + unat amount
          in if 1024 < next_offset then Inl (FixedOverflow b next_offset) else Inr (FixedCounter b (word_of_nat next_offset)))
     | ErasableCounter b offset \<Rightarrow>
         (let next_offset = unat offset + unat amount
          in if 256 < next_offset then Inl (ErasableOverflow b next_offset) else Inr (ErasableCounter b (word_of_nat next_offset))))"

definition set_location :: "u16 \<Rightarrow> location_counter" where
  "set_location logical =
     (if logical \<le> 0x2FF then ErasableCounter (ucast (drop_bit 8 logical)) (logical AND 0xFF)
      else if logical \<le> 0x3FF then ErasableCounter 0 (logical AND 0xFF)
      else if logical \<le> 0x7FF then FixedCounter 0 (logical AND 0x3FF)
      else if logical \<le> 0xBFF then FixedCounter 2 (logical AND 0x3FF)
      else FixedCounter 3 (logical AND 0x3FF))"

text \<open>The value of the operand in a range sets the location; anything else is an error.\<close>

definition location_operand :: "ir_record \<Rightarrow> int \<Rightarrow> (int \<Rightarrow> location_counter) \<Rightarrow> string \<Rightarrow> string \<Rightarrow> unit assembly" where
  "location_operand r limit place code text =
     and_then (gets as_symbols) (\<lambda>t.
     and_then (of_option (evaluate_operand (ir_operand r) t)) (\<lambda>value.
     case value of
       Inr v \<Rightarrow> if 0 \<le> v \<and> v < limit then modify (as_location_update (\<lambda>_. place v)) else push_error code (Text text) r
     | Inl _ \<Rightarrow> push_error code (Text text) r))"

definition apply_location_directive :: "ir_record \<Rightarrow> bool assembly" where
  "apply_location_directive r =
     (if ir_operation r = ''BANK'' then
        seq (location_operand r 36 (\<lambda>v. FixedCounter (word_of_int v) 0) ''AGCA010'' ''BANK requires an installed fixed-bank number'') (ok True)
      else if ir_operation r = ''BLOCK'' then
        seq (location_operand r 8 (\<lambda>v. ErasableCounter (word_of_int v) 0) ''AGCA011'' ''BLOCK requires an erasable-bank number'') (ok True)
      else if ir_operation r = ''SETLOC'' then
        seq (location_operand r 0x1000 (\<lambda>v. set_location (word_of_int v)) ''AGCA012'' ''SETLOC operand is unresolved or out of range'') (ok True)
      else ok (ir_operation r \<in> {''MEMORY'', ''COUNT'', ''SUBRO'', ''CHECK=''}))"

definition is_equate :: "string \<Rightarrow> bool" where
  "is_equate operation \<longleftrightarrow> operation = ''='' \<or> operation = ''EQUALS''"

definition SINGLE_WORD_OPERATIONS :: "string set" where
  "SINGLE_WORD_OPERATIONS = {''OCT'', ''DEC'', ''ADRES'', ''REMADR'', ''ECADR'', ''FCADR'', ''CADR'', ''GENADR'',
     ''XCADR'', ''BBCON'', ''DNCHAN'', ''VN'', ''BNKSUM''}"

definition DOUBLE_WORD_OPERATIONS :: "string set" where
  "DOUBLE_WORD_OPERATIONS = {''2OCT'', ''2DEC'', ''2CADR'', ''2BCADR'', ''1DNADR''}"

definition family :: "statement_kind \<Rightarrow> string" where
  "family k = (case k of
       InterpretiveKind \<Rightarrow> ''interpretive operation'' | DirectiveKind \<Rightarrow> ''directive''
     | InstructionKind \<Rightarrow> ''instruction'' | UnknownKind \<Rightarrow> ''operation'')"

definition emitted_word_count :: "ir_record \<Rightarrow> nat assembly" where
  "emitted_word_count r =
     (let operation = ir_operation r
      in if mnemonic_parse operation \<noteq> None then ok 1
         else if operation \<in> SINGLE_WORD_OPERATIONS then ok 1
         else if operation \<in> DOUBLE_WORD_OPERATIONS then ok 2
         else if operation = ''ERASE'' then
           (case ir_operand r of
              LiteralOperand v \<Rightarrow> if 0 \<le> v then ok (nat v + 1)
                else seq (push_error ''AGCA020'' (Text ''ERASE size must be a non-negative literal'') r) (ok 0)
            | NoOperand \<Rightarrow> ok 1
            | _ \<Rightarrow> seq (push_error ''AGCA020'' (Text ''ERASE size must be a non-negative literal'') r) (ok 0))
         else if is_equate operation then ok 0
         else seq (push_error ''AGCA021'' (UnsupportedOperation (family (ir_kind r)) operation) r) (ok 0))"

section \<open>Pass one\<close>

text \<open>One record: the record with its location, everything else in the state.\<close>

definition assign_location :: "nat \<Rightarrow> ir_record \<Rightarrow> ir_record assembly" where
  "assign_location index r =
     (if ir_operation r = [] then
        (case ir_label r of
           None \<Rightarrow> ok r
         | Some label \<Rightarrow> and_then (gets as_location) (\<lambda>l.
             seq (define_or_report label (snd (snd (current_value l))) (ir_location r)) (ok r)))
      else if is_equate (ir_operation r) then
        (case ir_label r of
           Some label \<Rightarrow> seq (modify (as_equates_update (\<lambda>es. es @ [(index, label)]))) (ok r)
         | None \<Rightarrow> seq (push_error ''AGCA001'' (Text ''equate has no label'') r) (ok r))
      else
        and_then (apply_location_directive r) (\<lambda>applied.
        if applied then ok r
        else and_then (emitted_word_count r) (\<lambda>emits.
          if emits = 0 then ok r
          else and_then (gets as_location) (\<lambda>l.
            let (bank, offset, value) = current_value l;
                r' = r\<lparr>ir_bank := bank, ir_offset := Some offset\<rparr>
            in seq (case ir_label r of None \<Rightarrow> ok () | Some label \<Rightarrow> define_or_report label value (ir_location r))
               (seq (case advance (word_of_nat emits) l of
                    Inl text \<Rightarrow> push_error ''AGCA002'' text r'
                  | Inr l' \<Rightarrow> modify (as_location_update (\<lambda>_. l')))
                 (ok r'))))))"

fun assign_locations :: "nat \<Rightarrow> ir_record list \<Rightarrow> ir_record list assembly" where
  "assign_locations index [] = ok []"
| "assign_locations index (r # rs) =
     and_then (assign_location index r) (\<lambda>r'.
     and_then (assign_locations (Suc index) rs) (\<lambda>rs'. ok (r' # rs')))"

section \<open>The equates\<close>

definition equate_value :: "int \<Rightarrow> symbol_value" where
  "equate_value v = (if 0 \<le> v \<and> v \<le> 0x7FFF then ConstantValue (from_raw_truncate (word_of_int v)) else AbsoluteValue v)"

text \<open>One pass over the pending equates: whether one was resolved, and those that stay.\<close>

fun equate_round :: "ir_record list \<Rightarrow> (nat \<times> string) list \<Rightarrow> (bool \<times> (nat \<times> string) list) assembly" where
  "equate_round rs [] = ok (False, [])"
| "equate_round rs ((index, label) # pending) =
     (if \<not> index < length rs then panic
      else and_then (gets as_symbols) (\<lambda>t.
        and_then (of_option (evaluate_operand (ir_operand (rs ! index)) t)) (\<lambda>value.
        case value of
          Inr v \<Rightarrow> seq (define_or_report label (equate_value v) (ir_location (rs ! index)))
            (and_then (equate_round rs pending) (\<lambda>(progress, kept). ok (True, kept)))
        | Inl _ \<Rightarrow> and_then (equate_round rs pending) (\<lambda>(progress, kept). ok (progress, (index, label) # kept)))))"

lemma equate_round_shrinks:
  "equate_round rs pending s = Some (Inr (progress, kept), s') \<Longrightarrow>
     length kept \<le> length pending \<and> (progress \<longrightarrow> length kept < length pending)"
proof (induction pending arbitrary: s progress kept s')
  case (Cons p pending)
  obtain index label where p: "p = (index, label)" by (cases p)
  from Cons.prems obtain progress' kept' t where "equate_round rs pending t = Some (Inr (progress', kept'), s')"
      "kept = kept' \<or> (kept = (index, label) # kept' \<and> progress = progress')"
    by (auto simp: p run_simps split: if_splits option.splits sum.splits)
  with Cons.IH [OF this(1)] show ?case by auto
qed (simp add: run_simps)

text \<open>The fixed point: rounds as long as one of them resolves something.\<close>

function resolve_equates :: "ir_record list \<Rightarrow> (nat \<times> string) list \<Rightarrow> assembling \<Rightarrow> ((assembly_error + (nat \<times> string) list) \<times> assembling) option" where
  "resolve_equates rs pending s =
     (if pending = [] then Some (Inr [], s)
      else case equate_round rs pending s of
          None \<Rightarrow> None
        | Some (Inl e, s') \<Rightarrow> Some (Inl e, s')
        | Some (Inr (progress, kept), s') \<Rightarrow>
            if progress then resolve_equates rs kept s' else Some (Inr kept, s'))"
  by auto
termination
  by (relation "measure (\<lambda>(rs, pending, s). length pending)") (auto dest: equate_round_shrinks)

declare resolve_equates.simps [simp del]

section \<open>Emission\<close>

definition single_word :: "eval_error + int \<Rightarrow> ir_record \<Rightarrow> agc_word list assembly" where
  "single_word value r = (case value of
       Inr v \<Rightarrow> if 0 \<le> v \<and> v \<le> 0x7FFF then ok [from_raw_truncate (word_of_int v)]
         else seq (push_error ''AGCA040'' (ValueOutOfRange v) r) (ok [])
     | Inl e \<Rightarrow> seq (push_error ''AGCA041'' (EvaluationFailed e) r) (ok []))"

definition signed_word :: "eval_error + int \<Rightarrow> ir_record \<Rightarrow> agc_word list assembly" where
  "signed_word value r =
     (case (case value of Inl e \<Rightarrow> Inl e | Inr v \<Rightarrow> if I32_LOW \<le> v \<and> v \<le> I32_HIGH then Inr v else Inl (NotI32 v)) of
        Inr v \<Rightarrow> (case from_i32 v of
            Inr w \<Rightarrow> ok [w]
          | Inl e \<Rightarrow> seq (push_error ''AGCA042'' (WordFailed e) r) (ok []))
      | Inl e \<Rightarrow> seq (push_error ''AGCA043'' (EvaluationFailed e) r) (ok []))"

definition double_words :: "eval_error + int \<Rightarrow> bool \<Rightarrow> ir_record \<Rightarrow> agc_word list assembly" where
  "double_words value is_signed r = (case value of
       Inl e \<Rightarrow> seq (push_error ''AGCA044'' (EvaluationFailed e) r) (ok [])
     | Inr v \<Rightarrow>
         if is_signed then (case from_i64 v of
             Inr d \<Rightarrow> ok [dw_high d, dw_low d]
           | Inl e \<Rightarrow> seq (push_error ''AGCA045'' (WordFailed e) r) (ok []))
         else if \<not> (0 \<le> v \<and> v \<le> 0xFFFFFFF) then
           seq (push_error ''AGCA046'' (Text ''double-octal value is out of range'') r) (ok [])
         else ok [from_raw_truncate (ucast (drop_bit 14 (word_of_int v :: u32) AND 0x3FFF)),
                  from_raw_truncate (ucast ((word_of_int v :: u32) AND 0x3FFF))])"

definition emit_instruction :: "mnemonic \<Rightarrow> ir_record \<Rightarrow> bool \<Rightarrow> agc_word list assembly" where
  "emit_instruction m r extended_context =
     and_then
       (if m \<in> {Extend, Relint, Inhint, Resume} then ok (Some 0)
        else and_then (evaluate_and_reference (ir_operand r) (ir_location r)) (\<lambda>value.
          case value of
            Inr v \<Rightarrow> if 0 \<le> v \<and> v \<le> 0xFFF then ok (Some (word_of_int v))
              else seq (push_error ''AGCA030'' (OperandTooWide v) r) (ok None)
          | Inl e \<Rightarrow> seq (push_error ''AGCA031'' (EvaluationFailed e) r) (ok None)))
       (\<lambda>operand. case operand of
          None \<Rightarrow> ok []
        | Some x \<Rightarrow>
            if is_extended m \<and> \<not> extended_context then seq (push_error ''AGCA032'' (RequiresExtend m) r) (ok [])
            else (case encode_with_context m x extended_context of
                Inr w \<Rightarrow> ok [w]
              | Inl e \<Rightarrow> seq (push_error ''AGCA033'' (EncodingFailed e) r) (ok [])))"

definition emit_record :: "ir_record \<Rightarrow> bool \<Rightarrow> agc_word list assembly" where
  "emit_record r extended_context =
     (let operation = ir_operation r;
          value = evaluate_and_reference (ir_operand r) (ir_location r)
      in case mnemonic_parse operation of
           Some m \<Rightarrow> emit_instruction m r extended_context
         | None \<Rightarrow>
             if operation = ''DEC'' then and_then value (\<lambda>v. signed_word v r)
             else if operation = ''2OCT'' then and_then value (\<lambda>v. double_words v False r)
             else if operation = ''2DEC'' then and_then value (\<lambda>v. double_words v True r)
             else if operation \<in> {''OCT'', ''ADRES'', ''REMADR'', ''ECADR'', ''FCADR'', ''CADR'', ''GENADR'', ''XCADR'',
                 ''BBCON'', ''DNCHAN'', ''VN''} then and_then value (\<lambda>v. single_word v r)
             else if operation \<in> {''2CADR'', ''2BCADR'', ''1DNADR''} then
               and_then value (\<lambda>v. and_then (single_word v r) (\<lambda>first.
                 ok (case first of [] \<Rightarrow> [] | w # _ \<Rightarrow> [w, POSITIVE_ZERO])))
             else if operation = ''ERASE'' then
               and_then (emitted_word_count r) (\<lambda>n. ok (replicate n POSITIVE_ZERO))
             else if operation = ''BNKSUM'' then ok [POSITIVE_ZERO]
             else ok [])"

section \<open>Pass two\<close>

definition as_usize :: "u8 \<Rightarrow> u16 \<Rightarrow> nat \<Rightarrow> nat" where
  "as_usize bank offset relative = unat bank * 1024 + unat offset + relative"

fun place_words :: "u8 \<Rightarrow> u16 \<Rightarrow> nat \<Rightarrow> agc_word list \<Rightarrow> ir_record \<Rightarrow> ir_record assembly" where
  "place_words bank offset relative [] r = ok r"
| "place_words bank offset relative (w # ws) r =
     (let at = as_usize bank offset relative
      in and_then (gets as_words) (\<lambda>words.
         if length words \<le> at then
           seq (push_error ''AGCA004'' (Text ''emission lies outside installed rope'') r)
               (place_words bank offset (Suc relative) ws r)
         else and_then (load as_occupied at) (\<lambda>taken.
           if taken then
             seq (push_error ''AGCA005'' (Text ''two records emit to the same fixed location'') r)
                 (place_words bank offset (Suc relative) ws r)
           else
             seq (store as_words as_words_update at w) (
             seq (store as_occupied as_occupied_update at True) (
             place_words bank offset (Suc relative) ws (if relative = 0 then r\<lparr>ir_word := Some w\<rparr> else r))))))"

definition emit_at :: "ir_record \<Rightarrow> ir_record assembly" where
  "emit_at r = (case ir_bank r of
       None \<Rightarrow> seq (modify (as_extend_update (\<lambda>_. False))) (ok r)
     | Some bank \<Rightarrow> (case ir_offset r of
         None \<Rightarrow>
           seq (push_error ''AGCA051'' (Text ''assigned fixed bank is missing its offset'') r)
          (seq (modify (as_extend_update (\<lambda>_. False))) (ok r))
       | Some offset \<Rightarrow>
           and_then (gets as_extend) (\<lambda>previous_extend.
           and_then (emit_record r previous_extend) (\<lambda>emitted.
           seq (modify (as_extend_update (\<lambda>_. ir_operation r = ''EXTEND'')))
               (place_words bank offset 0 emitted r)))))"

fun emit_records :: "ir_record list \<Rightarrow> ir_record list assembly" where
  "emit_records [] = ok []"
| "emit_records (r # rs) = and_then (emit_at r) (\<lambda>r'. and_then (emit_records rs) (\<lambda>rs'. ok (r' # rs')))"

section \<open>Assembly\<close>

record expanded_program =
  ex_program :: program
  ex_units :: "source_unit list"
  ex_ir :: program_ir
  ex_diagnostics :: "diagnostic list"

definition initial_assembling :: "diagnostic list \<Rightarrow> assembling" where
  "initial_assembling ds = \<lparr>as_symbols = [], as_diagnostics = ds, as_location = FixedCounter 2 0, as_equates = [],
     as_words = replicate ROPE_WORDS POSITIVE_ZERO, as_occupied = replicate ROPE_WORDS False, as_extend = False\<rparr>"

definition is_error :: "diagnostic \<Rightarrow> bool" where
  "is_error d \<longleftrightarrow> dg_severity d = Error"

definition report_pending :: "ir_record list \<Rightarrow> (nat \<times> string) list \<Rightarrow> unit assembly" where
  "report_pending rs pending =
     for_each pending (\<lambda>(index, label).
       if index < length rs then push_error ''AGCA003'' (UnresolvedEquate label) (rs ! index) else panic)"

definition assemble_body :: "program_ir \<Rightarrow> program_image assembly" where
  "assemble_body ir =
     and_then (assign_locations 0 (pi_records ir)) (\<lambda>rs.
     and_then (gets as_equates) (\<lambda>equates.
     and_then (resolve_equates rs equates) (\<lambda>pending.
     seq (report_pending rs pending) (
     and_then (emit_records rs) (\<lambda>rs'.
     and_then (gets (\<lambda>s. s)) (\<lambda>s.
     let errors = length (filter is_error (as_diagnostics s))
     in if errors \<noteq> 0 then fail (DiagnosticsError errors (as_diagnostics s))
        else ok \<lparr>im_words = as_words s, im_occupied = as_occupied s, im_symbols = as_symbols s,
                 im_ir = ir\<lparr>pi_records := rs'\<rparr>, im_diagnostics = as_diagnostics s\<rparr>))))))"

definition assemble :: "expanded_program \<Rightarrow> (assembly_error + program_image) option" where
  "assemble expanded = map_option fst (assemble_body (ex_ir expanded) (initial_assembling (ex_diagnostics expanded)))"

definition lower_statement :: "string \<Rightarrow> source_line \<Rightarrow> statement \<Rightarrow> ir_record option" where
  "lower_statement file l st =
     map_option (\<lambda>x. \<lparr>ir_location = \<lparr>loc_file = file, loc_line = ln_number l, loc_span = ln_span l\<rparr>,
        ir_label = map_option sp_text (st_label st), ir_operation = to_ascii_uppercase (sp_text (st_operation st)),
        ir_operand = x, ir_kind = st_kind st, ir_bank = None, ir_offset = None, ir_word = None\<rparr>)
       (parse_operand (map_option sp_text (st_operand st)))"

fun all_some :: "'a option list \<Rightarrow> 'a list option" where
  "all_some [] = Some []"
| "all_some (x # xs) = (case x of None \<Rightarrow> None | Some y \<Rightarrow> map_option ((#) y) (all_some xs))"

definition assemble_unit :: "source_unit \<Rightarrow> (assembly_error + program_image) option" where
  "assemble_unit u =
     (case all_some (map (\<lambda>(l, st). lower_statement (relative_path (un_source u)) l st) (statements u)) of
        None \<Rightarrow> None
      | Some rs \<Rightarrow> assemble \<lparr>ex_program = sid_program (un_source u), ex_units = [u],
          ex_ir = \<lparr>pi_program = directory (sid_program (un_source u)), pi_records = rs, pi_hashes = []\<rparr>,
          ex_diagnostics = []\<rparr>)"

definition occupied_words :: "program_image \<Rightarrow> nat" where
  "occupied_words i = length (filter (\<lambda>b. b) (im_occupied i))"

text \<open>Slicing \<open>words\<close> panics when the image is shorter than its banks.\<close>

definition to_yayul_bytes :: "program_image \<Rightarrow> u8 list option" where
  "to_yayul_bytes i =
     (if length (im_words i) < 36 * 1024 then None
      else Some (concat (map (\<lambda>raw_bank.
        let bank = (if raw_bank < 4 then raw_bank XOR 2 else raw_bank)
        in concat (map (\<lambda>w. to_be_bytes (push_bit 1 (raw w)))
             (take ((bank + 1) * 1024 - bank * 1024) (drop (bank * 1024) (im_words i))))) [0 ..< 36])))"

end
