(* ===== verification/Agc_Assembler_Laws.thy ===== *)
theory Agc_Assembler_Laws
  imports Agc_Assembler Agc_Isa_Laws
begin

text \<open>
  Laws of the two passes of the assembler: what every operation leaves alone and what it lets grow,
  the rope image as a list of distinct cells, the values of operands in a growing symbol table, and
  the origin of the word of every record.
\<close>

section \<open>What grows during assembly\<close>

text \<open>A symbol keeps its value and definition; only its references grow.\<close>

definition extends :: "symbol_table \<Rightarrow> symbol_table \<Rightarrow> bool" where
  "extends t t' \<longleftrightarrow> (\<forall>n e. map_of t n = Some e \<longrightarrow>
     (\<exists>e'. map_of t' n = Some e' \<and> sy_value e' = sy_value e \<and> sy_definition e' = sy_definition e))"

definition no_errors :: "assembling \<Rightarrow> bool" where
  "no_errors s \<longleftrightarrow> filter is_error (as_diagnostics s) = []"

definition grows :: "assembling \<Rightarrow> assembling \<Rightarrow> bool" where
  "grows s s' \<longleftrightarrow> (\<exists>ds. as_diagnostics s' = as_diagnostics s @ ds) \<and> extends (as_symbols s) (as_symbols s')"

lemma extends_refl: "extends t t"
  by (simp add: extends_def)

lemma extends_trans: "extends a b \<Longrightarrow> extends b c \<Longrightarrow> extends a c"
  unfolding extends_def by metis

lemma grows_order: "reflp grows" "transp grows"
proof -
  show "reflp grows" by (rule reflpI) (simp add: grows_def extends_refl)
  show "transp grows" by (rule transpI) (auto simp: grows_def intro: extends_trans)
qed

lemma grows_no_errors: "grows s s' \<Longrightarrow> no_errors s' \<Longrightarrow> no_errors s"
  by (auto simp: grows_def no_errors_def)

lemma extends_append: "extends t (t @ es)"
  by (auto simp: extends_def)

text \<open>Adding a reference to one entry.\<close>

definition note_use :: "string \<Rightarrow> source_location \<Rightarrow> symbol_table \<Rightarrow> symbol_table" where
  "note_use name used_at = map (\<lambda>(n, s). if n = name then (n, s\<lparr>sy_references := sy_references s @ [used_at]\<rparr>) else (n, s))"

lemma map_of_note_use:
  "map_of (note_use name l t) n = (if n = name then map_option (\<lambda>s. s\<lparr>sy_references := sy_references s @ [l]\<rparr>) (map_of t n) else map_of t n)"
  by (induction t) (auto simp: note_use_def)

lemma extends_note_use: "extends t (note_use name l t)"
  by (auto simp: extends_def map_of_note_use)

lemma define_symbol_run:
  "define_symbol name value l t = (case map_of t name of
       Some e \<Rightarrow> Some (Inl (Duplicate name (sy_definition e) l), t)
     | None \<Rightarrow> Some (Inr (), t @ [(name, \<lparr>sy_name = name, sy_value = value, sy_definition = l, sy_references = []\<rparr>)]))"
  by (simp add: define_symbol_def run_simps split: option.split)

lemma reference_symbol_run:
  "reference_symbol name l t = (case map_of t name of
       None \<Rightarrow> Some (Inl (Unresolved name l), t)
     | Some e \<Rightarrow> Some (Inr (sy_value e), note_use name l t))"
  by (simp add: reference_symbol_def run_simps note_use_def split: option.split)

lemma push_error_run:
  "push_error code text r s = Some (Inr (), s\<lparr>as_diagnostics := as_diagnostics s @
     [\<lparr>dg_severity = Error, dg_code = code, dg_message = text, dg_location = Some (ir_location r)\<rparr>]\<rparr>)"
  by (simp add: push_error_def push_diagnostic_def run_simps)

lemma define_or_report_run:
  "define_or_report name value l s = (case map_of (as_symbols s) name of
       None \<Rightarrow> Some (Inr (), s\<lparr>as_symbols := as_symbols s @ [(name, \<lparr>sy_name = name, sy_value = value, sy_definition = l, sy_references = []\<rparr>)]\<rparr>)
     | Some e \<Rightarrow> Some (Inr (), s\<lparr>as_diagnostics := as_diagnostics s @
         [\<lparr>dg_severity = Error, dg_code = ''AGCA050'', dg_message = SymbolProblem (Duplicate name (sy_definition e) l), dg_location = Some l\<rparr>]\<rparr>))"
  by (simp add: define_or_report_def define_symbol_run symbol_diagnostic_def push_diagnostic_def run_simps split: option.split)

lemma evaluate_and_reference_run:
  "evaluate_and_reference (SymbolOperand name offset) l s = (case map_of (as_symbols s) name of
       None \<Rightarrow> Some (Inr (Inl (SymbolFailed (Unresolved name l))), s)
     | Some e \<Rightarrow> map_option (\<lambda>r. (Inr r, s\<lparr>as_symbols := note_use name l (as_symbols s)\<rparr>))
         (add_offset offset (symbol_base (NoAddress name) (sy_value e))))"
  by (simp add: evaluate_and_reference_def reference_symbol_run split: option.split)

section \<open>Every operation grows and never fails\<close>

text \<open>The operations before the final check return values only.\<close>

definition steady :: "'a assembly \<Rightarrow> bool" where
  "steady m \<longleftrightarrow> (\<forall>s r s'. m s = Some (r, s') \<longrightarrow> grows s s' \<and> (\<exists>a. r = Inr a))"

lemma steadyD: "steady m \<Longrightarrow> m s = Some (r, s') \<Longrightarrow> grows s s' \<and> (\<exists>a. r = Inr a)"
  by (simp add: steady_def)

lemma steady_bind:
  assumes "steady m" "\<And>a. steady (f a)"
  shows "steady (and_then m f)"
  unfolding steady_def
proof (intro allI impI)
  fix s r s'
  assume "and_then m f s = Some (r, s')"
  then obtain a t where "m s = Some (Inr a, t)" "f a t = Some (r, s')"
    using assms(1) by (auto simp: run_simps split: option.splits sum.splits dest: steadyD)
  then show "grows s s' \<and> (\<exists>a. r = Inr a)"
    using steadyD [OF assms(1)] steadyD [OF assms(2)] transpD [OF grows_order(2)] by blast
qed

lemma steady_simple:
  "steady (ok a)" "steady panic" "steady (gets f)" "steady (of_option v)"
  "(\<And>s. as_diagnostics (g s) = as_diagnostics s \<and> as_symbols (g s) = as_symbols s) \<Longrightarrow> steady (modify g)"
  using grows_order(1)
  by (auto simp: steady_def run_simps grows_def extends_refl split: option.splits dest: reflpD)

lemma steady_push_error: "steady (push_error code text r)"
  by (auto simp: steady_def push_error_run grows_def extends_refl)

lemma steady_define: "steady (define_or_report name value l)"
  by (auto simp: steady_def define_or_report_run grows_def extends_refl extends_append split: option.splits)

lemma steady_evaluate: "steady (evaluate_and_reference x l)"
proof (cases x)
  case (SymbolOperand name offset)
  then show ?thesis
    by (auto simp: steady_def evaluate_and_reference_run grows_def extends_refl extends_note_use split: option.splits)
qed (simp_all add: evaluate_and_reference_def steady_bind steady_simple)

lemma steady_load: "steady (load f i)" "(\<And>s xs. as_diagnostics (u xs s) = as_diagnostics s \<and> as_symbols (u xs s) = as_symbols s) \<Longrightarrow> steady (store f u i x)"
  by (auto simp: steady_def run_simps grows_def extends_refl split: if_splits)

lemma steady_if: "steady m \<Longrightarrow> steady n \<Longrightarrow> steady (if b then m else n)"
  by simp

lemmas steady_rules = steady_bind steady_push_error steady_define steady_evaluate steady_load steady_simple

lemma steady_location_operand: "steady (location_operand r limit place code text)"
  unfolding location_operand_def by (auto intro!: steady_rules split: sum.split)

lemma steady_directive: "steady (apply_location_directive r)"
  unfolding apply_location_directive_def by (auto intro!: steady_rules steady_location_operand)

lemma steady_count: "steady (emitted_word_count r)"
  unfolding emitted_word_count_def Let_def by (auto intro!: steady_rules split: operand.split)

lemma steady_assign: "steady (assign_location i r)"
  unfolding assign_location_def
  by (auto intro!: steady_rules steady_directive steady_count split: option.split sum.split prod.split simp: Let_def)

lemma steady_assign_list: "steady (assign_locations i rs)"
  by (induction i rs rule: assign_locations.induct) (auto intro!: steady_rules steady_assign)

lemma steady_round: "steady (equate_round rs pending)"
  by (induction rs pending rule: equate_round.induct) (auto intro!: steady_rules split: sum.split prod.split)

lemma steady_resolve: "steady (resolve_equates rs pending)"
proof -
  have "resolve_equates rs pending s = Some (r, s') \<Longrightarrow> grows s s' \<and> (\<exists>a. r = Inr a)" for s r s'
  proof (induction rs pending s arbitrary: r s' rule: resolve_equates.induct)
    case (1 rs pending s)
    show ?case
    proof (cases "pending = []")
      case True
      then show ?thesis using "1.prems" reflpD [OF grows_order(1)] by (auto simp: resolve_equates.simps)
    next
      case False
      then obtain x t where round: "equate_round rs pending s = Some (x, t)"
        using "1.prems" by (auto simp: resolve_equates.simps split: option.splits)
      obtain progress left where x: "x = Inr (progress, left)" using steadyD [OF steady_round round] by auto
      note g = steadyD [OF steady_round round]
      show ?thesis
      proof (cases progress)
        case True
        then have "resolve_equates rs left t = Some (r, s')" using "1.prems" False round x by (simp add: resolve_equates.simps)
        from "1.IH" [OF False round refl x refl True this] g transpD [OF grows_order(2)] show ?thesis by blast
      next
        case no: False
        then show ?thesis using "1.prems" False round x g by (auto simp: resolve_equates.simps)
      qed
    qed
  qed
  then show ?thesis by (auto simp: steady_def)
qed

lemma steady_emission: "steady (single_word v r)" "steady (signed_word v r)" "steady (double_words v b r)"
  unfolding single_word_def signed_word_def double_words_def
  by (auto intro!: steady_rules split: sum.split)

lemma steady_instruction: "steady (emit_instruction m r c)"
  unfolding emit_instruction_def by (auto intro!: steady_rules split: sum.split option.split)

lemma steady_emit_record: "steady (emit_record r c)"
  unfolding emit_record_def Let_def
  by (cases "mnemonic_parse (ir_operation r)")
    (simp_all only: option.case, (intro steady_if steady_rules steady_emission steady_instruction steady_count)+)

lemma steady_place: "steady (place_words b off k ws r)"
  by (induction b off k ws r rule: place_words.induct) (auto intro!: steady_rules simp: Let_def)

lemma steady_emit_at: "steady (emit_at r)"
  unfolding emit_at_def by (auto intro!: steady_rules steady_emit_record steady_place split: option.split)

lemma steady_emit_records: "steady (emit_records rs)"
  by (induction rs) (auto intro!: steady_rules steady_emit_at)

lemma steady_for_each: "(\<And>p. steady (f p)) \<Longrightarrow> steady (for_each ps f)"
  by (induction ps) (auto intro!: steady_rules)

lemma steady_report: "steady (report_pending rs pending)"
  unfolding report_pending_def by (rule steady_for_each) (auto intro!: steady_rules split: prod.split)

section \<open>The image and its cells\<close>

text \<open>The cells written so far, and the arrays they amount to.\<close>

definition image_of :: "(nat \<times> agc_word) list \<Rightarrow> assembling \<Rightarrow> bool" where
  "image_of cells s \<longleftrightarrow> length (as_words s) = ROPE_WORDS \<and> length (as_occupied s) = ROPE_WORDS
     \<and> distinct (map fst cells) \<and> (\<forall>w \<in> snd ` set cells. word_ok w) \<and> (\<forall>a \<in> fst ` set cells. a < ROPE_WORDS)
     \<and> (\<forall>a < ROPE_WORDS. as_occupied s ! a = (a \<in> fst ` set cells)
          \<and> as_words s ! a = (case map_of cells a of Some w \<Rightarrow> w | None \<Rightarrow> POSITIVE_ZERO))"

lemma image_of_frame:
  "as_words s' = as_words s \<Longrightarrow> as_occupied s' = as_occupied s \<Longrightarrow> image_of cells s' = image_of cells s"
  by (simp add: image_of_def)

lemma map_of_snoc: "distinct (map fst (cells @ [(a, w)])) \<Longrightarrow>
   map_of (cells @ [(a, w)]) b = (if b = a then Some w else map_of cells b)"
  by (auto simp: map_add_def map_of_eq_None_iff [symmetric] split: option.split)

lemma image_of_write:
  assumes "image_of cells s" "at < ROPE_WORDS" "\<not> as_occupied s ! at" "word_ok w"
  shows "image_of (cells @ [(at, w)]) (s\<lparr>as_words := (as_words s)[at := w], as_occupied := (as_occupied s)[at := True]\<rparr>)"
proof -
  have new: "at \<notin> fst ` set cells" using assms by (auto simp: image_of_def)
  then have "distinct (map fst (cells @ [(at, w)]))" using assms(1) by (simp add: image_of_def)
  with assms new show ?thesis
    by (auto simp: image_of_def map_of_snoc nth_list_update simp del: map_append map_of_append)
qed

definition cells_of :: "u8 \<Rightarrow> u16 \<Rightarrow> nat \<Rightarrow> agc_word list \<Rightarrow> (nat \<times> agc_word) list" where
  "cells_of b off k ws = zip [as_usize b off k ..< as_usize b off k + length ws] ws"

lemma cells_of_Cons: "cells_of b off k (w # ws) = (as_usize b off k, w) # cells_of b off (Suc k) ws"
proof -
  have "[n ..< n + length (w # ws)] = n # [Suc n ..< Suc n + length ws]" for n
    by (subst upt_conv_Cons) simp_all
  from this [of "as_usize b off k"] show ?thesis by (simp add: cells_of_def as_usize_def)
qed

text \<open>Pushing an error spoils the state for good.\<close>

lemma spoiled:
  assumes "seq (push_error code text r) m s = Some (x, s')" "steady m" "no_errors s'"
  shows False
proof -
  obtain t where "push_error code text r s = Some (Inr (), t)" "m t = Some (x, s')" and bad: "\<not> no_errors t"
    using assms(1) by (auto simp: run_simps push_error_run no_errors_def is_error_def)
  then show False using steadyD [OF assms(2)] grows_no_errors assms(3) by blast
qed

lemma place_words_image:
  assumes "place_words b off k ws r s = Some (x, s')" "no_errors s'" "image_of cells s" "list_all word_ok ws"
  shows "image_of (cells @ cells_of b off k ws) s' \<and> as_symbols s' = as_symbols s \<and> as_extend s' = as_extend s
    \<and> x = Inr (if k = 0 \<and> ws \<noteq> [] then r\<lparr>ir_word := Some (hd ws)\<rparr> else r)"
  using assms
proof (induction ws arbitrary: k r s cells)
  case Nil
  then show ?case by (simp add: cells_of_def run_simps)
next
  case (Cons w ws)
  let ?at = "as_usize b off k"
  have len: "length (as_words s) = ROPE_WORDS" "length (as_occupied s) = ROPE_WORDS" using Cons.prems(3) by (simp_all add: image_of_def)
  have "\<not> length (as_words s) \<le> ?at"
    using Cons.prems(1) spoiled [OF _ steady_place Cons.prems(2)] by (auto simp: Let_def run_and_then [of "gets _"] run_basic)
  then have at: "?at < ROPE_WORDS" using len by simp
  have free: "\<not> as_occupied s ! ?at"
  proof
    assume "as_occupied s ! ?at"
    then show False
      using Cons.prems(1) at len spoiled [OF _ steady_place Cons.prems(2)]
      by (auto simp: Let_def run_and_then [of "gets _"] run_and_then [of "load _ _"] run_basic run_array)
  qed
  let ?s = "s\<lparr>as_words := (as_words s)[?at := w], as_occupied := (as_occupied s)[?at := True]\<rparr>"
  let ?r = "if k = 0 then r\<lparr>ir_word := Some w\<rparr> else r"
  have "place_words b off (Suc k) ws ?r ?s = Some (x, s')"
    using Cons.prems(1) at free len by (simp add: Let_def run_simps)
  moreover have "image_of (cells @ [(?at, w)]) ?s" using image_of_write [OF Cons.prems(3) at free] Cons.prems(4) by simp
  moreover have ok: "list_all word_ok ws" using Cons.prems(4) by simp
  ultimately have "image_of ((cells @ [(?at, w)]) @ cells_of b off (Suc k) ws) s' \<and> as_symbols s' = as_symbols ?s \<and> as_extend s' = as_extend ?s
      \<and> x = Inr (if Suc k = 0 \<and> ws \<noteq> [] then ?r\<lparr>ir_word := Some (hd ws)\<rparr> else ?r)"
    using Cons.IH Cons.prems(2) ok by blast
  then show ?case by (simp add: cells_of_Cons)
qed

section \<open>Values survive\<close>

lemma evaluate_symbol_extends:
  "evaluate_symbol name offset t = Some (Inr v) \<Longrightarrow> extends t t' \<Longrightarrow> evaluate_symbol name offset t' = Some (Inr v)"
  unfolding evaluate_symbol_def get_symbol_def extends_def
  by (cases "map_of t name") (simp, metis option.simps(5))

lemma parse_atom_extends:
  "parse_atom a t = Some (Inr v) \<Longrightarrow> extends t t' \<Longrightarrow> parse_atom a t' = Some (Inr v)"
proof (cases "parse_numeric a")
  case (Some n)
  assume "parse_atom a t = Some (Inr v)" "extends t t'"
  with Some show ?thesis using evaluate_symbol_extends [of a 0 t v t'] by (cases n) (simp_all add: parse_atom_def)
qed (simp add: parse_atom_def)

lemma evaluate_operand_extends:
  assumes "evaluate_operand x t = Some (Inr v)" "extends t t'"
  shows "evaluate_operand x t' = Some (Inr v)"
proof (cases x)
  case (ExpressionOperand e)
  let ?ws = "split_whitespace e"
  show ?thesis
  proof (cases "length ?ws = 3 \<and> ?ws ! 1 \<in> {''+'', ''-''}")
    case True
    let ?join = "\<lambda>l r. if ?ws ! 1 = ''+'' then l + r else l - r"
    have e: "evaluate_operand x u = (case parse_atom (?ws ! 0) u of None \<Rightarrow> None | Some (Inl e) \<Rightarrow> Some (Inl e)
        | Some (Inr l) \<Rightarrow> (case parse_atom (?ws ! 2) u of None \<Rightarrow> None | Some (Inl e) \<Rightarrow> Some (Inl e)
          | Some (Inr r) \<Rightarrow> map_option Inr (in_i64 (?join l r))))" for u
      unfolding ExpressionOperand evaluate_operand_def evaluate_expression_def Let_def operand.case by (rule if_P [OF True])
    obtain l where l: "parse_atom (?ws ! 0) t = Some (Inr l)"
      using assms(1) unfolding e by (cases "parse_atom (?ws ! 0) t") (simp, simp split: sum.splits)
    then obtain r where r: "parse_atom (?ws ! 2) t = Some (Inr r)"
      using assms(1) unfolding e by (cases "parse_atom (?ws ! 2) t") (simp, simp split: sum.splits)
    show ?thesis
      using assms(1) unfolding e parse_atom_extends [OF l assms(2)] parse_atom_extends [OF r assms(2)] l r .
  next
    case False
    have "evaluate_operand x u = parse_atom (trim e) u" for u
      unfolding ExpressionOperand evaluate_operand_def evaluate_expression_def Let_def operand.case by (rule if_not_P [OF False])
    then show ?thesis using assms parse_atom_extends [of "trim e" t v t'] by simp
  qed
next
  case (SymbolOperand name offset)
  then show ?thesis using assms evaluate_symbol_extends [of name offset t v t'] by (simp add: evaluate_operand_def)
qed (use assms(1) in \<open>simp_all add: evaluate_operand_def\<close>)

lemma evaluated_reference:
  assumes "evaluate_and_reference x l s = Some (r, s')" "r = Inr (Inr v)"
  shows "evaluate_operand x (as_symbols s) = Some (Inr v)"
proof (cases x)
  case (SymbolOperand name offset)
  then obtain e where e: "map_of (as_symbols s) name = Some e"
      "add_offset offset (symbol_base (NoAddress name) (sy_value e)) = Some (Inr v)"
    using assms by (auto simp: evaluate_and_reference_run split: option.splits)
  then have "add_offset offset (symbol_base (NoUsableAddress name) (sy_value e)) = Some (Inr v)"
    by (auto simp: symbol_base_def add_offset_def split: symbol_value.splits option.splits)
  then show ?thesis using SymbolOperand e(1) by (simp add: evaluate_operand_def evaluate_symbol_def get_symbol_def)
qed (use assms in \<open>auto simp: evaluate_and_reference_def run_simps split: option.splits\<close>)

section \<open>Instructions\<close>

definition implied_operand :: "mnemonic \<Rightarrow> bool" where
  "implied_operand m \<longleftrightarrow> m \<in> {Extend, Relint, Inhint, Resume}"

lemma spoiled_run:
  assumes "seq (push_error code text r) (ok a) s = Some (x, s')" "no_errors s'"
  shows False
  by (rule spoiled [OF assms(1) _ assms(2)]) (rule steady_simple(1))

text \<open>The operand of an instruction, and the word it is encoded to.\<close>

definition instruction_operand :: "mnemonic \<Rightarrow> ir_record \<Rightarrow> u16 option assembly" where
  "instruction_operand m r =
     (if m \<in> {Extend, Relint, Inhint, Resume} then ok (Some 0)
      else and_then (evaluate_and_reference (ir_operand r) (ir_location r)) (\<lambda>got.
        case got of
          Inr v \<Rightarrow> if 0 \<le> v \<and> v \<le> 0xFFF then ok (Some (word_of_int v))
            else seq (push_error ''AGCA030'' (OperandTooWide v) r) (ok None)
        | Inl e \<Rightarrow> seq (push_error ''AGCA031'' (EvaluationFailed e) r) (ok None)))"

definition instruction_word :: "mnemonic \<Rightarrow> ir_record \<Rightarrow> bool \<Rightarrow> u16 option \<Rightarrow> agc_word list assembly" where
  "instruction_word m r c x = (case x of
       None \<Rightarrow> ok []
     | Some k \<Rightarrow>
         if is_extended m \<and> \<not> c then seq (push_error ''AGCA032'' (RequiresExtend m) r) (ok [])
         else (case encode_with_context m k c of
             Inr w \<Rightarrow> ok [w]
           | Inl e \<Rightarrow> seq (push_error ''AGCA033'' (EncodingFailed e) r) (ok [])))"

lemma emit_instruction_parts: "emit_instruction m r c = and_then (instruction_operand m r) (instruction_word m r c)"
  unfolding emit_instruction_def instruction_operand_def instruction_word_def ..

lemma steady_instruction_parts: "steady (instruction_operand m r)" "steady (instruction_word m r c x)"
  unfolding instruction_operand_def instruction_word_def by (auto intro!: steady_rules split: sum.split option.split)

lemma steady_andD:
  assumes "and_then m f s = Some (x, s')" "steady m"
  obtains a t where "m s = Some (Inr a, t)" "f a t = Some (x, s')"
  using assms by (auto simp: run_simps split: option.splits sum.splits dest: steadyD)

lemma instruction_operand_value:
  assumes "instruction_operand m r s = Some (Inr k, t)" "no_errors t"
  shows "\<exists>x. k = Some x \<and> (if implied_operand m then x = 0
      else evaluate_operand (ir_operand r) (as_symbols s) = Some (Inr (uint x)))"
proof (cases "implied_operand m")
  case True
  then show ?thesis using assms(1) by (auto simp: implied_operand_def instruction_operand_def run_simps)
next
  case False
  then have "and_then (evaluate_and_reference (ir_operand r) (ir_location r)) (\<lambda>got.
        case got of
          Inr v \<Rightarrow> if 0 \<le> v \<and> v \<le> 0xFFF then ok (Some (word_of_int v))
            else seq (push_error ''AGCA030'' (OperandTooWide v) r) (ok None)
        | Inl e \<Rightarrow> seq (push_error ''AGCA031'' (EvaluationFailed e) r) (ok None)) s = Some (Inr k, t)"
    using assms(1) unfolding implied_operand_def instruction_operand_def by (simp only: if_False)
  then obtain got u where e: "evaluate_and_reference (ir_operand r) (ir_location r) s = Some (Inr got, u)"
    and v: "(case got of
          Inr v \<Rightarrow> if 0 \<le> v \<and> v \<le> 0xFFF then ok (Some (word_of_int v))
            else seq (push_error ''AGCA030'' (OperandTooWide v) r) (ok None)
        | Inl e \<Rightarrow> seq (push_error ''AGCA031'' (EvaluationFailed e) r) (ok None)) u = Some (Inr k, t)"
    by (rule steady_andD [OF _ steady_evaluate])
  show ?thesis
  proof (cases got)
    case (Inl err)
    then have "seq (push_error ''AGCA031'' (EvaluationFailed err) r) (ok None) u = Some (Inr k, t)" using v by simp
    from spoiled_run [OF this assms(2)] show ?thesis ..
  next
    case (Inr v')
    show ?thesis
    proof (cases "0 \<le> v' \<and> v' \<le> 0xFFF")
      case True
      then have "k = Some (word_of_int v')" using v Inr by (simp add: run_basic)
      moreover have "uint (word_of_int v' :: u16) = v'" using True by (simp add: uint_word_of_int)
      ultimately show ?thesis using False evaluated_reference [OF e] Inr by auto
    next
      case no: False
      then have "seq (push_error ''AGCA030'' (OperandTooWide v') r) (ok None) u = Some (Inr k, t)" using v Inr by auto
      from spoiled_run [OF this assms(2)] show ?thesis ..
    qed
  qed
qed

lemma instruction_word_encoded:
  assumes "instruction_word m r c (Some k) t = Some (x, s')" "no_errors s'"
  shows "(is_extended m \<longrightarrow> c) \<and> (\<exists>w. encode_with_context m k c = Inr w \<and> x = Inr [w])"
proof (cases "is_extended m \<and> \<not> c")
  case True
  then have "seq (push_error ''AGCA032'' (RequiresExtend m) r) (ok []) t = Some (x, s')"
    using assms(1) by (simp add: instruction_word_def)
  from spoiled_run [OF this assms(2)] show ?thesis ..
next
  case False
  show ?thesis
  proof (cases "encode_with_context m k c")
    case (Inl e)
    then have "seq (push_error ''AGCA033'' (EncodingFailed e) r) (ok []) t = Some (x, s')"
      using assms(1) False by (auto simp: instruction_word_def)
    from spoiled_run [OF this assms(2)] show ?thesis ..
  next
    case (Inr w)
    then show ?thesis using assms(1) False by (auto simp: instruction_word_def run_basic)
  qed
qed

lemma emit_instruction_word:
  assumes "emit_instruction m r c s = Some (x, s')" "no_errors s'"
  shows "\<exists>k w. x = Inr [w] \<and> encode_with_context m k c = Inr w \<and> (is_extended m \<longrightarrow> c)
    \<and> (if implied_operand m then k = 0 else evaluate_operand (ir_operand r) (as_symbols s) = Some (Inr (uint k)))"
proof -
  obtain k t where k: "instruction_operand m r s = Some (Inr k, t)" and w: "instruction_word m r c k t = Some (x, s')"
    using assms(1) unfolding emit_instruction_parts by (rule steady_andD [OF _ steady_instruction_parts(1)])
  have "no_errors t" using steadyD [OF steady_instruction_parts(2) w] grows_no_errors assms(2) by blast
  from instruction_operand_value [OF k this] obtain y where y: "k = Some y"
    "if implied_operand m then y = 0 else evaluate_operand (ir_operand r) (as_symbols s) = Some (Inr (uint y))" by blast
  from instruction_word_encoded [OF w [unfolded y(1)] assms(2)] y(2) show ?thesis by blast
qed

section \<open>Valid words\<close>

text \<open>What an operation returns, when it returns.\<close>

definition returns :: "('a \<Rightarrow> bool) \<Rightarrow> 'a assembly \<Rightarrow> bool" where
  "returns P m \<longleftrightarrow> (\<forall>s a t. m s = Some (Inr a, t) \<longrightarrow> P a)"

lemma returns_bind: "(\<And>a. returns P (f a)) \<Longrightarrow> returns P (and_then m f)"
  by (fastforce simp: returns_def run_simps split: option.splits sum.splits)

lemma returns_seq: "returns P n \<Longrightarrow> returns P (seq m n)"
  by (rule returns_bind)

lemma returns_bind_both:
  assumes "returns Q m" "\<And>a. Q a \<Longrightarrow> returns P (f a)"
  shows "returns P (and_then m f)"
  using assms by (fastforce simp: returns_def run_simps split: option.splits sum.splits)

lemma returns_ok: "P a \<Longrightarrow> returns P (ok a)"
  by (simp add: returns_def run_basic)

lemma returns_if: "(b \<Longrightarrow> returns P m) \<Longrightarrow> (\<not> b \<Longrightarrow> returns P n) \<Longrightarrow> returns P (if b then m else n)"
  by simp

lemma from_i32_valid: "from_i32 v = Inr w \<Longrightarrow> word_ok w"
  using from_i32_ok [of v] from_i32_error [of v] by (cases "- 16383 \<le> v \<and> v \<le> 16383") auto

lemma from_i64_valid: "from_i64 v = Inr d \<Longrightarrow> word_ok (dw_high d) \<and> word_ok (dw_low d)"
  by (auto simp: from_i64_def Let_def split: if_splits)

lemma returns_single: "returns (list_all word_ok) (single_word v r)"
  unfolding single_word_def by (auto intro!: returns_seq returns_ok split: sum.split)

lemma returns_signed: "returns (list_all word_ok) (signed_word v r)"
  unfolding signed_word_def
  by (auto intro!: returns_seq returns_ok split: sum.split dest: from_i32_valid simp: Let_def)

lemma returns_double: "returns (list_all word_ok) (double_words v b r)"
  unfolding double_words_def
  by (auto intro!: returns_seq returns_ok split: sum.split dest: from_i64_valid)

lemma returns_instruction: "returns (list_all word_ok) (emit_instruction m r c)"
  unfolding emit_instruction_parts instruction_word_def
proof (intro returns_bind)
  fix k
  have "list_all word_ok [w]" if "encode_with_context m x c = Inr w" for x w
    using that encode_outcome [where m = m and k = x and c = c] by simp
  then show "returns (list_all word_ok) (case k of None \<Rightarrow> ok []
     | Some k \<Rightarrow> if is_extended m \<and> \<not> c then seq (push_error ''AGCA032'' (RequiresExtend m) r) (ok [])
         else (case encode_with_context m k c of Inr w \<Rightarrow> ok [w]
           | Inl e \<Rightarrow> seq (push_error ''AGCA033'' (EncodingFailed e) r) (ok [])))"
    by (auto intro!: returns_seq returns_ok split: option.split sum.split)
qed

lemma returns_emit_record: "returns (list_all word_ok) (emit_record r c)"
proof -
  have valid: "list_all word_ok first \<Longrightarrow> list_all word_ok (case first of [] \<Rightarrow> [] | w # _ \<Rightarrow> [w, POSITIVE_ZERO])" for first
    by (cases first) simp_all
  have fill: "list_all word_ok (replicate n POSITIVE_ZERO)" for n by (simp add: list_all_iff)
  show ?thesis
    unfolding emit_record_def Let_def
    by (cases "mnemonic_parse (ir_operation r)"; simp only: option.case)
      (intro returns_if returns_instruction returns_bind returns_single returns_signed returns_double
         returns_bind_both [OF returns_single] returns_ok valid fill; simp)+
qed

section \<open>Pass two on records\<close>

text \<open>The image arrays are touched by the placement only.\<close>

definition same_arrays :: "assembling \<Rightarrow> assembling \<Rightarrow> bool" where
  "same_arrays s s' \<longleftrightarrow> as_words s' = as_words s \<and> as_occupied s' = as_occupied s \<and> as_extend s' = as_extend s"

lemma same_arrays_order: "reflp same_arrays" "transp same_arrays"
  by (auto simp: same_arrays_def intro: reflpI transpI)

lemma arrays_bind: "leaves same_arrays m \<Longrightarrow> (\<And>a. leaves same_arrays (f a)) \<Longrightarrow> leaves same_arrays (and_then m f)"
  by (rule leaves_bind [OF same_arrays_order])

lemma arrays_simple:
  "leaves same_arrays (ok a)" "leaves same_arrays panic" "leaves same_arrays (gets f)" "leaves same_arrays (of_option v)"
  "(\<And>s. as_words (g s) = as_words s \<and> as_occupied (g s) = as_occupied s \<and> as_extend (g s) = as_extend s) \<Longrightarrow> leaves same_arrays (modify g)"
  using same_arrays_order(1) by (auto intro: leaves_simple simp: same_arrays_def)

lemma arrays_if: "leaves same_arrays m \<Longrightarrow> leaves same_arrays n \<Longrightarrow> leaves same_arrays (if b then m else n)"
  by simp

lemma arrays_push: "leaves same_arrays (push_error code text r)"
  by (rule leavesI) (auto simp: push_error_run same_arrays_def)

lemma arrays_define: "leaves same_arrays (define_or_report name value l)"
  by (rule leavesI) (auto simp: define_or_report_run same_arrays_def split: option.splits)

lemma arrays_evaluate: "leaves same_arrays (evaluate_and_reference x l)"
proof (cases x)
  case (SymbolOperand name offset)
  then show ?thesis by (auto intro!: leavesI simp: evaluate_and_reference_run same_arrays_def split: option.splits)
qed (auto simp: evaluate_and_reference_def intro!: arrays_bind arrays_simple)

lemmas arrays_rules = arrays_bind arrays_push arrays_define arrays_evaluate arrays_simple

lemma arrays_emission: "leaves same_arrays (single_word v r)" "leaves same_arrays (signed_word v r)" "leaves same_arrays (double_words v b r)"
  unfolding single_word_def signed_word_def double_words_def by (auto intro!: arrays_rules split: sum.split)

lemma arrays_instruction: "leaves same_arrays (emit_instruction m r c)"
  unfolding emit_instruction_def by (auto intro!: arrays_rules split: sum.split option.split)

lemma arrays_count: "leaves same_arrays (emitted_word_count r)"
  unfolding emitted_word_count_def Let_def by (auto intro!: arrays_rules split: operand.split)

lemma arrays_emit_record: "leaves same_arrays (emit_record r c)"
  unfolding emit_record_def Let_def
  by (cases "mnemonic_parse (ir_operation r)")
    (simp_all only: option.case, (intro arrays_if arrays_rules arrays_emission arrays_instruction arrays_count)+)

lemma arrays_directive: "leaves same_arrays (apply_location_directive r)"
  unfolding apply_location_directive_def location_operand_def by (auto intro!: arrays_rules split: sum.split)

lemma arrays_assign: "leaves same_arrays (assign_location i r)"
  unfolding assign_location_def
  by (auto intro!: arrays_rules arrays_directive arrays_count split: option.split sum.split prod.split simp: Let_def)

lemma arrays_assign_list: "leaves same_arrays (assign_locations i rs)"
  by (induction i rs rule: assign_locations.induct) (auto intro!: arrays_rules arrays_assign)

lemma arrays_round: "leaves same_arrays (equate_round rs pending)"
  by (induction rs pending rule: equate_round.induct) (auto intro!: arrays_rules split: sum.split prod.split)

lemma arrays_resolve: "leaves same_arrays (resolve_equates rs pending)"
proof (rule leavesI)
  fix s r s'
  show "resolve_equates rs pending s = Some (r, s') \<Longrightarrow> same_arrays s s'"
  proof (induction rs pending s arbitrary: r s' rule: resolve_equates.induct)
    case (1 rs pending s)
    show ?case
    proof (cases "pending = []")
      case True
      then show ?thesis using "1.prems" by (auto simp: resolve_equates.simps same_arrays_def)
    next
      case False
      then obtain x t where round: "equate_round rs pending s = Some (x, t)"
        using "1.prems" by (auto simp: resolve_equates.simps split: option.splits)
      have first: "same_arrays s t" by (rule leavesD [OF arrays_round round])
      obtain progress left where x: "x = Inr (progress, left)" using steadyD [OF steady_round round] by auto
      show ?thesis
      proof (cases progress)
        case True
        then have "resolve_equates rs left t = Some (r, s')" using "1.prems" False round x by (simp add: resolve_equates.simps)
        from "1.IH" [OF False round refl x refl True this] first show ?thesis by (rule transpD [OF same_arrays_order(2), rotated])
      next
        case no: False
        then show ?thesis using "1.prems" False round x first by (auto simp: resolve_equates.simps)
      qed
    qed
  qed
qed

lemma arrays_report: "leaves same_arrays (report_pending rs pending)"
  unfolding report_pending_def
  by (rule leaves_for_each [OF same_arrays_order]) (auto intro!: arrays_rules split: prod.split)

text \<open>Where the final word of a record comes from.\<close>

definition emitted_from :: "assembling \<Rightarrow> bool \<Rightarrow> ir_record \<Rightarrow> ir_record \<Rightarrow> bool" where
  "emitted_from final c r r' \<longleftrightarrow> r' = r\<lparr>ir_word := ir_word r'\<rparr>
     \<and> (\<forall>b off. ir_bank r = Some b \<and> ir_offset r = Some off \<longrightarrow>
          (\<exists>s ws t. emit_record r c s = Some (Inr ws, t) \<and> grows t final \<and> no_errors t
             \<and> ir_word r' = (if ws = [] then ir_word r else Some (hd ws))))
     \<and> (ir_bank r = None \<longrightarrow> r' = r)"

text \<open>Whether an \<open>EXTEND\<close> was emitted by the record before.\<close>

definition extends_next :: "ir_record \<Rightarrow> bool" where
  "extends_next r \<longleftrightarrow> ir_bank r \<noteq> None \<and> ir_operation r = ''EXTEND''"

fun contexts :: "bool \<Rightarrow> ir_record list \<Rightarrow> bool list" where
  "contexts c [] = []"
| "contexts c (r # rs) = c # contexts (extends_next r) rs"

text \<open>The first cell of a record in the final listing.\<close>

definition first_cell :: "u8 \<times> u16 \<times> agc_word \<Rightarrow> nat \<times> agc_word" where
  "first_cell e = (case e of (b, off, w) \<Rightarrow> (as_usize b off 0, w))"

definition first_cells :: "ir_record list \<Rightarrow> (nat \<times> agc_word) list" where
  "first_cells rs = map first_cell (List.map_filter emitted_word rs)"

lemma first_cells_Cons:
  "first_cells (r # rs) = (case emitted_word r of None \<Rightarrow> [] | Some e \<Rightarrow> [first_cell e]) @ first_cells rs"
  by (simp add: first_cells_def List.map_filter_simps split: option.split)

lemma emitted_from_later: "emitted_from t c r r' \<Longrightarrow> grows t t' \<Longrightarrow> emitted_from t' c r r'"
  unfolding emitted_from_def using transpD [OF grows_order(2)] by meson

lemma emit_at_image:
  assumes "emit_at r s = Some (x, s')" "no_errors s'" "image_of cells s" "ir_word r = None"
  shows "\<exists>r' new. x = Inr r' \<and> image_of (cells @ new) s' \<and> emitted_from s' (as_extend s) r r' \<and> as_extend s' = extends_next r
    \<and> (\<forall>e. emitted_word r' = Some e \<longrightarrow> first_cell e \<in> set new)"
proof (cases "ir_bank r")
  case None
  then have "x = Inr r" "image_of cells s'" "as_extend s' = extends_next r"
    using assms(1,3) by (auto simp: emit_at_def run_simps image_of_def extends_next_def)
  then show ?thesis using None by (intro exI [of _ r] exI [of _ "[]"]) (auto simp: emitted_from_def emitted_word_def)
next
  case (Some b)
  show ?thesis
  proof (cases "ir_offset r")
    case None
    then have run: "seq (push_error ''AGCA051'' (Text ''assigned fixed bank is missing its offset'') r)
        (seq (modify (as_extend_update (\<lambda>_. False))) (ok r)) s = Some (x, s')"
      using assms(1) Some by (simp add: emit_at_def)
    have "steady (seq (modify (as_extend_update (\<lambda>_. False))) (ok r))" by (auto intro!: steady_rules)
    from spoiled [OF run this assms(2)] show ?thesis ..
  next
    case off: (Some off)
    then have "and_then (emit_record r (as_extend s)) (\<lambda>emitted.
           seq (modify (as_extend_update (\<lambda>_. ir_operation r = ''EXTEND''))) (place_words b off 0 emitted r)) s = Some (x, s')"
      using assms(1) Some by (simp add: emit_at_def run_basic run_and_then [of "gets _"])
    then obtain ws t where ws: "emit_record r (as_extend s) s = Some (Inr ws, t)"
      and pl: "place_words b off 0 ws r (t\<lparr>as_extend := ir_operation r = ''EXTEND''\<rparr>) = Some (x, s')"
      by (rule steady_andD [OF _ steady_emit_record]) (simp add: run_basic run_and_then [of "modify _"])
    have returned: "list_all word_ok ws" using returns_emit_record ws unfolding returns_def by blast
    have "same_arrays s t" by (rule leavesD [OF arrays_emit_record ws])
    then have "image_of cells (t\<lparr>as_extend := ir_operation r = ''EXTEND''\<rparr>)"
      using assms(3) by (simp add: image_of_def same_arrays_def)
    note placed = place_words_image [OF pl assms(2) this returned]
    let ?r = "if ws \<noteq> [] then r\<lparr>ir_word := Some (hd ws)\<rparr> else r"
    have x: "x = Inr ?r" and img: "image_of (cells @ cells_of b off 0 ws) s'"
      and ext: "as_extend s' = extends_next r" using placed Some by (auto simp: extends_next_def)
    have "grows (t\<lparr>as_extend := ir_operation r = ''EXTEND''\<rparr>) s'" using steadyD [OF steady_place pl] by blast
    then have g: "grows t s'" by (simp add: grows_def)
    have origin: "emitted_from s' (as_extend s) r ?r"
      using ws g grows_no_errors [OF g assms(2)] Some off unfolding emitted_from_def by auto
    have "first_cell e \<in> set (cells_of b off 0 ws)" if e: "emitted_word ?r = Some e" for e
    proof (cases ws)
      case Nil
      then show ?thesis using e assms(4) by (simp add: emitted_word_def split: option.splits)
    next
      case (Cons w ws')
      then have "e = (b, off, w)" using e Some off by (simp add: emitted_word_def)
      then show ?thesis using Cons by (simp add: first_cell_def cells_of_Cons)
    qed
    then show ?thesis using x img origin ext by blast
  qed
qed

lemma emit_records_image:
  assumes "emit_records rs s = Some (x, s')" "no_errors s'" "image_of cells s" "\<forall>r \<in> set rs. ir_word r = None"
  shows "\<exists>rs' new. x = Inr rs' \<and> image_of (cells @ new) s' \<and> list_all2 (\<lambda>(c, r). emitted_from s' c r) (zip (contexts (as_extend s) rs) rs) rs'
    \<and> set (first_cells rs') \<subseteq> set new \<and> distinct (map fst (first_cells rs'))"
  using assms
proof (induction rs arbitrary: s x cells)
  case Nil
  then show ?case by (auto simp: run_basic first_cells_def List.map_filter_simps intro!: exI [of _ "[]"])
next
  case (Cons r rs)
  obtain r' t where r': "emit_at r s = Some (Inr r', t)" and rest: "and_then (emit_records rs) (\<lambda>rs'. ok (r' # rs')) t = Some (x, s')"
    using Cons.prems(1) by (auto elim: steady_andD [OF _ steady_emit_at])
  obtain rs' where rs': "emit_records rs t = Some (Inr rs', s')" and x: "x = Inr (r' # rs')"
    using rest by (rule steady_andD [OF _ steady_emit_records]) (simp add: run_basic)
  have g: "grows t s'" using steadyD [OF steady_emit_records rs'] by blast
  obtain new where new: "image_of (cells @ new) t" "emitted_from t (as_extend s) r r'" "as_extend t = extends_next r"
      "\<forall>e. emitted_word r' = Some e \<longrightarrow> first_cell e \<in> set new"
    using emit_at_image [OF r' grows_no_errors [OF g Cons.prems(2)] Cons.prems(3)] Cons.prems(4) by auto
  obtain more where more: "image_of ((cells @ new) @ more) s'" "list_all2 (\<lambda>(c, r). emitted_from s' c r) (zip (contexts (as_extend t) rs) rs) rs'"
      "set (first_cells rs') \<subseteq> set more" "distinct (map fst (first_cells rs'))"
    using Cons.IH [OF rs' Cons.prems(2) new(1)] Cons.prems(4) by auto
  have disjoint: "fst ` set new \<inter> fst ` set more = {}" using more(1) by (auto simp: image_of_def)
  have "set (first_cells (r' # rs')) \<subseteq> set (new @ more)"
    using new(4) more(3) by (auto simp: first_cells_Cons split: option.splits)
  moreover have "distinct (map fst (first_cells (r' # rs')))"
  proof (cases "emitted_word r'")
    case None
    then show ?thesis using more(4) by (simp add: first_cells_Cons)
  next
    case (Some e)
    then have "fst (first_cell e) \<in> fst ` set new" using new(4) by blast
    then have "fst (first_cell e) \<notin> fst ` set (first_cells rs')" using more(3) disjoint by blast
    then show ?thesis using Some more(4) by (simp add: first_cells_Cons)
  qed
  moreover have "list_all2 (\<lambda>(c, r). emitted_from s' c r) (zip (contexts (as_extend s) (r # rs)) (r # rs)) (r' # rs')"
    using more(2) emitted_from_later [OF new(2) g] new(3) by simp
  ultimately show ?case using x more(1) by (intro exI [of _ "r' # rs'"] exI [of _ "new @ more"]) simp
qed

end
