(* ===== verification/Agc_Expansion.thy ===== *)
theory Agc_Expansion
  imports Agc_Assembler
begin

text \<open>
  \<open>crates/agc-assembler\<close>, the expansion of includes into one list of records.  The recursion over
  included files carries fuel.
\<close>

section \<open>Include expansion\<close>

text \<open>
  What the expansion reads from: the bytes of the files of the program, their digest, and the
  overlay.
\<close>

record expansion_env =
  en_program :: program
  en_read :: "string \<Rightarrow> string + string"
  en_sha256 :: "string \<Rightarrow> string"
  en_overlay :: "overlay option"

record expansion =
  xp_cache :: "(string, source_unit) btree_map"
  xp_unit_order :: "string list"
  xp_stack :: "string list"
  xp_records :: "ir_record list"
  xp_diagnostics :: "diagnostic list"
  xp_hashes :: "(string, string) btree_map"

type_synonym 'a expanding = "(expansion, assembly_error, 'a) prog"

definition initial_expansion :: expansion where
  "initial_expansion = \<lparr>xp_cache = [], xp_unit_order = [], xp_stack = [], xp_records = [], xp_diagnostics = [], xp_hashes = []\<rparr>"

definition diagnostic_of_parse :: "string \<Rightarrow> parse_diagnostic \<Rightarrow> diagnostic" where
  "diagnostic_of_parse file d =
     \<lparr>dg_severity = pd_severity d, dg_code = pd_code d, dg_message = Text (pd_message d),
      dg_location = Some \<lparr>loc_file = file, loc_line = pd_line d, loc_span = pd_span d\<rparr>\<rparr>"

definition append_parse_diagnostics :: "string \<Rightarrow> parse_diagnostic list \<Rightarrow> unit expanding" where
  "append_parse_diagnostics file ds = modify (xp_diagnostics_update (\<lambda>es. es @ map (diagnostic_of_parse file) ds))"

definition overlaid :: "expansion_env \<Rightarrow> string \<Rightarrow> string \<Rightarrow> assembly_error + string" where
  "overlaid env relative bytes = (case en_overlay env of
       None \<Rightarrow> Inr bytes
     | Some v \<Rightarrow> (case apply_to_source v relative bytes of Inl e \<Rightarrow> Inl (AsmOverlay e) | Inr b \<Rightarrow> Inr b))"

definition load_unit :: "expansion_env \<Rightarrow> string \<Rightarrow> unit expanding" where
  "load_unit env relative =
     and_then (gets (\<lambda>s. btree_get relative (xp_cache s))) (\<lambda>cached.
     case cached of
       Some _ \<Rightarrow> ok ()
     | None \<Rightarrow>
         (let source = source_id_new (en_program env) relative
          in case en_read env (relative_path source) of
               Inl e \<Rightarrow> fail (AsmSource (SourceIo (relative_path source) e))
             | Inr bytes \<Rightarrow>
                 and_then (of_result (overlaid env relative bytes)) (\<lambda>edited.
                 and_then (of_option (parse_str source edited)) (\<lambda>parsed.
                 seq (append_parse_diagnostics relative (po_diagnostics parsed))
                (seq (modify (xp_hashes_update (btree_insert relative (en_sha256 env bytes))))
                (seq (modify (xp_unit_order_update (\<lambda>us. us @ [relative])))
                     (modify (xp_cache_update (btree_insert relative (po_unit parsed))))))))))"

definition push_record :: "ir_record \<Rightarrow> unit expanding" where
  "push_record r = modify (xp_records_update (\<lambda>rs. rs @ [r]))"

definition label_record :: "string \<Rightarrow> source_line \<Rightarrow> spanned_text \<Rightarrow> ir_record" where
  "label_record file l label =
     \<lparr>ir_location = \<lparr>loc_file = file, loc_line = ln_number l, loc_span = ln_span l\<rparr>, ir_label = Some (sp_text label),
      ir_operation = [], ir_operand = NoOperand, ir_kind = DirectiveKind, ir_bank = None, ir_offset = None, ir_word = None\<rparr>"

text \<open>One line of a unit; \<open>again\<close> is the expansion of an included file.\<close>

definition expand_line :: "expansion_env \<Rightarrow> (string \<Rightarrow> unit expanding) \<Rightarrow> string \<Rightarrow> source_unit \<Rightarrow> source_line \<Rightarrow> unit expanding" where
  "expand_line env again relative u l = (case ln_kind l of
       Include path _ \<Rightarrow>
         (let aliased = (case en_overlay env of None \<Rightarrow> sp_text path | Some v \<Rightarrow> resolve_include v (sp_text path))
          in case resolve_relative_include (un_source u) aliased of
               Inl e \<Rightarrow> fail (ParserInclude relative (ln_number l) e)
             | Inr resolved \<Rightarrow> again resolved)
     | StatementLine st \<Rightarrow> and_then (of_option (lower_statement relative l st)) push_record
     | LabelCard label _ _ \<Rightarrow> push_record (label_record relative l label)
     | _ \<Rightarrow> ok ())"

definition cycle_at :: "string \<Rightarrow> string list \<Rightarrow> string list option" where
  "cycle_at relative stack =
     (if relative \<in> set stack then Some (dropWhile (\<lambda>p. p \<noteq> relative) stack @ [relative]) else None)"

primrec expand :: "nat \<Rightarrow> expansion_env \<Rightarrow> string \<Rightarrow> unit expanding" where
  "expand 0 = (\<lambda>env relative. panic)"
| "expand (Suc fuel) = (\<lambda>env relative.
     and_then (gets xp_stack) (\<lambda>open_files.
     case cycle_at relative open_files of
       Some cycle \<Rightarrow> fail (IncludeCycle (join '' -> '' cycle))
     | None \<Rightarrow>
         seq (load_unit env relative)
        (seq (modify (xp_stack_update (\<lambda>fs. fs @ [relative])))
        (and_then (gets (\<lambda>s. btree_get relative (xp_cache s))) (\<lambda>found.
         and_then (of_option found) (\<lambda>u.
         seq (for_each (un_lines u) (expand_line env (expand fuel env) relative u))
             (modify (xp_stack_update butlast))))))))"

definition normalize_entry :: "string \<Rightarrow> string" where
  "normalize_entry entry = join ''/'' (map component_text (path_components entry))"

text \<open>The result collected from the final state, and the whole of \<open>expand_program\<close>.\<close>

definition expanded_of :: "program \<Rightarrow> expansion \<Rightarrow> expanded_program" where
  "expanded_of p s =
     \<lparr>ex_program = p, ex_units = List.map_filter (\<lambda>path. btree_get path (xp_cache s)) (xp_unit_order s),
      ex_ir = \<lparr>pi_program = directory p, pi_records = xp_records s, pi_hashes = xp_hashes s\<rparr>,
      ex_diagnostics = xp_diagnostics s\<rparr>"

definition overlay_mismatch :: "expansion_env \<Rightarrow> assembly_error option" where
  "overlay_mismatch env = (case en_overlay env of
       Some v \<Rightarrow> if ov_program v \<noteq> en_program env then Some (OverlayProgram (en_program env) (ov_program v)) else None
     | None \<Rightarrow> None)"

definition expand_program :: "nat \<Rightarrow> expansion_env \<Rightarrow> string \<Rightarrow> (assembly_error + expanded_program) option" where
  "expand_program fuel env entry = (case overlay_mismatch env of
       Some e \<Rightarrow> Some (Inl e)
     | None \<Rightarrow> (case expand fuel env (normalize_entry entry) initial_expansion of
         None \<Rightarrow> None
       | Some (Inl e, _) \<Rightarrow> Some (Inl e)
       | Some (Inr _, s) \<Rightarrow> Some (Inr (expanded_of (en_program env) s))))"

end
