(* ===== verification/Agc_Assembly_Laws.thy ===== *)
theory Agc_Assembly_Laws
  imports Agc_Assembler_Laws Agc_Expansion Agc_Loader_Laws
begin

text \<open>
  Laws of a whole assembly, of one unit or of an expanded program: labels, instructions, the image,
  the rope file and the loader, and the fixed point of the equates.
\<close>

section \<open>Pass one\<close>

definition fresh_record :: "ir_record \<Rightarrow> bool" where
  "fresh_record r \<longleftrightarrow> ir_bank r = None \<and> ir_offset r = None \<and> ir_word r = None"

text \<open>The label of a located record is defined as its location.\<close>

definition label_defined :: "symbol_table \<Rightarrow> ir_record \<Rightarrow> bool" where
  "label_defined t r \<longleftrightarrow> (\<forall>n off. ir_label r = Some n \<and> ir_offset r = Some off \<longrightarrow>
     (\<exists>e. map_of t n = Some e \<and> sy_definition e = ir_location r
        \<and> (case ir_bank r of Some b \<Rightarrow> sy_value e = FixedValue b off | None \<Rightarrow> \<exists>b. sy_value e = ErasableValue b off)))"

lemma label_defined_extends: "label_defined t r \<Longrightarrow> extends t t' \<Longrightarrow> label_defined t' r"
  unfolding label_defined_def
proof (intro allI impI)
  fix n off
  assume defd: "\<forall>n off. ir_label r = Some n \<and> ir_offset r = Some off \<longrightarrow>
     (\<exists>e. map_of t n = Some e \<and> sy_definition e = ir_location r
        \<and> (case ir_bank r of Some b \<Rightarrow> sy_value e = FixedValue b off | None \<Rightarrow> \<exists>b. sy_value e = ErasableValue b off))"
    and ext: "extends t t'" and r: "ir_label r = Some n \<and> ir_offset r = Some off"
  then obtain e where e: "map_of t n = Some e" "sy_definition e = ir_location r"
      "case ir_bank r of Some b \<Rightarrow> sy_value e = FixedValue b off | None \<Rightarrow> \<exists>b. sy_value e = ErasableValue b off" by blast
  obtain e' where "map_of t' n = Some e'" "sy_value e' = sy_value e" "sy_definition e' = sy_definition e"
    using ext e(1) unfolding extends_def by blast
  then show "\<exists>e. map_of t' n = Some e \<and> sy_definition e = ir_location r
        \<and> (case ir_bank r of Some b \<Rightarrow> sy_value e = FixedValue b off | None \<Rightarrow> \<exists>b. sy_value e = ErasableValue b off)"
    using e(2,3) by (intro exI [of _ e']) (simp split: option.splits)
qed

lemma define_quiet:
  assumes "define_or_report n value l s = Some (x, s')" "no_errors s'"
  shows "\<exists>e. map_of (as_symbols s') n = Some e \<and> sy_value e = value \<and> sy_definition e = l"
proof (cases "map_of (as_symbols s) n")
  case (Some e)
  then show ?thesis using assms by (auto simp: define_or_report_run no_errors_def is_error_def)
next
  case None
  then have "s' = s\<lparr>as_symbols := as_symbols s @ [(n, \<lparr>sy_name = n, sy_value = value, sy_definition = l, sy_references = []\<rparr>)]\<rparr>"
    using assms(1) by (simp add: define_or_report_run)
  then show ?thesis using None by (simp add: map_add_def)
qed

definition located :: "symbol_table \<Rightarrow> ir_record \<Rightarrow> ir_record \<Rightarrow> bool" where
  "located t r r' \<longleftrightarrow> r' = r\<lparr>ir_bank := ir_bank r', ir_offset := ir_offset r'\<rparr> \<and> ir_word r' = None \<and> label_defined t r'
     \<and> (ir_bank r' \<noteq> None \<longrightarrow> ir_offset r' \<noteq> None)"

lemma located_unwritten: "located t r r' \<Longrightarrow> ir_word r' = None"
  unfolding located_def by (elim conjE)

lemma located_same: "fresh_record r \<Longrightarrow> located t r r"
  by (simp add: located_def fresh_record_def label_defined_def)

lemma assign_location_located:
  assumes "assign_location i r s = Some (x, s')" "no_errors s'" "fresh_record r"
  shows "\<exists>r'. x = Inr r' \<and> located (as_symbols s') r r'"
proof -
  have x: "\<exists>r'. x = Inr r'" using steadyD [OF steady_assign assms(1)] by blast
  consider "ir_operation r = []" | "ir_operation r \<noteq> []" "is_equate (ir_operation r)"
    | "ir_operation r \<noteq> []" "\<not> is_equate (ir_operation r)" by blast
  then show ?thesis
  proof cases
    case 1
    then have "x = Inr r" using assms(1) x
      by (auto simp: assign_location_def run_simps define_or_report_run split: option.splits)
    then show ?thesis using located_same [OF assms(3)] by blast
  next
    case 2
    then have "x = Inr r" using assms(1) x
      by (auto simp: assign_location_def run_simps push_error_run split: option.splits)
    then show ?thesis using located_same [OF assms(3)] by blast
  next
    case 3
    then obtain applied t where "(if applied then ok r
        else and_then (emitted_word_count r) (\<lambda>emits.
          if emits = 0 then ok r
          else and_then (gets as_location) (\<lambda>l.
            let (bank, offset, got) = current_value l;
                r' = r\<lparr>ir_bank := bank, ir_offset := Some offset\<rparr>
            in seq (case ir_label r of None \<Rightarrow> ok () | Some label \<Rightarrow> define_or_report label got (ir_location r))
               (seq (case advance (word_of_nat emits) l of
                    Inl text \<Rightarrow> push_error ''AGCA002'' text r'
                  | Inr l' \<Rightarrow> modify (as_location_update (\<lambda>_. l')))
                 (ok r'))))) t = Some (x, s')"
      using assms(1) unfolding assign_location_def by (simp only: if_False) (erule steady_andD [OF _ steady_directive])
    note after = this
    show ?thesis
    proof (cases applied)
      case True
      then have "x = Inr r" using after by (simp add: run_basic)
      then show ?thesis using located_same [OF assms(3)] by blast
    next
      case False
      with after obtain emits u where after': "(if emits = 0 then ok r
          else and_then (gets as_location) (\<lambda>l.
            let (bank, offset, got) = current_value l;
                r' = r\<lparr>ir_bank := bank, ir_offset := Some offset\<rparr>
            in seq (case ir_label r of None \<Rightarrow> ok () | Some label \<Rightarrow> define_or_report label got (ir_location r))
               (seq (case advance (word_of_nat emits) l of
                    Inl text \<Rightarrow> push_error ''AGCA002'' text r'
                  | Inr l' \<Rightarrow> modify (as_location_update (\<lambda>_. l')))
                 (ok r')))) u = Some (x, s')"
        by (simp only: if_False) (erule steady_andD [OF _ steady_count])
      show ?thesis
      proof (cases "emits = 0")
        case True
        then have "x = Inr r" using after' by (simp add: run_basic)
        then show ?thesis using located_same [OF assms(3)] by blast
      next
        case nonzero: False
        obtain bank off got where cv: "current_value (as_location u) = (bank, off, got)" by (metis prod_cases3)
        let ?r = "r\<lparr>ir_bank := bank, ir_offset := Some off\<rparr>"
        let ?label = "(case ir_label r of None \<Rightarrow> ok () | Some label \<Rightarrow> define_or_report label got (ir_location r)) :: unit assembly"
        let ?move = "(case advance (word_of_nat emits) (as_location u) of
                    Inl text \<Rightarrow> push_error ''AGCA002'' text ?r | Inr l' \<Rightarrow> modify (as_location_update (\<lambda>_. l'))) :: unit assembly"
        have run: "seq ?label (seq ?move (ok ?r)) u = Some (x, s')"
          using after' nonzero cv by (simp add: run_and_then [of "gets _"] run_basic Let_def)
        have st: "steady ?label" by (auto intro!: steady_rules split: option.split)
        have st': "steady ?move" by (auto intro!: steady_rules split: sum.split)
        obtain v where v: "?label u = Some (Inr (), v)" and rest: "seq ?move (ok ?r) v = Some (x, s')"
          using run by (rule steady_andD [OF _ st]) simp
        have xr: "x = Inr ?r" using rest by (rule steady_andD [OF _ st']) (simp add: run_basic)
        have st2: "steady (seq ?move (ok ?r))" using st' by (intro steady_rules)
        have g: "grows v s'" using steadyD [OF st2 rest] by blast
        have "label_defined (as_symbols v) ?r"
        proof (cases "ir_label r")
          case (Some n)
          then have "define_or_report n got (ir_location r) u = Some (Inr (), v)" using v by simp
          from define_quiet [OF this grows_no_errors [OF g assms(2)]] show ?thesis
            using cv Some by (cases "as_location u") (auto simp: label_defined_def current_value_def intro: sym)
        qed (simp add: label_defined_def)
        then have "label_defined (as_symbols s') ?r" using g label_defined_extends by (auto simp: grows_def)
        then show ?thesis using xr assms(3) by (auto simp: located_def fresh_record_def)
      qed
    qed
  qed
qed

lemma assign_locations_located:
  assumes "assign_locations i rs s = Some (x, s')" "no_errors s'" "list_all fresh_record rs"
  shows "\<exists>rs'. x = Inr rs' \<and> list_all2 (located (as_symbols s')) rs rs'"
  using assms
proof (induction rs arbitrary: i s x)
  case Nil
  then show ?case by (simp add: run_basic)
next
  case (Cons r rs)
  obtain r' t where r': "assign_location i r s = Some (Inr r', t)"
    and rest: "and_then (assign_locations (Suc i) rs) (\<lambda>rs'. ok (r' # rs')) t = Some (x, s')"
    using Cons.prems(1) by (auto elim: steady_andD [OF _ steady_assign])
  obtain rs' where rs': "assign_locations (Suc i) rs t = Some (Inr rs', s')" and x: "x = Inr (r' # rs')"
    using rest by (rule steady_andD [OF _ steady_assign_list]) (simp add: run_basic)
  have g: "grows t s'" using steadyD [OF steady_assign_list rs'] by blast
  have "located (as_symbols t) r r'"
    using assign_location_located [OF r' grows_no_errors [OF g Cons.prems(2)]] Cons.prems(3) by auto
  then have "located (as_symbols s') r r'"
    using g label_defined_extends unfolding located_def grows_def by blast
  then show ?case using Cons.IH [OF rs' Cons.prems(2)] Cons.prems(3) x by auto
qed

section \<open>A successful assembly\<close>

text \<open>The records that reach the second pass, and the state it ends in.\<close>

definition assembled :: "program_ir \<Rightarrow> assembling \<Rightarrow> ir_record list \<Rightarrow> ir_record list \<Rightarrow> (nat \<times> agc_word) list \<Rightarrow> bool" where
  "assembled ir final rs rs' cells \<longleftrightarrow> no_errors final \<and> image_of cells final
     \<and> list_all2 (located (as_symbols final)) (pi_records ir) rs \<and> list_all2 (\<lambda>(c, r). emitted_from final c r) (zip (contexts False rs) rs) rs'
     \<and> set (first_cells rs') \<subseteq> set cells \<and> distinct (map fst (first_cells rs'))"

lemma image_of_initial: "image_of [] (initial_assembling ds)"
  by (simp add: image_of_def initial_assembling_def)

definition final_check :: "program_ir \<Rightarrow> ir_record list \<Rightarrow> program_image assembly" where
  "final_check ir rs' = and_then (gets (\<lambda>s. s)) (\<lambda>s.
     let errors = length (filter is_error (as_diagnostics s))
     in if errors \<noteq> 0 then fail (DiagnosticsError errors (as_diagnostics s))
        else ok \<lparr>im_words = as_words s, im_occupied = as_occupied s, im_symbols = as_symbols s,
                 im_ir = ir\<lparr>pi_records := rs'\<rparr>, im_diagnostics = as_diagnostics s\<rparr>)"

lemma final_check_run:
  "final_check ir rs' s = (if no_errors s
     then Some (Inr \<lparr>im_words = as_words s, im_occupied = as_occupied s, im_symbols = as_symbols s,
            im_ir = ir\<lparr>pi_records := rs'\<rparr>, im_diagnostics = as_diagnostics s\<rparr>, s)
     else Some (Inl (DiagnosticsError (length (filter is_error (as_diagnostics s))) (as_diagnostics s)), s))"
  by (auto simp: final_check_def run_simps no_errors_def Let_def)

lemma assemble_body_check:
  assumes "assemble_body ir s = Some (x, final)"
  obtains s1 rs s2 pending s3 rs' where
    "assign_locations 0 (pi_records ir) s = Some (Inr rs, s1)"
    "resolve_equates rs (as_equates s1) s1 = Some (Inr pending, s2)"
    "report_pending rs pending s2 = Some (Inr (), s3)"
    "emit_records rs s3 = Some (Inr rs', final)" "final_check ir rs' final = Some (x, final)"
proof -
  note run = assms [unfolded assemble_body_def, folded final_check_def]
  obtain rs s1 where 1: "assign_locations 0 (pi_records ir) s = Some (Inr rs, s1)"
    and r1: "and_then (gets as_equates) (\<lambda>equates. and_then (resolve_equates rs equates) (\<lambda>pending.
        seq (report_pending rs pending) (and_then (emit_records rs) (final_check ir)))) s1 = Some (x, final)"
    using run by (rule steady_andD [OF _ steady_assign_list])
  then have "and_then (resolve_equates rs (as_equates s1)) (\<lambda>pending.
        seq (report_pending rs pending) (and_then (emit_records rs) (final_check ir))) s1 = Some (x, final)"
    by (simp add: run_and_then [of "gets _"] run_basic)
  then obtain pending s2 where 2: "resolve_equates rs (as_equates s1) s1 = Some (Inr pending, s2)"
    and r2: "seq (report_pending rs pending) (and_then (emit_records rs) (final_check ir)) s2 = Some (x, final)"
    by (rule steady_andD [OF _ steady_resolve])
  obtain s3 where 3: "report_pending rs pending s2 = Some (Inr (), s3)"
    and r3: "and_then (emit_records rs) (final_check ir) s3 = Some (x, final)"
    using r2 by (rule steady_andD [OF _ steady_report]) simp
  obtain rs' s4 where 4: "emit_records rs s3 = Some (Inr rs', s4)" and 5: "final_check ir rs' s4 = Some (x, final)"
    using r3 by (rule steady_andD [OF _ steady_emit_records])
  have "s4 = final" using 5 by (simp add: final_check_run split: if_splits)
  with 1 2 3 4 5 show thesis by (intro that) simp_all
qed

lemma located_grows: "grows s s' \<Longrightarrow> located (as_symbols s) r r' \<Longrightarrow> located (as_symbols s') r r'"
  using label_defined_extends unfolding located_def grows_def by blast

lemma assemble_success:
  assumes "assemble ex = Some (Inr i)" "list_all fresh_record (pi_records (ex_ir ex))"
  obtains final rs rs' cells where "assembled (ex_ir ex) final rs rs' cells"
    "i = \<lparr>im_words = as_words final, im_occupied = as_occupied final, im_symbols = as_symbols final,
          im_ir = (ex_ir ex)\<lparr>pi_records := rs'\<rparr>, im_diagnostics = as_diagnostics final\<rparr>"
proof -
  obtain final where body: "assemble_body (ex_ir ex) (initial_assembling (ex_diagnostics ex)) = Some (Inr i, final)"
    using assms(1) by (auto simp: assemble_def)
  then obtain s1 rs s2 pending s3 rs' where
    1: "assign_locations 0 (pi_records (ex_ir ex)) (initial_assembling (ex_diagnostics ex)) = Some (Inr rs, s1)" and
    2: "resolve_equates rs (as_equates s1) s1 = Some (Inr pending, s2)" and
    3: "report_pending rs pending s2 = Some (Inr (), s3)" and
    4: "emit_records rs s3 = Some (Inr rs', final)" and 5: "final_check (ex_ir ex) rs' final = Some (Inr i, final)"
    by (rule assemble_body_check)
  have quiet: "no_errors final" and i: "i = \<lparr>im_words = as_words final, im_occupied = as_occupied final,
      im_symbols = as_symbols final, im_ir = (ex_ir ex)\<lparr>pi_records := rs'\<rparr>, im_diagnostics = as_diagnostics final\<rparr>"
    using 5 by (auto simp: final_check_run split: if_splits)
  have g: "grows s1 s2" "grows s2 s3" "grows s3 final"
    using steadyD [OF steady_resolve 2] steadyD [OF steady_report 3] steadyD [OF steady_emit_records 4] by blast+
  then have g1: "grows s1 final" using transpD [OF grows_order(2)] by blast
  obtain "list_all2 (located (as_symbols s1)) (pi_records (ex_ir ex)) rs"
    using assign_locations_located [OF 1 grows_no_errors [OF g1 quiet] assms(2)] by blast
  then have loc: "list_all2 (located (as_symbols final)) (pi_records (ex_ir ex)) rs"
    by (rule list_all2_mono) (rule located_grows [OF g1])
  have "same_arrays (initial_assembling (ex_diagnostics ex)) s3"
    using leavesD [OF arrays_assign_list 1] leavesD [OF arrays_resolve 2] leavesD [OF arrays_report 3]
      transpD [OF same_arrays_order(2)] by blast
  then have ext: "\<not> as_extend s3" and img: "image_of [] s3" using image_of_initial image_of_frame by (auto simp: same_arrays_def initial_assembling_def image_of_def)
  have "\<forall>r \<in> set rs. ir_word r = None"
  proof
    fix r
    assume "r \<in> set rs"
    then obtain i where i: "i < length rs" "r = rs ! i" by (auto simp: in_set_conv_nth)
    from located_unwritten [OF list_all2_nthD2 [OF loc i(1)]] i(2) show "ir_word r = None" by simp
  qed
  with emit_records_image [OF 4 quiet img] obtain cells where "image_of cells final" "list_all2 (\<lambda>(c, r). emitted_from final c r) (zip (contexts False rs) rs) rs'"
      "set (first_cells rs') \<subseteq> set cells" "distinct (map fst (first_cells rs'))"
    using ext by auto
  then have "assembled (ex_ir ex) final rs rs' cells" using quiet loc by (simp add: assembled_def)
  with i show thesis by (intro that)
qed

lemma assemble_failure:
  assumes "assemble ex = Some (Inl e)"
  obtains ds where "e = DiagnosticsError (length (filter is_error ds)) ds" "filter is_error ds \<noteq> []"
    "\<exists>more. ds = ex_diagnostics ex @ more"
proof -
  obtain final where body: "assemble_body (ex_ir ex) (initial_assembling (ex_diagnostics ex)) = Some (Inl e, final)"
    using assms(1) by (auto simp: assemble_def)
  then obtain s1 rs s2 pending s3 rs' where
    1: "assign_locations 0 (pi_records (ex_ir ex)) (initial_assembling (ex_diagnostics ex)) = Some (Inr rs, s1)" and
    2: "resolve_equates rs (as_equates s1) s1 = Some (Inr pending, s2)" and
    3: "report_pending rs pending s2 = Some (Inr (), s3)" and
    4: "emit_records rs s3 = Some (Inr rs', final)" and 5: "final_check (ex_ir ex) rs' final = Some (Inl e, final)"
    by (rule assemble_body_check)
  have "grows (initial_assembling (ex_diagnostics ex)) final"
    using steadyD [OF steady_assign_list 1] steadyD [OF steady_resolve 2] steadyD [OF steady_report 3]
      steadyD [OF steady_emit_records 4] transpD [OF grows_order(2)] by blast
  then have "\<exists>more. as_diagnostics final = ex_diagnostics ex @ more" by (simp add: grows_def initial_assembling_def)
  moreover have "e = DiagnosticsError (length (filter is_error (as_diagnostics final))) (as_diagnostics final)"
    "filter is_error (as_diagnostics final) \<noteq> []"
    using 5 by (auto simp: final_check_run no_errors_def split: if_splits)
  ultimately show thesis by (intro that) simp_all
qed

section \<open>What a successful assembly says\<close>

text \<open>
  The image of a successful assembly: no error was reported, every word is valid, unoccupied cells
  are zero, and the words of the listing are the words at their places, which are distinct.
\<close>

definition image_sound :: "program_image \<Rightarrow> bool" where
  "image_sound i \<longleftrightarrow> length (im_words i) = ROPE_WORDS \<and> length (im_occupied i) = ROPE_WORDS
     \<and> filter is_error (im_diagnostics i) = [] \<and> list_all word_ok (im_words i)
     \<and> (\<forall>a < ROPE_WORDS. \<not> im_occupied i ! a \<longrightarrow> im_words i ! a = POSITIVE_ZERO)
     \<and> distinct (map fst (first_cells (pi_records (im_ir i))))
     \<and> (\<forall>(a, w) \<in> set (first_cells (pi_records (im_ir i))). a < ROPE_WORDS \<and> im_occupied i ! a \<and> im_words i ! a = w)"

text \<open>
  The word of an instruction record encodes its mnemonic with the value of its operand in the final
  symbol table; \<open>c\<close> tells whether an \<open>EXTEND\<close> was emitted just before, so it is the context in which
  the processor decodes the word.
\<close>

definition instruction_encoded :: "symbol_table \<Rightarrow> bool \<Rightarrow> ir_record \<Rightarrow> bool" where
  "instruction_encoded t c r \<longleftrightarrow> (\<forall>m. mnemonic_parse (ir_operation r) = Some m \<and> ir_bank r \<noteq> None \<longrightarrow>
     (\<exists>k w. ir_word r = Some w \<and> encode_with_context m k c = Inr w \<and> (is_extended m \<longrightarrow> c)
        \<and> (if implied_operand m then k = 0 else evaluate_operand (ir_operand r) t = Some (Inr (uint k)))
        \<and> (di_mnemonic (decode w c) = m \<and> di_operand (decode w c) = k)
           = (\<not> aliased m k c \<and> (c \<longrightarrow> is_extended m \<or> m = Index))))"

lemma decode_in_context:
  assumes "encode_with_context m k c = Inr w" "is_extended m \<longrightarrow> c"
  shows "(di_mnemonic (decode w c) = m \<and> di_operand (decode w c) = k)
     = (\<not> aliased m k c \<and> (c \<longrightarrow> is_extended m \<or> m = Index))"
proof (cases "c \<longrightarrow> is_extended m \<or> m = Index")
  case True
  then have "(is_extended m \<or> m = Index \<and> c) = c" using assms(2) by blast
  then show ?thesis using encode_outcome [where m = m and k = k and c = c] assms(1) True by (simp add: Let_def)
next
  case False
  then have "di_mnemonic (decode w c) \<noteq> m" using decode_class(1) [of w c] by auto
  then show ?thesis using False by simp
qed

lemma written_fields:
  assumes "emitted_from s c r r'"
  shows "ir_bank r' = ir_bank r" "ir_offset r' = ir_offset r" "ir_operation r' = ir_operation r"
    "ir_operand r' = ir_operand r" "ir_label r' = ir_label r" "ir_location r' = ir_location r"
proof -
  have "r' = r\<lparr>ir_word := ir_word r'\<rparr>" using assms by (simp only: emitted_from_def)
  then show "ir_bank r' = ir_bank r" "ir_offset r' = ir_offset r" "ir_operation r' = ir_operation r"
    "ir_operand r' = ir_operand r" "ir_label r' = ir_label r" "ir_location r' = ir_location r"
    by (cases r; cases r'; simp)+
qed

lemma emitted_instruction:
  assumes "emitted_from final c r r'" "located t0 r0 r"
  shows "instruction_encoded (as_symbols final) c r'"
  unfolding instruction_encoded_def
proof (intro allI impI)
  fix m
  assume m: "mnemonic_parse (ir_operation r') = Some m \<and> ir_bank r' \<noteq> None"
  note same = written_fields [OF assms(1)]
  obtain b where b: "ir_bank r = Some b" using m same by auto
  then obtain off where off: "ir_offset r = Some off" using assms(2) by (auto simp: located_def)
  obtain s ws t where run: "emit_record r c s = Some (Inr ws, t)" and g: "grows t final" "no_errors t"
    and word: "ir_word r' = (if ws = [] then ir_word r else Some (hd ws))"
    using assms(1) b off unfolding emitted_from_def by blast
  have "emit_instruction m r c s = Some (Inr ws, t)" using run m same by (simp add: emit_record_def Let_def)
  from emit_instruction_word [OF this g(2)] obtain k w where w: "ws = [w]" "encode_with_context m k c = Inr w"
    "is_extended m \<longrightarrow> c" "if implied_operand m then k = 0 else evaluate_operand (ir_operand r) (as_symbols s) = Some (Inr (uint k))"
    by auto
  have ext: "extends (as_symbols s) (as_symbols final)"
    using steadyD [OF steady_emit_record run] g(1) extends_trans unfolding grows_def by blast
  have "if implied_operand m then k = 0 else evaluate_operand (ir_operand r') (as_symbols final) = Some (Inr (uint k))"
    using w(4) evaluate_operand_extends [OF _ ext] same by (cases "implied_operand m") simp_all
  then show "\<exists>k w. ir_word r' = Some w \<and> encode_with_context m k c = Inr w \<and> (is_extended m \<longrightarrow> c)
        \<and> (if implied_operand m then k = 0 else evaluate_operand (ir_operand r') (as_symbols final) = Some (Inr (uint k)))
        \<and> (di_mnemonic (decode w c) = m \<and> di_operand (decode w c) = k)
           = (\<not> aliased m k c \<and> (c \<longrightarrow> is_extended m \<or> m = Index))"
    using word w(1) decode_in_context [OF w(2,3)] w(2,3) by (intro exI [of _ k] exI [of _ w]) simp
qed

lemma emitted_instructions:
  assumes "list_all2 (\<lambda>(c, r). emitted_from final c r) (zip (contexts c rs) rs) rs'" "list_all2 (located t0) rs0 rs"
  shows "list_all2 (instruction_encoded (as_symbols final)) (contexts c rs') rs'"
  using assms
proof (induction rs arbitrary: c rs' rs0)
  case (Cons r rs)
  from Cons.prems(1) obtain r' rs'' where rs': "rs' = r' # rs''" and e: "emitted_from final c r r'"
      and rest: "list_all2 (\<lambda>(c, r). emitted_from final c r) (zip (contexts (extends_next r) rs) rs) rs''"
    by (auto simp: list_all2_Cons1)
  from Cons.prems(2) obtain r0 rs1 where l: "located t0 r0 r" "list_all2 (located t0) rs1 rs"
    by (auto simp: list_all2_Cons2)
  have "extends_next r' = extends_next r" using written_fields [OF e] by (simp add: extends_next_def)
  then show ?case using Cons.IH [OF rest l(2)] emitted_instruction [OF e l(1)] rs' by simp
qed simp

lemma emitted_labels:
  assumes "list_all2 (\<lambda>(c, r). emitted_from final c r) (zip (contexts c rs) rs) rs'" "list_all2 (located t) rs0 rs"
  shows "list_all (label_defined t) rs'"
  using assms
proof (induction rs arbitrary: c rs' rs0)
  case (Cons r rs)
  from Cons.prems(1) obtain r' rs'' where rs': "rs' = r' # rs''" and e: "emitted_from final c r r'"
      and rest: "list_all2 (\<lambda>(c, r). emitted_from final c r) (zip (contexts (extends_next r) rs) rs) rs''"
    by (auto simp: list_all2_Cons1)
  from Cons.prems(2) obtain r0 rs1 where l: "located t r0 r" "list_all2 (located t) rs1 rs"
    by (auto simp: list_all2_Cons2)
  have "label_defined t r" using l(1) unfolding located_def by (elim conjE)
  then have "label_defined t r'" using written_fields [OF e] by (simp add: label_defined_def)
  then show ?case using Cons.IH [OF rest l(2)] rs' by simp
qed simp

section \<open>Records are fresh\<close>

lemma lowered_fresh: "lower_statement file l st = Some r \<Longrightarrow> fresh_record r"
  by (auto simp: lower_statement_def fresh_record_def)

lemma all_some_members: "all_some xs = Some ys \<Longrightarrow> list_all2 (\<lambda>x y. x = Some y) xs ys"
  by (induction xs arbitrary: ys) (auto split: option.splits)

lemma unit_records_fresh:
  "all_some (map (\<lambda>(l, st). lower_statement file l st) ls) = Some rs \<Longrightarrow> list_all fresh_record rs"
  by (induction ls arbitrary: rs) (auto split: option.splits simp: lowered_fresh)

definition adds_fresh :: "expansion \<Rightarrow> expansion \<Rightarrow> bool" where
  "adds_fresh s s' \<longleftrightarrow> (list_all fresh_record (xp_records s) \<longrightarrow> list_all fresh_record (xp_records s'))"

lemma adds_fresh_order: "reflp adds_fresh" "transp adds_fresh"
  by (auto simp: adds_fresh_def intro: reflpI transpI)

lemmas fresh_bind = leaves_bind [OF adds_fresh_order]
lemmas fresh_simple = leaves_simple(1,2,4,5,6) [where R = adds_fresh, OF adds_fresh_order(1)] leaves_simple(3,7) [where R = adds_fresh]

lemma load_unit_fresh: "leaves adds_fresh (load_unit env relative)"
  unfolding load_unit_def append_parse_diagnostics_def
  by (auto intro!: fresh_bind fresh_simple simp: adds_fresh_def Let_def split: option.split sum.split)

lemma push_record_fresh: "fresh_record r \<Longrightarrow> leaves adds_fresh (push_record r)"
  unfolding push_record_def by (rule fresh_simple) (simp add: adds_fresh_def)

lemma expand_line_fresh:
  assumes "\<And>p. leaves adds_fresh (again p)"
  shows "leaves adds_fresh (expand_line env again relative u l)"
proof (cases "ln_kind l")
  case (StatementLine st)
  then show ?thesis
    by (cases "lower_statement relative l st")
      (auto simp: expand_line_def run_simps leaves_def adds_fresh_def push_record_def dest: lowered_fresh)
next
  case (LabelCard label x y)
  then show ?thesis using push_record_fresh [of "label_record relative l label"]
    by (simp add: expand_line_def fresh_record_def label_record_def)
qed (auto simp: expand_line_def Let_def assms split: sum.split intro!: fresh_simple)

lemma expand_fresh: "leaves adds_fresh (expand fuel env relative)"
proof (induction fuel arbitrary: relative)
  case (Suc fuel)
  have stacked: "leaves adds_fresh (modify (xp_stack_update f))" for f by (rule fresh_simple) (simp add: adds_fresh_def)
  show ?case unfolding expand.simps
    by (auto intro!: fresh_bind fresh_simple(1-6) stacked load_unit_fresh expand_line_fresh Suc
        leaves_for_each [OF adds_fresh_order] split: option.split)
qed (simp add: fresh_simple)

lemma expanded_fresh:
  assumes "expand_program fuel env entry = Some (Inr ex)"
  shows "list_all fresh_record (pi_records (ex_ir ex))"
proof -
  obtain x s where "expand fuel env (normalize_entry entry) initial_expansion = Some (Inr x, s)" "ex = expanded_of (en_program env) s"
    using assms by (auto simp: expand_program_def split: option.splits sum.splits)
  then show ?thesis using leavesD [OF expand_fresh] by (fastforce simp: adds_fresh_def initial_expansion_def expanded_of_def)
qed

section \<open>Both routes to an image\<close>

text \<open>An assembly succeeds with an image that satisfies \<open>P\<close>, or reports its errors, or panics.\<close>

definition assembles_to :: "(program_image \<Rightarrow> bool) \<Rightarrow> (assembly_error + program_image) option \<Rightarrow> bool" where
  "assembles_to P r = (case r of
       None \<Rightarrow> True
     | Some (Inr i) \<Rightarrow> P i
     | Some (Inl e) \<Rightarrow> \<exists>ds. e = DiagnosticsError (length (filter is_error ds)) ds \<and> filter is_error ds \<noteq> [])"

lemma assembles:
  assumes "list_all fresh_record (pi_records (ex_ir ex))"
    "\<And>final rs rs' cells. assembled (ex_ir ex) final rs rs' cells \<Longrightarrow>
       P \<lparr>im_words = as_words final, im_occupied = as_occupied final, im_symbols = as_symbols final,
          im_ir = (ex_ir ex)\<lparr>pi_records := rs'\<rparr>, im_diagnostics = as_diagnostics final\<rparr>"
  shows "assembles_to P (assemble ex)"
proof (cases "assemble ex")
  case (Some r)
  show ?thesis
  proof (cases r)
    case (Inl e)
    from assemble_failure [OF Some [unfolded Inl]] show ?thesis unfolding assembles_to_def Some Inl by auto
  next
    case (Inr i)
    from assemble_success [OF Some [unfolded Inr] assms(1)] obtain final rs rs' cells
      where "assembled (ex_ir ex) final rs rs' cells"
        "i = \<lparr>im_words = as_words final, im_occupied = as_occupied final, im_symbols = as_symbols final,
          im_ir = (ex_ir ex)\<lparr>pi_records := rs'\<rparr>, im_diagnostics = as_diagnostics final\<rparr>" .
    then show ?thesis using assms(2) unfolding assembles_to_def Some Inr by simp
  qed
qed (simp add: assembles_to_def)

text \<open>The image of one unit, and of a program expanded from its files.\<close>

definition both_routes :: "(program_image \<Rightarrow> bool) \<Rightarrow> source_unit \<Rightarrow> (assembly_error + expanded_program) option \<Rightarrow> bool" where
  "both_routes P u expanded \<longleftrightarrow> assembles_to P (assemble_unit u)
     \<and> (case expanded of Some (Inr ex) \<Rightarrow> assembles_to P (assemble ex) | _ \<Rightarrow> True)"

lemma both_routesI:
  assumes "\<And>ir final rs rs' cells ds. assembled ir final rs rs' cells \<Longrightarrow>
       P \<lparr>im_words = as_words final, im_occupied = as_occupied final, im_symbols = as_symbols final,
          im_ir = ir\<lparr>pi_records := rs'\<rparr>, im_diagnostics = as_diagnostics final\<rparr>"
  shows "both_routes P u (expand_program fuel env entry)"
proof -
  have "assembles_to P (assemble_unit u)"
    by (auto simp: assemble_unit_def assembles_to_def [of P None] split: option.split
        intro!: assembles assms dest: unit_records_fresh)
  moreover have "assembles_to P (assemble ex)" if "expand_program fuel env entry = Some (Inr ex)" for ex
    using expanded_fresh [OF that] by (rule assembles) (rule assms)
  ultimately show ?thesis by (auto simp: both_routes_def split: option.split sum.split)
qed

section \<open>The rope file\<close>

lemma to_yayul_is_encode:
  assumes "length (im_words i) = ROPE_WORDS"
  shows "map_option Inr (to_yayul_bytes i) = Some (encode_yayul (im_words i))"
  using assms by (simp add: to_yayul_bytes_def encode_yayul_def Let_def flip_bank_def ROPE_WORDS_def cong: if_cong)

lemma image_loads:
  assumes "image_sound i"
  shows "\<exists>bytes. to_yayul_bytes i = Some bytes
     \<and> decode_bytes bytes Yayul = Some (Inr \<lparr>ri_words = im_words i, ri_format = Yayul, ri_parity_words = 0\<rparr>)"
proof -
  have i: "length (im_words i) = ROPE_WORDS" "words_ok (im_words i)"
    using assms by (auto simp: image_sound_def words_ok_def list_all_iff)
  obtain bytes where b: "to_yayul_bytes i = Some bytes" "encode_yayul (im_words i) = Inr bytes"
    using to_yayul_is_encode [OF i(1)] by (auto simp: map_option_case split: option.splits)
  have "decode_bytes bytes Yayul = Some (Inr \<lparr>ri_words = im_words i, ri_format = Yayul, ri_parity_words = 0\<rparr>)"
    by (rule decode_encoded_yayul) (simp add: b(2) i(2))
  then show ?thesis using b(1) by blast
qed

lemma assembled_sound:
  assumes "assembled ir final rs rs' cells"
  shows "image_sound \<lparr>im_words = as_words final, im_occupied = as_occupied final, im_symbols = as_symbols final,
     im_ir = ir\<lparr>pi_records := rs'\<rparr>, im_diagnostics = as_diagnostics final\<rparr>"
proof -
  have img: "image_of cells final" and sub: "set (first_cells rs') \<subseteq> set cells" using assms by (simp_all add: assembled_def)
  have len: "length (as_words final) = ROPE_WORDS" using img by (simp add: image_of_def)
  have word: "as_words final ! a = (case map_of cells a of Some w \<Rightarrow> w | None \<Rightarrow> POSITIVE_ZERO)"
      and occ: "as_occupied final ! a = (a \<in> fst ` set cells)" if "a < ROPE_WORDS" for a
    using img that by (auto simp: image_of_def)
  have valid: "word_ok w" if "(a, w) \<in> set cells" for a w
    using img that by (force simp: image_of_def)
  have "list_all word_ok (as_words final)"
    unfolding list_all_length len
  proof (intro allI impI)
    fix a assume "a < ROPE_WORDS"
    then show "word_ok (as_words final ! a)"
      using word [of a] valid by (cases "map_of cells a") (auto dest: map_of_SomeD)
  qed
  moreover have "as_words final ! a = POSITIVE_ZERO" if "a < ROPE_WORDS" "\<not> as_occupied final ! a" for a
    using word [OF that(1)] occ [OF that(1)] that(2) by (simp add: map_of_eq_None_iff [THEN iffD2])
  moreover have "a < ROPE_WORDS \<and> as_occupied final ! a \<and> as_words final ! a = w" if "(a, w) \<in> set (first_cells rs')" for a w
  proof -
    have c: "(a, w) \<in> set cells" using that sub by blast
    then have "map_of cells a = Some w" using img by (simp add: image_of_def)
    moreover have "a < ROPE_WORDS" "a \<in> fst ` set cells" using img c by (force simp: image_of_def)+
    ultimately show ?thesis using word occ by simp
  qed
  ultimately show ?thesis using assms img by (auto simp: image_sound_def assembled_def no_errors_def image_of_def)
qed

section \<open>Properties\<close>



text \<open>
  C26 The rope file written for an assembled image loads: the loader decodes it to exactly the words
  of the image.
\<close>

theorem assembled_rope_loads:
  "both_routes (\<lambda>i. \<exists>bytes. to_yayul_bytes i = Some bytes
       \<and> decode_bytes bytes Yayul = Some (Inr \<lparr>ri_words = im_words i, ri_format = Yayul, ri_parity_words = 0\<rparr>))
     u (expand_program fuel env entry)"
  by (rule both_routesI) (rule image_loads [OF assembled_sound])

section \<open>The fixed point of the equates\<close>

text \<open>An equate that stays: its operand still cannot be evaluated.\<close>

definition unresolvable :: "ir_record list \<Rightarrow> symbol_table \<Rightarrow> nat \<times> string \<Rightarrow> bool" where
  "unresolvable rs t p \<longleftrightarrow> fst p < length rs \<and> (\<exists>e. evaluate_operand (ir_operand (rs ! fst p)) t = Some (Inl e))"

definition has_symbol :: "symbol_table \<Rightarrow> nat \<times> string \<Rightarrow> bool" where
  "has_symbol t p \<longleftrightarrow> map_of t (snd p) \<noteq> None"

lemma has_symbol_extends: "has_symbol t p \<Longrightarrow> extends t t' \<Longrightarrow> has_symbol t' p"
  by (auto simp: has_symbol_def extends_def)

lemma defined_after: "define_or_report name value l s = Some (x, s') \<Longrightarrow> map_of (as_symbols s') name \<noteq> None"
  by (auto simp: define_or_report_run map_add_def split: option.splits)

lemma equate_round_outcome:
  assumes "equate_round rs pending s = Some (Inr (progress, left), s')"
  shows "set left \<subseteq> set pending \<and> (\<forall>p \<in> set pending. p \<in> set left \<or> has_symbol (as_symbols s') p)
    \<and> (\<not> progress \<longrightarrow> s' = s \<and> left = pending \<and> list_all (unresolvable rs (as_symbols s)) left)"
  using assms
proof (induction pending arbitrary: s progress left)
  case Nil
  then show ?case by (simp add: run_basic)
next
  case (Cons p pending)
  obtain i label where p: "p = (i, label)" by (cases p)
  have i: "i < length rs" using Cons.prems by (auto simp: p run_basic split: if_splits)
  obtain v where v: "evaluate_operand (ir_operand (rs ! i)) (as_symbols s) = Some v"
    using Cons.prems i
    by (cases "evaluate_operand (ir_operand (rs ! i)) (as_symbols s)") (simp_all add: p run_and_then [of "gets _"] run_and_then [of panic] of_option_def run_basic)
  show ?case
  proof (cases v)
    case (Inl e)
    then have "and_then (equate_round rs pending) (\<lambda>(progress, kept). ok (progress, (i, label) # kept)) s = Some (Inr (progress, left), s')"
      using Cons.prems i v by (simp add: p run_and_then [of "gets _"] run_and_then [of "ok _"] of_option_def run_basic)
    then obtain left' where l: "equate_round rs pending s = Some (Inr (progress, left'), s')" "left = (i, label) # left'"
      by (auto simp: run_simps split: option.splits sum.splits)
    show ?thesis using Cons.IH [OF l(1)] l(2) i v Inl by (auto simp: p unresolvable_def)
  next
    case (Inr n)
    then have "seq (define_or_report label (equate_value n) (ir_location (rs ! i)))
            (and_then (equate_round rs pending) (\<lambda>(progress, kept). ok (True, kept))) s = Some (Inr (progress, left), s')"
      using Cons.prems i v by (simp add: p run_and_then [of "gets _"] run_and_then [of "ok _"] of_option_def run_basic)
    then obtain u where u: "define_or_report label (equate_value n) (ir_location (rs ! i)) s = Some (Inr (), u)"
        "and_then (equate_round rs pending) (\<lambda>(progress, kept). ok (True, kept)) u = Some (Inr (progress, left), s')"
      by (rule steady_andD [OF _ steady_define]) simp
    then obtain progress' where l: "equate_round rs pending u = Some (Inr (progress', left), s')" "progress"
      by (auto simp: run_simps split: option.splits sum.splits)
    have "has_symbol (as_symbols u) (i, label)" using defined_after [OF u(1)] by (simp add: has_symbol_def)
    moreover have "extends (as_symbols u) (as_symbols s')" using steadyD [OF steady_round l(1)] by (simp add: grows_def)
    ultimately have "has_symbol (as_symbols s') (i, label)" by (rule has_symbol_extends)
    then show ?thesis using Cons.IH [OF l(1)] l(2) by (auto simp: p)
  qed
qed

lemma resolve_equates_outcome:
  assumes "resolve_equates rs pending s = Some (Inr left, s')"
  shows "set left \<subseteq> set pending \<and> (\<forall>p \<in> set pending. p \<in> set left \<or> has_symbol (as_symbols s') p)
    \<and> list_all (unresolvable rs (as_symbols s')) left"
  using assms
proof (induction rs pending s rule: resolve_equates.induct)
  case (1 rs pending s)
  show ?case
  proof (cases "pending = []")
    case True
    then show ?thesis using "1.prems" by (simp add: resolve_equates.simps)
  next
    case False
    then obtain x t where round: "equate_round rs pending s = Some (x, t)"
      using "1.prems" by (auto simp: resolve_equates.simps split: option.splits)
    obtain progress some where x: "x = Inr (progress, some)" using steadyD [OF steady_round round] by auto
    note this_round = equate_round_outcome [OF round [unfolded x]]
    show ?thesis
    proof (cases progress)
      case True
      then have more: "resolve_equates rs some t = Some (Inr left, s')"
        using "1.prems" False round x by (simp add: resolve_equates.simps)
      have "extends (as_symbols t) (as_symbols s')" using steadyD [OF steady_resolve more] by (simp add: grows_def)
      then show ?thesis
        using "1.IH" [OF False round refl x refl True more] this_round has_symbol_extends by blast
    next
      case no: False
      then show ?thesis using "1.prems" False round x this_round by (auto simp: resolve_equates.simps)
    qed
  qed
qed

text \<open>
  Resolving the equates reaches its fixed point: it returns a part of the pending ones, each of
  which still cannot be evaluated with the symbols of the final table, and every other label is a
  symbol of it; values and definitions of earlier symbols never change.  It never fails otherwise.
\<close>

theorem equates_settle:
  "case resolve_equates rs pending s of
     Some (Inr left, s') \<Rightarrow> list_all (unresolvable rs (as_symbols s')) left \<and> set left \<subseteq> set pending
       \<and> set (filter (\<lambda>p. \<not> has_symbol (as_symbols s') p) pending) \<subseteq> set left \<and> extends (as_symbols s) (as_symbols s')
   | Some (Inl e, s') \<Rightarrow> False
   | None \<Rightarrow> True"
proof (cases "resolve_equates rs pending s")
  case (Some r)
  obtain x s' where r: "r = (x, s')" by (cases r)
  note run = Some [unfolded r]
  obtain left where x: "x = Inr left" using steadyD [OF steady_resolve run] by blast
  have "extends (as_symbols s) (as_symbols s')" using steadyD [OF steady_resolve run] by (simp add: grows_def)
  then show ?thesis using resolve_equates_outcome [OF run [unfolded x]] by (auto simp: Some r x)
qed simp

text \<open>The record of an \<open>ERASE\<close> that asks for one word more than a literal.\<close>

definition erase_record :: "int \<Rightarrow> source_location \<Rightarrow> ir_record" where
  "erase_record n l = \<lparr>ir_location = l, ir_label = None, ir_operation = ''ERASE'', ir_operand = LiteralOperand n,
     ir_kind = DirectiveKind, ir_bank = None, ir_offset = None, ir_word = None\<rparr>"

text \<open>
  A reservation wraps: the words of an \<open>ERASE\<close> are counted in \<open>usize\<close> but the location
  advances by their number modulo 65536, so \<open>ERASE\<close> of 65536 words in an erasable bank reserves
  nothing and reports nothing, while 257 words are refused.
\<close>

theorem erase_wraps:
  "assign_location 0 (erase_record 65535 l) (s\<lparr>as_location := ErasableCounter b 0\<rparr>)
     = Some (Inr ((erase_record 65535 l)\<lparr>ir_offset := Some 0\<rparr>), s\<lparr>as_location := ErasableCounter b 0\<rparr>)
   \<and> (\<exists>r s'. assign_location 0 (erase_record 256 l) (s\<lparr>as_location := ErasableCounter b 0\<rparr>) = Some (Inr r, s') \<and> \<not> no_errors s')"
proof -
  note texts = mnemonic_parse_def mnemonic_spellings_def trim_def trim_start_def is_ascii_space_def trim_end_matches_def
    to_ascii_uppercase_def ascii_upper_def Let_def SINGLE_WORD_OPERATIONS_def DOUBLE_WORD_OPERATIONS_def
  have count: "emitted_word_count (erase_record n l) = ok (nat n + 1)" if "0 \<le> n" for n
    using that by (simp add: erase_record_def emitted_word_count_def texts)
  have directive: "apply_location_directive (erase_record n l) = ok False" for n
    by (simp add: erase_record_def apply_location_directive_def)
  have fields: "ir_operation (erase_record n l) = ''ERASE''" "ir_label (erase_record n l) = None" for n
    by (simp_all add: erase_record_def)
  show ?thesis
    by (simp add: assign_location_def count directive fields is_equate_def run_simps current_value_def advance_def
        push_error_run no_errors_def is_error_def Let_def)
      (simp add: erase_record_def)
qed

end
