(* ===== verification/Agc_Overlay_Laws.thy ===== *)
theory Agc_Overlay_Laws
  imports Agc_Overlay
begin

text \<open>
  Laws of the overlay: normalised paths, includes that stay below the program root, and the exact
  effect of line edits.
\<close>

section \<open>Paths\<close>

lemma split_on_all: "c \<notin> set p \<Longrightarrow> split_on c p = [p]"
  by (induction p) auto

lemma split_on_append: "c \<notin> set p \<Longrightarrow> split_on c (p @ c # q) = p # split_on c q"
  by (induction p) (auto split: list.split)

lemma split_on_join: "ps \<noteq> [] \<Longrightarrow> (\<And>p. p \<in> set ps \<Longrightarrow> c \<notin> set p) \<Longrightarrow> split_on c (join [c] ps) = ps"
proof (induction "[c]" ps rule: join.induct)
  case (3 p q ps)
  then show ?case using split_on_append [of c p "join [c] (q # ps)"] by simp
qed (simp_all add: split_on_all)

lemma split_on_pieces: "p \<in> set (split_on c s) \<Longrightarrow> c \<notin> set p"
proof (induction s arbitrary: p)
  case (Cons x xs)
  then show ?case by (cases "split_on c xs") (auto split: if_splits)
qed simp

definition plain_name :: "string \<Rightarrow> bool" where
  "plain_name x \<longleftrightarrow> x \<noteq> [] \<and> x \<noteq> ''.'' \<and> CHR ''/'' \<notin> set x"

text \<open>The names after the head of a path: a plain name, or the parent directory.\<close>

definition named_component :: "string \<Rightarrow> component" where
  "named_component x = (if x = ''..'' then ParentDir else Normal x)"

lemma component_text_named: "component_text (named_component x) = x"
  by (simp add: named_component_def component_text_def)

lemma path_components_pieces:
  "path_components p = (if starts_with ''/'' p then [RootDir] else if hd (split_on (CHR ''/'') p) = ''.'' then [CurDir] else [])
     @ map named_component (filter (\<lambda>x. x \<noteq> [] \<and> x \<noteq> ''.'') (split_on (CHR ''/'') p))"
  by (simp add: path_components_def Let_def named_component_def)

lemma plain_pieces: "\<forall>x \<in> set (filter (\<lambda>x. x \<noteq> [] \<and> x \<noteq> ''.'') (split_on (CHR ''/'') p)). plain_name x"
  using split_on_pieces by (auto simp: plain_name_def)

lemma Normal_plain: "Normal x \<in> set (path_components p) \<Longrightarrow> plain_name x \<and> x \<noteq> ''..''"
  using plain_pieces [of p] by (auto simp: path_components_pieces named_component_def split: if_splits)

lemma not_rooted: "plain_name x \<Longrightarrow> \<not> starts_with ''/'' (join ''/'' (x # xs))"
  by (cases xs; cases x) (auto simp: plain_name_def starts_with_def)

lemma components_of_names:
  assumes "\<forall>x \<in> set xs. plain_name x"
  shows "path_components (join ''/'' xs) = map named_component xs"
proof (cases xs)
  case Nil
  then show ?thesis by (simp add: path_components_pieces starts_with_def)
next
  case (Cons x ys)
  have "split_on (CHR ''/'') (join ''/'' xs) = xs" using assms Cons by (intro split_on_join) (auto simp: plain_name_def)
  moreover have "filter (\<lambda>x. x \<noteq> [] \<and> x \<noteq> ''.'') xs = xs" using assms by (auto simp: filter_id_conv plain_name_def)
  moreover have "\<not> starts_with ''/'' (join ''/'' xs)" using assms not_rooted [of x ys] Cons by simp
  moreover have "hd xs \<noteq> ''.''" using assms Cons by (simp add: plain_name_def)
  ultimately show ?thesis by (simp add: path_components_pieces)
qed

lemma component_texts:
  "map component_text (map named_component xs) = xs" "map (component_text \<circ> named_component) xs = xs"
  by (simp_all add: component_text_named comp_def)

lemma slash_path_idem: "slash_path (slash_path p) = slash_path p"
proof -
  let ?names = "filter (\<lambda>x. x \<noteq> [] \<and> x \<noteq> ''.'') (split_on (CHR ''/'') p)"
  have plain: "\<forall>x \<in> set ?names. plain_name x" by (rule plain_pieces)
  have texts: "map component_text (path_components p) =
      (if starts_with ''/'' p then [''/''] else if hd (split_on (CHR ''/'') p) = ''.'' then [''.''] else []) @ ?names"
    by (simp add: path_components_pieces component_text_named comp_def component_text_def [of RootDir] component_text_def [of CurDir])
  have keep: "filter (\<lambda>x. x \<noteq> [] \<and> x \<noteq> ''.'') ?names = ?names" by simp
  have pieces: "split_on (CHR ''/'') (join ''/'' (x # ?names)) = x # ?names" if "CHR ''/'' \<notin> set x" for x
    using plain that by (intro split_on_join) (auto simp: plain_name_def)
  consider "starts_with ''/'' p" | "\<not> starts_with ''/'' p" "hd (split_on (CHR ''/'') p) = ''.''"
    | "\<not> starts_with ''/'' p" "hd (split_on (CHR ''/'') p) \<noteq> ''.''" by blast
  then show ?thesis
  proof cases
    case 1
    then have s: "slash_path p = (if ?names = [] then ''/'' else CHR ''/'' # CHR ''/'' # join ''/'' ?names)"
      by (cases ?names) (simp_all add: slash_path_def texts)
    have "path_components (slash_path p) = RootDir # map named_component ?names"
    proof (cases "?names = []")
      case True
      then show ?thesis by (simp add: s path_components_pieces starts_with_def)
    next
      case False
      then have "split_on (CHR ''/'') (join ''/'' ?names) = ?names" using plain by (intro split_on_join) (auto simp: plain_name_def)
      then show ?thesis using False by (simp add: s path_components_pieces starts_with_def)
    qed
    then show ?thesis using 1 by (simp add: slash_path_def texts component_texts component_text_def [of RootDir])
  next
    case 2
    have s: "slash_path p = join ''/'' (''.'' # ?names)" using 2 by (simp add: slash_path_def texts)
    have "split_on (CHR ''/'') (slash_path p) = ''.'' # ?names" unfolding s by (rule pieces) simp
    moreover have "\<not> starts_with ''/'' (slash_path p)" unfolding s by (cases ?names) (simp_all add: starts_with_def)
    ultimately have "path_components (slash_path p) = CurDir # map named_component ?names"
      by (simp add: path_components_pieces)
    then show ?thesis by (simp add: s component_texts component_text_def [of CurDir] slash_path_def [of "join ''/'' (''.'' # ?names)"])
  next
    case 3
    then have s: "slash_path p = join ''/'' ?names" by (simp add: slash_path_def texts)
    have "slash_path (join ''/'' ?names) = join ''/'' ?names"
      by (simp only: slash_path_def components_of_names [OF plain] component_texts(1))
    then show ?thesis by (simp only: s)
  qed
qed

section \<open>Includes\<close>

lemma normalize_plain:
  "normalize_components t acc cs = Inr xs \<Longrightarrow> \<forall>x \<in> set acc. plain_name x \<and> x \<noteq> ''..'' \<Longrightarrow>
   \<forall>x. Normal x \<in> set cs \<longrightarrow> plain_name x \<and> x \<noteq> ''..'' \<Longrightarrow> \<forall>x \<in> set xs. plain_name x \<and> x \<noteq> ''..''"
proof (induction cs arbitrary: acc)
  case (Cons c cs)
  note names = Cons.prems(2) and rest = Cons.prems(3)
  show ?case
  proof (cases c)
    case (Normal x)
    then show ?thesis using Cons.prems(1) names rest by (intro Cons.IH [of "acc @ [x]"]) auto
  next
    case ParentDir
    then show ?thesis using Cons.prems(1) names rest in_set_butlastD [of _ acc] by (intro Cons.IH [of "butlast acc"]) (auto split: if_splits)
  next
    case CurDir
    then show ?thesis using Cons.prems(1) names rest by (intro Cons.IH [of acc]) auto
  next
    case RootDir
    then show ?thesis using Cons.prems(1) by simp
  qed
qed simp

lemma resolved_names:
  assumes "resolve_relative_include s t = Inr r"
  shows "\<exists>xs. normalize_components t [] (parent_path (relative_path s) @ filter (\<lambda>c. c \<noteq> CurDir) (path_components t)) = Inr xs
    \<and> r = join ''/'' xs \<and> (\<forall>x \<in> set xs. plain_name x \<and> x \<noteq> ''..'')"
proof -
  let ?cs = "parent_path (relative_path s) @ filter (\<lambda>c. c \<noteq> CurDir) (path_components t)"
  obtain xs where xs: "normalize_components t [] ?cs = Inr xs" "r = join ''/'' xs"
    using assms by (cases "normalize_components t [] ?cs") (auto simp: resolve_relative_include_def split: sum.splits)
  have "set (parent_path (relative_path s)) \<subseteq> set (path_components (relative_path s))"
    unfolding parent_path_def by (rule subsetI) (rule in_set_butlastD)
  then have "Normal x \<in> set (path_components (relative_path s)) \<or> Normal x \<in> set (path_components t)" if "Normal x \<in> set ?cs" for x
    using that by auto
  then have plain: "\<forall>x. Normal x \<in> set ?cs \<longrightarrow> plain_name x \<and> x \<noteq> ''..''" using Normal_plain by blast
  have "\<forall>x \<in> set xs. plain_name x \<and> x \<noteq> ''..''" by (rule normalize_plain [OF xs(1) _ plain]) simp
  then show ?thesis using xs by blast
qed

lemma map_named_normal: "\<forall>x \<in> set xs. plain_name x \<and> x \<noteq> ''..'' \<Longrightarrow> map named_component xs = map Normal xs"
  by (simp add: named_component_def)

lemma slash_path_names: "\<forall>x \<in> set xs. plain_name x \<Longrightarrow> slash_path (join ''/'' xs) = join ''/'' xs"
  by (simp only: slash_path_def components_of_names component_texts(1))

lemma resolved_slash: "resolve_relative_include s t = Inr r \<Longrightarrow> slash_path r = r"
  using resolved_names [of s t r] slash_path_names by auto

section \<open>Includes stay inside\<close>

lemma normalize_last:
  "normalize_components t acc (cs @ [Normal x]) = Inr xs \<Longrightarrow> \<exists>ys. xs = ys @ [x]"
proof (induction cs arbitrary: acc)
  case (Cons c cs)
  then show ?case by (cases c) (auto split: if_splits)
qed auto

lemma normalize_errors: "normalize_components t acc cs = Inl e \<Longrightarrow> e = IncludeEscapes t \<or> e = IncludeNotRelative t"
  by (induction cs arbitrary: acc) (auto split: component.splits if_splits)

lemma resolved_path:
  assumes "resolve_relative_include s t = Inr r"
  shows "\<exists>xs. path_components r = map Normal xs \<and> path_extension r = Some ''agc''"
proof -
  have "path_extension t = Some ''agc''"
    using assms by (auto simp: resolve_relative_include_def validate_relative_agc_path_def split: if_splits)
  then obtain x rest where x: "rev (path_components t) = Normal x # rest" "name_extension x = Some ''agc''"
    by (auto simp: path_extension_def file_name_def split: option.splits list.splits component.splits)
  then have t: "path_components t = rev rest @ [Normal x]" by (metis rev.simps(2) rev_rev_ident)
  obtain xs where xs: "normalize_components t [] ((parent_path (relative_path s) @ filter (\<lambda>c. c \<noteq> CurDir) (rev rest)) @ [Normal x]) = Inr xs"
      "r = join ''/'' xs" "\<forall>x \<in> set xs. plain_name x \<and> x \<noteq> ''..''"
    using resolved_names [OF assms] t by auto
  obtain ys where ys: "xs = ys @ [x]" using normalize_last [OF xs(1)] by blast
  have "path_components r = map Normal xs"
    using components_of_names [of xs] map_named_normal [OF xs(3)] xs(2,3) by simp
  then have "path_components r = map Normal xs \<and> path_extension r = Some ''agc''"
    using ys x(2) by (simp add: path_extension_def file_name_def)
  then show ?thesis by blast
qed

section \<open>Edits of a source\<close>

lemma split_ending_append: "split_ending segment = (content, ending) \<Longrightarrow> content @ ending = segment"
proof -
  have suffix: "strip_suffix p x = Some y \<Longrightarrow> y @ p = x" for p x y
  proof -
    assume "strip_suffix p x = Some y"
    then obtain z where "strip_prefix (rev p) (rev x) = Some z" "y = rev z" by (auto simp: strip_suffix_def)
    moreover have "strip_prefix a b = Some c \<Longrightarrow> a @ c = b" for a b c
      by (auto simp: strip_prefix_def split: if_splits) (metis append_take_drop_id)
    ultimately show "y @ p = x" by (metis rev_append rev_rev_ident)
  qed
  show "split_ending segment = (content, ending) \<Longrightarrow> content @ ending = segment"
    by (auto simp: split_ending_def dest: suffix split: option.splits)
qed

lemma concat_split_inclusive: "concat (split_inclusive c s) = s"
  by (induction s) (auto split: list.split)

text \<open>One segment under the edits, and the edit of a line that holds its expected text.\<close>

definition edited_segment :: "(nat, source_edit) btree_map \<Rightarrow> nat \<times> string \<Rightarrow> string" where
  "edited_segment edits = (\<lambda>(line, segment). case btree_get line edits of
     None \<Rightarrow> segment | Some d \<Rightarrow> ed_replacement d @ snd (split_ending segment))"

definition edit_matches :: "nat \<times> string \<Rightarrow> (nat, source_edit) btree_map \<Rightarrow> bool" where
  "edit_matches p edits \<longleftrightarrow> (case btree_get (fst p) edits of None \<Rightarrow> True | Some d \<Rightarrow> fst (split_ending (snd p)) = ed_expected d)"

lemma edit_segments_exact:
  "edit_segments edits n segs = Inr (out, matched) \<longleftrightarrow>
     (\<forall>p \<in> set (zip [n ..< n + length segs] segs). edit_matches p edits)
     \<and> out = concat (map (edited_segment edits) (zip [n ..< n + length segs] segs))
     \<and> matched = {line. n \<le> line \<and> line < n + length segs \<and> btree_get line edits \<noteq> None}"
proof (induction segs arbitrary: n out matched)
  case Nil
  then show ?case by auto
next
  case (Cons seg segs)
  obtain content ending where e: "split_ending seg = (content, ending)" by (cases "split_ending seg")
  have upt: "[n ..< n + length (seg # segs)] = n # [Suc n ..< Suc n + length segs]" by (subst upt_conv_Cons) simp_all
  have lines: "{line. n \<le> line \<and> line < n + length (seg # segs) \<and> btree_get line edits \<noteq> None}
      = (if btree_get n edits = None then {} else {n}) \<union> {line. Suc n \<le> line \<and> line < Suc n + length segs \<and> btree_get line edits \<noteq> None}"
    by (auto simp: Suc_le_eq le_less)
  define Z C M where "Z = zip [Suc n ..< Suc n + length segs] segs"
    and "C = concat (map (edited_segment edits) Z)"
    and "M = {line. Suc n \<le> line \<and> line < Suc n + length segs \<and> btree_get line edits \<noteq> None}"
  have IH: "edit_segments edits (Suc n) segs = Inr (c, m) \<longleftrightarrow> (\<forall>p \<in> set Z. edit_matches p edits) \<and> c = C \<and> m = M" for c m
    unfolding Z_def C_def M_def by (rule Cons.IH)
  have zip: "zip [n ..< n + length (seg # segs)] (seg # segs) = (n, seg) # Z" by (simp only: upt zip_Cons_Cons Z_def)
  note seg = split_ending_append [OF e]
  show ?case
    unfolding zip lines M_def [symmetric]
  proof (cases "\<forall>p \<in> set Z. edit_matches p edits")
    case True
    then have rec: "edit_segments edits (Suc n) segs = Inr (C, M)" using IH by simp
    show "edit_segments edits n (seg # segs) = Inr (out, matched) \<longleftrightarrow> (\<forall>p \<in> set ((n, seg) # Z). edit_matches p edits)
       \<and> out = concat (map (edited_segment edits) ((n, seg) # Z)) \<and> matched = (if btree_get n edits = None then {} else {n}) \<union> M"
      using True e seg by (cases "btree_get n edits") (auto simp: rec edit_matches_def edited_segment_def C_def)
  next
    case False
    then obtain err where rec: "edit_segments edits (Suc n) segs = Inl err"
      using IH by (cases "edit_segments edits (Suc n) segs") auto
    then show "edit_segments edits n (seg # segs) = Inr (out, matched) \<longleftrightarrow> (\<forall>p \<in> set ((n, seg) # Z). edit_matches p edits)
       \<and> out = concat (map (edited_segment edits) ((n, seg) # Z)) \<and> matched = (if btree_get n edits = None then {} else {n}) \<union> M"
      using False e by (cases "btree_get n edits") auto
  qed
qed

lemma apply_exact:
  "apply_to_source v path source = Inr out \<longleftrightarrow>
     (let edits = edits_for v path; segments = split_inclusive (CHR 0x0A) source; numbered = zip [1 ..< 1 + length segments] segments
      in list_all (\<lambda>line. 1 \<le> line \<and> line < 1 + length segments) (map fst edits) \<and> list_all (\<lambda>p. edit_matches p edits) numbered
        \<and> out = concat (map (edited_segment edits) numbered))"
proof (cases "edits_for v path = []")
  case True
  have "map (edited_segment []) (zip [1 ..< 1 + length segs] segs) = segs" for segs
  proof -
    have "edited_segment [] = snd" by (simp add: fun_eq_iff edited_segment_def btree_get_def)
    then show ?thesis by (simp only:) (simp del: upt_Suc)
  qed
  then have "concat (map (edited_segment []) (zip [1 ..< 1 + length segs] segs)) = concat segs" for segs by metis
  then show ?thesis using True
    by (auto simp: apply_to_source_def Let_def concat_split_inclusive list_all_iff edit_matches_def btree_get_def)
next
  case False
  define edits segs where "edits = edits_for v path" and "segs = split_inclusive (CHR 0x0A) source"
  define N where "N = zip [1 ..< 1 + length segs] segs"
  define M where "M = {line. 1 \<le> line \<and> line < 1 + length segs \<and> btree_get line edits \<noteq> None}"
  have exact: "edit_segments edits 1 segs = Inr (c, m) \<longleftrightarrow> (\<forall>p \<in> set N. edit_matches p edits)
      \<and> c = concat (map (edited_segment edits) N) \<and> m = M" for c m
    unfolding N_def M_def by (rule edit_segments_exact)
  have run: "apply_to_source v path source = (case edit_segments edits 1 segs of Inl e \<Rightarrow> Inl e
      | Inr (c, m) \<Rightarrow> (case List.find (\<lambda>line. line \<notin> m) (map fst edits) of Some missing \<Rightarrow> Inl (EditBeyondEnd path missing) | None \<Rightarrow> Inr c))"
    unfolding edits_def segs_def using False by (simp only: apply_to_source_def Let_def if_False)
  have "line \<in> M \<longleftrightarrow> 1 \<le> line \<and> line < 1 + length segs" if "line \<in> set (map fst edits)" for line
    using that by (auto simp: M_def btree_get_def map_of_eq_None_iff)
  then have found: "List.find (\<lambda>line. line \<notin> M) (map fst edits) = None
      \<longleftrightarrow> list_all (\<lambda>line. 1 \<le> line \<and> line < 1 + length segs) (map fst edits)"
    unfolding find_None_iff list_all_iff by blast
  show ?thesis
    unfolding Let_def edits_def [symmetric] segs_def [symmetric] N_def [symmetric]
  proof (cases "edit_segments edits 1 segs")
    case (Inl e)
    then have "\<not> list_all (\<lambda>p. edit_matches p edits) N" using exact by (auto simp: list_all_iff)
    then show "apply_to_source v path source = Inr out \<longleftrightarrow> list_all (\<lambda>line. 1 \<le> line \<and> line < 1 + length segs) (map fst edits)
       \<and> list_all (\<lambda>p. edit_matches p edits) N \<and> out = concat (map (edited_segment edits) N)"
      unfolding run Inl by simp
  next
    case (Inr r)
    obtain c m where r: "r = (c, m)" by (cases r)
    have "list_all (\<lambda>p. edit_matches p edits) N" "c = concat (map (edited_segment edits) N)" "m = M"
      using exact [THEN iffD1, OF Inr [unfolded r]] by (auto simp: list_all_iff)
    then show "apply_to_source v path source = Inr out \<longleftrightarrow> list_all (\<lambda>line. 1 \<le> line \<and> line < 1 + length segs) (map fst edits)
       \<and> list_all (\<lambda>p. edit_matches p edits) N \<and> out = concat (map (edited_segment edits) N)"
      unfolding run Inr r using found by (auto split: option.split)
  qed
qed

section \<open>Properties\<close>

text \<open>
  An include never leaves the program: its resolved path consists of plain names only, so it is
  relative and has no parent directory, and it still names an assembly source; every refusal names
  the include.
\<close>

theorem includes_stay_inside:
  "case resolve_relative_include s t of
     Inr r \<Rightarrow> path_extension r = Some ''agc'' \<and> (\<exists>names. path_components r = map Normal names)
   | Inl e \<Rightarrow> e \<in> {UnsafePath t, IncludeEscapes t, IncludeNotRelative t}"
proof (cases "resolve_relative_include s t")
  case (Inl e)
  then have "e = UnsafePath t \<or> (\<exists>cs. normalize_components t [] cs = Inl e)"
    by (cases "normalize_components t [] (parent_path (relative_path s) @ filter (\<lambda>c. c \<noteq> CurDir) (path_components t))")
      (auto simp: resolve_relative_include_def validate_relative_agc_path_def split: if_splits sum.splits)
  then show ?thesis using Inl normalize_errors by auto
next
  case (Inr r)
  then show ?thesis using resolved_path by auto
qed

text \<open>
  C28 An overlay edits a source exactly: it succeeds when every edited line exists and holds its
  expected text, and then every edited line is replaced, with its own line ending, and every other
  byte stays.
\<close>

theorem overlay_edits_exact:
  "apply_to_source v path source = Inr out \<longleftrightarrow>
     (let edits = edits_for v path; segments = split_inclusive (CHR 0x0A) source; numbered = zip [1 ..< 1 + length segments] segments
      in list_all (\<lambda>line. 1 \<le> line \<and> line < 1 + length segments) (map fst edits) \<and> list_all (\<lambda>p. edit_matches p edits) numbered
        \<and> out = concat (map (edited_segment edits) numbered))"
  by (rule apply_exact)

end
