(* ===== verification/Agc_Expansion_Laws.thy ===== *)
theory Agc_Expansion_Laws
  imports Agc_Expansion Agc_Overlay_Laws
begin

text \<open>
  Laws of the expansion of includes: what it has loaded, in which order, and how much fuel it needs.
\<close>

section \<open>What the expansion keeps\<close>

text \<open>A property of the state that a computation keeps when it returns a value.\<close>

definition stays :: "('s \<Rightarrow> bool) \<Rightarrow> ('s, 'e, 'a) prog \<Rightarrow> bool" where
  "stays I m \<longleftrightarrow> (\<forall>s a s'. I s \<longrightarrow> m s = Some (Inr a, s') \<longrightarrow> I s')"

lemma staysD: "stays I m \<Longrightarrow> m s = Some (Inr a, s') \<Longrightarrow> I s \<Longrightarrow> I s'"
  unfolding stays_def by blast

lemma stays_for_each: "(\<And>x. stays I (f x)) \<Longrightarrow> stays I (for_each xs f)"
proof (induction xs)
  case (Cons x xs)
  show ?case unfolding stays_def
  proof (intro allI impI)
    fix s a s'
    assume I: "I s" and run: "for_each (x # xs) f s = Some (Inr a, s')"
    then obtain b t where "f x s = Some (Inr b, t)" "for_each xs f t = Some (Inr a, s')"
      by (auto simp: run_simps split: option.splits sum.splits)
    then show "I s'" using I staysD [OF Cons.prems] staysD [OF Cons.IH [OF Cons.prems]] by blast
  qed
qed (simp add: stays_def run_basic)

text \<open>A unit of the expansion: the parse of its file under the overlay, and the digest of the file.\<close>

definition loaded_unit :: "expansion_env \<Rightarrow> string \<Rightarrow> source_unit \<Rightarrow> string \<Rightarrow> bool" where
  "loaded_unit env f u h \<longleftrightarrow> (\<exists>bytes patched parsed. en_read env (relative_path (source_id_new (en_program env) f)) = Inr bytes
     \<and> overlaid env f bytes = Inr patched \<and> parse_str (source_id_new (en_program env) f) patched = Some parsed
     \<and> u = po_unit parsed \<and> h = en_sha256 env bytes)"

definition files_ok :: "expansion_env \<Rightarrow> expansion \<Rightarrow> bool" where
  "files_ok env s \<longleftrightarrow> btree_ok (xp_cache s) \<and> btree_ok (xp_hashes s) \<and> distinct (xp_unit_order s) \<and> distinct (xp_stack s)
     \<and> set (xp_stack s) \<subseteq> set (xp_unit_order s)
     \<and> (\<forall>f. f \<in> set (xp_unit_order s) \<longleftrightarrow> btree_get f (xp_cache s) \<noteq> None)
     \<and> (\<forall>f u. btree_get f (xp_cache s) = Some u \<longrightarrow> (\<exists>h. btree_get f (xp_hashes s) = Some h \<and> loaded_unit env f u h))"

text \<open>The state between two included files: the open ones, and what has been loaded so far.\<close>

definition between :: "expansion_env \<Rightarrow> string list \<Rightarrow> string list \<Rightarrow> expansion \<Rightarrow> bool" where
  "between env open_files seen s \<longleftrightarrow> files_ok env s \<and> xp_stack s = open_files \<and> (\<exists>more. xp_unit_order s = seen @ more)"

lemma load_unit_run:
  "load_unit env f s = (case btree_get f (xp_cache s) of
       Some _ \<Rightarrow> Some (Inr (), s)
     | None \<Rightarrow> (case en_read env (relative_path (source_id_new (en_program env) f)) of
         Inl e \<Rightarrow> Some (Inl (AsmSource (SourceIo (relative_path (source_id_new (en_program env) f)) e)), s)
       | Inr bytes \<Rightarrow> (case overlaid env f bytes of
           Inl e \<Rightarrow> Some (Inl e, s)
         | Inr patched \<Rightarrow> (case parse_str (source_id_new (en_program env) f) patched of
             None \<Rightarrow> None
           | Some parsed \<Rightarrow> Some (Inr (), s\<lparr>xp_diagnostics := xp_diagnostics s @ map (diagnostic_of_parse f) (po_diagnostics parsed),
               xp_hashes := btree_insert f (en_sha256 env bytes) (xp_hashes s), xp_unit_order := xp_unit_order s @ [f],
               xp_cache := btree_insert f (po_unit parsed) (xp_cache s)\<rparr>)))))"
  by (auto simp: load_unit_def append_parse_diagnostics_def Let_def run_simps split: option.split sum.split)

lemma load_unit_files:
  assumes "load_unit env f s = Some (Inr a, s')" "between env st seen s"
  shows "between env st seen s' \<and> f \<in> set (xp_unit_order s')"
proof (cases "btree_get f (xp_cache s)")
  case (Some u)
  then have "s' = s" using assms(1) by (simp add: load_unit_run)
  moreover have "f \<in> set (xp_unit_order s)" using assms(2) Some by (simp add: between_def files_ok_def)
  ultimately show ?thesis using assms(2) by simp
next
  case None
  then obtain bytes patched parsed where l: "en_read env (relative_path (source_id_new (en_program env) f)) = Inr bytes"
      "overlaid env f bytes = Inr patched" "parse_str (source_id_new (en_program env) f) patched = Some parsed"
    and s': "s' = s\<lparr>xp_diagnostics := xp_diagnostics s @ map (diagnostic_of_parse f) (po_diagnostics parsed),
       xp_hashes := btree_insert f (en_sha256 env bytes) (xp_hashes s), xp_unit_order := xp_unit_order s @ [f],
       xp_cache := btree_insert f (po_unit parsed) (xp_cache s)\<rparr>"
    using assms(1) by (auto simp: load_unit_run split: option.splits sum.splits)
  have "loaded_unit env f (po_unit parsed) (en_sha256 env bytes)" unfolding loaded_unit_def using l by blast
  moreover have "f \<notin> set (xp_unit_order s)" using assms(2) None by (auto simp: between_def files_ok_def)
  ultimately show ?thesis using assms(2) by (auto simp: s' between_def files_ok_def)
qed

lemma push_record_between: "stays (between env st seen) (push_record r)"
  by (auto simp: stays_def push_record_def run_basic between_def files_ok_def)

lemma expand_line_between:
  assumes "\<And>p. stays (between env st seen) (again p)"
  shows "stays (between env st seen) (expand_line env again f u l)"
proof (cases "ln_kind l")
  case (StatementLine stmt)
  then show ?thesis using push_record_between
    by (cases "lower_statement f l stmt") (auto simp: expand_line_def stays_def run_simps)
next
  case (Include path x)
  then show ?thesis using assms
    by (auto simp: expand_line_def Let_def stays_def run_basic split: sum.split)
qed (auto simp: expand_line_def push_record_between stays_def run_basic dest: staysD [OF push_record_between])

lemma cycle_at_None: "cycle_at f st = None \<longleftrightarrow> f \<notin> set st"
  by (simp add: cycle_at_def)

text \<open>One file: the steps of \<open>expand\<close> in order.\<close>

lemma expand_Suc_run:
  "expand (Suc n) env f s = (case cycle_at f (xp_stack s) of
     Some cycle \<Rightarrow> Some (Inl (IncludeCycle (join '' -> '' cycle)), s)
   | None \<Rightarrow> (case load_unit env f s of
       None \<Rightarrow> None
     | Some (Inl e, t) \<Rightarrow> Some (Inl e, t)
     | Some (Inr _, t) \<Rightarrow> (case btree_get f (xp_cache t) of
         None \<Rightarrow> None
       | Some u \<Rightarrow> (case for_each (un_lines u) (expand_line env (expand n env) f u) (xp_stack_update (\<lambda>fs. fs @ [f]) t) of
           None \<Rightarrow> None
         | Some (Inl e, v) \<Rightarrow> Some (Inl e, v)
         | Some (Inr _, v) \<Rightarrow> Some (Inr (), xp_stack_update butlast v)))))"
  by (auto simp: expand.simps run_simps split: option.split sum.split)

declare expand.simps [simp del]

lemma expand_between: "stays (between env st seen) (expand n env f)"
proof (induction n arbitrary: f st)
  case 0
  then show ?case by (simp add: stays_def run_basic expand.simps)
next
  case (Suc n)
  show ?case unfolding stays_def
  proof (intro allI impI)
    fix s a s'
    assume I: "between env st seen s" and run: "expand (Suc n) env f s = Some (Inr a, s')"
    have new: "f \<notin> set (xp_stack s)" and "cycle_at f (xp_stack s) = None"
      using run cycle_at_None [of f "xp_stack s"] by (auto simp: expand_Suc_run split: option.splits)
    then obtain t u v where t: "load_unit env f s = Some (Inr (), t)" and u: "btree_get f (xp_cache t) = Some u"
      and v: "for_each (un_lines u) (expand_line env (expand n env) f u) (xp_stack_update (\<lambda>fs. fs @ [f]) t) = Some (Inr (), v)"
      and s': "s' = xp_stack_update butlast v"
      using run by (auto simp: expand_Suc_run split: option.splits sum.splits)
    have t': "between env st seen t" "f \<in> set (xp_unit_order t)" using load_unit_files [OF t I] by auto
    have "between env (st @ [f]) seen (xp_stack_update (\<lambda>fs. fs @ [f]) t)"
      using t' new I by (auto simp: between_def files_ok_def)
    then have "between env (st @ [f]) seen v"
      using staysD [OF stays_for_each [OF expand_line_between [OF Suc]] v] by blast
    then show "between env st seen s'" by (auto simp: s' between_def files_ok_def)
  qed
qed

section \<open>Enough fuel\<close>

lemma for_each_agree:
  assumes "\<And>x t. I t \<Longrightarrow> f x t = g x t" "\<And>x. stays I (f x)" "I s"
  shows "for_each xs f s = for_each xs g s"
  using assms(3)
proof (induction xs arbitrary: s)
  case (Cons x xs)
  have same: "f x s = g x s" by (rule assms(1) [OF Cons.prems])
  show ?case
  proof (cases "f x s")
    case (Some r)
    obtain y t where r: "r = (y, t)" by (cases r)
    show ?thesis
    proof (cases y)
      case (Inr a)
      then have "I t" using staysD [OF assms(2)] Some r Cons.prems by blast
      from Cons.IH [OF this] show ?thesis using Some same r Inr by (simp add: run_and_then)
    qed (use Some same r in \<open>simp add: run_and_then\<close>)
  qed (use same in \<open>simp add: run_and_then\<close>)
qed simp

definition readable :: "expansion_env \<Rightarrow> string \<Rightarrow> bool" where
  "readable env f \<longleftrightarrow> (\<exists>bytes. en_read env (relative_path (source_id_new (en_program env) f)) = Inr bytes)"

lemma open_files_readable: "files_ok env s \<Longrightarrow> f \<in> set (xp_unit_order s) \<Longrightarrow> readable env f"
  unfolding files_ok_def loaded_unit_def readable_def by blast

lemma open_files: "between env st seen s \<Longrightarrow> set st \<subseteq> {f. readable env f} \<and> distinct st"
proof -
  assume I: "between env st seen s"
  then have "set st \<subseteq> set (xp_unit_order s)" "distinct st" "files_ok env s" by (auto simp: between_def files_ok_def)
  then show ?thesis using open_files_readable by blast
qed

lemma expand_line_agree:
  assumes "\<And>p. slash_path p = p \<Longrightarrow> again p t = again' p t"
  shows "expand_line env again f u l t = expand_line env again' f u l t"
  using assms by (auto simp: expand_line_def Let_def resolved_slash split: line_kind.split sum.split)

lemma expand_agree:
  assumes F: "finite F" "\<And>f. readable env f \<Longrightarrow> slash_path f = f \<Longrightarrow> f \<in> F"
  shows "between env st [] s \<Longrightarrow> \<forall>g \<in> set st. slash_path g = g \<Longrightarrow> slash_path f = f \<Longrightarrow> card F < n + length st \<Longrightarrow> expand (n + k) env f s = expand n env f s"
proof (induction n arbitrary: f s st)
  case 0
  have "set st \<subseteq> F" "distinct st"
    using open_files [OF 0(1)] F(2) 0(2) by auto
  then have "length st \<le> card F" using F(1) by (metis card_mono distinct_card)
  then show ?case using 0(4) by simp
next
  case (Suc n)
  show ?case
  proof (cases "cycle_at f (xp_stack s)")
    case (Some c)
    then show ?thesis by (simp add: expand_Suc_run)
  next
    case new: None
    show ?thesis
    proof (cases "\<exists>t u. load_unit env f s = Some (Inr (), t) \<and> btree_get f (xp_cache t) = Some u")
      case False
      then show ?thesis using new by (auto simp: expand_Suc_run split: option.split sum.split)
    next
      case True
      then obtain t u where t: "load_unit env f s = Some (Inr (), t)" and u: "btree_get f (xp_cache t) = Some u" by blast
      have t': "between env st [] t" "f \<in> set (xp_unit_order t)" using load_unit_files [OF t Suc.prems(1)] by auto
      have I: "between env (st @ [f]) [] (xp_stack_update (\<lambda>fs. fs @ [f]) t)"
        using t' new Suc.prems(1) by (auto simp: between_def files_ok_def cycle_at_None)
      have less: "card F < n + length (st @ [f])" using Suc.prems(4) by simp
      have canonical: "\<forall>g \<in> set (st @ [f]). slash_path g = g" using Suc.prems(2,3) by simp
      have "for_each (un_lines u) (expand_line env (expand (n + k) env) f u) (xp_stack_update (\<lambda>fs. fs @ [f]) t)
          = for_each (un_lines u) (expand_line env (expand n env) f u) (xp_stack_update (\<lambda>fs. fs @ [f]) t)"
        by (rule for_each_agree [where I = "between env (st @ [f]) []", OF expand_line_agree _ I])
          (rule Suc.IH [OF _ canonical _ less], assumption, assumption, rule expand_line_between, rule expand_between)
      then show ?thesis using new t u by (simp add: expand_Suc_run)
    qed
  qed
qed

lemma initial_between: "between env [] [] initial_expansion"
  by (simp add: between_def files_ok_def initial_expansion_def btree_get_def)

lemma normalize_entry_slash: "normalize_entry entry = slash_path entry"
  by (simp add: normalize_entry_def slash_path_def)

lemma expand_program_agree:
  assumes "finite F" "\<And>f. readable env f \<Longrightarrow> slash_path f = f \<Longrightarrow> f \<in> F" "card F < n"
  shows "expand_program (n + k) env entry = expand_program n env entry"
proof -
  have "expand (n + k) env (normalize_entry entry) initial_expansion = expand n env (normalize_entry entry) initial_expansion"
    by (rule expand_agree [OF assms(1,2) initial_between])
      (simp_all add: assms(3) normalize_entry_slash slash_path_idem)
  then show ?thesis by (simp only: expand_program_def)
qed

section \<open>What an expansion says\<close>

lemma units_of_order:
  assumes "files_ok env s"
  shows "list_all2 (\<lambda>f u. \<exists>h. btree_get f (xp_hashes s) = Some h \<and> loaded_unit env f u h)
     (xp_unit_order s) (List.map_filter (\<lambda>path. btree_get path (xp_cache s)) (xp_unit_order s))"
proof -
  have "list_all2 (\<lambda>f u. \<exists>h. btree_get f (xp_hashes s) = Some h \<and> loaded_unit env f u h) fs
     (List.map_filter (\<lambda>path. btree_get path (xp_cache s)) fs)" if "set fs \<subseteq> set (xp_unit_order s)" for fs
    using that
  proof (induction fs)
    case (Cons f fs)
    then obtain u where "btree_get f (xp_cache s) = Some u" using assms by (auto simp: files_ok_def)
    then show ?case using Cons assms by (simp add: List.map_filter_simps files_ok_def)
  qed (simp add: List.map_filter_simps)
  then show ?thesis by blast
qed

text \<open>The files of an expansion, in the order of their first use.\<close>

definition expanded_from :: "expansion_env \<Rightarrow> string \<Rightarrow> expanded_program \<Rightarrow> bool" where
  "expanded_from env entry ex \<longleftrightarrow> (\<exists>rest. distinct (normalize_entry entry # rest)
     \<and> list_all2 (\<lambda>f u. \<exists>h. btree_get f (pi_hashes (ex_ir ex)) = Some h \<and> loaded_unit env f u h)
         (normalize_entry entry # rest) (ex_units ex))"

lemma entry_first:
  assumes "expand (Suc n) env f initial_expansion = Some (Inr a, s')"
  shows "\<exists>rest. xp_unit_order s' = f # rest"
proof -
  have "cycle_at f (xp_stack initial_expansion) = None" by (simp add: cycle_at_None initial_expansion_def)
  then obtain t u v where t: "load_unit env f initial_expansion = Some (Inr (), t)" and u: "btree_get f (xp_cache t) = Some u"
    and v: "for_each (un_lines u) (expand_line env (expand n env) f u) (xp_stack_update (\<lambda>fs. fs @ [f]) t) = Some (Inr (), v)"
    and s': "s' = xp_stack_update butlast v"
    using assms by (auto simp: expand_Suc_run split: option.splits sum.splits)
  have t': "between env [] [] t" "f \<in> set (xp_unit_order t)" using load_unit_files [OF t initial_between] by auto
  have "xp_unit_order t = [f]"
    using t by (auto simp: load_unit_run initial_expansion_def btree_get_def split: option.splits sum.splits)
  then have "between env [f] [f] (xp_stack_update (\<lambda>fs. fs @ [f]) t)"
    using t' by (auto simp: between_def files_ok_def)
  then have "between env [f] [f] v"
    using staysD [OF stays_for_each [OF expand_line_between [OF expand_between]] v] by blast
  then show ?thesis by (auto simp: s' between_def)
qed

lemma expansion_files:
  assumes "expand_program n env entry = Some (Inr ex)"
  shows "expanded_from env entry ex"
proof -
  obtain x s where run: "expand n env (normalize_entry entry) initial_expansion = Some (Inr x, s)" and ex: "ex = expanded_of (en_program env) s"
    using assms by (auto simp: expand_program_def split: option.splits sum.splits)
  have ok: "files_ok env s" using staysD [OF expand_between run initial_between] by (simp add: between_def)
  obtain m where n: "n = Suc m" using run by (cases n) (simp_all add: expand.simps run_basic)
  obtain rest where rest: "xp_unit_order s = normalize_entry entry # rest" using entry_first [OF run [unfolded n]] by blast
  then have "distinct (normalize_entry entry # rest)" using ok by (simp add: files_ok_def)
  moreover have "list_all2 (\<lambda>f u. \<exists>h. btree_get f (pi_hashes (ex_ir ex)) = Some h \<and> loaded_unit env f u h)
         (normalize_entry entry # rest) (ex_units ex)"
    using units_of_order [OF ok] rest by (simp add: ex expanded_of_def)
  ultimately show ?thesis unfolding expanded_from_def by blast
qed

text \<open>
  An expansion reads every file once: its units are the parses, under the overlay, of distinct
  files in the order of their first use, the entry first, and the digests it reports are those of
  the files before the overlay.
\<close>

theorem expansion_reads_files_once:
  "case expand_program n env entry of Some (Inr ex) \<Rightarrow> expanded_from env entry ex | _ \<Rightarrow> True"
  by (auto simp: expansion_files split: option.split sum.split)


text \<open>A program of one file that includes nothing.\<close>

definition one_file :: expansion_env where
  "one_file = \<lparr>en_program = Luminary099, en_read = (\<lambda>f. if f = ''MAIN.agc'' then Inr ''# page'' else Inl ''missing''),
     en_sha256 = (\<lambda>_. ''00''), en_overlay = None\<rparr>"


end
