(* ===== verification/Agc_Reference.thy ===== *)
theory Agc_Reference
  imports Agc_Expansion
begin

text \<open>
  \<open>crates/agc-assembler\<close>, the two reference routes: the strict checks around one invocation of the
  external assembler, whose process and files are an argument, and the import of an octal listing
  with its bank checksums.
\<close>

section \<open>The reference assembler\<close>

definition MINIMUM_REFERENCE_NONZERO_WORDS :: nat where "MINIMUM_REFERENCE_NONZERO_WORDS = 256"

record reference_config =
  rc_executable :: string
  rc_toolchain :: string
  rc_force_output :: bool
  rc_minimum_nonzero_words :: nat

definition reference_config_new :: "string \<Rightarrow> string \<Rightarrow> reference_config" where
  "reference_config_new executable toolchain =
     \<lparr>rc_executable = executable, rc_toolchain = toolchain, rc_force_output = False,
      rc_minimum_nonzero_words = MINIMUM_REFERENCE_NONZERO_WORDS\<rparr>"

record reference_summary =
  unresolved_symbols :: nat
  fatal_errors :: nat
  warnings :: nat
  multiply_defined_symbols :: nat

definition summary_default :: reference_summary where
  "summary_default = \<lparr>unresolved_symbols = 0, fatal_errors = 0, warnings = 0, multiply_defined_symbols = 0\<rparr>"

definition USIZE_MAX :: nat where "USIZE_MAX = 18446744073709551615"

definition summary_count :: "string \<Rightarrow> string \<Rightarrow> nat option" where
  "summary_count line label = (case strip_prefix label line of
       None \<Rightarrow> None
     | Some rest \<Rightarrow> (case split_whitespace rest of [] \<Rightarrow> None | w # _ \<Rightarrow> from_str_radix 10 USIZE_MAX w))"

definition summary_line :: "string \<Rightarrow> reference_summary \<Rightarrow> reference_summary" where
  "summary_line line s = (case summary_count line ''Unresolved symbols:'' of
       Some v \<Rightarrow> s\<lparr>unresolved_symbols := v\<rparr>
     | None \<Rightarrow> (case summary_count line ''Fatal errors (final):'' of
         Some v \<Rightarrow> s\<lparr>fatal_errors := v\<rparr>
       | None \<Rightarrow> (case summary_count line ''Fatal errors:'' of
           Some v \<Rightarrow> s\<lparr>fatal_errors := v\<rparr>
         | None \<Rightarrow> (case summary_count line ''Warnings:'' of
             Some v \<Rightarrow> s\<lparr>warnings := v\<rparr>
           | None \<Rightarrow> (case summary_count line ''Multiply-defined symbols:'' of
               Some v \<Rightarrow> s\<lparr>multiply_defined_symbols := v\<rparr>
             | None \<Rightarrow> s)))))"

definition parse_reference_summary :: "string \<Rightarrow> reference_summary" where
  "parse_reference_summary text = fold (\<lambda>l. summary_line (trim l)) (text_lines text) summary_default"

definition validate_reference_entry :: "string \<Rightarrow> assembly_error + string" where
  "validate_reference_entry entry =
     (if trim entry = [] \<or> is_absolute entry \<or> path_extension entry \<noteq> Some ''agc''
         \<or> list_ex (\<lambda>c. c = ParentDir \<or> c = RootDir) (path_components entry)
      then Inl (ReferenceError (EntryUnsafe entry)) else Inr entry)"

text \<open>\<open>chunks_exact(2)\<close> with a nonzero byte.\<close>

fun nonzero_words :: "u8 list \<Rightarrow> nat" where
  "nonzero_words (a # b # bs) = (if a \<noteq> 0 \<or> b \<noteq> 0 then 1 else 0) + nonzero_words bs"
| "nonzero_words bs = 0"

record reference_report =
  rr_schema_version :: u32
  rr_program :: program
  rr_entry :: string
  rr_historical_commit :: "string option"
  rr_toolchain :: string
  rr_force_output :: bool
  rr_exit_code :: "int option"
  rr_summary :: reference_summary
  rr_rope_bytes :: nat
  rr_nonzero_words :: nat
  rr_rope_sha256 :: string
  rr_stdout :: string
  rr_stderr :: string

text \<open>
  The world of one invocation: staging the tree, whether the entry is a file there, the process,
  the artifact it leaves, the digest, and the commit of the corpus.
\<close>

record process_output =
  po_success :: bool
  po_exit_code :: "int option"
  po_stdout :: string
  po_stderr :: string

record reference_world =
  rw_stage :: "overlay option \<Rightarrow> assembly_error + unit"
  rw_is_file :: "string \<Rightarrow> bool"
  rw_run :: "bool \<Rightarrow> string \<Rightarrow> string + process_output"
  rw_artifact :: "string \<Rightarrow> string + u8 list"
  rw_sha256 :: "u8 list \<Rightarrow> string"
  rw_commit :: "source_error + string option"

definition reference_error :: "reference_failure \<Rightarrow> assembly_error + 'a" where
  "reference_error f = Inl (ReferenceError f)"

text \<open>The checks on the artifact of a clean run, and the report.\<close>

definition check_rope :: "reference_config \<Rightarrow> u8 list \<Rightarrow> assembly_error + nat" where
  "check_rope config rope =
     (if length rope \<noteq> ROPE_WORDS * 2 then reference_error (RopeBytes (length rope) (ROPE_WORDS * 2))
      else let n = nonzero_words rope
           in if n < rc_minimum_nonzero_words config then reference_error (FewNonzeroWords n (rc_minimum_nonzero_words config))
              else Inr n)"

definition check_output :: "process_output \<Rightarrow> assembly_error + reference_summary" where
  "check_output out =
     (let s = parse_reference_summary (po_stdout out)
      in if \<not> po_success out then reference_error (ExitStatus (unresolved_symbols s) (fatal_errors s) (multiply_defined_symbols s))
         else if unresolved_symbols s \<noteq> 0 \<or> fatal_errors s \<noteq> 0 \<or> multiply_defined_symbols s \<noteq> 0
         then reference_error (DiagnosticsNotClean (unresolved_symbols s) (fatal_errors s) (multiply_defined_symbols s) (warnings s))
         else Inr s)"

definition check_request :: "program \<Rightarrow> string \<Rightarrow> overlay option \<Rightarrow> reference_config \<Rightarrow> assembly_error + string" where
  "check_request p entry v config =
     bind_result
       (case v of
          Some x \<Rightarrow> if ov_program x \<noteq> p then Inl (OverlayProgram p (ov_program x)) else Inr ()
        | None \<Rightarrow> Inr ()) (\<lambda>_.
     bind_result (validate_reference_entry entry) (\<lambda>entry_path.
     if trim (rc_toolchain config) = [] then reference_error ToolchainEmpty
     else if rc_minimum_nonzero_words config = 0 \<or> ROPE_WORDS < rc_minimum_nonzero_words config
     then reference_error (ThresholdInvalid (rc_minimum_nonzero_words config))
     else Inr entry_path))"

definition assemble_reference ::
  "reference_world \<Rightarrow> program \<Rightarrow> string \<Rightarrow> overlay option \<Rightarrow> reference_config \<Rightarrow> assembly_error + u8 list \<times> reference_report" where
  "assemble_reference world p entry v config =
     bind_result (check_request p entry v config) (\<lambda>entry_path.
     bind_result (rw_stage world v) (\<lambda>_.
     if \<not> rw_is_file world entry_path then reference_error (EntryMissing entry)
     else bind_result (case rw_run world (rc_force_output config) entry_path of
         Inl e \<Rightarrow> Inl (ReferenceIo (rc_executable config) e) | Inr out \<Rightarrow> Inr out) (\<lambda>out.
     bind_result (check_output out) (\<lambda>summary.
     bind_result (case rw_artifact world (entry_path @ ''.bin'') of
         Inl e \<Rightarrow> Inl (ReferenceIo (entry_path @ ''.bin'') e) | Inr rope \<Rightarrow> Inr rope) (\<lambda>rope.
     bind_result (check_rope config rope) (\<lambda>n.
     bind_result (case rw_commit world of Inl e \<Rightarrow> Inl (AsmSource e) | Inr c \<Rightarrow> Inr c) (\<lambda>commit.
     Inr (rope, \<lparr>rr_schema_version = 1, rr_program = p, rr_entry = entry, rr_historical_commit = commit,
       rr_toolchain = rc_toolchain config, rr_force_output = rc_force_output config, rr_exit_code = po_exit_code out,
       rr_summary = summary, rr_rope_bytes = length rope, rr_nonzero_words = n, rr_rope_sha256 = rw_sha256 world rope,
       rr_stdout = po_stdout out, rr_stderr = po_stderr out\<rparr>))))))))"

section \<open>Binary listings\<close>

definition checksum_add :: "agc_word \<Rightarrow> agc_word \<Rightarrow> agc_word option" where
  "checksum_add left right =
     (let total = to_i32_lossy_zero left + to_i32_lossy_zero right;
          folded = (if total > MAX_MAGNITUDE then total - (MAX_MAGNITUDE + 1) + 1
            else if total < - MAX_MAGNITUDE then total + (MAX_MAGNITUDE + 1) - 1 else total)
      in case from_i32 folded of Inl _ \<Rightarrow> None | Inr w \<Rightarrow> Some w)"

fun checksum_fold :: "agc_word \<Rightarrow> agc_word list \<Rightarrow> agc_word option" where
  "checksum_fold acc [] = Some acc"
| "checksum_fold acc (w # ws) = (case checksum_add acc w of None \<Rightarrow> None | Some a \<Rightarrow> checksum_fold a ws)"

record bank_checksum =
  bc_bank :: u8
  bc_sum :: agc_word
  bc_polarity :: string

record binsource =
  bs_banks :: "(u8, agc_word list) btree_map"
  bs_current :: "u8 option"
  bs_unused :: nat

type_synonym 'a importing = "(binsource, assembly_error, 'a) prog"

definition reject :: "reference_failure \<Rightarrow> 'a importing" where
  "reject f = fail (ReferenceError f)"

definition bank_card :: "nat \<Rightarrow> string \<Rightarrow> unit importing" where
  "bank_card line_number raw_bank = (case from_str_radix 8 255 (trim raw_bank) of
       None \<Rightarrow> reject (InvalidBank line_number raw_bank)
     | Some n \<Rightarrow>
         (let bank = (word_of_nat n :: u8)
          in if 35 < bank then reject (BankOutside bank line_number)
             else and_then (gets (\<lambda>s. btree_get bank (bs_banks s))) (\<lambda>existing.
               seq (modify (bs_banks_update (btree_insert bank [])))
                   (if existing \<noteq> None then reject (BankRepeated bank)
                    else modify (bs_current_update (\<lambda>_. Some bank))))))"

definition token_word :: "nat \<Rightarrow> string \<Rightarrow> agc_word importing" where
  "token_word line_number token =
     (if token = ''@'' then seq (modify (bs_unused_update Suc)) (ok POSITIVE_ZERO)
      else if length token \<noteq> 5 \<or> \<not> list_all is_octal_digit token then reject (InvalidWord token line_number)
      else case from_str_radix 8 65535 token of
          None \<Rightarrow> reject (InvalidOctal line_number)
        | Some n \<Rightarrow> (case try_from_raw (word_of_nat n) of
            Inl e \<Rightarrow> reject (WordRejected line_number e)
          | Inr w \<Rightarrow> ok w))"

definition push_token :: "nat \<Rightarrow> u8 \<Rightarrow> string \<Rightarrow> unit importing" where
  "push_token line_number bank token =
     and_then (token_word line_number token) (\<lambda>w.
     and_then (gets (\<lambda>s. btree_get bank (bs_banks s))) (\<lambda>found.
     and_then (of_option found) (\<lambda>words.
     seq (modify (bs_banks_update (btree_insert bank (words @ [w]))))
         (when_do (1024 < length words + 1) (reject (BankTooLong bank))))))"

definition binsource_line :: "nat \<Rightarrow> string \<Rightarrow> unit importing" where
  "binsource_line line_number raw_line =
     (let line = trim (case split_once (CHR '';'') raw_line of None \<Rightarrow> raw_line | Some (code, _) \<Rightarrow> code)
      in if line = [] then ok ()
         else case strip_prefix ''BANK='' line of
             Some raw_bank \<Rightarrow> bank_card line_number raw_bank
           | None \<Rightarrow> and_then (gets bs_current) (\<lambda>current. case current of
               None \<Rightarrow> reject (DataBeforeBank line_number)
             | Some bank \<Rightarrow> and_then (gets (\<lambda>s. btree_get bank (bs_banks s))) (\<lambda>found.
                 if found = None then reject (LostBank bank line_number)
                 else for_each (split_whitespace line) (push_token line_number bank))))"

definition binsource_lines :: "string \<Rightarrow> unit importing" where
  "binsource_lines text =
     for_each (zip [1 ..< length (text_lines text) + 1] (text_lines text)) (\<lambda>(n, l). binsource_line n l)"

definition bank_polarity :: "u8 \<Rightarrow> agc_word list \<Rightarrow> bank_checksum importing" where
  "bank_polarity bank words =
     (if length words \<noteq> 1024 then reject (BankLength bank (length words))
      else and_then (of_option (checksum_fold POSITIVE_ZERO words)) (\<lambda>check.
        let positive = from_raw_truncate (ucast bank); negative = complement positive
        in if check = positive then ok \<lparr>bc_bank = bank, bc_sum = check, bc_polarity = ''positive''\<rparr>
           else if check = negative then ok \<lparr>bc_bank = bank, bc_sum = check, bc_polarity = ''negative''\<rparr>
           else reject (BankChecksum bank check positive negative)))"

fun bank_checksums :: "(u8 \<times> agc_word list) list \<Rightarrow> bank_checksum list importing" where
  "bank_checksums [] = ok []"
| "bank_checksums ((bank, words) # rest) =
     and_then (bank_polarity bank words) (\<lambda>c. and_then (bank_checksums rest) (\<lambda>cs. ok (c # cs)))"

definition expected_banks :: "u8 list" where
  "expected_banks = map word_of_nat [0 ..< 36]"

definition rope_banks :: "u8 list \<Rightarrow> (u8, agc_word list) btree_map \<Rightarrow> u8 list option" where
  "rope_banks order banks =
     map_option concat (all_some (map (\<lambda>raw_bank.
       let bank = (if raw_bank < 4 then raw_bank XOR 2 else raw_bank)
       in map_option (\<lambda>ws. concat (map (\<lambda>w. to_be_bytes (push_bit 1 (raw w))) ws)) (btree_get bank banks)) order))"

record binsource_report =
  br_schema_version :: u32
  br_program :: program
  br_historical_commit :: "string option"
  br_binsource :: string
  br_toolchain :: string
  br_binsource_sha256 :: string
  br_banks :: nat
  br_words :: nat
  br_unused_words :: nat
  br_bank_checksums :: "bank_checksum list"
  br_rope_bytes :: nat
  br_nonzero_words :: nat
  br_rope_sha256 :: string

text \<open>The import of a listing that has been read, with the digests and the commit as arguments.\<close>

definition import_binsource ::
  "(string \<Rightarrow> string) \<Rightarrow> (u8 list \<Rightarrow> string) \<Rightarrow> source_error + string option \<Rightarrow> program \<Rightarrow> string \<Rightarrow> string \<Rightarrow> string
   \<Rightarrow> (u8 list \<times> binsource_report) importing" where
  "import_binsource text_sha256 rope_sha256 commit p path toolchain text =
     seq (binsource_lines text) (
        and_then (gets (\<lambda>s. s)) (\<lambda>s.
        if map fst (bs_banks s) \<noteq> expected_banks
        then reject (BanksMissing (filter (\<lambda>b. b \<notin> fst ` set (bs_banks s)) expected_banks))
        else
          and_then (bank_checksums (bs_banks s)) (\<lambda>checksums.
          and_then (of_option (rope_banks expected_banks (bs_banks s))) (\<lambda>rope.
          case commit of
            Inl e \<Rightarrow> fail (AsmSource e)
          | Inr c \<Rightarrow> ok (rope, \<lparr>br_schema_version = 1, br_program = p, br_historical_commit = c, br_binsource = path,
              br_toolchain = toolchain, br_binsource_sha256 = text_sha256 text, br_banks = length (bs_banks s),
              br_words = sum_list (map (\<lambda>e. length (snd e)) (bs_banks s)), br_unused_words = bs_unused s,
              br_bank_checksums = checksums, br_rope_bytes = length rope, br_nonzero_words = nonzero_words rope,
              br_rope_sha256 = rope_sha256 rope\<rparr>)))))"

definition assemble_binsource_reference ::
  "(string \<Rightarrow> string) \<Rightarrow> (u8 list \<Rightarrow> string) \<Rightarrow> source_error + string option \<Rightarrow> program \<Rightarrow> string \<Rightarrow> string + string \<Rightarrow> string
   \<Rightarrow> (assembly_error + u8 list \<times> binsource_report) option" where
  "assemble_binsource_reference text_sha256 rope_sha256 commit p path content toolchain =
     (if trim toolchain = [] then Some (reference_error ToolchainEmpty)
      else case content of
          Inl e \<Rightarrow> Some (Inl (ReferenceIo path e))
        | Inr text \<Rightarrow> map_option fst (import_binsource text_sha256 rope_sha256 commit p path toolchain text
            \<lparr>bs_banks = [], bs_current = None, bs_unused = 0\<rparr>))"

end
