(* ===== verification/Agc_Reference_Laws.thy ===== *)
theory Agc_Reference_Laws
  imports Agc_Reference Agc_Loader_Laws
begin

text \<open>
  Laws of the two reference routes: the checks that accept the rope of the external assembler, and
  the rope imported from a listing.
\<close>

section \<open>The listing of a rope\<close>

lemma checksum_add_total:
  assumes "word_ok l" "word_ok r"
  shows "\<exists>w. checksum_add l r = Some w \<and> word_ok w"
proof -
  let ?t = "to_i32_lossy_zero l + to_i32_lossy_zero r"
  let ?f = "if ?t > MAX_MAGNITUDE then ?t - (MAX_MAGNITUDE + 1) + 1
            else if ?t < - MAX_MAGNITUDE then ?t + (MAX_MAGNITUDE + 1) - 1 else ?t"
  have "- 16383 \<le> ?f" "?f \<le> 16383"
    using to_i32_bounds [OF assms(1)] to_i32_bounds [OF assms(2)] by (auto simp: MAX_MAGNITUDE_def)
  from from_i32_ok [OF this] show ?thesis unfolding checksum_add_def Let_def by auto
qed

lemma checksum_fold_total: "word_ok acc \<Longrightarrow> list_all word_ok ws \<Longrightarrow> \<exists>w. checksum_fold acc ws = Some w"
proof (induction ws arbitrary: acc)
  case (Cons w ws)
  then obtain a where "checksum_add acc w = Some a" "word_ok a" using checksum_add_total [of acc w] by auto
  then show ?case using Cons by simp
qed simp

definition listing_ok :: "binsource \<Rightarrow> bool" where
  "listing_ok s \<longleftrightarrow> btree_ok (bs_banks s) \<and> (\<forall>b ws. btree_get b (bs_banks s) = Some ws \<longrightarrow> list_all word_ok ws)
     \<and> (\<forall>b. bs_current s = Some b \<longrightarrow> btree_get b (bs_banks s) \<noteq> None)"

abbreviation errors_allowed :: "assembly_error \<Rightarrow> binsource \<Rightarrow> bool" where
  "errors_allowed \<equiv> \<lambda>_ _. True"

lemma bank_card_ok: "listing_ok s \<Longrightarrow> runs (bank_card n raw_bank) s (\<lambda>_. listing_ok) errors_allowed"
  by (auto simp: bank_card_def reject_def Let_def listing_ok_def split: option.split)

lemma token_word_ok:
  assumes "listing_ok s" "btree_get bank (bs_banks s) \<noteq> None"
  shows "runs (token_word n token) s (\<lambda>w s'. word_ok w \<and> listing_ok s' \<and> btree_get bank (bs_banks s') \<noteq> None) errors_allowed"
  using assms
  by (auto simp: token_word_def reject_def listing_ok_def split: option.split sum.split dest: try_from_raw_ok)

lemma push_token_ok:
  assumes "listing_ok s" "btree_get bank (bs_banks s) \<noteq> None"
  shows "runs (push_token n bank token) s (\<lambda>_ s'. listing_ok s' \<and> btree_get bank (bs_banks s') \<noteq> None) errors_allowed"
  unfolding push_token_def runs_and_then
  by (rule runs_mono [OF token_word_ok [OF assms]]) (auto simp: reject_def listing_ok_def split: option.split)

lemma binsource_line_ok:
  assumes "listing_ok s"
  shows "runs (binsource_line n raw_line) s (\<lambda>_. listing_ok) errors_allowed"
proof -
  have tokens: "runs (for_each ts (push_token n bank)) s (\<lambda>_. listing_ok) errors_allowed"
    if "btree_get bank (bs_banks s) \<noteq> None" for ts bank
  proof -
    have "runs (for_each ts (push_token n bank)) s (\<lambda>_ s'. listing_ok s' \<and> btree_get bank (bs_banks s') \<noteq> None) errors_allowed"
      by (rule runs_for_each) (use assms that push_token_ok in auto)
    then show ?thesis by (rule runs_mono) auto
  qed
  then show ?thesis
    using bank_card_ok [OF assms] assms by (auto simp: binsource_line_def Let_def reject_def split: option.split)
qed

lemma binsource_lines_ok: "listing_ok s \<Longrightarrow> runs (binsource_lines text) s (\<lambda>_. listing_ok) errors_allowed"
  unfolding binsource_lines_def by (rule runs_for_each) (auto simp: binsource_line_ok)

section \<open>Banks and checksums\<close>

text \<open>A bank of a rope: full, and its checksum is its number or the complement of it.\<close>

definition certified_bank :: "u8 \<Rightarrow> agc_word list \<Rightarrow> bool" where
  "certified_bank b ws \<longleftrightarrow> length ws = 1024 \<and> list_all word_ok ws
     \<and> checksum_fold POSITIVE_ZERO ws \<in> {Some (from_raw_truncate (ucast b)), Some (complement (from_raw_truncate (ucast b)))}"

lemma bank_polarity_ok:
  assumes "list_all word_ok ws"
  shows "runs (bank_polarity b ws) s (\<lambda>_ s'. s' = s \<and> certified_bank b ws) errors_allowed"
  using assms checksum_fold_total [of POSITIVE_ZERO ws]
  by (auto simp: bank_polarity_def reject_def certified_bank_def Let_def)

lemma bank_checksums_ok:
  assumes "\<forall>(b, ws) \<in> set banks. list_all word_ok ws"
  shows "runs (bank_checksums banks) s (\<lambda>_ s'. s' = s \<and> (\<forall>(b, ws) \<in> set banks. certified_bank b ws)) errors_allowed"
  using assms
proof (induction banks arbitrary: s)
  case (Cons p banks)
  obtain b ws where p: "p = (b, ws)" by (cases p)
  have IH: "runs (bank_checksums banks) s (\<lambda>_ s'. s' = s \<and> (\<forall>(b, ws) \<in> set banks. certified_bank b ws)) errors_allowed"
    using Cons by simp
  have "runs (bank_checksums banks) s (\<lambda>_ s'. s' = s \<and> (\<forall>(b, ws) \<in> set (p # banks). certified_bank b ws)) errors_allowed"
    if "certified_bank b ws"
    by (rule runs_mono [OF IH]) (use that in \<open>auto simp: p\<close>)
  then show ?case
    using Cons.prems unfolding p bank_checksums.simps runs_and_then
    by (intro runs_mono [OF bank_polarity_ok]) auto
qed simp

lemma take_drop_concat:
  "\<forall>x \<in> set xss. length x = n \<Longrightarrow> k < length xss \<Longrightarrow> take n (drop (k * n) (concat xss)) = xss ! k"
proof (induction xss arbitrary: k)
  case (Cons x xss)
  then show ?case by (cases k) (simp_all add: add.commute)
qed simp

lemma length_concat_blocks: "\<forall>x \<in> set xss. length x = n \<Longrightarrow> length (concat xss) = length xss * n"
  by (induction xss) auto

lemma flip_bank_u8: "b < 36 \<Longrightarrow> (if (word_of_nat b :: u8) < 4 then word_of_nat b XOR 2 else word_of_nat b) = (word_of_nat (flip_bank b) :: u8)"
proof -
  assume b: "b < 36"
  then have less: "(word_of_nat b :: u8) < 4 \<longleftrightarrow> b < 4" by (simp add: word_less_nat_alt unat_of_nat)
  have "b \<in> {0, 1, 2, 3}" if "b < 4" using that by auto
  then show ?thesis unfolding less by (auto simp: flip_bank_def)
qed

lemma expected_index: "k < 36 \<Longrightarrow> expected_banks ! k = word_of_nat k"
  by (simp add: expected_banks_def)

lemma expected_distinct: "distinct expected_banks"
proof -
  have "unat (word_of_nat k :: u8) = k" if "k < 36" for k using that by (simp add: unat_of_nat)
  then have "inj_on (\<lambda>k. word_of_nat k :: u8) {0 ..< 36}" by (metis atLeastLessThan_iff inj_onI)
  then show ?thesis unfolding expected_banks_def distinct_map by simp
qed

lemma map_of_index:
  "distinct (map fst ps) \<Longrightarrow> k < length ps \<Longrightarrow> map_of ps (map fst ps ! k) = Some (snd (ps ! k))"
  by (simp add: map_of_eq_Some_iff)

lemma all_some_total: "(\<And>x. x \<in> set xs \<Longrightarrow> f x = Some (g x)) \<Longrightarrow> all_some (map f xs) = Some (map g xs)"
  by (induction xs) auto

lemma rope_banks_encode:
  assumes "map fst banks = expected_banks" "\<forall>(b, ws) \<in> set banks. certified_bank b ws"
  shows "\<exists>rope. rope_banks expected_banks banks = Some rope \<and> encode_yayul (concat (map snd banks)) = Inr rope"
proof -
  let ?g = "\<lambda>k. concat (map (\<lambda>w. to_be_bytes (push_bit 1 (raw w))) (snd (banks ! flip_bank k)))"
  have len: "length banks = 36" using arg_cong [OF assms(1), of length] by (simp add: expected_banks_def)
  have full: "\<forall>x \<in> set (map snd banks). length x = 1024" using assms(2) by (auto simp: certified_bank_def)
  have get: "btree_get (word_of_nat k) banks = Some (snd (banks ! k))" if "k < 36" for k
    using map_of_index [of banks k] expected_distinct assms(1) that len by (simp add: btree_get_def expected_index)
  have "rope_banks expected_banks banks = Some (concat (map ?g [0 ..< 36]))"
    unfolding rope_banks_def expected_banks_def map_map
    by (subst all_some_total [where g = ?g]) (auto simp: Let_def flip_bank_u8 get flip_bank comp_def simp del: upt_Suc)
  moreover have "encode_yayul (concat (map snd banks)) = Inr (concat (map ?g [0 ..< 36]))"
  proof -
    have "take 1024 (drop (flip_bank k * 1024) (concat (map snd banks))) = snd (banks ! flip_bank k)" if "k < 36" for k
      using take_drop_concat [OF full, of "flip_bank k"] that len by (simp add: flip_bank)
    then have blocks: "map (\<lambda>k. concat (map (\<lambda>w. to_be_bytes (push_bit 1 (raw w))) (take 1024 (drop (flip_bank k * 1024) (concat (map snd banks)))))) [0 ..< 36]
        = map ?g [0 ..< 36]"
      by (intro map_cong refl) simp
    have "length (concat (map snd banks)) = 36 * 1024" using length_concat_blocks [OF full] len by simp
    then show ?thesis unfolding encode_yayul_def Let_def rope_sizes by (simp only: blocks) simp
  qed
  ultimately show ?thesis by blast
qed

lemma listing_words: "listing_ok s \<Longrightarrow> \<forall>(b, ws) \<in> set (bs_banks s). list_all word_ok ws"
proof -
  assume "listing_ok s"
  then have ok: "btree_ok (bs_banks s)" and get: "\<forall>b ws. btree_get b (bs_banks s) = Some ws \<longrightarrow> list_all word_ok ws"
    by (simp_all add: listing_ok_def)
  have "distinct (map fst (bs_banks s))" using ok by (simp add: btree_ok_def strict_sorted_iff)
  then show ?thesis using get by (auto simp: btree_get_def)
qed

text \<open>The rope of a listing: its banks in the order of their numbers, in the layout of the loader.\<close>

definition listing_rope :: "u8 list \<Rightarrow> bool" where
  "listing_rope rope \<longleftrightarrow> (\<exists>banks. list_all2 certified_bank expected_banks banks
     \<and> decode_bytes rope Yayul = Some (Inr \<lparr>ri_words = concat banks, ri_format = Yayul, ri_parity_words = 0\<rparr>))"

lemma banks_make_rope:
  assumes "map fst banks = expected_banks" "\<forall>(b, ws) \<in> set banks. certified_bank b ws"
  shows "\<exists>rope. rope_banks expected_banks banks = Some rope \<and> listing_rope rope"
proof -
  obtain rope where rope: "rope_banks expected_banks banks = Some rope" "encode_yayul (concat (map snd banks)) = Inr rope"
    using rope_banks_encode [OF assms] by blast
  have "words_ok (concat (map snd banks))" using assms(2) by (auto simp: words_ok_def certified_bank_def list_all_iff)
  then have "decode_bytes rope Yayul = Some (Inr \<lparr>ri_words = concat (map snd banks), ri_format = Yayul, ri_parity_words = 0\<rparr>)"
    by (intro decode_encoded_yayul) (simp add: rope(2))
  moreover have "list_all2 certified_bank expected_banks (map snd banks)"
    using assms(2) unfolding assms(1) [symmetric] by (auto simp: list_all2_conv_all_nth)
  ultimately show ?thesis using rope(1) unfolding listing_rope_def by blast
qed

lemma import_binsource_ok:
  assumes "listing_ok s"
  shows "runs (import_binsource th rh commit p path toolchain text) s (\<lambda>(rope, report) _. listing_rope rope \<and> br_rope_bytes report = length rope) errors_allowed"
proof -
  have finish: "runs (and_then (bank_checksums (bs_banks s')) (\<lambda>checksums.
          and_then (of_option (rope_banks expected_banks (bs_banks s'))) (\<lambda>rope.
          case commit of
            Inl e \<Rightarrow> fail (AsmSource e)
          | Inr c \<Rightarrow> ok (rope, \<lparr>br_schema_version = 1, br_program = p, br_historical_commit = c, br_binsource = path,
              br_toolchain = toolchain, br_binsource_sha256 = th text, br_banks = length (bs_banks s'),
              br_words = sum_list (map (\<lambda>e. length (snd e)) (bs_banks s')), br_unused_words = bs_unused s',
              br_bank_checksums = checksums, br_rope_bytes = length rope, br_nonzero_words = nonzero_words rope,
              br_rope_sha256 = rh rope\<rparr>)))) s' (\<lambda>(rope, report) _. listing_rope rope \<and> br_rope_bytes report = length rope) errors_allowed"
    if "listing_ok s'" "map fst (bs_banks s') = expected_banks" for s'
    unfolding runs_and_then
    by (rule runs_mono [OF bank_checksums_ok [OF listing_words [OF that(1)]]])
      (use banks_make_rope [OF that(2)] in \<open>auto split: sum.split\<close>)
  show ?thesis
    unfolding import_binsource_def runs_and_then
    by (rule runs_mono [OF binsource_lines_ok [OF assms]]) (use finish in \<open>auto simp: reject_def\<close>)
qed

text \<open>
  C29 Importing a listing never panics, and the rope it returns is exactly the rope file of 36 full
  banks of valid words, each with the checksum of its number: the loader decodes it to those banks.
\<close>

theorem binsource_rope_loads:
  "case assemble_binsource_reference th rh commit p path content toolchain of
     Some (Inr (rope, report)) \<Rightarrow> listing_rope rope \<and> br_rope_bytes report = length rope
   | Some (Inl e) \<Rightarrow> True
   | None \<Rightarrow> False"
proof (cases content)
  case (Inr listing)
  have "listing_ok \<lparr>bs_banks = [], bs_current = None, bs_unused = 0\<rparr>" by (simp add: listing_ok_def btree_get_def)
  from import_binsource_ok [OF this, of th rh commit p path toolchain listing] show ?thesis
    by (auto simp: assemble_binsource_reference_def reference_error_def runs_iff Inr)
qed (simp add: assemble_binsource_reference_def reference_error_def)

section \<open>The reference assembler\<close>

lemma bind_resultD: "bind_result r f = Inr b \<Longrightarrow> \<exists>a. r = Inr a \<and> f a = Inr b"
  by (cases r) (simp_all add: bind_result_def)

lemma check_output_clean:
  "check_output out = Inr s \<Longrightarrow> s = parse_reference_summary (po_stdout out) \<and> unresolved_symbols s = 0 \<and> fatal_errors s = 0
     \<and> multiply_defined_symbols s = 0"
  by (auto simp: check_output_def Let_def reference_error_def split: if_splits)

lemma check_rope_full:
  "check_rope config rope = Inr n \<Longrightarrow> length rope = 36 * 1024 * 2 \<and> n = nonzero_words rope \<and> rc_minimum_nonzero_words config \<le> n"
  by (auto simp: check_rope_def Let_def reference_error_def ROPE_WORDS_def split: if_splits)

text \<open>What a report of a reference assembly stands for.\<close>

definition clean_report :: "reference_config \<Rightarrow> u8 list \<Rightarrow> reference_report \<Rightarrow> bool" where
  "clean_report config rope report \<longleftrightarrow> length rope = 36 * 1024 * 2 \<and> rr_rope_bytes report = length rope
     \<and> rr_nonzero_words report = nonzero_words rope \<and> rc_minimum_nonzero_words config \<le> nonzero_words rope
     \<and> rr_summary report = parse_reference_summary (rr_stdout report) \<and> unresolved_symbols (rr_summary report) = 0
     \<and> fatal_errors (rr_summary report) = 0 \<and> multiply_defined_symbols (rr_summary report) = 0"

text \<open>
  A reference assembly is accepted only when it is clean: the report carries the summary of the
  output it holds, without unresolved or duplicate symbols and without fatal errors, and the rope has
  its full length and at least the required number of nonzero words, which is positive.
\<close>

theorem reference_accepts_clean:
  "case assemble_reference world p entry v config of
     Inr (rope, report) \<Rightarrow> clean_report config rope report \<and> 0 < nonzero_words rope
       \<and> (case v of None \<Rightarrow> True | Some x \<Rightarrow> ov_program x = p) \<and> path_extension entry = Some ''agc''
   | Inl e \<Rightarrow> True"
proof (cases "assemble_reference world p entry v config")
  case (Inr r)
  obtain rope report where r: "r = (rope, report)" by (cases r)
  from Inr [unfolded assemble_reference_def r] obtain entry_path out n commit summary where
    req: "check_request p entry v config = Inr entry_path" and summary: "check_output out = Inr summary"
    and n: "check_rope config rope = Inr n"
    and report: "report = \<lparr>rr_schema_version = 1, rr_program = p, rr_entry = entry, rr_historical_commit = commit,
       rr_toolchain = rc_toolchain config, rr_force_output = rc_force_output config, rr_exit_code = po_exit_code out,
       rr_summary = summary, rr_rope_bytes = length rope, rr_nonzero_words = n, rr_rope_sha256 = rw_sha256 world rope,
       rr_stdout = po_stdout out, rr_stderr = po_stderr out\<rparr>"
    by (auto dest!: bind_resultD split: if_splits simp: reference_error_def)
  have "0 < rc_minimum_nonzero_words config" "case v of None \<Rightarrow> True | Some x \<Rightarrow> ov_program x = p" "path_extension entry = Some ''agc''"
    using req by (auto simp: check_request_def bind_result_def validate_reference_entry_def reference_error_def split: option.splits if_splits)
  then show ?thesis
    using Inr r check_rope_full [OF n] check_output_clean [OF summary] by (auto simp: clean_report_def report)
qed simp

end
