(* ===== verification/Agc_Coverage.thy ===== *)
theory Agc_Coverage
  imports Agc_Trace Rust_Text Rust_Collections
begin

text \<open>
  \<open>crates/agc-coverage\<close>: the metrics of a trace.  An accumulator observes one event after the other,
  the addresses are parsed from their text, and the report is made from the accumulator at the end.
  The counters of the source are 64 bits wide and naturals here; \<open>BTreeMap\<close> and \<open>BTreeSet\<close> are their
  sorted lists.
\<close>

section \<open>Physical addresses\<close>

datatype coverage_error =
    CoverageTrace trace_error
  | CoverageEmpty
  | UnknownMemoryKind string
  | MalformedPhysical string
  | MissingInstructionFetch nat

datatype traced_address = TracedRegister u16 | TracedErasable u8 u16 | TracedFixed u8 u16

text \<open>The derived order: by variant, then by bank and offset.\<close>

definition address_rank :: "traced_address \<Rightarrow> nat \<times> u8 \<times> u16" where
  "address_rank a = (case a of
       TracedRegister index \<Rightarrow> (0, 0, index)
     | TracedErasable bank offset \<Rightarrow> (1, bank, offset)
     | TracedFixed bank offset \<Rightarrow> (2, bank, offset))"

lemma address_rank_inject: "address_rank a = address_rank b \<longleftrightarrow> a = b"
  by (cases a; cases b) (simp_all add: address_rank_def)

instantiation traced_address :: linorder
begin

definition less_traced_address :: "traced_address \<Rightarrow> traced_address \<Rightarrow> bool" where
  "a < b \<longleftrightarrow> address_rank a < address_rank b"

definition less_eq_traced_address :: "traced_address \<Rightarrow> traced_address \<Rightarrow> bool" where
  "a \<le> b \<longleftrightarrow> address_rank a \<le> address_rank b"

instance
  by standard
    (auto simp: less_traced_address_def less_eq_traced_address_def address_rank_inject intro: antisym
      dest: order_trans)

end

definition format_physical :: "traced_address \<Rightarrow> string" where
  "format_physical a = (case a of
       TracedRegister index \<Rightarrow> ''R:'' @ fmt_octal_padded 2 (unat index)
     | TracedErasable bank offset \<Rightarrow> ''E'' @ fmt_octal (unat bank) @ '':'' @ fmt_octal_padded 4 (unat offset)
     | TracedFixed bank offset \<Rightarrow> ''F'' @ fmt_octal_padded 2 (unat bank) @ '':'' @ fmt_octal_padded 4 (unat offset))"

text \<open>\<open>split_at(1)\<close> panics on an empty region.\<close>

definition parse_physical :: "string \<Rightarrow> (coverage_error + traced_address) option" where
  "parse_physical s =
     (case split_once (CHR '':'') s of
        None \<Rightarrow> Some (Inl (MalformedPhysical s))
      | Some (region, offset_text) \<Rightarrow> (case from_str_radix 8 0xFFFF offset_text of
            None \<Rightarrow> Some (Inl (MalformedPhysical s))
          | Some offset \<Rightarrow>
              if region = ''R'' then Some (Inr (TracedRegister (of_nat offset)))
              else case region of
                [] \<Rightarrow> None
              | prefix # bank_text \<Rightarrow> (case from_str_radix 8 0xFF bank_text of
                    None \<Rightarrow> Some (Inl (MalformedPhysical s))
                  | Some bank \<Rightarrow> Some (
                      if prefix = CHR ''E'' \<and> bank < 8 \<and> offset < 0x100
                      then Inr (TracedErasable (of_nat bank) (of_nat offset))
                      else if prefix = CHR ''F'' \<and> bank < 0x24 \<and> offset < 0x400
                      then Inr (TracedFixed (of_nat bank) (of_nat offset))
                      else Inl (MalformedPhysical s)))))"

section \<open>The accumulator\<close>

datatype traffic = FetchTraffic | ReadTraffic | WriteTraffic

record mnemonic_accumulator =
  fa_events :: nat
  fa_total_cycles :: nat
  fa_minimum_cycles :: nat
  fa_maximum_cycles :: nat
  fa_pcs :: "u16 list"
  fa_raw_words :: "u16 list"

record bank_accumulator =
  ba_operations :: nat
  ba_fetches :: nat
  ba_reads :: nat
  ba_writes :: nat
  ba_offsets :: "u16 list"
  ba_fetch_offsets :: "u16 list"

record direction_accumulator =
  da_reads :: nat
  da_writes :: nat

definition no_form :: mnemonic_accumulator where
  "no_form = \<lparr>fa_events = 0, fa_total_cycles = 0, fa_minimum_cycles = 0, fa_maximum_cycles = 0,
              fa_pcs = [], fa_raw_words = []\<rparr>"

definition no_bank :: bank_accumulator where
  "no_bank = \<lparr>ba_operations = 0, ba_fetches = 0, ba_reads = 0, ba_writes = 0,
              ba_offsets = [], ba_fetch_offsets = []\<rparr>"

definition no_direction :: direction_accumulator where
  "no_direction = \<lparr>da_reads = 0, da_writes = 0\<rparr>"

record coverage =
  cv_total_events :: nat
  cv_instruction_events :: nat
  cv_interrupt_entries :: nat
  cv_first_sequence :: "nat option"
  cv_last_sequence :: nat
  cv_first_cycle :: "nat option"
  cv_last_cycle :: nat
  cv_logical_pcs :: "u16 list"
  cv_physical_fetches :: "(traced_address, nat) btree_map"
  cv_raw_instruction_words :: "u16 list"
  cv_basic_events :: nat
  cv_extended_events :: nat
  cv_mnemonic_forms :: "(string \<times> bool, mnemonic_accumulator) btree_map"
  cv_memory_operations :: nat
  cv_memory_fetches :: nat
  cv_memory_reads :: nat
  cv_memory_writes :: nat
  cv_logical_addresses :: "u16 list"
  cv_physical_addresses :: "traced_address list"
  cv_fixed_banks :: "(u8, bank_accumulator) btree_map"
  cv_erasable_banks :: "(u8, bank_accumulator) btree_map"
  cv_registers :: "(u16, direction_accumulator) btree_map"
  cv_io_operations :: nat
  cv_io_reads :: nat
  cv_io_writes :: nat
  cv_channels :: "(u16, direction_accumulator) btree_map"
  cv_interrupt_requests :: nat
  cv_interrupt_entries_seen :: nat
  cv_interrupt_resumes :: nat
  cv_requested_numbers :: "(u8, nat) btree_map"
  cv_entered_vectors :: "(u8 \<times> u16, nat) btree_map"
  cv_eb_words :: "u16 list"
  cv_fb_words :: "u16 list"
  cv_bb_words :: "u16 list"

definition no_coverage :: coverage where
  "no_coverage =
     \<lparr>cv_total_events = 0, cv_instruction_events = 0, cv_interrupt_entries = 0, cv_first_sequence = None,
      cv_last_sequence = 0, cv_first_cycle = None, cv_last_cycle = 0, cv_logical_pcs = [],
      cv_physical_fetches = [], cv_raw_instruction_words = [], cv_basic_events = 0, cv_extended_events = 0,
      cv_mnemonic_forms = [], cv_memory_operations = 0, cv_memory_fetches = 0, cv_memory_reads = 0,
      cv_memory_writes = 0, cv_logical_addresses = [], cv_physical_addresses = [], cv_fixed_banks = [],
      cv_erasable_banks = [], cv_registers = [], cv_io_operations = 0, cv_io_reads = 0, cv_io_writes = 0,
      cv_channels = [], cv_interrupt_requests = 0, cv_interrupt_entries_seen = 0,
      cv_interrupt_resumes = 0, cv_requested_numbers = [], cv_entered_vectors = [], cv_eb_words = [],
      cv_fb_words = [], cv_bb_words = []\<rparr>"

type_synonym 'a observer = "(coverage, coverage_error, 'a) prog"

section \<open>Observing one event\<close>

definition record_form :: "nat \<Rightarrow> u16 \<Rightarrow> u16 \<Rightarrow> mnemonic_accumulator \<Rightarrow> mnemonic_accumulator" where
  "record_form cycles pc word form =
     (let form = form\<lparr>fa_events := fa_events form + 1, fa_total_cycles := fa_total_cycles form + cycles\<rparr>;
          form = (if fa_events form = 1
                  then form\<lparr>fa_minimum_cycles := cycles, fa_maximum_cycles := cycles\<rparr>
                  else form\<lparr>fa_minimum_cycles := min (fa_minimum_cycles form) cycles,
                            fa_maximum_cycles := max (fa_maximum_cycles form) cycles\<rparr>)
      in form\<lparr>fa_pcs := btree_add pc (fa_pcs form), fa_raw_words := btree_add word (fa_raw_words form)\<rparr>)"

definition event_cycles :: "trace_event \<Rightarrow> nat" where
  "event_cycles event = te_cycle_end event - te_cycle_start event"

definition observe_instruction :: "trace_event \<Rightarrow> unit observer" where
  "observe_instruction event =
     seq (modify (cv_instruction_events_update Suc))
    (seq (modify (cv_logical_pcs_update (btree_add (te_pc event))))
    (seq (modify (cv_raw_instruction_words_update (btree_add (raw (te_instruction event)))))
    (seq (modify (if te_extended event then cv_extended_events_update Suc else cv_basic_events_update Suc))
    (seq (modify (cv_mnemonic_forms_update
            (btree_entry (te_mnemonic event, te_extended event) no_form
              (record_form (event_cycles event) (te_pc event) (raw (te_instruction event))))))
    (case find (\<lambda>access. me_kind access = ''fetch'') (te_memory event) of
       None \<Rightarrow> fail (MissingInstructionFetch (te_sequence event))
     | Some fetch \<Rightarrow>
         and_then (of_option (parse_physical (me_physical fetch))) (\<lambda>parsed.
         and_then (of_result parsed) (\<lambda>physical.
         modify (cv_physical_fetches_update (btree_entry physical 0 Suc)))))))))"

definition traffic_kind :: "string \<Rightarrow> traffic option" where
  "traffic_kind kind =
     (if kind = ''fetch'' then Some FetchTraffic
      else if kind = ''read'' then Some ReadTraffic
      else if kind = ''write'' then Some WriteTraffic
      else None)"

definition observe_bank :: "traffic \<Rightarrow> u16 \<Rightarrow> bank_accumulator \<Rightarrow> bank_accumulator" where
  "observe_bank kind offset bank =
     (let bank = bank\<lparr>ba_operations := ba_operations bank + 1, ba_offsets := btree_add offset (ba_offsets bank)\<rparr>
      in case kind of
           FetchTraffic \<Rightarrow> bank\<lparr>ba_fetches := ba_fetches bank + 1,
                               ba_fetch_offsets := btree_add offset (ba_fetch_offsets bank)\<rparr>
         | ReadTraffic \<Rightarrow> bank\<lparr>ba_reads := ba_reads bank + 1\<rparr>
         | WriteTraffic \<Rightarrow> bank\<lparr>ba_writes := ba_writes bank + 1\<rparr>)"

definition observe_direction :: "bool \<Rightarrow> direction_accumulator \<Rightarrow> direction_accumulator" where
  "observe_direction writing d = (if writing then da_writes_update Suc d else da_reads_update Suc d)"

definition observe_memory :: "memory_event \<Rightarrow> unit observer" where
  "observe_memory access =
     (case traffic_kind (me_kind access) of
        None \<Rightarrow> fail (UnknownMemoryKind (me_kind access))
      | Some kind \<Rightarrow>
          seq (modify (cv_memory_operations_update Suc))
         (seq (modify (case kind of
                 FetchTraffic \<Rightarrow> cv_memory_fetches_update Suc
               | ReadTraffic \<Rightarrow> cv_memory_reads_update Suc
               | WriteTraffic \<Rightarrow> cv_memory_writes_update Suc))
         (seq (modify (cv_logical_addresses_update (btree_add (me_logical access))))
         (and_then (of_option (parse_physical (me_physical access))) (\<lambda>parsed.
          and_then (of_result parsed) (\<lambda>physical.
          seq (modify (cv_physical_addresses_update (btree_add physical)))
         (modify (case physical of
            TracedFixed bank offset \<Rightarrow> cv_fixed_banks_update (btree_entry bank no_bank (observe_bank kind offset))
          | TracedErasable bank offset \<Rightarrow> cv_erasable_banks_update (btree_entry bank no_bank (observe_bank kind offset))
          | TracedRegister index \<Rightarrow>
              cv_registers_update (btree_entry index no_direction (observe_direction (kind = WriteTraffic)))))))))))"

definition observe_channel :: "io_event \<Rightarrow> unit observer" where
  "observe_channel operation =
     seq (modify (cv_io_operations_update Suc))
    (seq (modify (if io_write operation then cv_io_writes_update Suc else cv_io_reads_update Suc))
    (modify (cv_channels_update
       (btree_entry (io_channel operation) no_direction (observe_direction (io_write operation))))))"

definition observe_interrupt :: "interrupt_event \<Rightarrow> unit observer" where
  "observe_interrupt i = (case i of
       Requested number \<Rightarrow>
         seq (modify (cv_interrupt_requests_update Suc))
        (modify (cv_requested_numbers_update (btree_entry number 0 Suc)))
     | Entered number vector \<Rightarrow>
         seq (modify (cv_interrupt_entries_seen_update Suc))
        (modify (cv_entered_vectors_update (btree_entry (number, vector) 0 Suc)))
     | Resumed \<Rightarrow> modify (cv_interrupt_resumes_update Suc))"

definition observe_banks :: "register_snapshot \<Rightarrow> unit observer" where
  "observe_banks registers =
     seq (modify (cv_eb_words_update (btree_add (rs_eb registers))))
    (seq (modify (cv_fb_words_update (btree_add (rs_fb registers))))
    (modify (cv_bb_words_update (btree_add (rs_bb registers)))))"

definition get_or_insert :: "'a \<Rightarrow> 'a option \<Rightarrow> 'a option" where
  "get_or_insert x v = (case v of None \<Rightarrow> Some x | Some y \<Rightarrow> Some y)"

definition observe :: "trace_event \<Rightarrow> unit observer" where
  "observe event =
     seq (modify (cv_total_events_update Suc))
    (seq (modify (cv_first_sequence_update (get_or_insert (te_sequence event))))
    (seq (modify (cv_last_sequence_update (\<lambda>_. te_sequence event)))
    (seq (modify (cv_first_cycle_update (get_or_insert (te_cycle_start event))))
    (seq (modify (cv_last_cycle_update (\<lambda>_. te_cycle_end event)))
    (seq (for_each [te_before event, te_after event] observe_banks)
    (seq (case te_kind event of
            InstructionEvent \<Rightarrow> observe_instruction event
          | InterruptEntry \<Rightarrow> modify (cv_interrupt_entries_update Suc))
    (seq (for_each (te_memory event) observe_memory)
    (seq (for_each (te_io event) observe_channel)
    (for_each (te_interrupts event) observe_interrupt)))))))))"

section \<open>The report\<close>

definition COVERAGE_SCHEMA_VERSION :: u32 where "COVERAGE_SCHEMA_VERSION = 1"

definition INSTALLED_ROPE_WORDS :: nat where "INSTALLED_ROPE_WORDS = 36 * 1024"

record event_coverage =
  ec_total :: nat
  ec_instructions :: nat
  ec_interrupt_entries :: nat
  ec_first_sequence :: nat
  ec_last_sequence :: nat
  ec_first_cycle :: nat
  ec_last_cycle :: nat
  ec_cycle_span :: nat

record mnemonic_coverage =
  mc_mnemonic :: string
  mc_extended :: bool
  mc_events :: nat
  mc_total_cycles :: nat
  mc_minimum_cycles :: nat
  mc_maximum_cycles :: nat
  mc_unique_pcs :: nat
  mc_unique_raw_words :: nat

record location_coverage =
  lc_physical :: string
  lc_events :: nat

record bank_coverage =
  bc_bank :: u8
  bc_operations :: nat
  bc_fetches :: nat
  bc_reads :: nat
  bc_writes :: nat
  bc_unique_offsets :: nat
  bc_unique_fetch_offsets :: nat

record instruction_coverage =
  ic_unique_logical_pcs :: nat
  ic_unique_physical_fetches :: nat
  ic_unique_rope_fetches :: nat
  ic_erasable_fetch_events :: nat
  ic_register_fetch_events :: nat
  ic_installed_rope_words :: nat
  ic_rope_fetch_coverage_ppm :: nat
  ic_unique_raw_words :: nat
  ic_unique_mnemonic_forms :: nat
  ic_basic_events :: nat
  ic_extended_events :: nat
  ic_mnemonic_forms :: "mnemonic_coverage list"
  ic_fixed_banks :: "bank_coverage list"
  ic_hottest_fetch_locations :: "location_coverage list"

record register_coverage =
  rc_index :: u16
  rc_reads :: nat
  rc_writes :: nat

record memory_coverage =
  mv_operations :: nat
  mv_fetches :: nat
  mv_reads :: nat
  mv_writes :: nat
  mv_unique_logical_addresses :: nat
  mv_unique_physical_addresses :: nat
  mv_fixed_banks :: "bank_coverage list"
  mv_erasable_banks :: "bank_coverage list"
  mv_registers :: "register_coverage list"

record channel_coverage =
  cc_channel :: u16
  cc_reads :: nat
  cc_writes :: nat

record io_coverage =
  oc_operations :: nat
  oc_reads :: nat
  oc_writes :: nat
  oc_unique_channels :: nat
  oc_channels :: "channel_coverage list"

record interrupt_number_coverage =
  inc_number :: u8
  inc_events :: nat

record interrupt_vector_coverage =
  ivc_number :: u8
  ivc_vector :: u16
  ivc_events :: nat

record interrupt_coverage =
  uc_requests :: nat
  uc_entries :: nat
  uc_resumes :: nat
  uc_requested_numbers :: "interrupt_number_coverage list"
  uc_entered_vectors :: "interrupt_vector_coverage list"

record bank_register_coverage =
  gc_eb_words :: "u16 list"
  gc_fb_words :: "u16 list"
  gc_bb_words :: "u16 list"

record coverage_report =
  cr_schema_version :: u32
  cr_trace_schema_version :: u32
  cr_events :: event_coverage
  cr_instructions :: instruction_coverage
  cr_memory :: memory_coverage
  cr_io :: io_coverage
  cr_interrupts :: interrupt_coverage
  cr_bank_registers :: bank_register_coverage

definition bank_coverage_of :: "(u8, bank_accumulator) btree_map \<Rightarrow> bank_coverage list" where
  "bank_coverage_of banks = map (\<lambda>(bank, counts).
     \<lparr>bc_bank = bank, bc_operations = ba_operations counts, bc_fetches = ba_fetches counts,
      bc_reads = ba_reads counts, bc_writes = ba_writes counts,
      bc_unique_offsets = length (ba_offsets counts),
      bc_unique_fetch_offsets = length (ba_fetch_offsets counts)\<rparr>) banks"

definition count_fetches :: "nat \<Rightarrow> u16 \<Rightarrow> bank_accumulator \<Rightarrow> bank_accumulator" where
  "count_fetches n offset counts =
     counts\<lparr>ba_operations := ba_operations counts + n, ba_fetches := ba_fetches counts + n,
            ba_offsets := btree_add offset (ba_offsets counts),
            ba_fetch_offsets := btree_add offset (ba_fetch_offsets counts)\<rparr>"

definition bank_coverage_from_fetches :: "(traced_address, nat) btree_map \<Rightarrow> bank_coverage list" where
  "bank_coverage_from_fetches fetches =
     bank_coverage_of (fold (\<lambda>(address, n) banks. case address of
         TracedFixed bank offset \<Rightarrow> btree_entry bank no_bank (count_fetches n offset) banks
       | _ \<Rightarrow> banks) fetches [])"

definition is_fixed :: "traced_address \<Rightarrow> bool" where
  "is_fixed a = (case a of TracedFixed _ _ \<Rightarrow> True | _ \<Rightarrow> False)"

definition is_erasable :: "traced_address \<Rightarrow> bool" where
  "is_erasable a = (case a of TracedErasable _ _ \<Rightarrow> True | _ \<Rightarrow> False)"

definition is_register :: "traced_address \<Rightarrow> bool" where
  "is_register a = (case a of TracedRegister _ \<Rightarrow> True | _ \<Rightarrow> False)"

text \<open>The stable sort by decreasing count and then by address, cut to twenty places.\<close>

definition hottest :: "(traced_address, nat) btree_map \<Rightarrow> location_coverage list" where
  "hottest fetches =
     take 20 (sort_key (\<lambda>l. (- int (lc_events l), lc_physical l))
       (map (\<lambda>(physical, n). \<lparr>lc_physical = format_physical physical, lc_events = n\<rparr>) fetches))"

definition mnemonic_coverage_of ::
  "(string \<times> bool, mnemonic_accumulator) btree_map \<Rightarrow> mnemonic_coverage list" where
  "mnemonic_coverage_of forms = map (\<lambda>((mnemonic, extended), form).
     \<lparr>mc_mnemonic = mnemonic, mc_extended = extended, mc_events = fa_events form,
      mc_total_cycles = fa_total_cycles form, mc_minimum_cycles = fa_minimum_cycles form,
      mc_maximum_cycles = fa_maximum_cycles form, mc_unique_pcs = length (fa_pcs form),
      mc_unique_raw_words = length (fa_raw_words form)\<rparr>) forms"

definition finish_events :: "nat \<Rightarrow> nat \<Rightarrow> coverage \<Rightarrow> event_coverage" where
  "finish_events first_sequence first_cycle s =
     \<lparr>ec_total = cv_total_events s, ec_instructions = cv_instruction_events s,
      ec_interrupt_entries = cv_interrupt_entries s, ec_first_sequence = first_sequence,
      ec_last_sequence = cv_last_sequence s, ec_first_cycle = first_cycle,
      ec_last_cycle = cv_last_cycle s, ec_cycle_span = cv_last_cycle s - first_cycle\<rparr>"

definition finish_instructions :: "coverage \<Rightarrow> instruction_coverage" where
  "finish_instructions s =
     (let fetches = cv_physical_fetches s;
          unique_rope_fetches = length (filter is_fixed (map fst fetches));
          forms = mnemonic_coverage_of (cv_mnemonic_forms s)
      in \<lparr>ic_unique_logical_pcs = length (cv_logical_pcs s),
          ic_unique_physical_fetches = length fetches,
          ic_unique_rope_fetches = unique_rope_fetches,
          ic_erasable_fetch_events = sum_list (map snd (filter (\<lambda>(a, n). is_erasable a) fetches)),
          ic_register_fetch_events = sum_list (map snd (filter (\<lambda>(a, n). is_register a) fetches)),
          ic_installed_rope_words = INSTALLED_ROPE_WORDS,
          ic_rope_fetch_coverage_ppm = min U64_MAX (unique_rope_fetches * 1000000) div INSTALLED_ROPE_WORDS,
          ic_unique_raw_words = length (cv_raw_instruction_words s),
          ic_unique_mnemonic_forms = length forms,
          ic_basic_events = cv_basic_events s,
          ic_extended_events = cv_extended_events s,
          ic_mnemonic_forms = forms,
          ic_fixed_banks = bank_coverage_from_fetches fetches,
          ic_hottest_fetch_locations = hottest fetches\<rparr>)"

definition finish_memory :: "coverage \<Rightarrow> memory_coverage" where
  "finish_memory s =
     \<lparr>mv_operations = cv_memory_operations s, mv_fetches = cv_memory_fetches s,
      mv_reads = cv_memory_reads s, mv_writes = cv_memory_writes s,
      mv_unique_logical_addresses = length (cv_logical_addresses s),
      mv_unique_physical_addresses = length (cv_physical_addresses s),
      mv_fixed_banks = bank_coverage_of (cv_fixed_banks s),
      mv_erasable_banks = bank_coverage_of (cv_erasable_banks s),
      mv_registers = map (\<lambda>(index, counts).
        \<lparr>rc_index = index, rc_reads = da_reads counts, rc_writes = da_writes counts\<rparr>) (cv_registers s)\<rparr>"

definition finish_io :: "coverage \<Rightarrow> io_coverage" where
  "finish_io s =
     (let channels = map (\<lambda>(channel, counts).
            \<lparr>cc_channel = channel, cc_reads = da_reads counts, cc_writes = da_writes counts\<rparr>) (cv_channels s)
      in \<lparr>oc_operations = cv_io_operations s, oc_reads = cv_io_reads s, oc_writes = cv_io_writes s,
          oc_unique_channels = length channels, oc_channels = channels\<rparr>)"

definition finish_interrupts :: "coverage \<Rightarrow> interrupt_coverage" where
  "finish_interrupts s =
     \<lparr>uc_requests = cv_interrupt_requests s, uc_entries = cv_interrupt_entries_seen s,
      uc_resumes = cv_interrupt_resumes s,
      uc_requested_numbers = map (\<lambda>(number, n). \<lparr>inc_number = number, inc_events = n\<rparr>) (cv_requested_numbers s),
      uc_entered_vectors = map (\<lambda>((number, vector), n).
        \<lparr>ivc_number = number, ivc_vector = vector, ivc_events = n\<rparr>) (cv_entered_vectors s)\<rparr>"

definition finish_bank_registers :: "coverage \<Rightarrow> bank_register_coverage" where
  "finish_bank_registers s =
     \<lparr>gc_eb_words = cv_eb_words s, gc_fb_words = cv_fb_words s, gc_bb_words = cv_bb_words s\<rparr>"

definition coverage_finish :: "coverage \<Rightarrow> coverage_error + coverage_report" where
  "coverage_finish s =
     (case (cv_first_sequence s, cv_first_cycle s) of
        (Some first_sequence, Some first_cycle) \<Rightarrow>
          Inr \<lparr>cr_schema_version = COVERAGE_SCHEMA_VERSION, cr_trace_schema_version = TRACE_SCHEMA_VERSION,
               cr_events = finish_events first_sequence first_cycle s,
               cr_instructions = finish_instructions s, cr_memory = finish_memory s, cr_io = finish_io s,
               cr_interrupts = finish_interrupts s, cr_bank_registers = finish_bank_registers s\<rparr>
      | _ \<Rightarrow> Inl CoverageEmpty)"

section \<open>The stream\<close>

function observe_stream :: "(string \<Rightarrow> string + trace_event) \<Rightarrow> trace_reader \<Rightarrow> unit observer" where
  "observe_stream parse r = (case next_event parse r of
       (Inl e, r') \<Rightarrow> fail (CoverageTrace e)
     | (Inr None, r') \<Rightarrow> ok ()
     | (Inr (Some event), r') \<Rightarrow> seq (observe event) (observe_stream parse r'))"
  by pat_completeness auto
termination
  by (relation "measure (\<lambda>(parse, r). length (input r))") (auto dest: next_event_consumes [OF sym])

declare observe_stream.simps [simp del]

text \<open>\<open>None\<close> is the panic of \<open>parse_physical\<close>.\<close>

definition analyze_json_lines ::
  "(string \<Rightarrow> string + trace_event) \<Rightarrow> string list \<Rightarrow> (coverage_error + coverage_report) option" where
  "analyze_json_lines parse ls = (case observe_stream parse (reader_new ls) no_coverage of
       None \<Rightarrow> None
     | Some (Inl e, s) \<Rightarrow> Some (Inl e)
     | Some (Inr u, s) \<Rightarrow> Some (coverage_finish s))"

end
