(* ===== verification/Agc_Coverage_Laws.thy ===== *)
theory Agc_Coverage_Laws
  imports Agc_Coverage Agc_Trace_Laws
begin

text \<open>
  Laws of the coverage: the text of an address, the accumulator after a list of events, and the
  report of a stream as the batch count of its events.
\<close>

section \<open>The text of an address\<close>

definition valid_address :: "traced_address \<Rightarrow> bool" where
  "valid_address a = (case a of
       TracedRegister index \<Rightarrow> True
     | TracedErasable bank offset \<Rightarrow> bank < 8 \<and> offset < 0x100
     | TracedFixed bank offset \<Rightarrow> bank < 0x24 \<and> offset < 0x400)"

lemma split_once_append: "c \<notin> set p \<Longrightarrow> split_once c (p @ c # q) = Some (p, q)"
  by (induction p) (auto simp: split_once_def before_char_def)

lemma octal_digits:
  assumes "c \<in> set (fmt_octal_padded w n)"
  shows "c \<noteq> CHR '':''"
proof -
  have "48 \<le> (of_char c :: nat) \<and> (of_char c :: nat) < 58"
    by (rule pad_left_digits [where b = 8 and w = w and n = n]) (use assms in \<open>simp_all add: fmt_octal_padded_def\<close>)
  then show ?thesis by auto
qed

lemma octal_padding: "fmt_octal n = fmt_octal_padded 0 n"
  by (simp add: fmt_octal_def fmt_octal_padded_def pad_left_def)

lemma octal_parse: "n \<le> limit \<Longrightarrow> from_str_radix 8 limit (fmt_octal_padded w n) = Some n"
  by (simp add: fmt_octal_padded_def from_str_radix_show)

lemma region_once: "c \<noteq> CHR '':'' \<Longrightarrow> split_once (CHR '':'') (c # fmt_octal_padded w n @ CHR '':'' # q) = Some (c # fmt_octal_padded w n, q)"
  using split_once_append [of "CHR '':''" "c # fmt_octal_padded w n" q] octal_digits by auto

lemma register_once: "split_once (CHR '':'') (CHR ''R'' # CHR '':'' # q) = Some (''R'', q)"
  using split_once_append [of "CHR '':''" "''R''" q] by simp

lemma u16_bound: "unat (w :: u16) \<le> 0xFFFF"
  using u16_less [of w] by linarith

lemma u8_bound: "unat (w :: u8) \<le> 0xFF"
  using u8_less [of w] by linarith

lemma parse_format: "valid_address a \<Longrightarrow> parse_physical (format_physical a) = Some (Inr a)"
  by (cases a)
    (simp_all add: format_physical_def parse_physical_def valid_address_def octal_padding register_once
      region_once octal_parse u16_bound u8_bound word_less_nat_alt)

lemma parsed_valid: "parse_physical s = Some (Inr a) \<Longrightarrow> valid_address a"
  by (auto simp: parse_physical_def valid_address_def word_less_nat_alt unat_of_nat from_str_radix_def Let_def
      split: option.splits list.splits if_splits)

lemma parse_panics: "parse_physical s = None \<Longrightarrow> starts_with '':'' s"
  by (cases s) (auto simp: parse_physical_def starts_with_def split_once_def before_char_def
      split: option.splits list.splits if_splits)

lemma parse_errors: "parse_physical s = Some (Inl e) \<Longrightarrow> e = MalformedPhysical s"
  by (auto simp: parse_physical_def split: option.splits list.splits if_splits)


section \<open>Observations as functions\<close>

definition located_at :: "memory_event \<Rightarrow> traced_address" where
  "located_at access = (case parse_physical (me_physical access) of Some (Inr a) \<Rightarrow> a | _ \<Rightarrow> TracedRegister 0)"

definition access_ok :: "memory_event \<Rightarrow> bool" where
  "access_ok access \<longleftrightarrow> traffic_kind (me_kind access) \<noteq> None
     \<and> (case parse_physical (me_physical access) of Some (Inr a) \<Rightarrow> True | _ \<Rightarrow> False)"

definition is_instruction :: "trace_event \<Rightarrow> bool" where
  "is_instruction event \<longleftrightarrow> te_kind event = InstructionEvent"

definition fetches_of :: "trace_event \<Rightarrow> memory_event list" where
  "fetches_of event = filter (\<lambda>access. me_kind access = ''fetch'') (te_memory event)"

definition measurable :: "trace_event \<Rightarrow> bool" where
  "measurable event \<longleftrightarrow> list_all access_ok (te_memory event) \<and> (is_instruction event \<longrightarrow> fetches_of event \<noteq> [])"

definition traffic_of :: "memory_event \<Rightarrow> traffic" where
  "traffic_of access = (case traffic_kind (me_kind access) of Some k \<Rightarrow> k | None \<Rightarrow> ReadTraffic)"

definition bank_of :: "memory_event \<Rightarrow> u8" where
  "bank_of access = (case located_at access of TracedRegister i \<Rightarrow> 0 | TracedErasable b w \<Rightarrow> b | TracedFixed b w \<Rightarrow> b)"

definition offset_of :: "memory_event \<Rightarrow> u16" where
  "offset_of access = (case located_at access of TracedRegister i \<Rightarrow> i | TracedErasable b w \<Rightarrow> w | TracedFixed b w \<Rightarrow> w)"

definition add_access :: "memory_event \<Rightarrow> coverage \<Rightarrow> coverage" where
  "add_access a s =
     (let k = traffic_of a; p = located_at a
      in s\<lparr>cv_memory_operations := Suc (cv_memory_operations s),
           cv_memory_fetches := (if k = FetchTraffic then Suc (cv_memory_fetches s) else cv_memory_fetches s),
           cv_memory_reads := (if k = ReadTraffic then Suc (cv_memory_reads s) else cv_memory_reads s),
           cv_memory_writes := (if k = WriteTraffic then Suc (cv_memory_writes s) else cv_memory_writes s),
           cv_logical_addresses := btree_add (me_logical a) (cv_logical_addresses s),
           cv_physical_addresses := btree_add p (cv_physical_addresses s),
           cv_fixed_banks := (if is_fixed p then btree_entry (bank_of a) no_bank (observe_bank k (offset_of a)) (cv_fixed_banks s)
              else cv_fixed_banks s),
           cv_erasable_banks := (if is_erasable p then btree_entry (bank_of a) no_bank (observe_bank k (offset_of a)) (cv_erasable_banks s)
              else cv_erasable_banks s),
           cv_registers := (if is_register p then btree_entry (offset_of a) no_direction (observe_direction (k = WriteTraffic)) (cv_registers s)
              else cv_registers s)\<rparr>)"

definition add_instruction :: "trace_event \<Rightarrow> coverage \<Rightarrow> coverage" where
  "add_instruction e s =
     s\<lparr>cv_instruction_events := Suc (cv_instruction_events s),
       cv_logical_pcs := btree_add (te_pc e) (cv_logical_pcs s),
       cv_raw_instruction_words := btree_add (raw (te_instruction e)) (cv_raw_instruction_words s),
       cv_extended_events := (if te_extended e then Suc (cv_extended_events s) else cv_extended_events s),
       cv_basic_events := (if te_extended e then cv_basic_events s else Suc (cv_basic_events s)),
       cv_mnemonic_forms := btree_entry (te_mnemonic e, te_extended e) no_form
          (record_form (event_cycles e) (te_pc e) (raw (te_instruction e))) (cv_mnemonic_forms s),
       cv_physical_fetches := btree_entry (located_at (hd (fetches_of e))) 0 Suc (cv_physical_fetches s)\<rparr>"

definition add_channel :: "io_event \<Rightarrow> coverage \<Rightarrow> coverage" where
  "add_channel i s =
     s\<lparr>cv_io_operations := Suc (cv_io_operations s),
       cv_io_writes := (if io_write i then Suc (cv_io_writes s) else cv_io_writes s),
       cv_io_reads := (if io_write i then cv_io_reads s else Suc (cv_io_reads s)),
       cv_channels := btree_entry (io_channel i) no_direction (observe_direction (io_write i)) (cv_channels s)\<rparr>"

definition add_interrupt :: "interrupt_event \<Rightarrow> coverage \<Rightarrow> coverage" where
  "add_interrupt i s = (case i of
       Requested n \<Rightarrow> s\<lparr>cv_interrupt_requests := Suc (cv_interrupt_requests s),
                       cv_requested_numbers := btree_entry n 0 Suc (cv_requested_numbers s)\<rparr>
     | Entered n v \<Rightarrow> s\<lparr>cv_interrupt_entries_seen := Suc (cv_interrupt_entries_seen s),
                       cv_entered_vectors := btree_entry (n, v) 0 Suc (cv_entered_vectors s)\<rparr>
     | Resumed \<Rightarrow> s\<lparr>cv_interrupt_resumes := Suc (cv_interrupt_resumes s)\<rparr>)"

definition add_snapshots :: "trace_event \<Rightarrow> coverage \<Rightarrow> coverage" where
  "add_snapshots e s =
     s\<lparr>cv_total_events := Suc (cv_total_events s),
       cv_first_sequence := get_or_insert (te_sequence e) (cv_first_sequence s),
       cv_last_sequence := te_sequence e,
       cv_first_cycle := get_or_insert (te_cycle_start e) (cv_first_cycle s),
       cv_last_cycle := te_cycle_end e,
       cv_eb_words := fold (btree_add \<circ> rs_eb) [te_before e, te_after e] (cv_eb_words s),
       cv_fb_words := fold (btree_add \<circ> rs_fb) [te_before e, te_after e] (cv_fb_words s),
       cv_bb_words := fold (btree_add \<circ> rs_bb) [te_before e, te_after e] (cv_bb_words s)\<rparr>"

definition add_entry :: "coverage \<Rightarrow> coverage" where
  "add_entry s = s\<lparr>cv_interrupt_entries := Suc (cv_interrupt_entries s)\<rparr>"

definition add_event :: "trace_event \<Rightarrow> coverage \<Rightarrow> coverage" where
  "add_event e s =
     fold add_interrupt (te_interrupts e)
       (fold add_channel (te_io e)
         (fold add_access (te_memory e)
           ((if is_instruction e then add_instruction e else add_entry) (add_snapshots e s))))"

lemma for_each_fold:
  assumes "\<And>x s. x \<in> set xs \<Longrightarrow> f x s = Some (Inr (), g x s)"
  shows "for_each xs f s = Some (Inr (), fold g xs s)"
  using assms by (induction xs arbitrary: s) (simp_all add: run_simps)

lemma observe_memory_ok:
  assumes "access_ok a"
  shows "observe_memory a s = Some (Inr (), add_access a s)"
proof -
  from assms obtain k p where "traffic_kind (me_kind a) = Some k" "parse_physical (me_physical a) = Some (Inr p)"
    by (auto simp: access_ok_def split: option.splits sum.splits)
  then show ?thesis
    by (cases k; cases p)
      (simp_all add: observe_memory_def add_access_def run_simps traffic_of_def located_at_def
        is_fixed_def is_erasable_def is_register_def bank_of_def offset_of_def)
qed

lemma observe_channel_ok: "observe_channel i s = Some (Inr (), add_channel i s)"
  by (simp add: observe_channel_def add_channel_def run_simps)

lemma observe_interrupt_ok: "observe_interrupt i s = Some (Inr (), add_interrupt i s)"
  by (simp add: observe_interrupt_def add_interrupt_def run_simps split: interrupt_event.split)

lemma find_hd: "find P xs = (case filter P xs of [] \<Rightarrow> None | x # ys \<Rightarrow> Some x)"
  by (induction xs) auto

lemma observe_instruction_ok:
  assumes "measurable e" "is_instruction e"
  shows "observe_instruction e s = Some (Inr (), add_instruction e s)"
proof -
  obtain a rest where a: "fetches_of e = a # rest" using assms by (cases "fetches_of e") (auto simp: measurable_def)
  then have "a \<in> set (te_memory e)" unfolding fetches_of_def by (auto dest: Cons_eq_filterD [OF sym])
  then have "access_ok a" using assms(1) by (simp add: measurable_def list_all_iff)
  then obtain p where "parse_physical (me_physical a) = Some (Inr p)"
    by (auto simp: access_ok_def split: option.splits sum.splits)
  then show ?thesis using a
    by (simp add: observe_instruction_def add_instruction_def run_simps find_hd fetches_of_def located_at_def)
qed

lemma observe_ok:
  assumes "measurable e"
  shows "observe e s = Some (Inr (), add_event e s)"
proof -
  have banks: "for_each [te_before e, te_after e] observe_banks s = Some (Inr (), fold
     (\<lambda>r s. s\<lparr>cv_eb_words := btree_add (rs_eb r) (cv_eb_words s), cv_fb_words := btree_add (rs_fb r) (cv_fb_words s),
        cv_bb_words := btree_add (rs_bb r) (cv_bb_words s)\<rparr>) [te_before e, te_after e] s)" for s
    by (rule for_each_fold) (simp add: observe_banks_def run_simps)
  have "for_each (te_memory e) observe_memory s = Some (Inr (), fold add_access (te_memory e) s)" for s
    by (rule for_each_fold) (use assms in \<open>simp add: observe_memory_ok measurable_def list_all_iff\<close>)
  moreover have "for_each (te_io e) observe_channel s = Some (Inr (), fold add_channel (te_io e) s)" for s
    by (rule for_each_fold) (simp add: observe_channel_ok)
  moreover have "for_each (te_interrupts e) observe_interrupt s = Some (Inr (), fold add_interrupt (te_interrupts e) s)" for s
    by (rule for_each_fold) (simp add: observe_interrupt_ok)
  moreover have "(case te_kind e of InstructionEvent \<Rightarrow> observe_instruction e
        | InterruptEntry \<Rightarrow> modify (cv_interrupt_entries_update Suc)) s
      = Some (Inr (), (if is_instruction e then add_instruction e else add_entry) s)" for s
    using observe_instruction_ok [OF assms]
    by (cases "te_kind e") (simp_all add: is_instruction_def add_entry_def run_simps)
  ultimately show ?thesis
    by (cases s) (simp add: observe_def run_simps banks add_event_def add_snapshots_def del: for_each.simps)
qed

lemma for_each_success:
  "for_each xs f s = Some (Inr u, s') \<Longrightarrow> x \<in> set xs \<Longrightarrow> \<exists>t v t'. f x t = Some (Inr v, t')"
proof (induction xs arbitrary: s)
  case (Cons y ys)
  then obtain s1 where "f y s = Some (Inr (), s1)" "for_each ys f s1 = Some (Inr u, s')"
    by (auto simp: run_simps split: option.splits sum.splits)
  then show ?case using Cons.IH [of s1] Cons.prems(2) by auto
qed simp

lemma observe_memory_success: "observe_memory a s = Some (Inr u, s') \<Longrightarrow> access_ok a"
  by (auto simp: access_ok_def observe_memory_def run_simps split: option.splits sum.splits)

lemma observe_instruction_success: "observe_instruction e s = Some (Inr u, s') \<Longrightarrow> fetches_of e \<noteq> []"
  by (auto simp: observe_instruction_def find_hd fetches_of_def run_simps split: list.splits)

lemma observe_success:
  assumes "observe e s = Some (Inr u, s')"
  shows "measurable e"
proof -
  from assms obtain t t' where "for_each (te_memory e) observe_memory t = Some (Inr (), t')"
    by (auto simp: observe_def run_simps simp del: for_each.simps split: option.splits sum.splits)
  then have "list_all access_ok (te_memory e)"
    by (auto simp: list_all_iff dest!: for_each_success observe_memory_success)
  moreover from assms obtain t t' where "(case te_kind e of InstructionEvent \<Rightarrow> observe_instruction e
        | InterruptEntry \<Rightarrow> modify (cv_interrupt_entries_update Suc)) t = Some (Inr (), t')"
    by (auto simp: observe_def run_simps simp del: for_each.simps split: option.splits sum.splits)
  then have "fetches_of e \<noteq> []" if "is_instruction e"
    using that observe_instruction_success by (auto simp: is_instruction_def)
  ultimately show ?thesis by (simp add: measurable_def)
qed

section \<open>The state after a trace\<close>

definition accesses :: "trace_event list \<Rightarrow> memory_event list" where
  "accesses es = concat (map te_memory es)"

definition operations :: "trace_event list \<Rightarrow> io_event list" where
  "operations es = concat (map te_io es)"

definition interrupts_of :: "trace_event list \<Rightarrow> interrupt_event list" where
  "interrupts_of es = concat (map te_interrupts es)"

definition snapshots :: "trace_event list \<Rightarrow> register_snapshot list" where
  "snapshots es = concat (map (\<lambda>e. [te_before e, te_after e]) es)"

definition instructions_of :: "trace_event list \<Rightarrow> trace_event list" where
  "instructions_of es = filter is_instruction es"

definition count_if :: "('a \<Rightarrow> bool) \<Rightarrow> 'a list \<Rightarrow> nat" where
  "count_if P xs = length (filter P xs)"

definition requested :: "interrupt_event \<Rightarrow> u8 list" where
  "requested i = (case i of Requested n \<Rightarrow> [n] | _ \<Rightarrow> [])"

definition entered :: "interrupt_event \<Rightarrow> (u8 \<times> u16) list" where
  "entered i = (case i of Entered n v \<Rightarrow> [(n, v)] | _ \<Rightarrow> [])"

lemma interrupt_parts [simp]:
  "requested (Requested n) = [n]" "requested (Entered n v) = []" "requested Resumed = []"
  "entered (Requested n) = []" "entered (Entered n v) = [(n, v)]" "entered Resumed = []"
  by (simp_all add: requested_def entered_def)

definition located_in :: "(traced_address \<Rightarrow> bool) \<Rightarrow> memory_event list \<Rightarrow> memory_event list" where
  "located_in P as = filter (\<lambda>a. P (located_at a)) as"

lemma trace_parts [simp]:
  "accesses [] = []" "operations [] = []" "interrupts_of [] = []" "snapshots [] = []" "instructions_of [] = []"
  "accesses (es @ [e]) = accesses es @ te_memory e" "operations (es @ [e]) = operations es @ te_io e"
  "interrupts_of (es @ [e]) = interrupts_of es @ te_interrupts e"
  "snapshots (es @ [e]) = snapshots es @ [te_before e, te_after e]"
  "instructions_of (es @ [e]) = instructions_of es @ (if is_instruction e then [e] else [])"
  by (simp_all add: accesses_def operations_def interrupts_of_def snapshots_def instructions_of_def)

lemma count_if_simps [simp]:
  "count_if P [] = 0" "count_if P (x # xs) = (if P x then 1 else 0) + count_if P xs"
  "count_if P (xs @ ys) = count_if P xs + count_if P ys"
  by (simp_all add: count_if_def)

lemma located_in_simps [simp]:
  "located_in P [] = []" "located_in P (a # as) = (if P (located_at a) then a # located_in P as else located_in P as)"
  "located_in P (as @ bs) = located_in P as @ located_in P bs"
  by (simp_all add: located_in_def)

definition note_bank :: "memory_event \<Rightarrow> bank_accumulator \<Rightarrow> bank_accumulator" where
  "note_bank a = observe_bank (traffic_of a) (offset_of a)"

definition note_register :: "memory_event \<Rightarrow> direction_accumulator \<Rightarrow> direction_accumulator" where
  "note_register a = observe_direction (traffic_of a = WriteTraffic)"

definition note_channel :: "io_event \<Rightarrow> direction_accumulator \<Rightarrow> direction_accumulator" where
  "note_channel i = observe_direction (io_write i)"

definition note_form :: "trace_event \<Rightarrow> mnemonic_accumulator \<Rightarrow> mnemonic_accumulator" where
  "note_form e = record_form (event_cycles e) (te_pc e) (raw (te_instruction e))"

definition form_of :: "trace_event \<Rightarrow> string \<times> bool" where
  "form_of e = (te_mnemonic e, te_extended e)"

definition fetched_at :: "trace_event \<Rightarrow> traced_address" where
  "fetched_at e = located_at (hd (fetches_of e))"

lemma add_accesses:
  "fold add_access as s =
     s\<lparr>cv_memory_operations := cv_memory_operations s + length as,
       cv_memory_fetches := cv_memory_fetches s + count_if (\<lambda>a. traffic_of a = FetchTraffic) as,
       cv_memory_reads := cv_memory_reads s + count_if (\<lambda>a. traffic_of a = ReadTraffic) as,
       cv_memory_writes := cv_memory_writes s + count_if (\<lambda>a. traffic_of a = WriteTraffic) as,
       cv_logical_addresses := fold btree_add (map me_logical as) (cv_logical_addresses s),
       cv_physical_addresses := fold btree_add (map located_at as) (cv_physical_addresses s),
       cv_fixed_banks := fold (\<lambda>a. btree_entry (bank_of a) no_bank (note_bank a)) (located_in is_fixed as) (cv_fixed_banks s),
       cv_erasable_banks := fold (\<lambda>a. btree_entry (bank_of a) no_bank (note_bank a)) (located_in is_erasable as) (cv_erasable_banks s),
       cv_registers := fold (\<lambda>a. btree_entry (offset_of a) no_direction (note_register a)) (located_in is_register as) (cv_registers s)\<rparr>"
proof (induction as arbitrary: s)
  case (Cons a as)
  show ?case unfolding fold_simps o_apply Cons.IH
    by (cases s) (simp add: add_access_def note_bank_def note_register_def Let_def)
qed simp

lemma add_channels:
  "fold add_channel is s =
     s\<lparr>cv_io_operations := cv_io_operations s + length is,
       cv_io_writes := cv_io_writes s + count_if io_write is,
       cv_io_reads := cv_io_reads s + count_if (\<lambda>i. \<not> io_write i) is,
       cv_channels := fold (\<lambda>i. btree_entry (io_channel i) no_direction (note_channel i)) is (cv_channels s)\<rparr>"
proof (induction "is" arbitrary: s)
  case (Cons a as)
  show ?case unfolding fold_simps o_apply Cons.IH
    by (cases s) (simp add: add_channel_def note_channel_def)
qed simp

lemma add_interrupts:
  "fold add_interrupt is s =
     s\<lparr>cv_interrupt_requests := cv_interrupt_requests s + count_if (\<lambda>i. requested i \<noteq> []) is,
       cv_interrupt_entries_seen := cv_interrupt_entries_seen s + count_if (\<lambda>i. entered i \<noteq> []) is,
       cv_interrupt_resumes := cv_interrupt_resumes s + count_if (\<lambda>i. i = Resumed) is,
       cv_requested_numbers := fold (\<lambda>n. btree_entry n 0 Suc) (concat (map requested is)) (cv_requested_numbers s),
       cv_entered_vectors := fold (\<lambda>n. btree_entry n 0 Suc) (concat (map entered is)) (cv_entered_vectors s)\<rparr>"
proof (induction "is" arbitrary: s)
  case (Cons i "is")
  show ?case unfolding fold_simps o_apply Cons.IH
    by (cases s; cases i) (simp_all add: add_interrupt_def)
qed simp

definition coverage_state :: "trace_event list \<Rightarrow> coverage" where
  "coverage_state es =
     (let as = accesses es; ins = instructions_of es; ops = operations es; irs = interrupts_of es
      in \<lparr>cv_total_events = length es, cv_instruction_events = length ins,
      cv_interrupt_entries = count_if (\<lambda>e. \<not> is_instruction e) es,
      cv_first_sequence = (if es = [] then None else Some (te_sequence (hd es))),
      cv_last_sequence = (if es = [] then 0 else te_sequence (last es)),
      cv_first_cycle = (if es = [] then None else Some (te_cycle_start (hd es))),
      cv_last_cycle = (if es = [] then 0 else te_cycle_end (last es)),
      cv_logical_pcs = fold btree_add (map te_pc ins) [],
      cv_physical_fetches = tallied fetched_at 0 (\<lambda>_. Suc) ins,
      cv_raw_instruction_words = fold btree_add (map (\<lambda>e. raw (te_instruction e)) ins) [],
      cv_basic_events = count_if (\<lambda>e. \<not> te_extended e) ins,
      cv_extended_events = count_if te_extended ins,
      cv_mnemonic_forms = tallied form_of no_form note_form ins,
      cv_memory_operations = length as,
      cv_memory_fetches = count_if (\<lambda>a. traffic_of a = FetchTraffic) as,
      cv_memory_reads = count_if (\<lambda>a. traffic_of a = ReadTraffic) as,
      cv_memory_writes = count_if (\<lambda>a. traffic_of a = WriteTraffic) as,
      cv_logical_addresses = fold btree_add (map me_logical as) [],
      cv_physical_addresses = fold btree_add (map located_at as) [],
      cv_fixed_banks = tallied bank_of no_bank note_bank (located_in is_fixed as),
      cv_erasable_banks = tallied bank_of no_bank note_bank (located_in is_erasable as),
      cv_registers = tallied offset_of no_direction note_register (located_in is_register as),
      cv_io_operations = length ops, cv_io_reads = count_if (\<lambda>i. \<not> io_write i) ops,
      cv_io_writes = count_if io_write ops,
      cv_channels = tallied io_channel no_direction note_channel ops,
      cv_interrupt_requests = count_if (\<lambda>i. requested i \<noteq> []) irs,
      cv_interrupt_entries_seen = count_if (\<lambda>i. entered i \<noteq> []) irs,
      cv_interrupt_resumes = count_if (\<lambda>i. i = Resumed) irs,
      cv_requested_numbers = tallied id 0 (\<lambda>_. Suc) (concat (map requested irs)),
      cv_entered_vectors = tallied id 0 (\<lambda>_. Suc) (concat (map entered irs)),
      cv_eb_words = fold btree_add (map rs_eb (snapshots es)) [],
      cv_fb_words = fold btree_add (map rs_fb (snapshots es)) [],
      cv_bb_words = fold btree_add (map rs_bb (snapshots es)) []\<rparr>)"

lemma add_event_state: "add_event e (coverage_state es) = coverage_state (es @ [e])"
  unfolding add_event_def add_accesses add_channels add_interrupts
  by (cases "is_instruction e")
    (simp_all add: hd_append coverage_state_def add_snapshots_def add_instruction_def add_entry_def tallied_def get_or_insert_def
      note_form_def [abs_def] form_of_def fetched_at_def Let_def del: btree_add.simps split del: if_split cong: if_cong, auto)

lemma coverage_state_Nil: "no_coverage = coverage_state []"
  by (simp add: no_coverage_def coverage_state_def)

section \<open>The report of a whole trace\<close>

text \<open>
  What the report is of a list of events, without an accumulator: the rows of every table are the
  keys that occur, in order, each with what its own items amount to.
\<close>

definition tabulate :: "('x \<Rightarrow> 'k::linorder) \<Rightarrow> ('k \<Rightarrow> 'x list \<Rightarrow> 'r) \<Rightarrow> 'x list \<Rightarrow> 'r list" where
  "tabulate key row xs = map (\<lambda>k. row k (filter (\<lambda>x. key x = k) xs)) (sorted_list_of_set (key ` set xs))"

definition distinct_count :: "('x \<Rightarrow> 'k) \<Rightarrow> 'x list \<Rightarrow> nat" where
  "distinct_count f xs = card (f ` set xs)"

definition bank_row :: "u8 \<Rightarrow> memory_event list \<Rightarrow> bank_coverage" where
  "bank_row bank as =
     \<lparr>bc_bank = bank, bc_operations = length as,
      bc_fetches = count_if (\<lambda>a. traffic_of a = FetchTraffic) as,
      bc_reads = count_if (\<lambda>a. traffic_of a = ReadTraffic) as,
      bc_writes = count_if (\<lambda>a. traffic_of a = WriteTraffic) as,
      bc_unique_offsets = distinct_count offset_of as,
      bc_unique_fetch_offsets = distinct_count offset_of (filter (\<lambda>a. traffic_of a = FetchTraffic) as)\<rparr>"

definition mnemonic_row :: "string \<times> bool \<Rightarrow> trace_event list \<Rightarrow> mnemonic_coverage" where
  "mnemonic_row form es =
     \<lparr>mc_mnemonic = fst form, mc_extended = snd form, mc_events = length es,
      mc_total_cycles = sum_list (map event_cycles es),
      mc_minimum_cycles = Min (event_cycles ` set es), mc_maximum_cycles = Max (event_cycles ` set es),
      mc_unique_pcs = distinct_count te_pc es,
      mc_unique_raw_words = distinct_count (\<lambda>e. raw (te_instruction e)) es\<rparr>"

definition fetch_bank :: "traced_address \<Rightarrow> u8" where
  "fetch_bank a = (case a of TracedFixed b w \<Rightarrow> b | _ \<Rightarrow> 0)"

definition fetch_offset :: "traced_address \<Rightarrow> u16" where
  "fetch_offset a = (case a of TracedFixed b w \<Rightarrow> w | _ \<Rightarrow> 0)"

definition fetch_row :: "u8 \<Rightarrow> trace_event list \<Rightarrow> bank_coverage" where
  "fetch_row bank es =
     \<lparr>bc_bank = bank, bc_operations = length es, bc_fetches = length es, bc_reads = 0, bc_writes = 0,
      bc_unique_offsets = distinct_count (fetch_offset \<circ> fetched_at) es,
      bc_unique_fetch_offsets = distinct_count (fetch_offset \<circ> fetched_at) es\<rparr>"

definition from_rope :: "trace_event list \<Rightarrow> trace_event list" where
  "from_rope es = filter (\<lambda>e. is_fixed (fetched_at e)) (instructions_of es)"

definition instruction_report :: "trace_event list \<Rightarrow> instruction_coverage" where
  "instruction_report es =
     (let ins = instructions_of es; rope = distinct_count fetched_at (from_rope es)
      in \<lparr>ic_unique_logical_pcs = distinct_count te_pc ins,
          ic_unique_physical_fetches = distinct_count fetched_at ins,
          ic_unique_rope_fetches = rope,
          ic_erasable_fetch_events = count_if (\<lambda>e. is_erasable (fetched_at e)) ins,
          ic_register_fetch_events = count_if (\<lambda>e. is_register (fetched_at e)) ins,
          ic_installed_rope_words = 36864,
          ic_rope_fetch_coverage_ppm = min U64_MAX (rope * 1000000) div 36864,
          ic_unique_raw_words = distinct_count (\<lambda>e. raw (te_instruction e)) ins,
          ic_unique_mnemonic_forms = distinct_count form_of ins,
          ic_basic_events = count_if (\<lambda>e. \<not> te_extended e) ins,
          ic_extended_events = count_if te_extended ins,
          ic_mnemonic_forms = tabulate form_of mnemonic_row ins,
          ic_fixed_banks = tabulate (fetch_bank \<circ> fetched_at) fetch_row (from_rope es),
          ic_hottest_fetch_locations = hottest (tabulate fetched_at (\<lambda>a xs. (a, length xs)) ins)\<rparr>)"

definition memory_report :: "trace_event list \<Rightarrow> memory_coverage" where
  "memory_report es =
     (let as = accesses es
      in \<lparr>mv_operations = length as,
          mv_fetches = count_if (\<lambda>a. traffic_of a = FetchTraffic) as,
          mv_reads = count_if (\<lambda>a. traffic_of a = ReadTraffic) as,
          mv_writes = count_if (\<lambda>a. traffic_of a = WriteTraffic) as,
          mv_unique_logical_addresses = distinct_count me_logical as,
          mv_unique_physical_addresses = distinct_count located_at as,
          mv_fixed_banks = tabulate bank_of bank_row (located_in is_fixed as),
          mv_erasable_banks = tabulate bank_of bank_row (located_in is_erasable as),
          mv_registers = tabulate offset_of (\<lambda>index xs.
             \<lparr>rc_index = index, rc_reads = count_if (\<lambda>a. traffic_of a \<noteq> WriteTraffic) xs,
              rc_writes = count_if (\<lambda>a. traffic_of a = WriteTraffic) xs\<rparr>) (located_in is_register as)\<rparr>)"

definition io_report :: "trace_event list \<Rightarrow> io_coverage" where
  "io_report es =
     (let ops = operations es
      in \<lparr>oc_operations = length ops, oc_reads = count_if (\<lambda>i. \<not> io_write i) ops,
          oc_writes = count_if io_write ops, oc_unique_channels = distinct_count io_channel ops,
          oc_channels = tabulate io_channel (\<lambda>channel xs.
             \<lparr>cc_channel = channel, cc_reads = count_if (\<lambda>i. \<not> io_write i) xs,
              cc_writes = count_if io_write xs\<rparr>) ops\<rparr>)"

definition interrupt_report :: "trace_event list \<Rightarrow> interrupt_coverage" where
  "interrupt_report es =
     (let irs = interrupts_of es; rs = concat (map requested irs); vs = concat (map entered irs)
      in \<lparr>uc_requests = length rs, uc_entries = length vs, uc_resumes = count_if (\<lambda>i. i = Resumed) irs,
          uc_requested_numbers = tabulate id (\<lambda>n xs. \<lparr>inc_number = n, inc_events = length xs\<rparr>) rs,
          uc_entered_vectors = tabulate id (\<lambda>v xs.
             \<lparr>ivc_number = fst v, ivc_vector = snd v, ivc_events = length xs\<rparr>) vs\<rparr>)"

definition event_report :: "trace_event list \<Rightarrow> event_coverage" where
  "event_report es =
     \<lparr>ec_total = length es, ec_instructions = length (instructions_of es),
      ec_interrupt_entries = count_if (\<lambda>e. \<not> is_instruction e) es,
      ec_first_sequence = te_sequence (hd es), ec_last_sequence = te_sequence (last es),
      ec_first_cycle = te_cycle_start (hd es), ec_last_cycle = te_cycle_end (last es),
      ec_cycle_span = te_cycle_end (last es) - te_cycle_start (hd es)\<rparr>"

definition coverage_of :: "trace_event list \<Rightarrow> coverage_report" where
  "coverage_of es =
     \<lparr>cr_schema_version = 1, cr_trace_schema_version = 2, cr_events = event_report es,
      cr_instructions = instruction_report es, cr_memory = memory_report es, cr_io = io_report es,
      cr_interrupts = interrupt_report es,
      cr_bank_registers = \<lparr>gc_eb_words = sorted_list_of_set (rs_eb ` set (snapshots es)),
         gc_fb_words = sorted_list_of_set (rs_fb ` set (snapshots es)),
         gc_bb_words = sorted_list_of_set (rs_bb ` set (snapshots es))\<rparr>\<rparr>"

section \<open>Accumulated rows\<close>

lemma length_collected: "length (fold btree_add (map f xs) []) = distinct_count f xs"
  by (simp add: fold_btree_add distinct_count_def)

lemma tallied_row: "map (\<lambda>(k, v). row k v) (tallied key d f xs) = tabulate key (\<lambda>k ys. row k (fold f ys d)) xs"
  by (simp add: tallied_keys tabulate_def)

lemma length_tallied: "length (tallied key d f xs) = distinct_count key xs"
  by (simp add: tallied_keys distinct_count_def)

lemma tabulate_cong:
  assumes "\<And>k ys. ys \<noteq> [] \<Longrightarrow> row k ys = row' k ys"
  shows "tabulate key row xs = tabulate key row' xs"
  unfolding tabulate_def by (rule map_cong [OF refl], rule assms) (auto simp: filter_empty_conv)

lemma fold_note_bank:
  "fold note_bank as no_bank =
     \<lparr>ba_operations = length as, ba_fetches = count_if (\<lambda>a. traffic_of a = FetchTraffic) as,
      ba_reads = count_if (\<lambda>a. traffic_of a = ReadTraffic) as,
      ba_writes = count_if (\<lambda>a. traffic_of a = WriteTraffic) as,
      ba_offsets = fold btree_add (map offset_of as) [],
      ba_fetch_offsets = fold btree_add (map offset_of (filter (\<lambda>a. traffic_of a = FetchTraffic) as)) []\<rparr>"
proof (induction as rule: rev_induct)
  case (snoc a as)
  then show ?case
    by (cases "traffic_of a") (simp_all add: note_bank_def observe_bank_def Let_def del: btree_add.simps)
qed (simp add: no_bank_def)

lemma fold_note_register:
  "fold note_register as no_direction =
     \<lparr>da_reads = count_if (\<lambda>a. traffic_of a \<noteq> WriteTraffic) as, da_writes = count_if (\<lambda>a. traffic_of a = WriteTraffic) as\<rparr>"
proof (induction as rule: rev_induct)
  case (snoc a as)
  then show ?case by (simp add: note_register_def observe_direction_def)
qed (simp add: no_direction_def)

lemma fold_note_channel:
  "fold note_channel is no_direction =
     \<lparr>da_reads = count_if (\<lambda>i. \<not> io_write i) is, da_writes = count_if io_write is\<rparr>"
proof (induction "is" rule: rev_induct)
  case (snoc a as)
  then show ?case by (simp add: note_channel_def observe_direction_def)
qed (simp add: no_direction_def)

lemma fold_Suc: "fold (\<lambda>_. Suc) xs n = n + length xs"
  by (induction xs arbitrary: n) auto

lemma fold_note_form:
  "es \<noteq> [] \<Longrightarrow> fold note_form es no_form =
     \<lparr>fa_events = length es, fa_total_cycles = sum_list (map event_cycles es),
      fa_minimum_cycles = Min (event_cycles ` set es), fa_maximum_cycles = Max (event_cycles ` set es),
      fa_pcs = fold btree_add (map te_pc es) [],
      fa_raw_words = fold btree_add (map (\<lambda>e. raw (te_instruction e)) es) []\<rparr>"
proof (induction es rule: rev_induct)
  case (snoc e es)
  show ?case
  proof (cases "es = []")
    case True
    then show ?thesis by (simp add: note_form_def record_form_def no_form_def)
  next
    case False
    then have "Min (event_cycles ` set (es @ [e])) = min (Min (event_cycles ` set es)) (event_cycles e)"
      "Max (event_cycles ` set (es @ [e])) = max (Max (event_cycles ` set es)) (event_cycles e)"
      by (simp_all add: min.commute max.commute)
    then show ?thesis using False snoc.IH
      by (simp add: note_form_def record_form_def Let_def del: btree_add.simps set_append image_insert)
  qed
qed simp

lemma sum_over_keys:
  "finite A \<Longrightarrow> (\<Sum>k\<in>A. length (filter (\<lambda>x. key x = k) xs)) = count_if (\<lambda>x. key x \<in> A) xs"
proof (induction xs)
  case (Cons x xs)
  have "(\<Sum>k\<in>A. length (filter (\<lambda>x. key x = k) (x # xs)))
      = (\<Sum>k\<in>A. length (filter (\<lambda>x. key x = k) xs) + (if k = key x then 1 else 0))"
    by (rule sum.cong) auto
  then show ?case using Cons by (simp add: sum.distrib)
qed simp

lemma sum_selected:
  "sum_list (map (\<lambda>k. length (filter (\<lambda>x. key x = k) xs)) (filter P (sorted_list_of_set (key ` set xs))))
     = count_if (\<lambda>x. P (key x)) xs"
proof -
  have "count_if (\<lambda>x. key x \<in> {k \<in> key ` set xs. P k}) xs = count_if (\<lambda>x. P (key x)) xs"
    unfolding count_if_def by (rule arg_cong [where f = length], rule filter_cong) auto
  then show ?thesis
    by (simp add: sum_list_distinct_conv_sum_set sum_over_keys)
qed

lemma fold_filtered: "fold (\<lambda>x. if P x then f x else id) xs s = fold f (filter P xs) s"
  by (induction xs arbitrary: s) auto

lemma fold_count_fetches:
  "fold (\<lambda>(a, n). count_fetches n (fetch_offset a)) l no_bank =
     \<lparr>ba_operations = sum_list (map snd l), ba_fetches = sum_list (map snd l), ba_reads = 0, ba_writes = 0,
      ba_offsets = fold btree_add (map (fetch_offset \<circ> fst) l) [],
      ba_fetch_offsets = fold btree_add (map (fetch_offset \<circ> fst) l) []\<rparr>"
proof (induction l rule: rev_induct)
  case (snoc x l)
  then show ?case by (cases x) (simp add: count_fetches_def del: btree_add.simps)
qed (simp add: no_bank_def)

lemma length_tabulate: "length (tabulate key row xs) = distinct_count key xs"
  by (simp add: tabulate_def distinct_count_def)

lemma fetch_banks:
  "bank_coverage_from_fetches (tallied fetched_at 0 (\<lambda>_. Suc) (instructions_of es))
     = tabulate (fetch_bank \<circ> fetched_at) fetch_row (from_rope es)"
proof -
  let ?ins = "instructions_of es" and ?K = "sorted_list_of_set (fetched_at ` set (instructions_of es))"
  let ?n = "\<lambda>k. length (filter (\<lambda>e. fetched_at e = k) ?ins)"
  let ?l = "map (\<lambda>k. (k, ?n k)) (filter is_fixed ?K)"
  have step: "(\<lambda>(address, n) banks. case address of
         TracedFixed bank offset \<Rightarrow> btree_entry bank no_bank (count_fetches n offset) banks | _ \<Rightarrow> banks)
     = (\<lambda>x. if is_fixed (fst x) then btree_entry (fetch_bank (fst x)) no_bank (count_fetches (snd x) (fetch_offset (fst x))) else id)"
    by (auto simp: fun_eq_iff is_fixed_def fetch_bank_def fetch_offset_def split: traced_address.split)
  have "bank_coverage_from_fetches (tallied fetched_at 0 (\<lambda>_. Suc) ?ins)
     = bank_coverage_of (tallied (fetch_bank \<circ> fst) no_bank (\<lambda>(a, n). count_fetches n (fetch_offset a)) ?l)"
    unfolding bank_coverage_from_fetches_def step fold_filtered
    by (simp add: tallied_keys [of fetched_at] fold_Suc filter_map o_def split_def) (simp add: tallied_def)
  also have "\<dots> = tabulate (fetch_bank \<circ> fst) (\<lambda>b l. \<lparr>bc_bank = b, bc_operations = sum_list (map snd l),
       bc_fetches = sum_list (map snd l), bc_reads = 0, bc_writes = 0,
       bc_unique_offsets = distinct_count (fetch_offset \<circ> fst) l,
       bc_unique_fetch_offsets = distinct_count (fetch_offset \<circ> fst) l\<rparr>) ?l"
    unfolding bank_coverage_of_def tallied_row by (simp add: fold_count_fetches length_collected)
  also have "\<dots> = tabulate (fetch_bank \<circ> fetched_at) fetch_row (from_rope es)"
  proof -
    have sel: "set (filter is_fixed ?K) = fetched_at ` set (from_rope es)"
      by (auto simp: from_rope_def)
    have keys: "(fetch_bank \<circ> fst) ` set ?l = (fetch_bank \<circ> fetched_at) ` set (from_rope es)"
      unfolding set_map sel by (simp add: image_image)
    have rows: "filter (\<lambda>x. (fetch_bank \<circ> fst) x = b) ?l = map (\<lambda>k. (k, ?n k)) (filter (\<lambda>k. is_fixed k \<and> fetch_bank k = b) ?K)" for b
      by (simp add: filter_map o_def conj_commute)
    have total: "sum_list (map snd (filter (\<lambda>x. (fetch_bank \<circ> fst) x = b) ?l))
       = length (filter (\<lambda>e. (fetch_bank \<circ> fetched_at) e = b) (from_rope es))" for b
      unfolding rows using sum_selected [of fetched_at ?ins "\<lambda>k. is_fixed k \<and> fetch_bank k = b"]
      by (simp add: count_if_def from_rope_def o_def conj_commute)
    have offsets: "distinct_count (fetch_offset \<circ> fst) (filter (\<lambda>x. (fetch_bank \<circ> fst) x = b) ?l)
       = distinct_count (fetch_offset \<circ> fetched_at) (filter (\<lambda>e. (fetch_bank \<circ> fetched_at) e = b) (from_rope es))" for b
      unfolding rows distinct_count_def by (rule arg_cong [where f = card]) (force simp: from_rope_def image_iff)
    show ?thesis unfolding tabulate_def keys by (simp only: total offsets fetch_row_def)
  qed
  finally show ?thesis .
qed

lemma fetch_counts: "tallied fetched_at 0 (\<lambda>_. Suc) ins = tabulate fetched_at (\<lambda>a xs. (a, length xs)) ins"
  using tallied_row [of Pair fetched_at 0 "\<lambda>_. Suc" ins] by (simp add: fold_Suc)

lemma sum_fetches:
  "sum_list (map snd (filter (\<lambda>(a, n). P a) (tallied fetched_at 0 (\<lambda>_. Suc) ins))) = count_if (\<lambda>e. P (fetched_at e)) ins"
  using sum_selected [of fetched_at ins P] by (simp add: tallied_keys fold_Suc filter_map o_def split_def)

lemma unique_rope:
  "length (filter (is_fixed \<circ> fst) (tallied fetched_at 0 (\<lambda>_. Suc) (instructions_of es))) = distinct_count fetched_at (from_rope es)"
proof -
  have "length (filter is_fixed (sorted_list_of_set (fetched_at ` set (instructions_of es))))
      = card (set (filter is_fixed (sorted_list_of_set (fetched_at ` set (instructions_of es)))))"
    by (rule distinct_card [symmetric]) simp
  also have "set (filter is_fixed (sorted_list_of_set (fetched_at ` set (instructions_of es)))) = fetched_at ` set (from_rope es)"
    by (auto simp: from_rope_def)
  finally show ?thesis by (simp add: tallied_keys o_def distinct_count_def)
qed

lemma form_rows: "mnemonic_coverage_of (tallied form_of no_form note_form ins) = tabulate form_of mnemonic_row ins"
proof -
  have "mnemonic_coverage_of (tallied form_of no_form note_form ins)
     = tabulate form_of (\<lambda>form es. let f = fold note_form es no_form in
     \<lparr>mc_mnemonic = fst form, mc_extended = snd form, mc_events = fa_events f,
      mc_total_cycles = fa_total_cycles f, mc_minimum_cycles = fa_minimum_cycles f,
      mc_maximum_cycles = fa_maximum_cycles f, mc_unique_pcs = length (fa_pcs f),
      mc_unique_raw_words = length (fa_raw_words f)\<rparr>) ins"
    by (simp add: mnemonic_coverage_of_def tallied_keys tabulate_def split_def Let_def)
  also have "\<dots> = tabulate form_of mnemonic_row ins"
    by (rule tabulate_cong) (simp add: fold_note_form Let_def mnemonic_row_def length_collected)
  finally show ?thesis .
qed

lemma bank_rows: "bank_coverage_of (tallied bank_of no_bank note_bank as) = tabulate bank_of bank_row as"
  unfolding bank_coverage_of_def tallied_row
  by (simp add: fold_note_bank bank_row_def [abs_def] length_collected)

lemma count_concat: "(\<And>x. length (f x) \<le> 1) \<Longrightarrow> count_if (\<lambda>x. f x \<noteq> []) xs = length (concat (map f xs))"
proof (induction xs)
  case (Cons x xs)
  have "length (f x) = (if f x \<noteq> [] then 1 else 0)" using Cons.prems [of x] by (cases "f x") auto
  then show ?case using Cons by simp
qed simp

lemma finish_state:
  assumes "es \<noteq> []"
  shows "coverage_finish (coverage_state es) = Inr (coverage_of es)"
proof -
  have "finish_events (te_sequence (hd es)) (te_cycle_start (hd es)) (coverage_state es) = event_report es"
    using assms by (simp add: finish_events_def coverage_state_def Let_def event_report_def)
  moreover have "finish_instructions (coverage_state es) = instruction_report es"
    by (simp add: finish_instructions_def coverage_state_def Let_def instruction_report_def unique_rope sum_fetches
        fetch_banks form_rows length_collected length_tallied INSTALLED_ROPE_WORDS_def)
      (simp add: fetch_counts tabulate_def distinct_count_def)
  moreover have "finish_memory (coverage_state es) = memory_report es"
    by (simp add: finish_memory_def coverage_state_def Let_def memory_report_def bank_rows length_collected
        tallied_row fold_note_register)
  moreover have "finish_io (coverage_state es) = io_report es"
    by (simp add: finish_io_def coverage_state_def Let_def io_report_def tallied_row fold_note_channel length_tabulate)
  moreover have "finish_interrupts (coverage_state es) = interrupt_report es"
  proof -
    have "length (requested i) \<le> 1" "length (entered i) \<le> 1" for i by (cases i; simp)+
    then have "count_if (\<lambda>i. requested i \<noteq> []) irs = length (concat (map requested irs))"
      "count_if (\<lambda>i. entered i \<noteq> []) irs = length (concat (map entered irs))" for irs
      by (intro count_concat; simp)+
    moreover have "map (\<lambda>((number, vector), n). \<lparr>ivc_number = number, ivc_vector = vector, ivc_events = n\<rparr>)
        (tallied id 0 (\<lambda>_. Suc) vs)
      = tabulate id (\<lambda>v xs. \<lparr>ivc_number = fst v, ivc_vector = snd v, ivc_events = length xs\<rparr>) vs" for vs
      using tallied_row [of "\<lambda>v n. \<lparr>ivc_number = fst v, ivc_vector = snd v, ivc_events = n\<rparr>" id 0 "\<lambda>_. Suc" vs]
      by (simp add: fold_Suc split_def)
    ultimately show ?thesis
      by (simp add: finish_interrupts_def coverage_state_def Let_def interrupt_report_def tallied_row fold_Suc)
  qed
  moreover have "finish_bank_registers (coverage_state es) = cr_bank_registers (coverage_of es)"
    by (simp add: finish_bank_registers_def coverage_state_def Let_def coverage_of_def fold_btree_add)
  ultimately show ?thesis using assms
    by (simp add: coverage_finish_def coverage_state_def [of es] Let_def)
      (simp add: coverage_of_def COVERAGE_SCHEMA_VERSION_def TRACE_SCHEMA_VERSION_def)
qed

lemma finish_empty: "coverage_finish (coverage_state []) = Inl CoverageEmpty"
  by (simp add: coverage_finish_def coverage_state_def)

section \<open>The stream\<close>

lemma read_events_prefix: "read_events parse es r = Inr fs \<Longrightarrow> \<exists>new. fs = es @ new"
  using read_events_ordered by blast

lemma observe_stream_iff:
  "observe_stream parse r (coverage_state es) = Some (Inr u, s) \<longleftrightarrow>
     (\<exists>new. read_events parse es r = Inr (es @ new) \<and> list_all measurable new \<and> s = coverage_state (es @ new))"
proof (induction parse r arbitrary: es rule: observe_stream.induct)
  case (1 parse r)
  obtain x r' where next_one: "next_event parse r = (x, r')" by fastforce
  show ?case
  proof (cases x)
    case (Inl e)
    then show ?thesis using next_one
      by (subst observe_stream.simps, subst read_events.simps) (simp add: run_simps)
  next
    case x: (Inr y)
    show ?thesis
    proof (cases y)
      case None
      then show ?thesis using next_one x
        by (subst observe_stream.simps, subst read_events.simps) (auto simp: run_simps)
    next
      case (Some e)
      have IH: "observe_stream parse r' (coverage_state (es @ [e])) = Some (Inr u, s) \<longleftrightarrow>
         (\<exists>new. read_events parse (es @ [e]) r' = Inr ((es @ [e]) @ new) \<and> list_all measurable new
            \<and> s = coverage_state ((es @ [e]) @ new))"
        using 1 [OF next_one [symmetric]] x Some by simp
      have stream: "observe_stream parse r (coverage_state es)
          = seq (observe e) (observe_stream parse r') (coverage_state es)"
        using next_one x Some by (subst observe_stream.simps) simp
      have read: "read_events parse es r = read_events parse (es @ [e]) r'"
        using next_one x Some by (subst read_events.simps) simp
      have new: "\<exists>more. new = e # more" if "read_events parse (es @ [e]) r' = Inr (es @ new)" for new
        using read_events_prefix [OF that] by simp
      show ?thesis
      proof (cases "measurable e")
        case True
        then have "observe_stream parse r (coverage_state es) = observe_stream parse r' (coverage_state (es @ [e]))"
          by (simp add: stream run_simps observe_ok add_event_state)
        then show ?thesis unfolding read using IH True new by fastforce
      next
        case False
        then have "observe_stream parse r (coverage_state es) \<noteq> Some (Inr u, s)"
          using observe_success by (auto simp: stream run_simps split: option.splits sum.splits)
        then show ?thesis unfolding read using new False by fastforce
      qed
    qed
  qed
qed


end
