(* ===== verification/Agc_Validation.thy ===== *)
theory Agc_Validation
  imports Agc_Runtime Rust_Text
begin

text \<open>
  \<open>crates/agc-validation\<close>: the comparison of two traces event by event, the differential run of two
  runtimes, the reader of the tab-separated reference trace and the comparison with it.  A report
  holds the compared values where the source holds their texts; the lines of the reference are given.
\<close>

section \<open>Divergences\<close>

datatype divergence_class =
    DivParsing | DivAssembly | DivDecode | DivArithmetic | DivAddressing | DivBanking | DivTiming
  | DivInterrupt | DivIo | DivInterpreter | DivScheduler | DivTranspilation | DivUnknown

datatype yaagc_event_kind = YaAgcInstruction | YaAgcInterruptEntry

text \<open>A compared value; its text in the report is its debug, decimal or octal form.\<close>

datatype compared_value =
    ShownNumber nat
  | ShownOctal nat
  | ShownWord agc_word
  | ShownText string
  | ShownFlag bool
  | ShownSnapshot register_snapshot
  | ShownMemory "memory_event list"
  | ShownIo "io_event list"
  | ShownInterrupts "interrupt_event list"
  | ShownKind machine_event_kind
  | ShownReferenceKind yaagc_event_kind
  | ShownInterrupt "(u8 \<times> u16) option"

record divergence =
  dv_event :: nat
  dv_class :: divergence_class
  dv_field :: string
  dv_left :: compared_value
  dv_right :: compared_value
  dv_explanation :: string

record validation_report =
  vr_left_events :: nat
  vr_right_events :: nat
  vr_first :: "divergence option"
  vr_equivalent :: bool

definition difference ::
  "nat \<Rightarrow> string \<Rightarrow> divergence_class \<Rightarrow> compared_value \<Rightarrow> compared_value \<Rightarrow> string \<Rightarrow> divergence option" where
  "difference index field c left right explanation =
     (if left \<noteq> right
      then Some \<lparr>dv_event = index, dv_class = c, dv_field = field, dv_left = left, dv_right = right,
                 dv_explanation = explanation\<rparr>
      else None)"

fun first_found :: "'a option list \<Rightarrow> 'a option" where
  "first_found [] = None"
| "first_found (x # xs) = (case x of Some y \<Rightarrow> Some y | None \<Rightarrow> first_found xs)"

section \<open>Comparing two traces\<close>

definition compare_event :: "nat \<Rightarrow> trace_event \<Rightarrow> trace_event \<Rightarrow> divergence option" where
  "compare_event i l r = first_found
     [difference i ''sequence'' DivTiming (ShownNumber (te_sequence l)) (ShownNumber (te_sequence r))
        ''commit sequence differs'',
      difference i ''pc'' DivDecode (ShownNumber (unat (te_pc l))) (ShownNumber (unat (te_pc r)))
        ''instruction address differs'',
      difference i ''instruction'' DivDecode (ShownWord (te_instruction l)) (ShownWord (te_instruction r))
        ''raw instruction differs'',
      difference i ''mnemonic'' DivDecode (ShownText (te_mnemonic l)) (ShownText (te_mnemonic r))
        ''decoded operation differs'',
      difference i ''operand'' DivDecode (ShownNumber (unat (te_operand l))) (ShownNumber (unat (te_operand r)))
        ''decoded operand differs'',
      difference i ''extended'' DivDecode (ShownFlag (te_extended l)) (ShownFlag (te_extended r))
        ''extracode context differs'',
      difference i ''cycle-start'' DivTiming (ShownNumber (te_cycle_start l)) (ShownNumber (te_cycle_start r))
        ''instruction begins at a different machine cycle'',
      difference i ''cycle-end'' DivTiming (ShownNumber (te_cycle_end l)) (ShownNumber (te_cycle_end r))
        ''instruction consumes a different cycle count'',
      difference i ''before.eb'' DivBanking (ShownNumber (unat (rs_eb (te_before l)))) (ShownNumber (unat (rs_eb (te_before r))))
        ''erasable-bank state differs before execution'',
      difference i ''before.fb'' DivBanking (ShownNumber (unat (rs_fb (te_before l)))) (ShownNumber (unat (rs_fb (te_before r))))
        ''fixed-bank state differs before execution'',
      difference i ''before.bb'' DivBanking (ShownNumber (unat (rs_bb (te_before l)))) (ShownNumber (unat (rs_bb (te_before r))))
        ''combined-bank state differs before execution'',
      difference i ''before'' DivArithmetic (ShownSnapshot (te_before l)) (ShownSnapshot (te_before r))
        ''architectural register state differs before execution'',
      difference i ''memory'' DivAddressing (ShownMemory (te_memory l)) (ShownMemory (te_memory r))
        ''ordered logical/physical memory accesses differ'',
      difference i ''io'' DivIo (ShownIo (te_io l)) (ShownIo (te_io r))
        ''ordered channel operations differ'',
      difference i ''interrupts'' DivInterrupt (ShownInterrupts (te_interrupts l)) (ShownInterrupts (te_interrupts r))
        ''interrupt activity differs'',
      difference i ''after.eb'' DivBanking (ShownNumber (unat (rs_eb (te_after l)))) (ShownNumber (unat (rs_eb (te_after r))))
        ''erasable-bank state differs after execution'',
      difference i ''after.fb'' DivBanking (ShownNumber (unat (rs_fb (te_after l)))) (ShownNumber (unat (rs_fb (te_after r))))
        ''fixed-bank state differs after execution'',
      difference i ''after.bb'' DivBanking (ShownNumber (unat (rs_bb (te_after l)))) (ShownNumber (unat (rs_bb (te_after r))))
        ''combined-bank state differs after execution'',
      difference i ''after'' DivArithmetic (ShownSnapshot (te_after l)) (ShownSnapshot (te_after r))
        ''architectural result registers differ'']"

definition compare_traces :: "trace_log \<Rightarrow> trace_log \<Rightarrow> validation_report" where
  "compare_traces left right =
     (let xs = events left; ys = events right; shared = min (length xs) (length ys);
          first_event = first_found (map (\<lambda>i. compare_event i (xs ! i) (ys ! i)) [0 ..< shared]);
          first = (case first_event of
              Some d \<Rightarrow> Some d
            | None \<Rightarrow> if length xs \<noteq> length ys
                then Some \<lparr>dv_event = shared, dv_class = DivTiming, dv_field = ''trace-length'',
                           dv_left = ShownNumber (length xs), dv_right = ShownNumber (length ys),
                           dv_explanation = ''one implementation committed additional instructions''\<rparr>
                else None)
      in \<lparr>vr_left_events = length xs, vr_right_events = length ys, vr_first = first,
          vr_equivalent = (first = None)\<rparr>)"

datatype validation_error = ValidationRuntime runtime_error | ScenarioStreams

definition on_left :: "(runtime, runtime_error, 'a) prog \<Rightarrow> (runtime \<times> runtime, validation_error, 'a) prog" where
  "on_left m = zoom fst (\<lambda>l p. (l, snd p)) ValidationRuntime m"

definition on_right :: "(runtime, runtime_error, 'a) prog \<Rightarrow> (runtime \<times> runtime, validation_error, 'a) prog" where
  "on_right m = zoom snd (\<lambda>r p. (fst p, r)) ValidationRuntime m"

definition differential_run ::
  "(nat \<times> runtime_event) list \<Rightarrow> nat \<Rightarrow> (runtime \<times> runtime, validation_error, validation_report) prog" where
  "differential_run plan limit =
     seq (for_each plan (\<lambda>(cycle, e).
            and_then (on_left (schedule cycle e)) (\<lambda>_. and_then (on_right (schedule cycle e)) (\<lambda>_. ok ()))))
    (and_then (on_left (runtime_run limit)) (\<lambda>_.
     and_then (on_right (runtime_run limit)) (\<lambda>_.
     gets (\<lambda>(l, r). compare_traces (trace (rt_cpu l)) (trace (rt_cpu r))))))"

definition determinism_check ::
  "runtime \<Rightarrow> (nat \<times> runtime_event) list \<Rightarrow> nat \<Rightarrow> (validation_error + validation_report) option" where
  "determinism_check initialized plan limit = map_option fst (differential_run plan limit (initialized, initialized))"

section \<open>The reference trace\<close>

record yaagc_event =
  ya_cycle :: nat
  ya_kind :: yaagc_event_kind
  ya_pc :: u16
  ya_instruction :: u16
  ya_a :: u16
  ya_l :: u16
  ya_q :: u16
  ya_eb :: u16
  ya_fb :: u16
  ya_bb :: u16
  ya_interrupt_vector :: "u16 option"
  ya_interrupt_number :: "u8 option"

record yaagc_trace =
  ya_events :: "yaagc_event list"

datatype reference_trace_error =
    TsvColumns nat nat
  | TsvKind nat string
  | TsvNumber nat string string

text \<open>An octal column is read as a \<open>u64\<close> and cut to sixteen bits.\<close>

definition tsv_octal :: "nat \<Rightarrow> string list \<Rightarrow> nat \<Rightarrow> string \<Rightarrow> reference_trace_error + u16" where
  "tsv_octal line columns index field = (case from_str_radix 8 U64_MAX (columns ! index) of
       Some v \<Rightarrow> Inr (of_nat v)
     | None \<Rightarrow> Inl (TsvNumber line field (columns ! index)))"

definition tsv_optional :: "bool \<Rightarrow> 'e + 'a \<Rightarrow> 'e + 'a option" where
  "tsv_optional b r = (if b then bind_result r (\<lambda>v. Inr (Some v)) else Inr None)"

definition read_tsv_row :: "nat \<Rightarrow> string \<Rightarrow> reference_trace_error + yaagc_event" where
  "read_tsv_row line s =
     (let columns = split_on (CHR 0x09) s; octal = tsv_octal line columns
      in if length columns \<noteq> 12 then Inl (TsvColumns line (length columns))
         else
           bind_result (case from_str_radix 10 U64_MAX (columns ! 0) of
               Some v \<Rightarrow> Inr v
             | None \<Rightarrow> Inl (TsvNumber line ''cycle'' (columns ! 0))) (\<lambda>cycle.
           bind_result (if columns ! 1 = ''I'' then Inr YaAgcInstruction
               else if columns ! 1 = ''R'' then Inr YaAgcInterruptEntry
               else Inl (TsvKind line (columns ! 1))) (\<lambda>kind.
           bind_result (tsv_optional (kind = YaAgcInterruptEntry) (octal 10 ''interrupt-vector'')) (\<lambda>target.
           bind_result (tsv_optional (kind = YaAgcInterruptEntry) (octal 11 ''interrupt-number'')) (\<lambda>number.
           bind_result (octal 2 ''pc'') (\<lambda>pc.
           bind_result (octal 3 ''instruction'') (\<lambda>instruction.
           bind_result (octal 4 ''a'') (\<lambda>a.
           bind_result (octal 5 ''l'') (\<lambda>l.
           bind_result (octal 6 ''q'') (\<lambda>q.
           bind_result (octal 7 ''eb'') (\<lambda>eb.
           bind_result (octal 8 ''fb'') (\<lambda>fb.
           bind_result (octal 9 ''bb'') (\<lambda>bb.
           Inr \<lparr>ya_cycle = cycle, ya_kind = kind, ya_pc = pc, ya_instruction = instruction, ya_a = a, ya_l = l,
                ya_q = q, ya_eb = eb, ya_fb = fb, ya_bb = bb, ya_interrupt_vector = target,
                ya_interrupt_number = map_option ucast number\<rparr>)))))))))))))"

fun read_tsv_rows :: "nat \<Rightarrow> yaagc_event list \<Rightarrow> string list \<Rightarrow> reference_trace_error + yaagc_trace" where
  "read_tsv_rows line es [] = Inr \<lparr>ya_events = es\<rparr>"
| "read_tsv_rows line es (s # ss) =
     (if trim s = [] then read_tsv_rows (line + 1) es ss
      else bind_result (read_tsv_row line s) (\<lambda>e. read_tsv_rows (line + 1) (es @ [e]) ss))"

definition read_tsv :: "string list \<Rightarrow> reference_trace_error + yaagc_trace" where
  "read_tsv ls = read_tsv_rows 1 [] ls"

section \<open>Comparing with the reference\<close>

definition expected_kind :: "yaagc_event \<Rightarrow> machine_event_kind" where
  "expected_kind r = (case ya_kind r of
       YaAgcInstruction \<Rightarrow> InstructionEvent | YaAgcInterruptEntry \<Rightarrow> InterruptEntry)"

text \<open>The cycle of an interrupt entry is one more; the sum of two \<open>u64\<close> panics when it overflows.\<close>

definition expected_cycle :: "yaagc_event \<Rightarrow> nat option" where
  "expected_cycle r = (case ya_kind r of
       YaAgcInstruction \<Rightarrow> Some (ya_cycle r)
     | YaAgcInterruptEntry \<Rightarrow> if ya_cycle r < U64_MAX then Some (ya_cycle r + 1) else None)"

fun entered_interrupt :: "interrupt_event list \<Rightarrow> (u8 \<times> u16) option" where
  "entered_interrupt [] = None"
| "entered_interrupt (i # is) = (case i of Entered number target \<Rightarrow> Some (number, target) | _ \<Rightarrow> entered_interrupt is)"

definition expected_interrupt :: "yaagc_event \<Rightarrow> (u8 \<times> u16) option" where
  "expected_interrupt r = (case (ya_interrupt_number r, ya_interrupt_vector r) of
       (Some number, Some target) \<Rightarrow> Some (number, target) | _ \<Rightarrow> None)"

definition compared_registers :: "yaagc_event \<Rightarrow> trace_event \<Rightarrow> register_snapshot" where
  "compared_registers r e = (case ya_kind r of YaAgcInstruction \<Rightarrow> te_before e | YaAgcInterruptEntry \<Rightarrow> te_after e)"

definition octal_difference :: "nat \<Rightarrow> string \<Rightarrow> divergence_class \<Rightarrow> u16 \<Rightarrow> u16 \<Rightarrow> string \<Rightarrow> divergence option" where
  "octal_difference i field c left right explanation =
     difference i field c (ShownOctal (unat left)) (ShownOctal (unat right)) explanation"

text \<open>The outer \<open>None\<close> is the overflow of the expected cycle.\<close>

definition compare_yaagc_event :: "nat \<Rightarrow> trace_event \<Rightarrow> yaagc_event \<Rightarrow> divergence option option" where
  "compare_yaagc_event i e r =
     (if te_kind e \<noteq> expected_kind r
      then Some (Some \<lparr>dv_event = i, dv_class = DivInterrupt, dv_field = ''event-kind'',
                       dv_left = ShownKind (te_kind e), dv_right = ShownReferenceKind (ya_kind r),
                       dv_explanation = ''instruction and interrupt-entry ordering differs''\<rparr>)
      else case expected_cycle r of
        None \<Rightarrow> None
      | Some cycle \<Rightarrow>
         (let registers = compared_registers r e
          in Some (first_found
            [difference i ''cycle-end'' DivTiming (ShownNumber (te_cycle_end e)) (ShownNumber cycle)
               ''machine-cycle accounting differs after documented interrupt normalization'',
             octal_difference i ''pc'' DivDecode (te_pc e) (ya_pc r) ''logical instruction address differs'',
             octal_difference i ''instruction'' DivDecode (raw (te_instruction e)) (ya_instruction r AND 0x7FFF)
               ''raw instruction differs'',
             octal_difference i ''a'' DivArithmetic (rs_a registers) (ya_a r) ''accumulator differs'',
             octal_difference i ''l'' DivArithmetic (rs_l registers) (ya_l r) ''L register differs'',
             octal_difference i ''q'' DivArithmetic (rs_q registers) (ya_q r) ''Q register differs'',
             octal_difference i ''eb'' DivBanking (rs_eb registers) (ya_eb r) ''EBANK differs'',
             octal_difference i ''fb'' DivBanking (rs_fb registers) (ya_fb r) ''FBANK differs'',
             octal_difference i ''bb'' DivBanking (rs_bb registers) (ya_bb r) ''BBANK differs'',
             if ya_kind r = YaAgcInterruptEntry
             then difference i ''interrupt'' DivInterrupt (ShownInterrupt (entered_interrupt (te_interrupts e)))
               (ShownInterrupt (expected_interrupt r)) ''accepted interrupt number or vector differs''
             else None])))"

record reference_report =
  rr_schema_version :: u32
  rr_oracle :: string
  rr_apollors_events :: nat
  rr_reference_events :: nat
  rr_matched_events :: nat
  rr_complete :: bool
  rr_equivalent :: bool
  rr_first :: "divergence option"
  rr_compared_fields :: "string list"
  rr_timing_normalization :: string

fun match_events ::
  "trace_event list \<Rightarrow> yaagc_event list \<Rightarrow> nat list \<Rightarrow> nat \<Rightarrow> (nat \<times> divergence option) option" where
  "match_events xs ys [] matched = Some (matched, None)"
| "match_events xs ys (i # is) matched = (case compare_yaagc_event i (xs ! i) (ys ! i) of
       None \<Rightarrow> None
     | Some (Some d) \<Rightarrow> Some (matched, Some d)
     | Some None \<Rightarrow> match_events xs ys is (matched + 1))"

definition compare_yaagc_reference :: "trace_log \<Rightarrow> yaagc_trace \<Rightarrow> bool \<Rightarrow> reference_report option" where
  "compare_yaagc_reference apollors reference allow_stream_prefix =
     (let xs = events apollors; ys = ya_events reference; shared = min (length xs) (length ys)
      in case match_events xs ys [0 ..< shared] 0 of
           None \<Rightarrow> None
         | Some (matched, found) \<Rightarrow>
             (let shorter_stream_is_accepted = (allow_stream_prefix \<and> matched = shared);
                  first = (if found = None \<and> length xs \<noteq> length ys \<and> \<not> shorter_stream_is_accepted
                    then Some \<lparr>dv_event = shared, dv_class = DivTiming, dv_field = ''trace-length'',
                               dv_left = ShownNumber (length xs), dv_right = ShownNumber (length ys),
                               dv_explanation = ''ApolloRS and yaAGC event streams have different lengths''\<rparr>
                    else found)
              in Some \<lparr>rr_schema_version = 1, rr_oracle = ''VirtualAGC yaAGC pinned exact-trace instrumentation'',
                       rr_apollors_events = length xs, rr_reference_events = length ys,
                       rr_matched_events = matched, rr_complete = (length xs = length ys),
                       rr_equivalent = (first = None), rr_first = first,
                       rr_compared_fields = [''event-kind'', ''cycle'', ''pc'', ''instruction'', ''a'', ''l'', ''q'',
                         ''eb'', ''fb'', ''bb'', ''interrupt-vector'', ''interrupt-number''],
                       rr_timing_normalization =
                         ''yaAGC logs interrupt acceptance on the first of its two MCTs; '' @
                         ''ApolloRS interrupt-entry cycle_end is therefore reference cycle + 1''\<rparr>))"

end
