(* ===== verification/Agc_Validation_Laws.thy ===== *)
theory Agc_Validation_Laws
  imports Agc_Validation Agc_Runtime_Laws Agc_Overlay_Laws
begin

text \<open>
  Laws of the validation: the first divergence of two traces, the prefix matched with the reference,
  the determinism check, and the reference rows read back.
\<close>

section \<open>The first divergence\<close>

lemma first_found_None: "first_found xs = None \<longleftrightarrow> (\<forall>x\<in>set xs. x = None)"
  by (induction xs) (auto split: option.splits)

lemma first_found_Some:
  "first_found (map f [m ..< n]) = Some d \<Longrightarrow> \<exists>i. m \<le> i \<and> i < n \<and> f i = Some d \<and> (\<forall>j. m \<le> j \<and> j < i \<longrightarrow> f j = None)"
proof (induction "n - m" arbitrary: m)
  case (Suc k)
  then have m: "[m ..< n] = m # [Suc m ..< n]" "k = n - Suc m" by (auto simp: upt_conv_Cons)
  show ?case
  proof (cases "f m")
    case None
    then have "first_found (map f [Suc m ..< n]) = Some d" using Suc.prems m(1) by simp
    from Suc.hyps(1) [OF m(2) this] obtain i where i: "Suc m \<le> i" "i < n" "f i = Some d"
      "\<forall>j. Suc m \<le> j \<and> j < i \<longrightarrow> f j = None" by auto
    have "f j = None" if "m \<le> j" "j < i" for j
      using that i(4) None by (cases "j = m") auto
    then show ?thesis using i by (intro exI [of _ i]) auto
  next
    case (Some x)
    then show ?thesis using Suc.prems Suc.hyps(2) m(1) by (intro exI [of _ m]) auto
  qed
qed simp

lemma difference_None: "difference i f c l r x = None \<longleftrightarrow> l = r"
  by (simp add: difference_def)

lemma difference_event: "difference i f c l r x = Some d \<Longrightarrow> dv_event d = i"
  by (auto simp: difference_def split: if_splits)

lemma first_found_in: "first_found xs = Some d \<Longrightarrow> Some d \<in> set xs"
  by (induction xs) (auto split: option.splits)

text \<open>What of an event is compared: everything but its kind and its schema.\<close>

definition compared :: "trace_event \<Rightarrow> trace_event" where
  "compared e = e\<lparr>te_schema_version := TRACE_SCHEMA_VERSION, te_kind := InstructionEvent\<rparr>"

lemma compare_event_None: "compare_event i l r = None \<longleftrightarrow> compared l = compared r"
  unfolding compare_event_def first_found_None
  by (cases l; cases r) (auto simp: difference_None compared_def word_eq_unat_iff)

lemma compare_event_index: "compare_event i l r = Some d \<Longrightarrow> dv_event d = i"
  unfolding compare_event_def by (drule first_found_in) (auto dest: difference_event [OF sym])

text \<open>
  C32 Two traces are reported equivalent exactly when they have the same events up to the kind of an
  event, which is not compared.  Otherwise the reported event is the first one that differs, or the
  end of the shorter trace.
\<close>

theorem compare_traces_first:
  "vr_equivalent (compare_traces a b) = (map compared (events a) = map compared (events b)) \<and>
   (case vr_first (compare_traces a b) of
      None \<Rightarrow> map compared (events a) = map compared (events b)
    | Some d \<Rightarrow> take (dv_event d) (map compared (events a)) = take (dv_event d) (map compared (events b)) \<and>
        (if dv_event d < length (events a) \<and> dv_event d < length (events b)
         then compared (events a ! dv_event d) \<noteq> compared (events b ! dv_event d)
         else dv_event d = min (length (events a)) (length (events b)) \<and> length (events a) \<noteq> length (events b)))"
proof -
  define xs ys where "xs = events a" and "ys = events b"
  define n where "n = min (length xs) (length ys)"
  define ff where "ff = first_found (map (\<lambda>i. compare_event i (xs ! i) (ys ! i)) [0 ..< n])"
  define tail where "tail = \<lparr>dv_event = n, dv_class = DivTiming, dv_field = ''trace-length'',
    dv_left = ShownNumber (length xs), dv_right = ShownNumber (length ys),
    dv_explanation = ''one implementation committed additional instructions''\<rparr>"
  define whole where "whole = (case ff of Some d \<Rightarrow> Some d | None \<Rightarrow> if length xs \<noteq> length ys then Some tail else None)"
  have report: "vr_first (compare_traces a b) = whole" "vr_equivalent (compare_traces a b) = (whole = None)"
    unfolding compare_traces_def Let_def xs_def ys_def n_def ff_def tail_def whole_def by simp_all
  have same: "take i (map compared xs) = take i (map compared ys)"
    if "\<forall>j<i. compare_event j (xs ! j) (ys ! j) = None" "i \<le> n" for i
    using that by (intro nth_equalityI) (auto simp: n_def compare_event_None)
  show ?thesis
  proof (cases ff)
    case None
    then have "\<forall>j<n. compare_event j (xs ! j) (ys ! j) = None" by (auto simp: ff_def first_found_None)
    then have pre: "take n (map compared xs) = take n (map compared ys)" by (rule same) simp
    show ?thesis
    proof (cases "length xs = length ys")
      case True
      then have "map compared xs = map compared ys" using pre by (simp add: n_def)
      then show ?thesis unfolding report using None True by (simp add: whole_def flip: xs_def ys_def)
    next
      case False
      then have "map compared xs \<noteq> map compared ys" using map_eq_imp_length_eq by blast
      moreover have "\<not> (n < length xs \<and> n < length ys)" by (simp add: n_def min_def)
      moreover have "whole = Some tail" "dv_event tail = n" using None False by (simp_all add: whole_def tail_def)
      ultimately show ?thesis unfolding report using False pre
        by (auto simp: n_def [symmetric] simp flip: xs_def ys_def simp del: min_less_iff_conj)
    qed
  next
    case (Some d)
    then obtain i where i: "i < n" "compare_event i (xs ! i) (ys ! i) = Some d" "\<forall>j<i. compare_event j (xs ! j) (ys ! j) = None"
      using first_found_Some [of "\<lambda>i. compare_event i (xs ! i) (ys ! i)" 0 n d] by (auto simp: ff_def)
    have d: "dv_event d = i" "i < length xs" "i < length ys" using compare_event_index [OF i(2)] i(1) by (simp_all add: n_def)
    have diff: "compared (xs ! i) \<noteq> compared (ys ! i)" using i(2) compare_event_None [of i "xs ! i" "ys ! i"] by simp
    then have "map compared xs \<noteq> map compared ys" using d by (metis nth_map)
    then show ?thesis unfolding report using Some d diff same [OF i(3)] i(1)
      by (simp add: whole_def flip: xs_def ys_def)
  qed
qed

section \<open>The reference\<close>

definition agrees :: "trace_event \<Rightarrow> yaagc_event \<Rightarrow> bool" where
  "agrees e r \<longleftrightarrow> te_kind e = expected_kind r \<and> expected_cycle r = Some (te_cycle_end e)
     \<and> te_pc e = ya_pc r \<and> raw (te_instruction e) = ya_instruction r AND 0x7FFF
     \<and> (let s = compared_registers r e
        in (rs_a s, rs_l s, rs_q s, rs_eb s, rs_fb s, rs_bb s) = (ya_a r, ya_l r, ya_q r, ya_eb r, ya_fb r, ya_bb r))
     \<and> (ya_kind r = YaAgcInterruptEntry \<longrightarrow> entered_interrupt (te_interrupts e) = expected_interrupt r)"

lemma compare_yaagc_event_cases:
  "case compare_yaagc_event i e r of
     None \<Rightarrow> expected_cycle r = None
   | Some None \<Rightarrow> agrees e r
   | Some (Some d) \<Rightarrow> \<not> agrees e r \<and> dv_event d = i"
proof (cases "te_kind e = expected_kind r")
  case False
  then show ?thesis by (simp add: compare_yaagc_event_def agrees_def)
next
  case kind: True
  show ?thesis
  proof (cases "expected_cycle r")
    case None
    then show ?thesis using kind by (simp add: compare_yaagc_event_def)
  next
    case (Some cycle)
    define found where "found = compare_yaagc_event i e r"
    obtain x where x: "found = Some x" using kind Some by (simp add: found_def compare_yaagc_event_def Let_def)
    have "x = None \<longleftrightarrow> agrees e r"
      using x kind Some unfolding found_def compare_yaagc_event_def Let_def
      by (auto simp: first_found_None difference_None octal_difference_def agrees_def Let_def word_eq_unat_iff simp del: first_found.simps)
    moreover have "x = Some d \<Longrightarrow> dv_event d = i" for d
      using x kind Some unfolding found_def compare_yaagc_event_def Let_def
      by (auto dest!: first_found_in dest: difference_event [OF sym] simp: octal_difference_def simp del: first_found.simps split: if_splits)
    ultimately show ?thesis using x by (cases x) (auto simp: found_def)
  qed
qed

lemma match_events_cases:
  "case match_events xs ys [m ..< n] k of
     None \<Rightarrow> \<exists>i. m \<le> i \<and> i < n \<and> expected_cycle (ys ! i) = None
   | Some (c, found) \<Rightarrow> (\<exists>i. m \<le> i \<and> i \<le> max m n \<and> c = k + (i - m) \<and> (\<forall>j. m \<le> j \<and> j < i \<longrightarrow> agrees (xs ! j) (ys ! j))
       \<and> (case found of None \<Rightarrow> i = max m n | Some d \<Rightarrow> i < n \<and> \<not> agrees (xs ! i) (ys ! i) \<and> dv_event d = i))"
proof (induction "n - m" arbitrary: m k)
  case 0
  then show ?case by (auto intro!: exI [of _ m])
next
  case (Suc l)
  then have m: "[m ..< n] = m # [Suc m ..< n]" "l = n - Suc m" "m < n" by (auto simp: upt_conv_Cons)
  show ?case
  proof (cases "compare_yaagc_event m (xs ! m) (ys ! m)")
    case None
    then show ?thesis using compare_yaagc_event_cases [where i = m and e = "xs ! m" and r = "ys ! m"] m by auto
  next
    case (Some x)
    show ?thesis
    proof (cases x)
      case (Some d)
      then show ?thesis using compare_yaagc_event_cases [where i = m and e = "xs ! m" and r = "ys ! m"] m \<open>compare_yaagc_event _ _ _ = Some x\<close>
        by auto
    next
      case None
      then have step: "match_events xs ys [m ..< n] k = match_events xs ys [Suc m ..< n] (k + 1)" "agrees (xs ! m) (ys ! m)"
        using compare_yaagc_event_cases [where i = m and e = "xs ! m" and r = "ys ! m"] m(1) \<open>compare_yaagc_event _ _ _ = Some x\<close> by auto
      show ?thesis
      proof (cases "match_events xs ys [Suc m ..< n] (k + 1)")
        case None
        then show ?thesis using Suc.hyps(1) [OF m(2), of "k + 1"] step by (auto intro: Suc_leD)
      next
        case (Some y)
        obtain c found where y: "y = (c, found)" by fastforce
        from Suc.hyps(1) [OF m(2), of "k + 1"] Some y obtain i where i: "Suc m \<le> i" "i \<le> max (Suc m) n" "c = k + 1 + (i - Suc m)"
          "\<forall>j. Suc m \<le> j \<and> j < i \<longrightarrow> agrees (xs ! j) (ys ! j)"
          "case found of None \<Rightarrow> i = max (Suc m) n | Some d \<Rightarrow> i < n \<and> \<not> agrees (xs ! i) (ys ! i) \<and> dv_event d = i" by auto
        have "agrees (xs ! j) (ys ! j)" if "m \<le> j" "j < i" for j
          using that i(4) step(2) by (cases "j = m") auto
        then have "\<exists>i. m \<le> i \<and> i \<le> max m n \<and> c = k + (i - m) \<and> (\<forall>j. m \<le> j \<and> j < i \<longrightarrow> agrees (xs ! j) (ys ! j))
          \<and> (case found of None \<Rightarrow> i = max m n | Some d \<Rightarrow> i < n \<and> \<not> agrees (xs ! i) (ys ! i) \<and> dv_event d = i)"
          using i m(3) by (intro exI [of _ i]) (auto simp: max_def split: option.splits if_splits)
        then show ?thesis unfolding step(1) Some y by simp
      qed
    qed
  qed
qed


section \<open>Determinism\<close>

lemma schedule_sound:
  assumes "runtime_ok (Suc k) r" "event_sound e"
  obtains x r' where "(schedule c e :: (runtime, runtime_error, scheduled_event) prog) r = Some (Inr x, r')" "runtime_ok k r'"
proof -
  let ?n = "next_event_sequence r"
  define q where "q = btree_insert (c, ?n) e (rt_events r)"
  have n: "?n < U64_MAX" and num: "numbered ?n (rt_events r)" using assms(1) by (simp_all add: runtime_ok_def)
  have fresh: "(c, ?n) \<notin> fst ` set (rt_events r)" using num by (force simp: numbered_def)
  then have "length q = Suc (length (rt_events r))"
    unfolding q_def by (metis btree_insert_new size_add_mset size_mset)
  moreover have "set (contents q) = insert (c, e) (set (contents (rt_events r)))"
    using mset_contents_insert [OF fresh, of e] by (metis q_def set_mset_add_mset_insert set_mset_mset)
  ultimately have "runtime_ok k (r\<lparr>rt_events := q, next_event_sequence := ?n + 1\<rparr>)"
    using assms numbered_insert [OF num n, of c e] by (simp add: runtime_ok_def q_def)
  then show thesis
    using that n by (cases r) (simp add: schedule_def run_simps q_def)
qed

definition schedule_pair :: "nat \<times> runtime_event \<Rightarrow> (runtime \<times> runtime, validation_error, unit) prog" where
  "schedule_pair = (\<lambda>(cycle, e).
     and_then (on_left (schedule cycle e)) (\<lambda>_. and_then (on_right (schedule cycle e)) (\<lambda>_. ok ())))"

lemma schedule_both:
  "runtime_ok (length plan + k) r \<Longrightarrow> (\<forall>x\<in>set plan. event_sound (snd x)) \<Longrightarrow>
   \<exists>r'. runtime_ok k r' \<and> for_each plan schedule_pair (r, r)
     = Some (Inr (), (r', r'))"
proof (induction plan arbitrary: r)
  case (Cons x plan)
  obtain c e where x: "x = (c, e)" by fastforce
  obtain y r1 where r1: "(schedule c e :: (runtime, runtime_error, scheduled_event) prog) r = Some (Inr y, r1)" "runtime_ok (length plan + k) r1"
    using schedule_sound [of "length plan + k" r e] Cons.prems x by auto
  from Cons.IH [OF r1(2)] Cons.prems(2) obtain r' where "runtime_ok k r'"
    "for_each plan schedule_pair (r1, r1)
      = Some (Inr (), (r', r'))" by auto
  moreover have "schedule_pair x (r, r) = Some (Inr (), (r1, r1))"
    using r1(1) by (simp add: schedule_pair_def x run_simps on_left_def on_right_def)
  ultimately show ?case by (simp add: run_simps)
qed (simp add: run_simps)

lemma differential_run_pair:
  "differential_run plan limit =
     seq (for_each plan schedule_pair)
    (and_then (on_left (runtime_run limit)) (\<lambda>_.
     and_then (on_right (runtime_run limit)) (\<lambda>_.
     gets (\<lambda>(l, r). compare_traces (trace (rt_cpu l)) (trace (rt_cpu r))))))"
  unfolding differential_run_def schedule_pair_def ..

lemma compare_traces_same: "vr_equivalent (compare_traces t t) \<and> vr_first (compare_traces t t) = None"
proof -
  have "first_found (map (\<lambda>i. compare_event i (events t ! i) (events t ! i)) is) = None" for "is"
    by (induction "is") (simp_all add: iffD2 [OF compare_event_None])
  then show ?thesis by (simp add: compare_traces_def Let_def)
qed



section \<open>Reading the reference\<close>

text \<open>The row that the documented instrumentation prints for an event.\<close>

definition octal_column :: "u16 \<Rightarrow> string" where
  "octal_column w = show_radix 8 (unat w)"

definition tsv_columns :: "yaagc_event \<Rightarrow> string list" where
  "tsv_columns e =
     [show_radix 10 (ya_cycle e), if ya_kind e = YaAgcInterruptEntry then ''R'' else ''I'',
      octal_column (ya_pc e), octal_column (ya_instruction e), octal_column (ya_a e), octal_column (ya_l e),
      octal_column (ya_q e), octal_column (ya_eb e), octal_column (ya_fb e), octal_column (ya_bb e),
      (case ya_interrupt_vector e of Some v \<Rightarrow> octal_column v | None \<Rightarrow> ''0''),
      (case ya_interrupt_number e of Some n \<Rightarrow> show_radix 8 (unat n) | None \<Rightarrow> ''0'')]"

definition tsv_row :: "yaagc_event \<Rightarrow> string" where
  "tsv_row e = join [CHR 0x09] (tsv_columns e)"

definition yaagc_wf :: "yaagc_event \<Rightarrow> bool" where
  "yaagc_wf e \<longleftrightarrow> ya_cycle e \<le> U64_MAX \<and> (ya_interrupt_vector e \<noteq> None) = (ya_kind e = YaAgcInterruptEntry)
     \<and> (ya_interrupt_number e \<noteq> None) = (ya_kind e = YaAgcInterruptEntry)"

lemma radix_plain: "2 \<le> b \<Longrightarrow> b \<le> 10 \<Longrightarrow> CHR 0x09 \<notin> set (show_radix b n)"
  using show_radix_digits [of b "CHR 0x09" n] by auto

lemma radix_parse: "2 \<le> b \<Longrightarrow> b \<le> 10 \<Longrightarrow> n \<le> limit \<Longrightarrow> from_str_radix b limit (show_radix b n) = Some n"
  using from_str_radix_show [of b n limit 0] by (simp add: pad_left_def)

lemma octal_column_parse: "from_str_radix 8 U64_MAX (octal_column w) = Some (unat w)"
proof -
  have "unat w \<le> U64_MAX" unfolding U64_MAX_def using u16_less [of w] by linarith
  then show ?thesis unfolding octal_column_def by (simp add: radix_parse)
qed

lemma number_column_parse: "from_str_radix 8 U64_MAX (show_radix 8 (unat (n :: u8))) = Some (unat n)"
proof -
  have "unat n \<le> U64_MAX" unfolding U64_MAX_def using u8_less [of n] by linarith
  then show ?thesis by (simp add: radix_parse)
qed

lemma number_column_cut: "ucast (ucast (n :: u8) :: u16) = n"
  by (simp add: word_eq_unat_iff unat_ucast_u16_u8 unat_ucast_u8_u16)

lemma tsv_split: "split_on (CHR 0x09) (tsv_row e) = tsv_columns e"
  unfolding tsv_row_def
  by (rule split_on_join) (auto simp: tsv_columns_def octal_column_def radix_plain split: option.splits if_splits)

lemma tsv_row_read:
  assumes "yaagc_wf e"
  shows "read_tsv_row line (tsv_row e) = Inr e"
proof -
  have cycle: "from_str_radix 10 U64_MAX (show_radix 10 (ya_cycle e)) = Some (ya_cycle e)"
    using assms by (simp add: radix_parse yaagc_wf_def)
  show ?thesis
  proof (cases "ya_kind e")
    case YaAgcInstruction
    then show ?thesis using assms cycle
      by (cases e) (simp add: read_tsv_row_def tsv_split tsv_columns_def Let_def bind_result_def tsv_optional_def
          tsv_octal_def octal_column_parse yaagc_wf_def)
  next
    case YaAgcInterruptEntry
    then obtain v n where "ya_interrupt_vector e = Some v" "ya_interrupt_number e = Some n"
      using assms by (auto simp: yaagc_wf_def)
    then show ?thesis using YaAgcInterruptEntry cycle
      by (cases e) (simp add: read_tsv_row_def tsv_split tsv_columns_def Let_def bind_result_def tsv_optional_def
          tsv_octal_def octal_column_parse number_column_parse number_column_cut)
  qed
qed

lemma trim_visible:
  assumes "c \<in> set s" "\<not> is_ascii_space c"
  shows "trim s \<noteq> []"
proof
  assume "trim s = []"
  then have "\<forall>x\<in>set (trim_start s). is_ascii_space x" by (simp add: trim_def trim_start_def)
  then have "trim_start s = []" using hd_dropWhile [of is_ascii_space s] by (metis hd_in_set trim_start_def)
  then show False using assms by (auto simp: trim_start_def)
qed

lemma tsv_row_visible: "trim (tsv_row e) \<noteq> []"
proof -
  let ?c = "hd (show_radix 10 (ya_cycle e))"
  have "?c \<in> set (show_radix 10 (ya_cycle e))" by simp
  then have digit: "48 \<le> (of_char ?c :: nat)" using show_radix_digits [of 10 ?c "ya_cycle e"] by simp
  have "?c \<in> set (tsv_row e)" by (simp add: tsv_row_def tsv_columns_def)
  moreover have "\<not> is_ascii_space ?c" using digit by (simp add: is_ascii_space_def Let_def)
  ultimately show ?thesis by (rule trim_visible)
qed

text \<open>
  Reading the rows that the documented instrumentation prints for well-formed events returns the
  events.
\<close>

theorem tsv_round_trip:
  assumes "\<forall>e\<in>set es. yaagc_wf e"
  shows "read_tsv (map tsv_row es) = Inr \<lparr>ya_events = es\<rparr>"
proof -
  have "read_tsv_rows line acc (map tsv_row es) = Inr \<lparr>ya_events = acc @ es\<rparr>" for line acc
    using assms by (induction es arbitrary: line acc) (simp_all add: tsv_row_visible tsv_row_read bind_result_def)
  then show ?thesis by (simp add: read_tsv_def)
qed

end
