(* ===== verification/Agc_Mission.thy ===== *)
theory Agc_Mission
  imports Agc_Faults Agc_Dsky Agc_Loader Agc_Validation
begin

text \<open>
  agc-mission (src/crates/agc-mission/src/lib.rs): mission scenarios with their input tables, the
  controller around a runtime, a display and a fault engine, the run with its inputs, typed keys,
  sampled frames and the evidence it collects from the trace.  Instruction and cycle counts are
  natural numbers, as everywhere in the model.
\<close>

section \<open>Scenarios\<close>

record mission_input =
  mi_instruction :: nat
  mi_event :: runtime_event

record erasable_initialization =
  ei_symbol :: string
  ei_bank :: u8
  ei_offset :: u16
  ei_value :: agc_word
  ei_provenance :: string
  ei_rationale :: string

record dsky_sequence =
  dk_start_cycle :: nat
  dk_minimum_gap_cycles :: nat
  dk_keys :: "u8 list"

record guidance_variable =
  gv_name :: string
  gv_bank :: u8
  gv_offset :: u16

record mission_scenario =
  sn_name :: string
  sn_instruction_limit :: nat
  sn_frame_interval :: nat
  sn_inputs :: "mission_input list"
  sn_initialization :: "erasable_initialization list"
  sn_dsky_sequence :: "dsky_sequence option"
  sn_guidance_variables :: "guidance_variable list"
  sn_observer :: observer_state

text \<open>The messages of \<open>MissionError::Scenario\<close>, with their arguments.\<close>

datatype scenario_problem =
    ZeroLimits
  | UnorderedInputs
  | ZeroGap
  | WideKeyCode
  | LateInitialization
  | InitializationAddress string u8 u16
  | GuidanceAddress string u8 u16
  | RejectedKey pinball_error

datatype mission_error =
    MissionScenarioError scenario_problem
  | MissionRuntime runtime_error
  | MissionFault fault_error
  | MissionCpu cpu_error
  | MissionMemory memory_error
  | MissionRope memory_error

text \<open>The table of the pad load: symbol, erasable address, word and page of the data book.\<close>

definition PADLOAD :: "(string \<times> u16 \<times> u16 \<times> nat) list" where
  "PADLOAD =
     [
      (''REFSMMAT.0.HI'', 0x3DB, 0x15C4, 2), (''REFSMMAT.0.LO'', 0x3DC, 0xCB4, 2),
      (''REFSMMAT.1.HI'', 0x3DD, 0x1572, 18), (''REFSMMAT.1.LO'', 0x3DE, 0x11D3, 18),
      (''REFSMMAT.2.HI'', 0x3DF, 0x24A, 18), (''REFSMMAT.2.LO'', 0x3E0, 0x2A01, 18),
      (''TLAND.HI'', 0x500, 0x8A7, 4), (''TLAND.LO'', 0x501, 0x3818, 4),
      (''RLS.X.HI'', 0x412, 0xC1, 18), (''RLS.X.LO'', 0x413, 0x39F0, 18),
      (''RLS.Y.HI'', 0x414, 0x55, 18), (''RLS.Y.LO'', 0x415, 0x997, 18),
      (''RLS.Z.HI'', 0x416, 0x2, 18), (''RLS.Z.LO'', 0x417, 0x28E2, 18),
      (''VIGN.HI'', 0x53A, 0x10E, 7), (''VIGN.LO'', 0x53B, 0x1C39, 7),
      (''RIGNX.HI'', 0x53C, 0x7FD9, 7), (''RIGNX.LO'', 0x53D, 0x4998, 7),
      (''RIGNZ.HI'', 0x53E, 0x7E55, 7), (''RIGNZ.LO'', 0x53F, 0x6504, 7),
      (''KIGNX/B4.HI'', 0x540, 0x7D87, 7), (''KIGNX/B4.LO'', 0x541, 0x62EE, 7),
      (''KIGNY/B8.HI'', 0x542, 0x759C, 7), (''KIGNY/B8.LO'', 0x543, 0x5382, 7),
      (''KIGNV/B4.HI'', 0x544, 0x75FD, 7), (''KIGNV/B4.LO'', 0x545, 0x5FFF, 7),
      (''LRALPHA1'', 0x552, 0x217, 8), (''LRBETA1'', 0x553, 0x884, 8),
      (''LRALPHA2'', 0x554, 0x212, 8), (''LRBETA2'', 0x555, 0x4, 8),
      (''LRVMAX'', 0x556, 0x30C, 8), (''LRVF'', 0x557, 0x4E, 9),
      (''LRWVZ'', 0x558, 0x1333, 9), (''LRWVY'', 0x559, 0x1333, 9),
      (''LRWVX'', 0x55A, 0x1333, 9), (''LRWVFZ'', 0x55B, 0xCCD, 9),
      (''LRWVFY'', 0x55C, 0xCCD, 9), (''LRWVFX'', 0x55D, 0xCCD, 9),
      (''LRWVFF'', 0x55E, 0x666, 9), (''RODSCALE'', 0x55F, 0x18F8, 9),
      (''LRHMAX'', 0x710, 0x3B88, 14), (''LRWH'', 0x711, 0x1666, 14),
      (''ZOOMTIME'', 0x712, 0xA28, 14), (''TENDBRAK'', 0x713, 0x307, 15),
      (''TENDAPPR'', 0x714, 0x96, 15), (''DELTTFAP'', 0x715, 0x7AA0, 15),
      (''LEADTIME'', 0x716, 0x7FE3, 15), (''RPCRTIME'', 0x717, 0x307, 15),
      (''RPCRTQSW'', 0x718, 0x3FFF, 15), (''TNEWA.HI'', 0x719, 0x2000, 15),
      (''TNEWA.LO'', 0x71A, 0x0, 15)]"

text \<open>\<open>expect\<close> of a word: \<open>None\<close> is the panic of a table with an invalid word.\<close>

definition expect_word :: "u16 \<Rightarrow> agc_word option" where
  "expect_word w = (case try_from_raw w of Inr v \<Rightarrow> Some v | Inl e \<Rightarrow> None)"

definition padload_word :: "string \<times> u16 \<times> u16 \<times> nat \<Rightarrow> erasable_initialization option" where
  "padload_word = (\<lambda>(symbol, address, value, page).
     map_option (\<lambda>v.
       \<lparr>ei_symbol = symbol, ei_bank = ucast (address div 0x100), ei_offset = address mod 0x100, ei_value = v,
        ei_provenance = ''LM-5 Data Book table LM5/4.5.1-1, PDF page '' @ show_radix 10 page
          @ ''; https://www.ibiblio.org/apollo/Documents/Luminary99PadLoads.pdf'',
        ei_rationale = ''Transcribed Apollo 11 LM-5 Luminary 99 erasable padload word''\<rparr>) (expect_word value))"

definition flagword_initialization :: "erasable_initialization option" where
  "flagword_initialization = map_option (\<lambda>v.
     \<lparr>ei_symbol = ''FLAGWRD3 (LM-5 padload + REFSMFLG)'', ei_bank = 0, ei_offset = 0x3F, ei_value = v,
      ei_provenance = ''LM-5 Data Book table LM5/4.5.1-1 page 2: FLAGWORD3=02000; ''
        @ ''Luminary099/FLAGWORD_ASSIGNMENTS.agc: REFSMBIT=BIT13 (10000); ''
        @ ''Luminary099/IMU_MODE_SWITCHING_ROUTINES.agc: R02BOTH requires known REFSMMAT'',
      ei_rationale = ''Retain the documented Apollo 11 padload flag and the in-flight post-alignment ''
        @ ''REFSMFLG required before selecting P63. This is an entry fixture, not a claim ''
        @ ''that blank-memory startup reproduces the complete mission timeline.''\<rparr>) (expect_word 0x1400)"

definition apollo11_lm5_p63_initialization :: "erasable_initialization list option" where
  "apollo11_lm5_p63_initialization = those (flagword_initialization # map padload_word PADLOAD)"

definition P63_VARIABLES :: "(string \<times> u8 \<times> u16) list" where
  "P63_VARIABLES =
     [
      (''MPAC'', 0, 0x6C), (''DSPCOUNT'', 1, 0xFF), (''DECBRNCH'', 2, 0x0),
      (''VERBREG'', 2, 0x1), (''NOUNREG'', 2, 0x2), (''MODREG'', 2, 0x9),
      (''DSPLOCK'', 2, 0xA), (''CADRSTOR'', 2, 0x22), (''DVTHRUSH'', 2, 0xA9),
      (''WCHPHASE'', 2, 0xE9), (''RLS.X.HI'', 4, 0x12), (''RLS.X.LO'', 4, 0x13),
      (''RLS.Y.HI'', 4, 0x14), (''RLS.Y.LO'', 4, 0x15), (''RLS.Z.HI'', 4, 0x16),
      (''RLS.Z.LO'', 4, 0x17), (''TLAND.HI'', 5, 0x0), (''TLAND.LO'', 5, 0x1),
      (''RANGEDSP.HI'', 5, 0x94), (''RANGEDSP.LO'', 5, 0x95), (''R60VSAVE.X.HI'', 5, 0x98),
      (''R60VSAVE.X.LO'', 5, 0x99), (''R60VSAVE.Y.HI'', 5, 0x9A), (''R60VSAVE.Y.LO'', 5, 0x9B),
      (''R60VSAVE.Z.HI'', 5, 0x9C), (''R60VSAVE.Z.LO'', 5, 0x9D), (''RGU.X.HI'', 5, 0x9E),
      (''RGU.X.LO'', 5, 0x9F), (''RGU.Y.HI'', 5, 0xA0), (''RGU.Y.LO'', 5, 0xA1),
      (''RGU.Z.HI'', 5, 0xA2), (''RGU.Z.LO'', 5, 0xA3), (''TIG.HI'', 7, 0x21),
      (''TIG.LO'', 7, 0x22), (''WHICH'', 7, 0x2D), (''DVCNTR'', 7, 0x4D),
      (''R.X.HI'', 7, 0x50), (''R.X.LO'', 7, 0x51), (''R.Y.HI'', 7, 0x52),
      (''R.Y.LO'', 7, 0x53), (''R.Z.HI'', 7, 0x54), (''R.Z.LO'', 7, 0x55),
      (''V.X.HI'', 7, 0x56), (''V.X.LO'', 7, 0x57), (''V.Y.HI'', 7, 0x58),
      (''V.Y.LO'', 7, 0x59), (''V.Z.HI'', 7, 0x5A), (''V.Z.LO'', 7, 0x5B),
      (''TTF/8TMP.HI'', 7, 0x6A), (''TTF/8TMP.LO'', 7, 0x6B), (''PIPTIME1.HI'', 7, 0x70),
      (''PIPTIME1.LO'', 7, 0x71), (''FLPASS0'', 7, 0x93), (''TPIP.HI'', 7, 0x94),
      (''TPIP.LO'', 7, 0x95), (''VGU.X.HI'', 7, 0x96), (''VGU.X.LO'', 7, 0x97),
      (''VGU.Y.HI'', 7, 0x98), (''VGU.Y.LO'', 7, 0x99), (''VGU.Z.HI'', 7, 0x9A),
      (''VGU.Z.LO'', 7, 0x9B), (''LAND.X.HI'', 7, 0x9C), (''LAND.X.LO'', 7, 0x9D),
      (''LAND.Y.HI'', 7, 0x9E), (''LAND.Y.LO'', 7, 0x9F), (''LAND.Z.HI'', 7, 0xA0),
      (''LAND.Z.LO'', 7, 0xA1), (''TTF/8.HI'', 7, 0xA2), (''TTF/8.LO'', 7, 0xA3)]"

definition luminary_p63_variables :: "guidance_variable list" where
  "luminary_p63_variables =
     map (\<lambda>(name, bank, offset). \<lparr>gv_name = name, gv_bank = bank, gv_offset = offset\<rparr>) P63_VARIABLES"

text \<open>VERB 37 ENTER 63 ENTER in the keyboard codes of channel 015.\<close>

definition V37E63E :: "u8 list" where "V37E63E = [0x11, 3, 7, 0x1C, 6, 3, 0x1C]"

definition luminary_p63_landing :: "mission_scenario option" where
  "luminary_p63_landing = map_option (\<lambda>words.
     \<lparr>sn_name = ''apollo11-lm5-padload-p63-entry'', sn_instruction_limit = 1000000, sn_frame_interval = 5000,
      sn_inputs = [], sn_initialization = words,
      sn_dsky_sequence = Some \<lparr>dk_start_cycle = 40000, dk_minimum_gap_cycles = 32768, dk_keys = V37E63E\<rparr>,
      sn_guidance_variables = luminary_p63_variables,
      sn_observer = \<lparr>executive_slots = [], waitlist_slots = []\<rparr>\<rparr>) apollo11_lm5_p63_initialization"

definition validate_scenario :: "mission_scenario \<Rightarrow> mission_error + unit" where
  "validate_scenario sc =
     (if sn_instruction_limit sc = 0 \<or> sn_frame_interval sc = 0 then Inl (MissionScenarioError ZeroLimits)
      else if list_ex (\<lambda>(x, y). mi_instruction y < mi_instruction x) (zip (sn_inputs sc) (tl (sn_inputs sc)))
      then Inl (MissionScenarioError UnorderedInputs)
      else case sn_dsky_sequence sc of
        None \<Rightarrow> Inr ()
      | Some keys \<Rightarrow>
          if dk_minimum_gap_cycles keys = 0 then Inl (MissionScenarioError ZeroGap)
          else if list_ex (\<lambda>c. 0x1F < c) (dk_keys keys) then Inl (MissionScenarioError WideKeyCode)
          else Inr ())"

section \<open>Evidence\<close>

record mission_milestone =
  mm_name :: string
  mm_trace_sequence :: nat
  mm_instruction :: nat
  mm_cycle :: nat
  mm_pc :: u16
  mm_physical :: string

record key_evidence =
  ke_code :: u8
  ke_requested_instruction :: nat
  ke_requested_cycle :: nat
  ke_keyrupt :: "mission_milestone option"
  ke_charin :: "mission_milestone option"

record guidance_change =
  gc_name :: string
  gc_bank :: u8
  gc_offset :: u16
  gc_at_p63_entry :: agc_word
  gc_final_value :: agc_word

record guidance_write =
  gw_name :: string
  gw_bank :: u8
  gw_offset :: u16
  gw_value :: agc_word
  gw_milestone :: mission_milestone

record applied_initialization =
  ai_symbol :: string
  ai_bank :: u8
  ai_offset :: u16
  ai_previous_value :: agc_word
  ai_configured_value :: agc_word
  ai_provenance :: string
  ai_rationale :: string

text \<open>The five words that \<open>P63LM\<close> initialises, and their reconstruction.\<close>

definition P63_INITIALIZATION_WORDS :: "string list" where
  "P63_INITIALIZATION_WORDS = [''WHICH'', ''DVTHRUSH'', ''DVCNTR'', ''WCHPHASE'', ''FLPASS0'']"

datatype landing_guidance_phase = IgnitionAlgorithm

definition phase_word :: "landing_guidance_phase \<Rightarrow> agc_word" where
  "phase_word p = (case p of IgnitionAlgorithm \<Rightarrow> from_raw_truncate 0x7FFE)"

record p63_initialization =
  p63_burn_baby_address :: agc_word
  p63_delta_velocity_threshold :: agc_word
  p63_delta_velocity_counter :: agc_word
  p63_guidance_phase :: landing_guidance_phase
  p63_first_pass :: agc_word

definition luminary099 :: p63_initialization where
  "luminary099 =
     \<lparr>p63_burn_baby_address = from_raw_truncate 0x43E, p63_delta_velocity_threshold = from_raw_truncate 0x24,
      p63_delta_velocity_counter = from_raw_truncate 4, p63_guidance_phase = IgnitionAlgorithm,
      p63_first_pass = POSITIVE_ZERO\<rparr>"

fun writes_match :: "nat option \<Rightarrow> (string \<times> agc_word) list \<Rightarrow> guidance_write list \<Rightarrow> bool" where
  "writes_match previous [] writes = True"
| "writes_match previous ((name, value) # expected) writes =
     (case find (\<lambda>w. gw_name w = name) writes of
        None \<Rightarrow> False
      | Some w \<Rightarrow>
          (let n = mm_trace_sequence (gw_milestone w);
               ordered = (case previous of None \<Rightarrow> True | Some p \<Rightarrow> p < n)
           in ordered \<and> gw_value w = value \<and> writes_match (Some n) expected writes))"

definition matches_rope_writes :: "p63_initialization \<Rightarrow> guidance_write list \<Rightarrow> bool" where
  "matches_rope_writes p writes = writes_match None
     [(''WHICH'', p63_burn_baby_address p), (''DVTHRUSH'', p63_delta_velocity_threshold p),
      (''DVCNTR'', p63_delta_velocity_counter p), (''WCHPHASE'', phase_word (p63_guidance_phase p)),
      (''FLPASS0'', p63_first_pass p)] writes"

record mission_evidence =
  me_initialization :: "applied_initialization list"
  me_keys :: "key_evidence list"
  me_program_63_selected :: "mission_milestone option"
  me_pinball_reconstruction :: "v37_program_change option"
  me_pinball_reconstruction_matches_rope :: bool
  me_p63lm_entry :: "mission_milestone option"
  me_p63spot_entry :: "mission_milestone option"
  me_p63spot2_entry :: "mission_milestone option"
  me_guidance_changes :: "guidance_change list"
  me_guidance_writes :: "guidance_write list"
  me_p63_initialization :: "p63_initialization option"
  me_p63_initialization_matches_rope :: bool
  me_keyboard_sequence_verified :: bool
  me_verified_p63_request :: bool
  me_landing_guidance_started :: bool

definition no_evidence :: mission_evidence where
  "no_evidence =
     \<lparr>me_initialization = [], me_keys = [], me_program_63_selected = None, me_pinball_reconstruction = None,
      me_pinball_reconstruction_matches_rope = False, me_p63lm_entry = None, me_p63spot_entry = None,
      me_p63spot2_entry = None, me_guidance_changes = [], me_guidance_writes = [],
      me_p63_initialization = None, me_p63_initialization_matches_rope = False,
      me_keyboard_sequence_verified = False, me_verified_p63_request = False,
      me_landing_guidance_started = False\<rparr>"

record mission_frame =
  mf_instruction :: nat
  mf_cycle :: nat
  mf_pc :: u16
  mf_a :: u16
  mf_l :: u16
  mf_q :: u16
  mf_eb :: u16
  mf_fb :: u16
  mf_dsky :: dsky_state
  mf_guidance :: "(string, agc_word) btree_map"
  mf_executive :: "executive_job list"
  mf_waitlist :: "waitlist_task list"
  mf_hardware :: hardware_state

record mission_result =
  mr_scenario :: string
  mr_frames :: "mission_frame list"
  mr_final_dsky :: dsky_state
  mr_instructions :: nat
  mr_cycles :: nat
  mr_faults_applied :: nat
  mr_applied_faults :: "applied_fault list"
  mr_evidence :: mission_evidence

section \<open>The controller\<close>

record mission_controller =
  mn_campaign :: campaign
  mn_dsky :: dsky_state

definition controller_from_runtime :: "runtime \<Rightarrow> mission_controller" where
  "controller_from_runtime r = \<lparr>mn_campaign = \<lparr>engine = default_engine, target = r\<rparr>, mn_dsky = dsky_default\<rparr>"

text \<open>\<open>None\<close> is the panic of \<open>Cpu::new\<close>.\<close>

definition controller_from_rope :: "rope_image \<Rightarrow> (mission_error + mission_controller) option" where
  "controller_from_rope rope = (case into_memory rope of
       Inl e \<Rightarrow> Some (Inl (MissionRope e))
     | Inr m \<Rightarrow> map_option (\<lambda>c. Inr (controller_from_runtime (runtime_new c))) (cpu_new m))"

definition mission_schedule_fault :: "nat \<Rightarrow> fault \<Rightarrow> (mission_controller, mission_error, scheduled_fault) prog" where
  "mission_schedule_fault instruction f =
     zoom (\<lambda>c. engine (mn_campaign c)) (\<lambda>x c. c\<lparr>mn_campaign := (mn_campaign c)\<lparr>engine := x\<rparr>\<rparr>) MissionFault
       (schedule_fault instruction f)"

text \<open>
  The controller and the local variables of \<open>run\<close>: the inputs that are left stand for the index
  into them.
\<close>

record mission_state =
  ms_controller :: mission_controller
  ms_inputs :: "mission_input list"
  ms_dsky_index :: nat
  ms_next_dsky_cycle :: nat
  ms_frames :: "mission_frame list"
  ms_evidence :: mission_evidence
  ms_entry_values :: "(string, agc_word) btree_map option"
  ms_model :: "v37_program_change option"

type_synonym 'a mission = "(mission_state, mission_error, 'a) prog"

definition the_campaign :: "mission_state \<Rightarrow> campaign" where
  "the_campaign s = mn_campaign (ms_controller s)"

definition the_runtime :: "mission_state \<Rightarrow> runtime" where
  "the_runtime s = target (the_campaign s)"

definition instructions_done :: "mission_state \<Rightarrow> nat" where
  "instructions_done s = sequence (rt_cpu (the_runtime s))"

definition cycles_done :: "mission_state \<Rightarrow> nat" where
  "cycles_done s = cycles (rt_cpu (the_runtime s))"

definition set_campaign :: "campaign \<Rightarrow> mission_state \<Rightarrow> mission_state" where
  "set_campaign c s = s\<lparr>ms_controller := (ms_controller s)\<lparr>mn_campaign := c\<rparr>\<rparr>"

definition set_runtime :: "runtime \<Rightarrow> mission_state \<Rightarrow> mission_state" where
  "set_runtime r s = set_campaign ((the_campaign s)\<lparr>target := r\<rparr>) s"

definition on_faults :: "(campaign, fault_error, 'a) prog \<Rightarrow> 'a mission" where
  "on_faults m = zoom the_campaign set_campaign MissionFault m"

definition on_runtime :: "(runtime, runtime_error, 'a) prog \<Rightarrow> 'a mission" where
  "on_runtime m = zoom the_runtime set_runtime MissionRuntime m"

definition on_mission_cpu :: "('e \<Rightarrow> mission_error) \<Rightarrow> (cpu, 'e, 'a) prog \<Rightarrow> 'a mission" where
  "on_mission_cpu conv m = zoom (\<lambda>s. rt_cpu (the_runtime s)) (\<lambda>c s. set_runtime ((the_runtime s)\<lparr>rt_cpu := c\<rparr>) s) conv m"

definition on_mission_memory :: "(memory, memory_error, 'a) prog \<Rightarrow> 'a mission" where
  "on_mission_memory m = on_mission_cpu MissionMemory (zoom cpu_memory (\<lambda>x c. c\<lparr>cpu_memory := x\<rparr>) (\<lambda>e. e) m)"

definition change_evidence :: "(mission_evidence \<Rightarrow> mission_evidence) \<Rightarrow> unit mission" where
  "change_evidence f = modify (ms_evidence_update f)"

section \<open>Milestones and frames\<close>

definition milestone_at :: "string \<Rightarrow> trace_event \<Rightarrow> string \<Rightarrow> mission_milestone mission" where
  "milestone_at name e location =
     and_then (gets instructions_done) (\<lambda>n.
     ok \<lparr>mm_name = name, mm_trace_sequence = te_sequence e, mm_instruction = n, mm_cycle = te_cycle_end e,
         mm_pc = te_pc e, mm_physical = location\<rparr>)"

definition first_physical :: "trace_event \<Rightarrow> string" where
  "first_physical e = (case te_memory e of [] \<Rightarrow> ''unknown'' | access # _ \<Rightarrow> me_physical access)"

definition milestone :: "string \<Rightarrow> trace_event \<Rightarrow> mission_milestone mission" where
  "milestone name e = milestone_at name e (first_physical e)"

fun guidance_values_from ::
  "guidance_variable list \<Rightarrow> (string, agc_word) btree_map \<Rightarrow> (string, agc_word) btree_map mission" where
  "guidance_values_from [] found = ok found"
| "guidance_values_from (v # vs) found =
     and_then (on_mission_memory (read_erasable_physical (gv_bank v) (gv_offset v))) (\<lambda>r.
     case r of
       None \<Rightarrow> fail (MissionScenarioError (GuidanceAddress (gv_name v) (gv_bank v) (gv_offset v)))
     | Some w \<Rightarrow> guidance_values_from vs (btree_insert (gv_name v) w found))"

definition guidance_values :: "mission_scenario \<Rightarrow> (string, agc_word) btree_map mission" where
  "guidance_values sc = guidance_values_from (sn_guidance_variables sc) []"

definition mission_register :: "u16 \<Rightarrow> u16 mission" where
  "mission_register index =
     and_then (on_mission_cpu MissionCpu (try_memory (central_register index))) (\<lambda>r. ok (reg_raw r))"

definition frame_now :: "mission_scenario \<Rightarrow> mission_frame mission" where
  "frame_now sc =
     and_then (guidance_values sc) (\<lambda>guidance.
     and_then (gets instructions_done) (\<lambda>n.
     and_then (gets cycles_done) (\<lambda>cycle.
     and_then (on_mission_cpu MissionCpu program_counter) (\<lambda>pc.
     and_then (mission_register 0) (\<lambda>a.
     and_then (mission_register 1) (\<lambda>l.
     and_then (mission_register 2) (\<lambda>q.
     and_then (mission_register 3) (\<lambda>eb.
     and_then (mission_register 4) (\<lambda>fb.
     and_then (gets (\<lambda>s. mn_dsky (ms_controller s))) (\<lambda>dsky.
     and_then (gets (\<lambda>s. observer (the_runtime s))) (\<lambda>obs.
     and_then (on_mission_cpu MissionRuntime (executive_jobs (executive_slots obs))) (\<lambda>jobs.
     and_then (on_mission_cpu MissionRuntime (waitlist_tasks (waitlist_slots obs))) (\<lambda>tasks.
     and_then (gets (\<lambda>s. hardware (the_runtime s))) (\<lambda>hw.
     ok \<lparr>mf_instruction = n, mf_cycle = cycle, mf_pc = pc, mf_a = a, mf_l = l, mf_q = q, mf_eb = eb, mf_fb = fb,
         mf_dsky = dsky, mf_guidance = guidance, mf_executive = jobs, mf_waitlist = tasks,
         mf_hardware = hw\<rparr>))))))))))))))"

section \<open>Observing a step\<close>

fun update_first :: "('a \<Rightarrow> bool) \<Rightarrow> ('a \<Rightarrow> 'a) \<Rightarrow> 'a list \<Rightarrow> 'a list" where
  "update_first P f [] = []"
| "update_first P f (x # xs) = (if P x then f x # xs else x # update_first P f xs)"

fun keyrupt_vector :: "interrupt_event list \<Rightarrow> u16 option" where
  "keyrupt_vector [] = None"
| "keyrupt_vector (i # is) = (case i of
       Entered n v \<Rightarrow> if n = 5 then Some v else keyrupt_vector is
     | _ \<Rightarrow> keyrupt_vector is)"

definition waits_for_keyrupt :: "key_evidence \<Rightarrow> bool" where
  "waits_for_keyrupt k \<longleftrightarrow> ke_keyrupt k = None"

definition waits_for_charin :: "key_evidence \<Rightarrow> bool" where
  "waits_for_charin k \<longleftrightarrow> ke_keyrupt k \<noteq> None \<and> ke_charin k = None"

definition observe_keyrupt :: "trace_event \<Rightarrow> unit mission" where
  "observe_keyrupt e = (case keyrupt_vector (te_interrupts e) of
       None \<Rightarrow> ok ()
     | Some v \<Rightarrow>
         and_then (milestone_at ''KEYRUPT1'' e (''RUPT:'' @ fmt_octal_padded 4 (unat v))) (\<lambda>m.
         change_evidence (me_keys_update (update_first waits_for_keyrupt (ke_keyrupt_update (\<lambda>_. Some m))))))"

text \<open>A key code that the reconstruction rejects ends the run.\<close>

definition feed_model :: "u8 \<Rightarrow> unit mission" where
  "feed_model c =
     and_then (gets ms_model) (\<lambda>model. case model of
       None \<Rightarrow> ok ()
     | Some v \<Rightarrow> (case accept_code c v of
           None \<Rightarrow> panic
         | Some (r, v') \<Rightarrow>
             seq (modify (ms_model_update (\<lambda>_. Some v')))
               (case r of Inl x \<Rightarrow> fail (MissionScenarioError (RejectedKey x)) | Inr q \<Rightarrow> ok ())))"

definition observe_charin :: "trace_event \<Rightarrow> unit mission" where
  "observe_charin e =
     and_then (gets (\<lambda>s. find waits_for_charin (me_keys (ms_evidence s)))) (\<lambda>k.
     if first_physical e \<noteq> ''F40:0077'' then ok ()
     else case k of
       None \<Rightarrow> ok ()
     | Some k \<Rightarrow>
         and_then (milestone ''CHARIN'' e) (\<lambda>m.
         seq (change_evidence (me_keys_update (update_first waits_for_charin (ke_charin_update (\<lambda>_. Some m)))))
           (feed_model (ke_code k))))"

definition modreg :: "agc_word option mission" where
  "modreg = on_mission_memory (read_erasable_physical 2 0x9)"

definition observe_program :: "trace_event \<Rightarrow> unit mission" where
  "observe_program e =
     and_then (gets (\<lambda>s. me_program_63_selected (ms_evidence s))) (\<lambda>selected.
     if selected \<noteq> None then ok ()
     else and_then modreg (\<lambda>w.
       if w = Some (from_raw_truncate 63)
       then and_then (milestone ''MODREG=63'' e) (\<lambda>m.
            change_evidence (me_program_63_selected_update (\<lambda>_. Some m)))
       else ok ()))"

definition observe_entries :: "mission_scenario \<Rightarrow> trace_event \<Rightarrow> unit mission" where
  "observe_entries sc e =
     and_then (gets ms_evidence) (\<lambda>ev.
     if first_physical e = ''F32:0776'' \<and> me_p63lm_entry ev = None
     then and_then (milestone ''P63LM'' e) (\<lambda>m.
          seq (change_evidence (me_p63lm_entry_update (\<lambda>_. Some m)))
         (and_then (guidance_values sc) (\<lambda>values. modify (ms_entry_values_update (\<lambda>_. Some values)))))
     else if first_physical e = ''F36:0151'' \<and> me_p63spot_entry ev = None
     then and_then (milestone ''P63SPOT'' e) (\<lambda>m. change_evidence (me_p63spot_entry_update (\<lambda>_. Some m)))
     else if first_physical e = ''F32:1215'' \<and> me_p63spot2_entry ev = None
     then and_then (milestone ''P63SPOT2'' e) (\<lambda>m. change_evidence (me_p63spot2_entry_update (\<lambda>_. Some m)))
     else ok ())"

definition variable_text :: "guidance_variable \<Rightarrow> string" where
  "variable_text v = ''E'' @ fmt_octal (unat (gv_bank v)) @ '':'' @ fmt_octal_padded 4 (unat (gv_offset v))"

definition observe_write :: "mission_scenario \<Rightarrow> trace_event \<Rightarrow> memory_event \<Rightarrow> unit mission" where
  "observe_write sc e access =
     (case find (\<lambda>v. me_physical access = variable_text v) (sn_guidance_variables sc) of
        None \<Rightarrow> ok ()
      | Some v \<Rightarrow>
          and_then (gets (\<lambda>s. me_guidance_writes (ms_evidence s))) (\<lambda>writes.
          if list_ex (\<lambda>w. gw_name w = gv_name v) writes then ok ()
          else and_then (milestone_at (''write '' @ gv_name v) e (me_physical access)) (\<lambda>m.
            change_evidence (me_guidance_writes_update (\<lambda>ws. ws @
              [\<lparr>gw_name = gv_name v, gw_bank = gv_bank v, gw_offset = gv_offset v,
                gw_value = me_value access, gw_milestone = m\<rparr>])))))"

definition observe_writes :: "mission_scenario \<Rightarrow> trace_event \<Rightarrow> unit mission" where
  "observe_writes sc e =
     and_then (gets (\<lambda>s. me_p63lm_entry (ms_evidence s))) (\<lambda>entry.
     if entry = None then ok ()
     else for_each (filter (\<lambda>a. me_kind a = ''write'') (te_memory e)) (observe_write sc e))"

definition observe_evidence :: "mission_scenario \<Rightarrow> trace_event \<Rightarrow> unit mission" where
  "observe_evidence sc e =
     seq (observe_keyrupt e)
    (seq (observe_charin e)
    (seq (observe_program e)
    (seq (observe_entries sc e)
    (observe_writes sc e))))"

section \<open>The run\<close>

definition apply_initialization :: "erasable_initialization \<Rightarrow> unit mission" where
  "apply_initialization i =
     and_then (on_mission_memory (read_erasable_physical (ei_bank i) (ei_offset i))) (\<lambda>r.
     case r of
       None \<Rightarrow> fail (MissionScenarioError (InitializationAddress (ei_symbol i) (ei_bank i) (ei_offset i)))
     | Some previous \<Rightarrow>
         seq (on_mission_memory (write_erasable_physical (ei_bank i) (ei_offset i) (ei_value i)))
        (change_evidence (me_initialization_update (\<lambda>xs. xs @
          [\<lparr>ai_symbol = ei_symbol i, ai_bank = ei_bank i, ai_offset = ei_offset i,
            ai_previous_value = previous, ai_configured_value = ei_value i,
            ai_provenance = ei_provenance i, ai_rationale = ei_rationale i\<rparr>]))))"

definition note_key :: "u8 \<Rightarrow> nat \<Rightarrow> nat \<Rightarrow> unit mission" where
  "note_key code n cycle = change_evidence (me_keys_update (\<lambda>ks. ks @
     [\<lparr>ke_code = code, ke_requested_instruction = n, ke_requested_cycle = cycle, ke_keyrupt = None, ke_charin = None\<rparr>]))"

definition mission_schedule :: "runtime_event \<Rightarrow> unit mission" where
  "mission_schedule ev =
     and_then (gets cycles_done) (\<lambda>now. and_then (on_runtime (schedule now ev)) (\<lambda>_. ok ()))"

fun deliver_inputs :: "nat \<Rightarrow> mission_input list \<Rightarrow> unit mission" where
  "deliver_inputs n [] = modify (ms_inputs_update (\<lambda>_. []))"
| "deliver_inputs n (i # is) =
     (if mi_instruction i \<le> n
      then seq (case mi_event i of
              DskyKey code \<Rightarrow> and_then (gets cycles_done) (\<lambda>cycle. note_key code n cycle)
            | _ \<Rightarrow> ok ())
          (seq (mission_schedule (mi_event i)) (deliver_inputs n is))
      else modify (ms_inputs_update (\<lambda>_. i # is)))"

definition key_done :: "key_evidence \<Rightarrow> bool" where
  "key_done k \<longleftrightarrow> ke_keyrupt k \<noteq> None \<and> ke_charin k \<noteq> None"

definition key_due :: "dsky_sequence \<Rightarrow> mission_state \<Rightarrow> bool" where
  "key_due q s \<longleftrightarrow> ms_dsky_index s < length (dk_keys q) \<and> ms_next_dsky_cycle s \<le> cycles_done s
     \<and> (me_keys (ms_evidence s) = [] \<or> key_done (last (me_keys (ms_evidence s))))"

definition deliver_key :: "mission_scenario \<Rightarrow> nat \<Rightarrow> unit mission" where
  "deliver_key sc n = (case sn_dsky_sequence sc of
       None \<Rightarrow> ok ()
     | Some q \<Rightarrow>
         and_then (gets (key_due q)) (\<lambda>due.
         if \<not> due then ok ()
         else and_then (gets ms_dsky_index) (\<lambda>i.
           and_then (gets cycles_done) (\<lambda>cycle.
           seq (note_key (dk_keys q ! i) n cycle)
          (seq (mission_schedule (DskyKey (dk_keys q ! i)))
          (seq (modify (ms_dsky_index_update Suc))
          (modify (ms_next_dsky_cycle_update (\<lambda>_. cycle + dk_minimum_gap_cycles q)))))))))"

definition has_frame :: "nat \<Rightarrow> mission_frame list \<Rightarrow> bool" where
  "has_frame n frames \<longleftrightarrow> frames \<noteq> [] \<and> mf_instruction (last frames) = n"

definition push_frame :: "mission_scenario \<Rightarrow> unit mission" where
  "push_frame sc = and_then (frame_now sc) (\<lambda>f. modify (ms_frames_update (\<lambda>fs. fs @ [f])))"

definition sample_frame :: "mission_scenario \<Rightarrow> unit mission" where
  "sample_frame sc =
     and_then (gets (\<lambda>s. instructions_done s mod sn_frame_interval sc = 0
         \<and> \<not> has_frame (instructions_done s) (ms_frames s))) (\<lambda>b.
     when_do b (push_frame sc))"

definition mission_round :: "mission_scenario \<Rightarrow> unit mission" where
  "mission_round sc =
     and_then (gets instructions_done) (\<lambda>n.
     and_then (gets ms_inputs) (\<lambda>inputs.
     seq (deliver_inputs n inputs)
    (seq (deliver_key sc n)
    (and_then (on_faults fault_step) (\<lambda>outcome.
     seq (modify (ms_controller_update (mn_dsky_update (consume_trace (so_trace outcome)))))
    (seq (observe_evidence sc (so_trace outcome))
    (sample_frame sc)))))))"

text \<open>
  A step that takes an interrupt commits no instruction and is followed by one that does, so twice
  the limit bounds the rounds.
\<close>

fun mission_rounds :: "nat \<Rightarrow> mission_scenario \<Rightarrow> unit mission" where
  "mission_rounds 0 sc = panic"
| "mission_rounds (Suc fuel) sc =
     and_then (gets instructions_done) (\<lambda>n.
     if n < sn_instruction_limit sc then seq (mission_round sc) (mission_rounds fuel sc) else ok ())"

definition final_frame :: "mission_scenario \<Rightarrow> unit mission" where
  "final_frame sc =
     and_then (gets (\<lambda>s. \<not> has_frame (instructions_done s) (ms_frames s))) (\<lambda>b. when_do b (push_frame sc))"

definition change_of ::
  "(string, agc_word) btree_map \<Rightarrow> (string, agc_word) btree_map \<Rightarrow> guidance_variable \<Rightarrow> guidance_change option" where
  "change_of at_entry at_end v = (case (btree_get (gv_name v) at_entry, btree_get (gv_name v) at_end) of
       (Some a, Some b) \<Rightarrow>
         if a \<noteq> b
         then Some \<lparr>gc_name = gv_name v, gc_bank = gv_bank v, gc_offset = gv_offset v,
                    gc_at_p63_entry = a, gc_final_value = b\<rparr>
         else None
     | _ \<Rightarrow> None)"

definition finish_changes :: "mission_scenario \<Rightarrow> unit mission" where
  "finish_changes sc =
     and_then (gets ms_entry_values) (\<lambda>entry. case entry of
       None \<Rightarrow> ok ()
     | Some at_entry \<Rightarrow>
         and_then (guidance_values sc) (\<lambda>at_end.
         change_evidence (me_guidance_changes_update
           (\<lambda>_. List.map_filter (change_of at_entry at_end) (sn_guidance_variables sc)))))"

definition finish_model :: "unit mission" where
  "finish_model =
     seq (change_evidence (\<lambda>e. e\<lparr>me_keyboard_sequence_verified :=
        me_keys e \<noteq> [] \<and> list_all key_done (me_keys e)\<rparr>))
    (and_then (gets ms_model) (\<lambda>model.
     seq (change_evidence (me_pinball_reconstruction_update (\<lambda>_. model)))
    (and_then (case model of
        None \<Rightarrow> ok False
      | Some v \<Rightarrow> (case program_register v of
          None \<Rightarrow> ok False
        | Some p \<Rightarrow> and_then modreg (\<lambda>w. ok (w = expect_word (ucast p))))) (\<lambda>same.
     change_evidence (me_pinball_reconstruction_matches_rope_update (\<lambda>_. same))))))"

definition finish_verdicts :: "mission_evidence \<Rightarrow> mission_evidence" where
  "finish_verdicts e =
     (let same = matches_rope_writes luminary099 (me_guidance_writes e)
      in e\<lparr>me_verified_p63_request := me_keyboard_sequence_verified e \<and> me_pinball_reconstruction_matches_rope e
              \<and> me_program_63_selected e \<noteq> None \<and> me_p63lm_entry e \<noteq> None,
           me_p63_initialization_matches_rope := same,
           me_p63_initialization := Some luminary099,
           me_landing_guidance_started := same \<and> list_all (\<lambda>name.
             list_ex (\<lambda>w. gw_name w = name) (me_guidance_writes e)) P63_INITIALIZATION_WORDS\<rparr>)"

definition report_run :: "mission_scenario \<Rightarrow> mission_state \<Rightarrow> mission_result" where
  "report_run sc s =
     \<lparr>mr_scenario = sn_name sc, mr_frames = ms_frames s, mr_final_dsky = mn_dsky (ms_controller s),
      mr_instructions = instructions_done s, mr_cycles = cycles_done s,
      mr_faults_applied = length (applied (engine (the_campaign s))),
      mr_applied_faults = applied (engine (the_campaign s)), mr_evidence = ms_evidence s\<rparr>"

definition mission_body :: "mission_scenario \<Rightarrow> mission_result mission" where
  "mission_body sc =
     and_then (of_result (validate_scenario sc)) (\<lambda>_.
     and_then (gets instructions_done) (\<lambda>n.
     if sn_initialization sc \<noteq> [] \<and> n \<noteq> 0 then fail (MissionScenarioError LateInitialization)
     else
       seq (modify (\<lambda>s. set_runtime (set_observer (sn_observer sc) (the_runtime s)) s))
      (seq (for_each (sn_initialization sc) apply_initialization)
      (seq (mission_rounds (2 * sn_instruction_limit sc + 2) sc)
      (seq (final_frame sc)
      (seq (finish_changes sc)
      (seq finish_model
      (seq (change_evidence finish_verdicts)
      (gets (report_run sc))))))))))"

definition mission_start :: "mission_scenario \<Rightarrow> mission_controller \<Rightarrow> mission_state" where
  "mission_start sc c =
     \<lparr>ms_controller = c, ms_inputs = sn_inputs sc, ms_dsky_index = 0,
      ms_next_dsky_cycle = (case sn_dsky_sequence sc of None \<Rightarrow> U64_MAX | Some q \<Rightarrow> dk_start_cycle q),
      ms_frames = [], ms_evidence = no_evidence, ms_entry_values = None,
      ms_model = (case sn_dsky_sequence sc of
          None \<Rightarrow> None | Some q \<Rightarrow> if dk_keys q = V37E63E then Some v37_default else None)\<rparr>"

definition mission_run :: "mission_scenario \<Rightarrow> (mission_controller, mission_error, mission_result) prog" where
  "mission_run sc = (\<lambda>c. case mission_body sc (mission_start sc c) of
       None \<Rightarrow> None
     | Some (r, s) \<Rightarrow> Some (r, ms_controller s))"

definition compare_missions :: "mission_controller \<Rightarrow> mission_controller \<Rightarrow> validation_report" where
  "compare_missions left right =
     compare_traces (trace (rt_cpu (target (mn_campaign left)))) (trace (rt_cpu (target (mn_campaign right))))"

end
