(* ===== verification/Agc_Mission_Steps.thy ===== *)
theory Agc_Mission_Steps
  imports Agc_Mission Agc_Faults_Laws Agc_Dsky_Laws
begin

text \<open>
  Laws of one round of a mission: what it reads of the machine as functions of the state, the keys
  in step with the reconstruction of \<open>V37\<close>, and the delivery of inputs and keys.
\<close>

section \<open>Reading the machine\<close>

text \<open>What a run reads of the machine, as functions of the state.\<close>

definition machine_ok :: "mission_state \<Rightarrow> bool" where
  "machine_ok s \<longleftrightarrow> cpu_ok (rt_cpu (the_runtime s))"

definition word_in :: "mission_state \<Rightarrow> u8 \<Rightarrow> u16 \<Rightarrow> agc_word" where
  "word_in s b f = value_at (cpu_memory (rt_cpu (the_runtime s))) (locate (Erasable b f))"

definition variables_sound :: "guidance_variable list \<Rightarrow> bool" where
  "variables_sound vs \<longleftrightarrow> list_all (\<lambda>v. unat (gv_bank v) < 8 \<and> unat (gv_offset v) < 256) vs"

definition observer_sound :: "observer_state \<Rightarrow> bool" where
  "observer_sound obs \<longleftrightarrow>
     list_all (\<lambda>s. unat (es_address_word s) < 4096 \<and> unat (es_priority_word s) < 4096) (executive_slots obs)
   \<and> list_all (\<lambda>s. unat (ws_delay_word s) < 4096 \<and> unat (ws_task_word s) < 4096) (waitlist_slots obs)"

lemma set_same: "set_campaign (the_campaign s) s = s" "set_runtime (the_runtime s) s = s"
  "set_runtime ((the_runtime s)\<lparr>rt_cpu := rt_cpu (the_runtime s)\<rparr>) s = s"
  by (simp_all add: set_runtime_def set_campaign_def the_campaign_def the_runtime_def)

lemma machine_memory: "machine_ok s \<Longrightarrow> mem_ok (cpu_memory (rt_cpu (the_runtime s)))"
  by (simp add: machine_ok_def cpu_ok_memory)

lemma runs_read_word:
  assumes "machine_ok s"
  shows "runs (on_mission_memory (read_erasable_physical b f)) s Q E
     = Q (if unat b < 8 \<and> unat f < 256 then Some (word_in s b f) else None) s"
  unfolding on_mission_memory_def on_mission_cpu_def runs_zoom
  by (simp add: runs_read_erasable_physical [OF machine_memory [OF assms]] word_in_def set_same)

definition values_of :: "mission_state \<Rightarrow> guidance_variable list \<Rightarrow> (string, agc_word) btree_map" where
  "values_of s vs = fold (\<lambda>v. btree_insert (gv_name v) (word_in s (gv_bank v) (gv_offset v))) vs []"

lemma runs_values_from:
  "machine_ok s \<Longrightarrow> variables_sound vs \<Longrightarrow> runs (guidance_values_from vs found) s Q E
     = Q (fold (\<lambda>v. btree_insert (gv_name v) (word_in s (gv_bank v) (gv_offset v))) vs found) s"
  by (induction vs arbitrary: found) (simp_all add: runs_read_word variables_sound_def)

lemma runs_guidance_values:
  "machine_ok s \<Longrightarrow> variables_sound (sn_guidance_variables sc) \<Longrightarrow>
   runs (guidance_values sc) s Q E = Q (values_of s (sn_guidance_variables sc)) s"
  by (simp add: guidance_values_def runs_values_from values_of_def)

definition register_in :: "mission_state \<Rightarrow> nat \<Rightarrow> u16" where
  "register_in s i = reg_raw (AgcRegister (central (cpu_memory (rt_cpu (the_runtime s))) ! i))"

lemma runs_mission_register:
  assumes "machine_ok s" "unat i < 16"
  shows "runs (mission_register i) s Q E = Q (register_in s (unat i)) s"
  unfolding mission_register_def on_mission_cpu_def try_memory_def runs_and_then runs_zoom
  using assms(2) by (simp add: runs_central_register [OF machine_memory [OF assms(1)]] register_in_def set_same)

lemma runs_counter:
  assumes "machine_ok s"
  shows "runs (on_mission_cpu MissionCpu program_counter) s Q E = Q (register_in s 5 AND 0xFFF) s"
  unfolding on_mission_cpu_def program_counter_def cpu_register_def in_memory_def runs_and_then runs_zoom runs_expect
  by (simp add: runs_central_register [OF machine_memory [OF assms]] register_in_def set_same)

definition jobs_in :: "mission_state \<Rightarrow> executive_slot list \<Rightarrow> executive_job list" where
  "jobs_in s slots = map (\<lambda>x. \<lparr>ej_slot = es_slot x,
      ej_entry = raw (word_read (rt_cpu (the_runtime s)) (es_address_word x)) AND 0xFFF,
      ej_priority = word_read (rt_cpu (the_runtime s)) (es_priority_word x)\<rparr>)
    (filter (\<lambda>x. \<not> is_zero (word_read (rt_cpu (the_runtime s)) (es_address_word x))) slots)"

definition tasks_in :: "mission_state \<Rightarrow> waitlist_slot list \<Rightarrow> waitlist_task list" where
  "tasks_in s slots = map (\<lambda>x. \<lparr>wt_slot = ws_slot x, wt_delay = word_read (rt_cpu (the_runtime s)) (ws_delay_word x),
      wt_entry = raw (word_read (rt_cpu (the_runtime s)) (ws_task_word x)) AND 0xFFF\<rparr>)
    (filter (\<lambda>x. \<not> is_zero (word_read (rt_cpu (the_runtime s)) (ws_task_word x))) slots)"

lemma runs_observed:
  assumes "machine_ok s" "observer_sound obs"
  shows "runs (on_mission_cpu MissionRuntime (executive_jobs (executive_slots obs))) s Q E = Q (jobs_in s (executive_slots obs)) s"
    "runs (on_mission_cpu MissionRuntime (waitlist_tasks (waitlist_slots obs))) s Q' E' = Q' (tasks_in s (waitlist_slots obs)) s"
proof -
  have "x \<in> set (executive_slots obs) \<Longrightarrow> unat (es_address_word x) < 4096 \<and> unat (es_priority_word x) < 4096"
    "y \<in> set (waitlist_slots obs) \<Longrightarrow> unat (ws_delay_word y) < 4096 \<and> unat (ws_task_word y) < 4096" for x y
    using assms(2) by (auto simp: observer_sound_def list_all_iff)
  then show "runs (on_mission_cpu MissionRuntime (executive_jobs (executive_slots obs))) s Q E = Q (jobs_in s (executive_slots obs)) s"
    "runs (on_mission_cpu MissionRuntime (waitlist_tasks (waitlist_slots obs))) s Q' E' = Q' (tasks_in s (waitlist_slots obs)) s"
    unfolding on_mission_cpu_def runs_zoom
    by (subst run_executive_jobs [OF machine_memory [OF assms(1)]] run_waitlist_tasks [OF machine_memory [OF assms(1)]];
        simp add: jobs_in_def tasks_in_def set_same)+
qed

definition frame_of :: "mission_scenario \<Rightarrow> mission_state \<Rightarrow> mission_frame" where
  "frame_of sc s =
     \<lparr>mf_instruction = instructions_done s, mf_cycle = cycles_done s, mf_pc = register_in s 5 AND 0xFFF,
      mf_a = register_in s 0, mf_l = register_in s 1, mf_q = register_in s 2, mf_eb = register_in s 3,
      mf_fb = register_in s 4, mf_dsky = mn_dsky (ms_controller s),
      mf_guidance = values_of s (sn_guidance_variables sc),
      mf_executive = jobs_in s (executive_slots (sn_observer sc)),
      mf_waitlist = tasks_in s (waitlist_slots (sn_observer sc)), mf_hardware = hardware (the_runtime s)\<rparr>"

text \<open>The scenario suits the machine: what it reads exists.\<close>

definition reads_ok :: "mission_scenario \<Rightarrow> mission_state \<Rightarrow> bool" where
  "reads_ok sc s \<longleftrightarrow> machine_ok s \<and> observer (the_runtime s) = sn_observer sc
     \<and> variables_sound (sn_guidance_variables sc) \<and> observer_sound (sn_observer sc)"

lemma runs_frame_now: "reads_ok sc s \<Longrightarrow> runs (frame_now sc) s Q E = Q (frame_of sc s) s"
  unfolding frame_now_def reads_ok_def
  by (elim conjE) (simp add: runs_guidance_values runs_counter runs_mission_register runs_observed frame_of_def)

lemma runs_milestone:
  "runs (milestone_at n e x) s Q E = Q \<lparr>mm_name = n, mm_trace_sequence = te_sequence e, mm_instruction = instructions_done s,
     mm_cycle = te_cycle_end e, mm_pc = te_pc e, mm_physical = x\<rparr> s"
  by (simp add: milestone_at_def)

lemma runs_modreg: "machine_ok s \<Longrightarrow> runs modreg s Q E = Q (Some (word_in s 2 9)) s"
  by (simp add: modreg_def runs_read_word)

section \<open>The keys of a scenario\<close>

definition operator_only :: "mission_scenario \<Rightarrow> bool" where
  "operator_only sc \<longleftrightarrow> list_all (\<lambda>i. case mi_event i of DskyKey c \<Rightarrow> False | _ \<Rightarrow> True) (sn_inputs sc)"

definition accepted_codes :: "key_evidence list \<Rightarrow> u8 list" where
  "accepted_codes ks = map ke_code (filter (\<lambda>k. ke_charin k \<noteq> None) ks)"

text \<open>
  Every key but perhaps the last has been accepted, the keys are those of the sequence so far, and
  the reconstruction is what the accepted ones make of it.
\<close>

definition keys_in_step :: "mission_state \<Rightarrow> v37_program_change \<Rightarrow> bool" where
  "keys_in_step s v \<longleftrightarrow>
     map ke_code (me_keys (ms_evidence s)) = take (ms_dsky_index s) V37E63E
   \<and> list_all key_done (butlast (me_keys (ms_evidence s)))
   \<and> type_codes (accepted_codes (me_keys (ms_evidence s))) v37_default = Some (Inr (), v)"

definition protocol_ok :: "mission_scenario \<Rightarrow> mission_state \<Rightarrow> bool" where
  "protocol_ok sc s \<longleftrightarrow> (case ms_model s of
       None \<Rightarrow> True
     | Some v \<Rightarrow> (\<exists>q. sn_dsky_sequence sc = Some q \<and> dk_keys q = V37E63E) \<and> (operator_only sc \<longrightarrow> keys_in_step s v))"

lemma update_first_last:
  "ks \<noteq> [] \<Longrightarrow> list_all (\<lambda>k. \<not> P k) (butlast ks) \<Longrightarrow>
   update_first P f ks = butlast ks @ [if P (last ks) then f (last ks) else last ks]"
  by (induction ks) auto

lemma last_replaced:
  assumes "ks \<noteq> []"
  shows "map ke_code (butlast ks) @ [ke_code (last ks)] = map ke_code ks"
    "ke_code k = ke_code (last ks) \<Longrightarrow> ke_charin k = ke_charin (last ks) \<Longrightarrow> accepted_codes (butlast ks @ [k]) = accepted_codes ks"
  using assms by (cases ks rule: rev_cases; simp add: accepted_codes_def)+

lemma find_last:
  "list_all (\<lambda>k. \<not> P k) (butlast ks) \<Longrightarrow> find P ks = (if ks \<noteq> [] \<and> P (last ks) then Some (last ks) else None)"
  by (induction ks) auto

lemma V37E63E_accepted: "\<exists>v. type_codes (take n V37E63E) v37_default = Some (Inr (), v)"
proof -
  have "\<exists>v. type_codes cs v37_default = Some (Inr (), v)" if "type_codes (cs @ ds) v37_default = Some (Inr (), w)" for cs ds w
    using that
  proof (induction ds arbitrary: w rule: rev_induct)
    case (snoc d ds)
    then show ?case
      unfolding append_assoc [symmetric] type_codes_snoc by (auto split: option.splits sum.splits)
  qed auto
  moreover obtain w where "type_codes V37E63E v37_default = Some (Inr (), w)"
    unfolding V37E63E_def by (simp add: type_codes_def accept_code_def accept_def next_state_def run_simps v37_default_def
        decimal_pair_def key_from_code_def)
  ultimately show ?thesis by (metis append_take_drop_id)
qed

lemma accept_next:
  assumes "type_codes cs v37_default = Some (Inr (), v)" "cs @ [c] = take n V37E63E"
  obtains q v' where "accept_code c v = Some (Inr q, v')" "type_codes (cs @ [c]) v37_default = Some (Inr (), v')"
proof -
  obtain v' where "type_codes (cs @ [c]) v37_default = Some (Inr (), v')" using V37E63E_accepted [of n] assms(2) by auto
  then show thesis using that assms(1) by (auto simp: type_codes_snoc split: option.splits sum.splits)
qed

text \<open>Observing a step changes nothing but the evidence, the entry values and the reconstruction.\<close>

definition only_evidence :: "mission_state \<Rightarrow> mission_state \<Rightarrow> bool" where
  "only_evidence s t \<longleftrightarrow> ms_controller t = ms_controller s \<and> ms_inputs t = ms_inputs s \<and> ms_dsky_index t = ms_dsky_index s
     \<and> ms_next_dsky_cycle t = ms_next_dsky_cycle s \<and> ms_frames t = ms_frames s"

lemma only_evidence_refl [simp]: "only_evidence s s"
  by (simp add: only_evidence_def)

lemma only_evidence_trans: "only_evidence s t \<Longrightarrow> only_evidence t u \<Longrightarrow> only_evidence s u"
  by (simp add: only_evidence_def)

lemma only_evidence_reads: "only_evidence s t \<Longrightarrow> reads_ok sc t = reads_ok sc s"
  by (simp add: only_evidence_def reads_ok_def machine_ok_def the_runtime_def the_campaign_def)

definition rejects :: "mission_scenario \<Rightarrow> mission_error \<Rightarrow> bool" where
  "rejects sc x \<longleftrightarrow> \<not> operator_only sc \<and> (\<exists>p. x = MissionScenarioError (RejectedKey p))"

definition observes :: "mission_scenario \<Rightarrow> unit mission \<Rightarrow> bool" where
  "observes sc m \<longleftrightarrow> (\<forall>s. reads_ok sc s \<longrightarrow> protocol_ok sc s \<longrightarrow>
     runs m s (\<lambda>_ t. only_evidence s t \<and> protocol_ok sc t) (\<lambda>x _. rejects sc x))"

lemma observesI:
  "(\<And>s. reads_ok sc s \<Longrightarrow> protocol_ok sc s \<Longrightarrow> runs m s (\<lambda>_ t. only_evidence s t \<and> protocol_ok sc t) (\<lambda>x _. rejects sc x))
   \<Longrightarrow> observes sc m"
  by (simp add: observes_def)

lemma observes_seq: "observes sc m \<Longrightarrow> observes sc n \<Longrightarrow> observes sc (seq m n)"
proof (rule observesI)
  fix s
  assume m: "observes sc m" and n: "observes sc n" and s: "reads_ok sc s" "protocol_ok sc s"
  have "runs m s (\<lambda>_ t. only_evidence s t \<and> protocol_ok sc t) (\<lambda>x _. rejects sc x)"
    using m s by (simp add: observes_def)
  then show "runs (seq m n) s (\<lambda>_ t. only_evidence s t \<and> protocol_ok sc t) (\<lambda>x _. rejects sc x)"
    unfolding runs_and_then
  proof (rule runs_mono)
    fix t
    assume t: "only_evidence s t \<and> protocol_ok sc t"
    then have "runs n t (\<lambda>_ u. only_evidence t u \<and> protocol_ok sc u) (\<lambda>x _. rejects sc x)"
      using n s by (simp add: observes_def only_evidence_reads [of s t])
    then show "runs n t (\<lambda>_ u. only_evidence s u \<and> protocol_ok sc u) (\<lambda>x _. rejects sc x)"
      by (rule runs_mono) (use t in \<open>auto intro: only_evidence_trans\<close>)
  qed
qed

lemma observes_ok: "observes sc (ok ())"
  by (simp add: observes_def)

lemma observes_for_each: "(\<And>x. observes sc (f x)) \<Longrightarrow> observes sc (for_each xs f)"
  by (induction xs) (simp_all add: observes_ok observes_seq)

lemma key_done_waits: "key_done k \<Longrightarrow> \<not> waits_for_keyrupt k \<and> \<not> waits_for_charin k"
  by (auto simp: key_done_def waits_for_keyrupt_def waits_for_charin_def)

lemma runs_change_evidence: "runs (change_evidence f) s Q E = Q () (s\<lparr>ms_evidence := f (ms_evidence s)\<rparr>)"
  by (cases s) (simp add: change_evidence_def)

lemma accept_total: "accept_code c v \<noteq> None"
proof -
  have "accept k v \<noteq> None" for k using accept_effect [where s = v and k = k] by (cases "accept k v") simp_all
  then show ?thesis by (simp add: accept_code_def run_simps split: sum.split)
qed

lemma observes_keyrupt: "observes sc (observe_keyrupt e)"
proof (rule observesI)
  fix s
  assume s: "protocol_ok sc s"
  have step: "protocol_ok sc (s\<lparr>ms_evidence := me_keys_update (update_first waits_for_keyrupt (ke_keyrupt_update (\<lambda>_. Some m))) (ms_evidence s)\<rparr>)" for m
  proof (cases "me_keys (ms_evidence s) = []")
    case True
    then show ?thesis using s by (simp add: protocol_ok_def keys_in_step_def split: option.splits)
  next
    case False
    note codes = last_replaced [OF False]
    show ?thesis
    proof (cases "\<exists>v. ms_model s = Some v \<and> operator_only sc")
      case True
      then have "list_all key_done (butlast (me_keys (ms_evidence s)))"
        using s by (auto simp: protocol_ok_def keys_in_step_def split: option.splits)
      then have "list_all (\<lambda>k. \<not> waits_for_keyrupt k) (butlast (me_keys (ms_evidence s)))"
        by (auto simp: list_all_iff key_done_waits)
      then show ?thesis using s False
        by (auto simp: protocol_ok_def keys_in_step_def update_first_last codes butlast_append split: option.splits)
    next
      case False
      then show ?thesis using s by (auto simp: protocol_ok_def split: option.splits)
    qed
  qed
  show "runs (observe_keyrupt e) s (\<lambda>_ t. only_evidence s t \<and> protocol_ok sc t) (\<lambda>x _. rejects sc x)"
    unfolding observe_keyrupt_def
    using s step by (cases "keyrupt_vector (te_interrupts e)") (simp_all add: runs_milestone runs_change_evidence only_evidence_def)
qed

lemma feed_next:
  assumes "ms_model s = Some v" "accept_code c v = Some (Inr q, v')"
  shows "runs (feed_model c) s Q E = Q () (s\<lparr>ms_model := Some v'\<rparr>)"
  using assms by (simp add: feed_model_def)

lemma accepted_last:
  "list_all key_done (butlast ks) \<Longrightarrow> ks \<noteq> [] \<Longrightarrow> ke_charin (last ks) = None \<Longrightarrow>
   accepted_codes ks = map ke_code (butlast ks)"
proof (cases ks rule: rev_cases)
  case (snoc ys y)
  moreover assume "list_all key_done (butlast ks)" "ke_charin (last ks) = None"
  ultimately show ?thesis by (auto simp: accepted_codes_def key_done_def list_all_iff intro: filter_True)
qed simp

text \<open>A key that reaches \<open>CHARIN\<close> is the last one, and the reconstruction accepts it.\<close>

lemma charin_accepted:
  assumes "keys_in_step s v" "ms_model s = Some v" "find waits_for_charin (me_keys (ms_evidence s)) = Some k"
  obtains q v' where "accept_code (ke_code k) v = Some (Inr q, v')"
    "keys_in_step (s\<lparr>ms_evidence := me_keys_update (update_first waits_for_charin (ke_charin_update (\<lambda>_. Some m))) (ms_evidence s),
        ms_model := Some v'\<rparr>) v'"
proof -
  define ks where "ks = me_keys (ms_evidence s)"
  have done_keys: "list_all key_done (butlast ks)" and codes: "map ke_code ks = take (ms_dsky_index s) V37E63E"
    and typed: "type_codes (accepted_codes ks) v37_default = Some (Inr (), v)"
    using assms(1) by (simp_all add: keys_in_step_def ks_def)
  have none: "list_all (\<lambda>k. \<not> waits_for_charin k) (butlast ks)"
    using done_keys by (auto simp: list_all_iff key_done_waits)
  then have k: "ks \<noteq> []" "waits_for_charin (last ks)" "k = last ks"
    using assms(3) find_last [OF none] by (auto simp: ks_def split: if_splits)
  have "accepted_codes ks = map ke_code (butlast ks)"
    using accepted_last [OF done_keys k(1)] k(2) by (simp add: waits_for_charin_def)
  moreover have "map ke_code (butlast ks) @ [ke_code k] = take (ms_dsky_index s) V37E63E"
    using last_replaced(1) [OF k(1)] codes k(3) by simp
  ultimately obtain q v' where v': "accept_code (ke_code k) v = Some (Inr q, v')"
      "type_codes (map ke_code (butlast ks) @ [ke_code k]) v37_default = Some (Inr (), v')"
    using accept_next [OF typed] by metis
  define new where "new = update_first waits_for_charin (ke_charin_update (\<lambda>_. Some m)) ks"
  have new: "new = butlast ks @ [last ks\<lparr>ke_charin := Some m\<rparr>]"
    using update_first_last [OF k(1) none, of "ke_charin_update (\<lambda>_. Some m)"] k(2) by (cases "last ks") (simp add: new_def)
  have "\<forall>x\<in>set (butlast ks). ke_charin x \<noteq> None" using done_keys by (auto simp: list_all_iff key_done_def)
  then have "accepted_codes new = map ke_code (butlast ks) @ [ke_code k]"
    by (simp add: new accepted_codes_def k(3) filter_id_conv)
  moreover have "map ke_code new = take (ms_dsky_index s) V37E63E"
    using codes last_replaced(1) [OF k(1)] by (simp add: new)
  ultimately show thesis
    using that [of q v'] v' done_keys by (simp add: keys_in_step_def new flip: ks_def new_def)
qed

lemma observes_charin: "observes sc (observe_charin e)"
proof (rule observesI)
  fix s
  assume s: "protocol_ok sc s"
  show "runs (observe_charin e) s (\<lambda>_ t. only_evidence s t \<and> protocol_ok sc t) (\<lambda>x _. rejects sc x)"
  proof (cases "first_physical e = ''F40:0077''")
    case False
    then show ?thesis using s by (simp add: observe_charin_def)
  next
    case True
    show ?thesis
    proof (cases "find waits_for_charin (me_keys (ms_evidence s))")
      case None
      then show ?thesis using s by (simp add: observe_charin_def)
    next
      case (Some k)
      define m where "m = \<lparr>mm_name = ''CHARIN'', mm_trace_sequence = te_sequence e, mm_instruction = instructions_done s,
        mm_cycle = te_cycle_end e, mm_pc = te_pc e, mm_physical = first_physical e\<rparr>"
      define t where "t = s\<lparr>ms_evidence := me_keys_update (update_first waits_for_charin (ke_charin_update (\<lambda>_. Some m))) (ms_evidence s)\<rparr>"
      have run: "runs (observe_charin e) s Q E = runs (feed_model (ke_code k)) t Q E" for Q E
        using True Some by (simp add: observe_charin_def milestone_def runs_milestone m_def t_def runs_change_evidence)
      have t: "ms_model t = ms_model s" "only_evidence s t" by (simp_all add: t_def only_evidence_def)
      show ?thesis
      proof (cases "ms_model s")
        case None
        then show ?thesis unfolding run using t by (simp add: feed_model_def protocol_ok_def)
      next
        case model: (Some v)
        show ?thesis
        proof (cases "operator_only sc")
          case True
          then have "keys_in_step s v" using s model by (simp add: protocol_ok_def)
          from charin_accepted [OF this model Some] obtain q v' where v': "accept_code (ke_code k) v = Some (Inr q, v')"
            "keys_in_step (t\<lparr>ms_model := Some v'\<rparr>) v'" by (metis t_def mission_state.simps)
          then show ?thesis unfolding run using s model t
            by (simp add: feed_next only_evidence_def protocol_ok_def)
        next
          case False
          then show ?thesis unfolding run using s model t
            by (auto simp: feed_model_def rejects_def only_evidence_def protocol_ok_def accept_total split: option.splits sum.splits)
        qed
      qed
    qed
  qed
qed

lemma protocol_evidence:
  "me_keys e = me_keys (ms_evidence s) \<Longrightarrow> protocol_ok sc (s\<lparr>ms_evidence := e\<rparr>) = protocol_ok sc s"
  by (simp add: protocol_ok_def keys_in_step_def split: option.splits)

lemma protocol_entry: "protocol_ok sc (ms_entry_values_update f s) = protocol_ok sc s"
  by (simp add: protocol_ok_def keys_in_step_def split: option.splits)

lemma observes_change:
  "(\<And>e. me_keys (f e) = me_keys e) \<Longrightarrow> observes sc (change_evidence f)"
  by (simp add: observes_def runs_change_evidence only_evidence_def protocol_evidence)

lemma observes_get: "(\<And>x. observes sc (g x)) \<Longrightarrow> observes sc (and_then (gets f) g)"
  by (simp add: observes_def)

lemma observes_milestone: "(\<And>m. observes sc (g m)) \<Longrightarrow> observes sc (and_then (milestone_at n e x) g)"
  by (simp add: observes_def runs_milestone)

lemma observes_if: "(b \<Longrightarrow> observes sc m) \<Longrightarrow> (\<not> b \<Longrightarrow> observes sc n) \<Longrightarrow> observes sc (if b then m else n)"
  by simp

lemmas observe_rules = observes_if observes_get observes_milestone observes_ok observes_seq observes_change

lemma observes_program: "observes sc (observe_program e)"
proof -
  have reading: "observes sc (and_then modreg g)" if "\<And>w. observes sc (g w)" for g
    using that by (simp add: observes_def reads_ok_def runs_modreg)
  show ?thesis
    unfolding observe_program_def milestone_def by (intro observe_rules reading) simp_all
qed

lemma observes_entries: "observes sc (observe_entries sc e)"
proof -
  have values_read: "observes sc (and_then (guidance_values sc) (\<lambda>vs. modify (ms_entry_values_update (\<lambda>_. Some vs))))"
    by (simp add: observes_def reads_ok_def runs_guidance_values only_evidence_def protocol_entry)
  show ?thesis
    unfolding observe_entries_def milestone_def by (intro observe_rules values_read) simp_all
qed

lemma observes_writes: "observes sc (observe_writes sc e)"
proof -
  have "observes sc (observe_write sc e a)" for a
    unfolding observe_write_def by (auto split: option.split intro!: observe_rules)
  then show ?thesis
    unfolding observe_writes_def by (intro observe_rules observes_for_each)
qed

lemma observes_evidence: "observes sc (observe_evidence sc e)"
  unfolding observe_evidence_def
  by (intro observes_seq observes_keyrupt observes_charin observes_program observes_entries observes_writes)

section \<open>A round\<close>

definition keys_left :: "mission_scenario \<Rightarrow> mission_state \<Rightarrow> nat" where
  "keys_left sc s = (case sn_dsky_sequence sc of None \<Rightarrow> 0 | Some q \<Rightarrow> length (dk_keys q) - ms_dsky_index s)"

definition scenario_sound :: "mission_scenario \<Rightarrow> bool" where
  "scenario_sound sc \<longleftrightarrow> validate_scenario sc = Inr ()
     \<and> list_all (\<lambda>i. event_sound (mi_event i)) (sn_inputs sc)
     \<and> list_all (\<lambda>i. unat (ei_bank i) < 8 \<and> unat (ei_offset i) < 256 \<and> word_ok (ei_value i)) (sn_initialization sc)
     \<and> variables_sound (sn_guidance_variables sc) \<and> observer_sound (sn_observer sc)"

text \<open>
  Between two rounds the machine is well formed with room for the inputs and keys to come, and the
  keys are in step with the reconstruction.
\<close>

definition mission_ok :: "mission_scenario \<Rightarrow> mission_state \<Rightarrow> bool" where
  "mission_ok sc s \<longleftrightarrow> campaign_ok (length (ms_inputs s) + keys_left sc s) (the_campaign s)
     \<and> observer (the_runtime s) = sn_observer sc \<and> set (ms_inputs s) \<subseteq> set (sn_inputs sc) \<and> protocol_ok sc s"

lemma campaign_ok_cpu: "campaign_ok k c \<Longrightarrow> cpu_ok (rt_cpu (target c))"
  by (simp add: campaign_ok_def runtime_ok_def)

lemma mission_ok_reads: "scenario_sound sc \<Longrightarrow> mission_ok sc s \<Longrightarrow> reads_ok sc s"
  by (auto simp: scenario_sound_def mission_ok_def reads_ok_def machine_ok_def the_runtime_def dest: campaign_ok_cpu)

lemma protocol_campaign: "protocol_ok sc (set_campaign c s) = protocol_ok sc s"
  by (simp add: protocol_ok_def keys_in_step_def set_campaign_def split: option.splits)

lemma protocol_simps:
  "protocol_ok sc (ms_inputs_update f s) = protocol_ok sc s" "protocol_ok sc (ms_frames_update g s) = protocol_ok sc s"
  "protocol_ok sc (ms_next_dsky_cycle_update h s) = protocol_ok sc s" "protocol_ok sc (ms_controller_update j s) = protocol_ok sc s"
  by (simp_all add: protocol_ok_def keys_in_step_def split: option.splits)

text \<open>Scheduling changes the campaign alone and keeps its processor.\<close>

definition same_machine :: "mission_state \<Rightarrow> mission_state \<Rightarrow> bool" where
  "same_machine s t \<longleftrightarrow> rt_cpu (the_runtime t) = rt_cpu (the_runtime s) \<and> observer (the_runtime t) = observer (the_runtime s)
     \<and> engine (the_campaign t) = engine (the_campaign s) \<and> ms_frames t = ms_frames s"

lemma same_machine_refl [simp]: "same_machine s s"
  by (simp add: same_machine_def)

lemma same_machine_trans: "same_machine s t \<Longrightarrow> same_machine t u \<Longrightarrow> same_machine s u"
  by (simp add: same_machine_def)

lemma campaign_put [simp]:
  "the_campaign (set_campaign c s) = c" "the_runtime (set_campaign c s) = target c"
  "the_campaign (set_runtime r s) = (the_campaign s)\<lparr>target := r\<rparr>" "the_runtime (set_runtime r s) = r"
  by (simp_all add: set_campaign_def set_runtime_def the_campaign_def the_runtime_def)

lemma campaign_frame [simp]:
  "ms_inputs (set_campaign c s) = ms_inputs s" "ms_dsky_index (set_campaign c s) = ms_dsky_index s"
  "ms_frames (set_campaign c s) = ms_frames s" "ms_evidence (set_campaign c s) = ms_evidence s"
  "ms_model (set_campaign c s) = ms_model s" "keys_left sc (set_campaign c s) = keys_left sc s"
  by (simp_all add: set_campaign_def keys_left_def split: option.split)

definition moved :: "nat \<Rightarrow> mission_state \<Rightarrow> mission_state \<Rightarrow> bool" where
  "moved n s t \<longleftrightarrow> campaign_ok n (the_campaign t) \<and> t = set_campaign (the_campaign t) s \<and> same_machine s t"

lemma run_mission_schedule:
  assumes "campaign_ok (Suc n) (the_campaign s)" "event_sound e"
  shows "succeeds (mission_schedule e) s (\<lambda>_. moved n s)"
proof -
  have "runtime_ok (Suc (length (plan_of (the_campaign s)) + n)) (the_runtime s)"
    using assms(1) by (simp add: campaign_ok_def the_runtime_def)
  from run_schedule [OF this assms(2)] show ?thesis
    unfolding mission_schedule_def on_runtime_def runs_and_then runs_gets runs_zoom
    by (rule succeeds_mono)
      (use assms(1) in \<open>auto simp: set_runtime_def moved_def campaign_ok_def same_machine_def\<close>)
qed

lemma instructions_same: "same_machine s t \<Longrightarrow> instructions_done t = instructions_done s"
  by (simp add: same_machine_def instructions_done_def)

lemma keys_left_update [simp]:
  "keys_left sc (ms_inputs_update f s) = keys_left sc s" "keys_left sc (ms_frames_update g s) = keys_left sc s"
  "keys_left sc (ms_controller_update h s) = keys_left sc s"
  by (simp_all add: keys_left_def split: option.split)

definition delivered :: "mission_scenario \<Rightarrow> mission_state \<Rightarrow> mission_state \<Rightarrow> bool" where
  "delivered sc s t \<longleftrightarrow> mission_ok sc t \<and> same_machine s t"

definition with_key :: "u8 \<Rightarrow> nat \<Rightarrow> mission_state \<Rightarrow> mission_state" where
  "with_key c n s = s\<lparr>ms_evidence := me_keys_update (\<lambda>ks. ks @ [\<lparr>ke_code = c, ke_requested_instruction = n,
     ke_requested_cycle = cycles_done s, ke_keyrupt = None, ke_charin = None\<rparr>]) (ms_evidence s)\<rparr>"

lemma with_key_frame [simp]:
  "the_campaign (with_key c n s) = the_campaign s" "the_runtime (with_key c n s) = the_runtime s"
  "ms_inputs (with_key c n s) = ms_inputs s" "ms_dsky_index (with_key c n s) = ms_dsky_index s"
  "ms_model (with_key c n s) = ms_model s" "keys_left sc (with_key c n s) = keys_left sc s"
  "same_machine s (with_key c n s)"
  by (simp_all add: with_key_def the_campaign_def the_runtime_def keys_left_def same_machine_def split: option.split)

lemma runs_note_key: "runs (note_key c n (cycles_done s)) s Q E = Q () (with_key c n s)"
  by (simp add: note_key_def runs_change_evidence with_key_def)

lemma protocol_unwatched: "\<not> operator_only sc \<Longrightarrow> ms_model t = ms_model s \<Longrightarrow> protocol_ok sc t = protocol_ok sc s"
  by (simp add: protocol_ok_def split: option.split)

lemma moved_ok:
  "moved n s t \<Longrightarrow> observer (the_runtime s) = sn_observer sc \<Longrightarrow> observer (the_runtime t) = sn_observer sc"
  "moved n s t \<Longrightarrow> protocol_ok sc t = protocol_ok sc s"
  "moved n s t \<Longrightarrow> keys_left sc t = keys_left sc s"
  "moved n s t \<Longrightarrow> campaign_ok n (the_campaign t)"
  "moved n s t \<Longrightarrow> same_machine s t"
  "moved n s t \<Longrightarrow> ms_inputs t = ms_inputs s"
  by (auto simp: moved_def same_machine_def) (metis protocol_campaign campaign_frame)+

lemma run_deliver_inputs:
  "list_all (\<lambda>i. event_sound (mi_event i)) (sn_inputs sc) \<Longrightarrow> set is \<subseteq> set (sn_inputs sc) \<Longrightarrow>
   campaign_ok (length is + keys_left sc s) (the_campaign s) \<Longrightarrow> observer (the_runtime s) = sn_observer sc \<Longrightarrow>
   protocol_ok sc s \<Longrightarrow> succeeds (deliver_inputs n is) s (\<lambda>_. delivered sc s)"
proof (induction "is" arbitrary: s)
  case Nil
  then show ?case
    by (simp add: delivered_def mission_ok_def protocol_simps same_machine_def the_campaign_def the_runtime_def)
next
  case (Cons i js)
  show ?case
  proof (cases "mi_instruction i \<le> n")
    case False
    then show ?thesis using Cons.prems
      by (simp add: delivered_def mission_ok_def protocol_simps same_machine_def the_campaign_def the_runtime_def)
  next
    case True
    define u where "u = (case mi_event i of DskyKey c \<Rightarrow> with_key c n s | _ \<Rightarrow> s)"
    have i: "i \<in> set (sn_inputs sc)" "event_sound (mi_event i)" using Cons.prems(1,2) by (auto simp: list_all_iff)
    have u: "the_campaign u = the_campaign s" "the_runtime u = the_runtime s" "keys_left sc u = keys_left sc s" "same_machine s u"
      by (simp_all add: u_def split: runtime_event.split)
    have p: "protocol_ok sc u"
    proof (cases "\<exists>c. mi_event i = DskyKey c")
      case True
      then have "\<not> operator_only sc"
        using i(1) by (elim exE) (simp add: operator_only_def list_all_iff, rule bexI [of _ i], simp_all)
      then show ?thesis using Cons.prems(5) True by (auto simp: u_def protocol_unwatched [where t = "with_key c n s" and s = s for c])
    next
      case False
      then show ?thesis using Cons.prems(5) by (simp add: u_def split: runtime_event.split)
    qed
    have "campaign_ok (Suc (length js + keys_left sc u)) (the_campaign u)" using Cons.prems(3) u by simp
    from run_mission_schedule [OF this i(2)]
    have "succeeds (seq (mission_schedule (mi_event i)) (deliver_inputs n js)) u (\<lambda>_. delivered sc s)"
      unfolding runs_and_then
    proof (rule succeeds_mono)
      fix t
      assume t: "moved (length js + keys_left sc u) u t"
      have "succeeds (deliver_inputs n js) t (\<lambda>_. delivered sc t)"
        using Cons.prems(1,2,4) u p moved_ok(1,2,3) [OF t, where sc = sc] moved_ok(4) [OF t] by (intro Cons.IH) simp_all
      then show "succeeds (deliver_inputs n js) t (\<lambda>_. delivered sc s)"
        by (rule succeeds_mono) (use moved_ok(5) [OF t] u(4) in \<open>auto simp: delivered_def intro: same_machine_trans\<close>)
    qed
    then show ?thesis using True
      by (cases "mi_event i") (simp_all add: u_def runs_note_key)
  qed
qed

lemma keys_in_step_typed:
  assumes "keys_in_step s v" "me_keys (ms_evidence s) = [] \<or> key_done (last (me_keys (ms_evidence s)))"
    "ms_dsky_index s < length V37E63E" "ms_evidence t = ms_evidence (with_key (V37E63E ! ms_dsky_index s) n s)"
    "ms_dsky_index t = Suc (ms_dsky_index s)"
  shows "keys_in_step t v"
proof -
  have "list_all key_done (me_keys (ms_evidence s))"
    using assms(1,2) by (cases "me_keys (ms_evidence s)" rule: rev_cases) (auto simp: keys_in_step_def)
  then show ?thesis
    using assms(1,3,4,5) by (auto simp: keys_in_step_def with_key_def take_Suc_conv_app_nth accepted_codes_def)
qed

lemma run_deliver_key:
  assumes "mission_ok sc s"
  shows "succeeds (deliver_key sc n) s (\<lambda>_. delivered sc s)"
proof (cases "sn_dsky_sequence sc")
  case None
  then show ?thesis using assms by (simp add: deliver_key_def delivered_def)
next
  case (Some q)
  show ?thesis
  proof (cases "key_due q s")
    case False
    then show ?thesis using assms Some by (simp add: deliver_key_def delivered_def)
  next
    case True
    define c where "c = dk_keys q ! ms_dsky_index s"
    let ?u = "with_key c n s"
    have index: "ms_dsky_index s < length (dk_keys q)" using True by (simp add: key_due_def)
    define k where "k = length (ms_inputs s) + (length (dk_keys q) - Suc (ms_dsky_index s))"
    have "campaign_ok (Suc k) (the_campaign ?u)"
      using assms index Some by (simp add: mission_ok_def keys_left_def k_def Suc_diff_Suc)
    from run_mission_schedule [OF this, where e = "DskyKey c"]
    have "succeeds (mission_schedule (DskyKey c)) ?u (\<lambda>_. moved k ?u)" by (simp add: event_sound_def)
    then have "succeeds (seq (mission_schedule (DskyKey c)) (seq (modify (ms_dsky_index_update Suc))
        (modify (ms_next_dsky_cycle_update (\<lambda>_. cycles_done s + dk_minimum_gap_cycles q))))) ?u (\<lambda>_. delivered sc s)"
      unfolding runs_and_then [of "mission_schedule (DskyKey c)"]
    proof (rule succeeds_mono)
      fix t
      assume t: "moved k ?u t"
      define w where "w = ms_next_dsky_cycle_update (\<lambda>_. cycles_done s + dk_minimum_gap_cycles q) (ms_dsky_index_update Suc t)"
      have t': "ms_evidence t = ms_evidence ?u" "ms_model t = ms_model s" "ms_dsky_index t = ms_dsky_index s"
        using t by (metis moved_def campaign_frame with_key_frame)+
      have w: "the_campaign w = the_campaign t" "the_runtime w = the_runtime t" "ms_inputs w = ms_inputs t" "ms_model w = ms_model s"
        "ms_evidence w = ms_evidence ?u" "ms_dsky_index w = Suc (ms_dsky_index s)" "same_machine s w"
        using t' same_machine_trans [OF with_key_frame(7) moved_ok(5) [OF t]]
        by (simp_all add: w_def the_campaign_def the_runtime_def same_machine_def)
      have "protocol_ok sc w"
      proof (cases "ms_model s")
        case None
        then show ?thesis using w by (simp add: protocol_ok_def)
      next
        case model: (Some v)
        then have q: "dk_keys q = V37E63E" and step: "operator_only sc \<Longrightarrow> keys_in_step s v"
          using assms Some by (auto simp: mission_ok_def protocol_ok_def)
        have "keys_in_step w v" if "operator_only sc"
        proof (rule keys_in_step_typed [where n = n, OF step [OF that]])
          show "me_keys (ms_evidence s) = [] \<or> key_done (last (me_keys (ms_evidence s)))" using True by (simp add: key_due_def)
          show "ms_dsky_index s < length V37E63E" using index q by simp
          show "ms_evidence w = ms_evidence (with_key (V37E63E ! ms_dsky_index s) n s)" using w(5) q by (simp add: c_def)
        qed (rule w(6))
        then show ?thesis using w(4) model Some q by (simp add: protocol_ok_def)
      qed
      moreover have "keys_left sc w = length (dk_keys q) - Suc (ms_dsky_index s)" using w Some by (simp add: keys_left_def)
      moreover have "campaign_ok k (the_campaign w)" "observer (the_runtime w) = sn_observer sc" "ms_inputs w = ms_inputs s"
        using assms w moved_ok(1) [OF t, where sc = sc] moved_ok(4,6) [OF t] by (simp_all add: mission_ok_def)
      ultimately have "delivered sc s w"
        using assms w(7) by (simp add: delivered_def mission_ok_def k_def)
      then show "succeeds (seq (modify (ms_dsky_index_update Suc))
          (modify (ms_next_dsky_cycle_update (\<lambda>_. cycles_done s + dk_minimum_gap_cycles q)))) t (\<lambda>_. delivered sc s)"
        by (simp add: w_def)
    qed
    then show ?thesis using True Some by (simp add: deliver_key_def runs_note_key c_def)
  qed
qed

end
