(* ===== verification/Agc_Mission_Laws.thy ===== *)
theory Agc_Mission_Laws
  imports Agc_Mission_Steps
begin

text \<open>
  Laws of whole missions: rounds and their measure, the frames, that a mission completes, and what
  the verdict on the landing guidance says.
\<close>

lemma delivered_trans: "delivered sc s t \<Longrightarrow> delivered sc t u \<Longrightarrow> delivered sc s u"
  by (auto simp: delivered_def intro: same_machine_trans)

text \<open>The faults still to come, with their boundaries, and those already applied.\<close>

definition faults_left :: "mission_state \<Rightarrow> (nat \<times> fault) list" where
  "faults_left s = contents (plan_of (the_campaign s))"

definition faults_done :: "mission_state \<Rightarrow> fault list" where
  "faults_done s = map af_fault (applied (engine (the_campaign s)))"

text \<open>A step of the machine: it commits an instruction or enters an interrupt, and applies what is due.\<close>

definition ticked :: "mission_scenario \<Rightarrow> mission_state \<Rightarrow> mission_state \<Rightarrow> bool" where
  "ticked sc s t \<longleftrightarrow> mission_ok sc t \<and> ms_frames t = ms_frames s
     \<and> instructions_done t \<in> {instructions_done s, Suc (instructions_done s)}
     \<and> (instructions_done s < sn_instruction_limit sc \<longrightarrow>
         rounds_left 0 (sn_instruction_limit sc) (rt_cpu (the_runtime t)) < rounds_left 0 (sn_instruction_limit sc) (rt_cpu (the_runtime s)))
     \<and> faults_left t = filter (\<lambda>x. \<not> fst x \<le> instructions_done s) (faults_left s)
     \<and> faults_done t = faults_done s @ map snd (filter (\<lambda>x. fst x \<le> instructions_done s) (faults_left s))"

lemma ticked_later: "delivered sc s t \<Longrightarrow> ticked sc t u \<Longrightarrow> ticked sc s u"
  by (simp add: delivered_def ticked_def same_machine_def instructions_done_def faults_left_def faults_done_def)

lemma run_mission_step:
  assumes "mission_ok sc s"
  shows "succeeds (on_faults fault_step) s (\<lambda>_. ticked sc s)"
proof -
  define k where "k = length (ms_inputs s) + keys_left sc s"
  have "succeeds fault_step (the_campaign s) (\<lambda>out c. campaign_advanced k (the_campaign s) out c \<and> observer (target c) = observer (the_runtime s))"
  proof -
    have "campaign_ok k (the_campaign s)" using assms by (simp add: mission_ok_def k_def)
    from run_fault_step [OF this] obtain out c where run: "fault_step (the_campaign s) = Some (Inr out, c)"
      "campaign_advanced k (the_campaign s) out c"
      by (auto simp: succeeds_iff)
    moreover have "same_observer (the_campaign s) c" using leavesD [OF fault_step_observer run(1)] .
    ultimately show ?thesis by (auto simp: succeeds_iff same_observer_def the_runtime_def)
  qed
  then show ?thesis
    unfolding on_faults_def runs_zoom
  proof (rule succeeds_mono)
    fix out c
    assume c: "campaign_advanced k (the_campaign s) out c \<and> observer (target c) = observer (the_runtime s)"
    then have "mission_ok sc (set_campaign c s)"
      using assms by (simp add: mission_ok_def campaign_advanced_def k_def protocol_campaign)
    moreover have "sequence (rt_cpu (target c)) \<in> {instructions_done s, Suc (instructions_done s)}"
      "instructions_done s < sn_instruction_limit sc \<longrightarrow>
        rounds_left 0 (sn_instruction_limit sc) (rt_cpu (target c)) < rounds_left 0 (sn_instruction_limit sc) (rt_cpu (the_runtime s))"
      using c by (auto simp: campaign_advanced_def instructions_done_def the_runtime_def rounds_left_def split: step_kind.splits)
    moreover have "faults_left (set_campaign c s) = filter (\<lambda>x. \<not> fst x \<le> instructions_done s) (faults_left s)"
      using c by (auto simp: faults_left_def campaign_advanced_def contents_def filter_map comp_def instructions_done_def the_runtime_def
          case_prod_beta')
    moreover have "faults_done (set_campaign c s) = faults_done s @ map snd (filter (\<lambda>x. fst x \<le> instructions_done s) (faults_left s))"
      using c by (simp add: faults_done_def faults_left_def campaign_advanced_def due_now_def instructions_done_def the_runtime_def
          case_prod_beta')
    ultimately show "ticked sc s (set_campaign c s)" by (simp add: ticked_def instructions_done_def)
  qed
qed

lemma ticked_dsky: "ticked sc s (ms_controller_update (mn_dsky_update f) t) = ticked sc s t"
  by (simp add: ticked_def mission_ok_def the_runtime_def the_campaign_def protocol_simps instructions_done_def faults_left_def faults_done_def)

lemma ticked_evidence:
  assumes "ticked sc s t" "only_evidence t u" "protocol_ok sc u"
  shows "ticked sc s u"
proof -
  have "keys_left sc u = keys_left sc t" using assms(2) by (simp add: only_evidence_def keys_left_def split: option.split)
  then show ?thesis
    using assms by (simp add: ticked_def mission_ok_def only_evidence_def the_runtime_def the_campaign_def instructions_done_def
        faults_left_def faults_done_def)
qed

lemma run_mission_round:
  assumes sc: "scenario_sound sc" and s: "mission_ok sc s"
    and sample: "\<And>u. ticked sc s u \<Longrightarrow> runs (sample_frame sc) u Q (\<lambda>x _. rejects sc x)"
  shows "runs (mission_round sc) s Q (\<lambda>x _. rejects sc x)"
proof -
  let ?E = "\<lambda>x _. rejects sc x"
  have observing: "runs (seq (observe_evidence sc e) (sample_frame sc)) t Q ?E" if t: "ticked sc s t" for e t
  proof -
    have "reads_ok sc t" "protocol_ok sc t" using t sc by (auto simp: ticked_def mission_ok_def dest: mission_ok_reads)
    then have "runs (observe_evidence sc e) t (\<lambda>_ u. only_evidence t u \<and> protocol_ok sc u) ?E"
      using observes_evidence by (simp add: observes_def)
    then show ?thesis
      unfolding runs_and_then by (rule runs_mono) (use t sample in \<open>auto dest: ticked_evidence\<close>)
  qed
  have stepping: "runs (and_then (on_faults fault_step) (\<lambda>outcome.
       seq (modify (ms_controller_update (mn_dsky_update (consume_trace (so_trace outcome)))))
      (seq (observe_evidence sc (so_trace outcome)) (sample_frame sc)))) t Q ?E" if t: "delivered sc s t" for t
  proof -
    have "succeeds (on_faults fault_step) t (\<lambda>_. ticked sc t)" using t by (intro run_mission_step) (simp add: delivered_def)
    then show ?thesis
      unfolding runs_and_then [of "on_faults fault_step"]
    proof (rule succeeds_mono)
      fix outcome u
      assume "ticked sc t u"
      then have "ticked sc s (ms_controller_update (mn_dsky_update (consume_trace (so_trace outcome))) u)"
        using ticked_later [OF t] ticked_dsky by metis
      from observing [OF this] show "runs (seq (modify (ms_controller_update (mn_dsky_update (consume_trace (so_trace outcome)))))
          (seq (observe_evidence sc (so_trace outcome)) (sample_frame sc))) u Q ?E"
        unfolding runs_and_then [of "modify f" for f] runs_modify .
    qed
  qed
  have inputs: "succeeds (deliver_inputs (instructions_done s) (ms_inputs s)) s (\<lambda>_. delivered sc s)"
    using sc s by (intro run_deliver_inputs) (auto simp: scenario_sound_def mission_ok_def)
  have key: "succeeds (deliver_key sc n) t (\<lambda>_. delivered sc s)" if t: "delivered sc s t" for n t
  proof -
    have "mission_ok sc t" using t by (simp add: delivered_def)
    from run_deliver_key [OF this] show ?thesis by (rule succeeds_mono) (rule delivered_trans [OF t])
  qed
  show ?thesis
    unfolding mission_round_def runs_and_then [of "gets f" for f] runs_gets runs_and_then [of "deliver_inputs n i" for n i]
      runs_and_then [of "deliver_key sc n" for sc n]
    by (rule succeeds_mono [OF inputs], erule succeeds_mono [OF key], erule stepping)
qed

section \<open>The frames\<close>

definition due_frames :: "mission_scenario \<Rightarrow> nat \<Rightarrow> nat \<Rightarrow> nat list" where
  "due_frames sc start n = filter (\<lambda>k. k mod sn_frame_interval sc = 0) [Suc start..<Suc n]"

lemma due_frames_Suc:
  "start \<le> n \<Longrightarrow> due_frames sc start (Suc n) = due_frames sc start n @ (if Suc n mod sn_frame_interval sc = 0 then [Suc n] else [])"
  by (simp add: due_frames_def)

lemma due_frames_le: "k \<in> set (due_frames sc start n) \<Longrightarrow> k \<le> n"
  by (auto simp: due_frames_def)

lemma due_frames_last:
  "start < n \<Longrightarrow> n mod sn_frame_interval sc = 0 \<Longrightarrow> due_frames sc start n \<noteq> [] \<and> last (due_frames sc start n) = n"
  by (cases n) (simp_all add: due_frames_Suc)

definition frames_ok :: "nat \<Rightarrow> mission_scenario \<Rightarrow> mission_state \<Rightarrow> bool" where
  "frames_ok start sc s \<longleftrightarrow> start \<le> instructions_done s
     \<and> (map mf_instruction (ms_frames s) = due_frames sc start (instructions_done s)
        \<or> map mf_instruction (ms_frames s) = start # due_frames sc start (instructions_done s))
     \<and> (sn_instruction_limit sc \<le> instructions_done s \<and> has_frame (instructions_done s) (ms_frames s)
         \<longrightarrow> last (ms_frames s) = frame_of sc s)"

lemma frame_of_cong: "ms_controller s = ms_controller t \<Longrightarrow> frame_of sc s = frame_of sc t"
  by (simp add: frame_of_def values_of_def word_in_def register_in_def jobs_in_def tasks_in_def instructions_done_def
      cycles_done_def the_runtime_def the_campaign_def)

lemma has_frame_map: "has_frame n fs \<longleftrightarrow> map mf_instruction fs \<noteq> [] \<and> last (map mf_instruction fs) = n"
  by (auto simp: has_frame_def last_map)

lemma mf_instruction_frame [simp]: "mf_instruction (frame_of sc s) = instructions_done s"
  by (simp add: frame_of_def)

definition with_frame :: "mission_scenario \<Rightarrow> mission_state \<Rightarrow> mission_state" where
  "with_frame sc s = s\<lparr>ms_frames := ms_frames s @ [frame_of sc s]\<rparr>"

lemma with_frame_simps [simp]:
  "ms_frames (with_frame sc s) = ms_frames s @ [frame_of sc s]" "instructions_done (with_frame sc s) = instructions_done s"
  "the_runtime (with_frame sc s) = the_runtime s" "mission_ok sc (with_frame sc s) = mission_ok sc s"
  "frame_of sc (with_frame sc s) = frame_of sc s" "ms_controller (with_frame sc s) = ms_controller s"
  by (auto simp: with_frame_def mission_ok_def the_runtime_def the_campaign_def protocol_simps instructions_done_def intro: frame_of_cong)

lemma runs_push_frame: "reads_ok sc s \<Longrightarrow> runs (push_frame sc) s Q E = Q () (with_frame sc s)"
  by (cases s) (simp add: push_frame_def runs_frame_now with_frame_def)

lemma frames_ok_sampled:
  assumes "frames_ok start sc s" "ticked sc s u" "instructions_done s < sn_instruction_limit sc"
  shows "instructions_done u mod sn_frame_interval sc = 0 \<and> \<not> has_frame (instructions_done u) (ms_frames u) \<Longrightarrow> frames_ok start sc (with_frame sc u)"
    "\<not> (instructions_done u mod sn_frame_interval sc = 0 \<and> \<not> has_frame (instructions_done u) (ms_frames u)) \<Longrightarrow> frames_ok start sc u"
proof -
  define n where "n = instructions_done s"
  define ks where "ks = map mf_instruction (ms_frames s)"
  have u: "ms_frames u = ms_frames s" "instructions_done u = n \<or> instructions_done u = Suc n"
    using assms(2) by (auto simp: ticked_def n_def)
  have s: "start \<le> n" "ks = due_frames sc start n \<or> ks = start # due_frames sc start n" "n < sn_instruction_limit sc"
    using assms by (auto simp: frames_ok_def n_def ks_def)
  have below: "\<forall>k \<in> set ks. k \<le> n" using s by (auto dest: due_frames_le)
  have fresh: "\<not> has_frame (Suc n) (ms_frames s)"
    unfolding has_frame_map ks_def [symmetric] using below by (metis Suc_n_not_le_n last_in_set)
  have at_start: "start = n \<Longrightarrow> due_frames sc start n = []" by (simp add: due_frames_def)
  show "frames_ok start sc (with_frame sc u)"
    if due: "instructions_done u mod sn_frame_interval sc = 0 \<and> \<not> has_frame (instructions_done u) (ms_frames u)"
  proof (cases "instructions_done u = Suc n")
    case True
    then show ?thesis using due s u(1) by (auto simp: frames_ok_def due_frames_Suc simp flip: ks_def)
  next
    case False
    then have n: "instructions_done u = n" using u(2) by simp
    then have none: "\<not> (ks \<noteq> [] \<and> last ks = n)" using due u(1) by (simp add: has_frame_map ks_def)
    have "start = n"
    proof (rule ccontr)
      assume "start \<noteq> n"
      then have "due_frames sc start n \<noteq> [] \<and> last (due_frames sc start n) = n" using due_frames_last due n s(1) by auto
      then show False using none s(2) by auto
    qed
    then show ?thesis using at_start none s n u(1) by (auto simp: frames_ok_def simp flip: ks_def)
  qed
  show "frames_ok start sc u"
    if idle: "\<not> (instructions_done u mod sn_frame_interval sc = 0 \<and> \<not> has_frame (instructions_done u) (ms_frames u))"
  proof (cases "instructions_done u = Suc n")
    case True
    then show ?thesis using idle s u(1) fresh by (auto simp: frames_ok_def due_frames_Suc simp flip: ks_def)
  next
    case False
    then show ?thesis using s u by (auto simp: frames_ok_def simp flip: ks_def)
  qed
qed

section \<open>The faults\<close>

text \<open>The faults planned at the start, by their boundaries, and those that had been applied by then.\<close>

type_synonym fault_book = "(nat \<times> fault) list \<times> fault list"

definition book_ok :: "fault_book \<Rightarrow> bool" where
  "book_ok B \<longleftrightarrow> sorted (map fst (fst B))"

definition applied_below :: "fault_book \<Rightarrow> nat \<Rightarrow> mission_state \<Rightarrow> bool" where
  "applied_below B c s \<longleftrightarrow> faults_left s = filter (\<lambda>x. c \<le> fst x) (fst B)
     \<and> faults_done s = snd B @ map snd (filter (\<lambda>x. fst x < c) (fst B))"

definition book_state :: "nat \<Rightarrow> fault_book \<Rightarrow> mission_scenario \<Rightarrow> mission_state \<Rightarrow> bool" where
  "book_state start B sc s \<longleftrightarrow> book_ok B \<and> (\<exists>c \<le> sn_instruction_limit sc. applied_below B c s
     \<and> (start < sn_instruction_limit sc \<longrightarrow> sn_instruction_limit sc \<le> instructions_done s \<longrightarrow> c = sn_instruction_limit sc))"

lemma book_state_cong:
  "engine (the_campaign t) = engine (the_campaign s) \<Longrightarrow> instructions_done t = instructions_done s \<Longrightarrow>
   book_state start B sc t = book_state start B sc s"
  by (simp add: book_state_def applied_below_def faults_left_def faults_done_def)

lemma filter_below:
  assumes "sorted (map fst xs)"
  shows "filter (\<lambda>x. fst x < c) xs @ filter (\<lambda>x. c \<le> fst x \<and> fst x < d) xs = filter (\<lambda>x. fst x < max c (d :: nat)) xs"
  using assms
proof (induction xs)
  case (Cons x xs)
  have "filter (\<lambda>y. fst y < c) xs = []" if "c \<le> fst x"
    using Cons.prems that by (auto simp: filter_empty_conv)
  then show ?case using Cons by (auto simp: max_def)
qed simp

lemma applied_tick:
  assumes "book_ok B" "applied_below B c s" "ticked sc s t"
  shows "applied_below B (max c (Suc (instructions_done s))) t"
proof -
  have "filter (\<lambda>x. fst x \<le> n \<and> c \<le> fst x) xs = filter (\<lambda>x. c \<le> fst x \<and> fst x < Suc n) xs" for n :: nat and xs :: "(nat \<times> fault) list"
    by (rule filter_cong) auto
  moreover have "filter (\<lambda>x. \<not> fst x \<le> n \<and> c \<le> fst x) xs = filter (\<lambda>x. max c (Suc n) \<le> fst x) xs" for n :: nat and xs :: "(nat \<times> fault) list"
    by (rule filter_cong) auto
  ultimately show ?thesis
    using assms(2,3) filter_below [OF assms(1) [unfolded book_ok_def], of c "Suc (instructions_done s)"]
    by (simp add: applied_below_def ticked_def conj_commute flip: map_append)
qed

section \<open>The rounds\<close>

definition run_ok :: "nat \<Rightarrow> fault_book \<Rightarrow> mission_scenario \<Rightarrow> mission_state \<Rightarrow> bool" where
  "run_ok start B sc s \<longleftrightarrow> mission_ok sc s \<and> frames_ok start sc s \<and> instructions_done s \<le> max start (sn_instruction_limit sc)
     \<and> book_state start B sc s"

lemma run_round_ok:
  assumes "scenario_sound sc" "run_ok start B sc s" "instructions_done s < sn_instruction_limit sc"
  shows "runs (mission_round sc) s (\<lambda>_ t. run_ok start B sc t
     \<and> rounds_left 0 (sn_instruction_limit sc) (rt_cpu (the_runtime t)) < rounds_left 0 (sn_instruction_limit sc) (rt_cpu (the_runtime s)))
     (\<lambda>x _. rejects sc x)"
proof (rule run_mission_round [OF assms(1)])
  show "mission_ok sc s" using assms(2) by (simp add: run_ok_def)
  fix u
  assume u: "ticked sc s u"
  have reads: "reads_ok sc u" using u assms(1) by (auto simp: ticked_def dest: mission_ok_reads)
  have f: "frames_ok start sc s" using assms(2) by (simp add: run_ok_def)
  note frames = frames_ok_sampled [OF f u assms(3)]
  have "instructions_done u \<le> max start (sn_instruction_limit sc)" "mission_ok sc u"
    "rounds_left 0 (sn_instruction_limit sc) (rt_cpu (the_runtime u)) < rounds_left 0 (sn_instruction_limit sc) (rt_cpu (the_runtime s))"
    using u assms(3) by (auto simp: ticked_def)
  moreover have "book_state start B sc u"
  proof -
    obtain c where c: "c \<le> sn_instruction_limit sc" "applied_below B c s" "book_ok B"
      using assms(2) by (auto simp: run_ok_def book_state_def)
    have "applied_below B (max c (Suc (instructions_done s))) u" using applied_tick [OF c(3,2) u] .
    moreover have "instructions_done u \<le> Suc (instructions_done s)" using u by (auto simp: ticked_def)
    ultimately show ?thesis
      unfolding book_state_def using c(1,3) assms(3) by (intro conjI exI [of _ "max c (Suc (instructions_done s))"]) auto
  qed
  moreover have "book_state start B sc (with_frame sc u) = book_state start B sc u"
    by (rule book_state_cong) (simp_all add: with_frame_def the_campaign_def instructions_done_def the_runtime_def)
  ultimately show "runs (sample_frame sc) u (\<lambda>_ t. run_ok start B sc t
     \<and> rounds_left 0 (sn_instruction_limit sc) (rt_cpu (the_runtime t)) < rounds_left 0 (sn_instruction_limit sc) (rt_cpu (the_runtime s)))
     (\<lambda>x _. rejects sc x)"
    using frames by (simp add: sample_frame_def when_do_def runs_push_frame [OF reads] run_ok_def)
qed

lemma run_mission_rounds:
  "scenario_sound sc \<Longrightarrow> run_ok start B sc s \<Longrightarrow>
   rounds_left 0 (sn_instruction_limit sc) (rt_cpu (the_runtime s)) < fuel \<Longrightarrow>
   runs (mission_rounds fuel sc) s (\<lambda>_ t. run_ok start B sc t \<and> sn_instruction_limit sc \<le> instructions_done t) (\<lambda>x _. rejects sc x)"
proof (induction fuel arbitrary: s)
  case (Suc fuel)
  show ?case
  proof (cases "instructions_done s < sn_instruction_limit sc")
    case True
    have "runs (seq (mission_round sc) (mission_rounds fuel sc)) s
        (\<lambda>_ t. run_ok start B sc t \<and> sn_instruction_limit sc \<le> instructions_done t) (\<lambda>x _. rejects sc x)"
      unfolding runs_and_then
      by (rule runs_mono [OF run_round_ok [OF Suc.prems(1,2) True]]) (use Suc in auto)
    then show ?thesis using True by simp
  next
    case False
    then show ?thesis using Suc.prems by simp
  qed
qed simp

section \<open>The run\<close>

lemma campaign_ok_memory:
  assumes "campaign_ok k c" "mem_ok m"
  shows "campaign_ok k (c\<lparr>target := (target c)\<lparr>rt_cpu := (rt_cpu (target c))\<lparr>cpu_memory := m\<rparr>\<rparr>\<rparr>)"
  using assms by (simp add: campaign_ok_def runtime_ok_memory)

lemma evidence_frame [simp]:
  "the_campaign (s\<lparr>ms_evidence := e\<rparr>) = the_campaign s" "the_runtime (s\<lparr>ms_evidence := e\<rparr>) = the_runtime s"
  "keys_left sc (s\<lparr>ms_evidence := e\<rparr>) = keys_left sc s" "instructions_done (s\<lparr>ms_evidence := e\<rparr>) = instructions_done s"
  by (simp_all add: the_campaign_def the_runtime_def keys_left_def instructions_done_def split: option.split)

definition initial_ok :: "nat \<Rightarrow> fault_book \<Rightarrow> mission_scenario \<Rightarrow> mission_state \<Rightarrow> bool" where
  "initial_ok start B sc s \<longleftrightarrow> run_ok start B sc s \<and> instructions_done s = start \<and> ms_frames s = []"

lemma run_apply_initialization:
  assumes s: "initial_ok start B sc s" and i: "unat (ei_bank i) < 8" "unat (ei_offset i) < 256" "word_ok (ei_value i)"
  shows "succeeds (apply_initialization i) s (\<lambda>_. initial_ok start B sc)"
proof -
  have m: "machine_ok s"
    using s by (auto simp: initial_ok_def run_ok_def mission_ok_def machine_ok_def the_runtime_def dest: campaign_ok_cpu)
  have loc: "location_ok (locate (Erasable (ei_bank i) (ei_offset i)))" using i by (intro locate_ok) (simp add: physical_ok_def)
  have books: "book_state start B sc (set_campaign ((the_campaign s)\<lparr>target := (the_runtime s)\<lparr>rt_cpu := c\<rparr>\<rparr>) s\<lparr>ms_evidence := e\<rparr>)"
    if "sequence c = instructions_done s" for c e
    using s that by (subst book_state_cong [of _ s]) (simp_all add: initial_ok_def run_ok_def instructions_done_def)
  show ?thesis
    unfolding apply_initialization_def runs_and_then [of "on_mission_memory p" for p] runs_read_word [OF m]
    using i s loc machine_memory [OF m] books
    by (simp add: on_mission_memory_def on_mission_cpu_def runs_write_erasable_physical runs_change_evidence
        initial_ok_def run_ok_def mission_ok_def campaign_ok_memory mem_ok_put_at protocol_campaign protocol_evidence
        set_runtime_def frames_ok_def instructions_done_def the_runtime_def has_frame_def due_frames_def)
qed

lemma run_initialization:
  "initial_ok start B sc s \<Longrightarrow> list_all (\<lambda>i. unat (ei_bank i) < 8 \<and> unat (ei_offset i) < 256 \<and> word_ok (ei_value i)) is \<Longrightarrow>
   succeeds (for_each is apply_initialization) s (\<lambda>_. initial_ok start B sc)"
proof (induction "is" arbitrary: s)
  case (Cons i js)
  have "succeeds (apply_initialization i) s (\<lambda>_. initial_ok start B sc)"
    using Cons.prems by (intro run_apply_initialization) simp_all
  then show ?case
    unfolding for_each.simps runs_and_then by (rule succeeds_mono) (use Cons in auto)
qed simp

text \<open>The instruction counts of the frames: the multiples of the interval, and the end.\<close>

definition frame_numbers :: "mission_scenario \<Rightarrow> nat \<Rightarrow> nat \<Rightarrow> nat list" where
  "frame_numbers sc start n = filter (\<lambda>k. k mod sn_frame_interval sc = 0 \<or> k = n) [Suc start..<Suc n]"

text \<open>What a finished run has established of the last state of the loop.\<close>

definition run_finished :: "nat \<Rightarrow> fault_book \<Rightarrow> mission_scenario \<Rightarrow> mission_state \<Rightarrow> bool" where
  "run_finished start B sc s \<longleftrightarrow> reads_ok sc s \<and> instructions_done s = max start (sn_instruction_limit sc)
     \<and> ms_frames s \<noteq> [] \<and> last (ms_frames s) = frame_of sc s
     \<and> map mf_instruction (ms_frames s) \<in> {frame_numbers sc start (instructions_done s), start # frame_numbers sc start (instructions_done s)}
     \<and> (start < sn_instruction_limit sc \<longrightarrow> applied_below B (sn_instruction_limit sc) s)"

lemma due_frames_final:
  assumes "start < n"
  shows "frame_numbers sc start n = due_frames sc start n @ (if n mod sn_frame_interval sc = 0 then [] else [n])"
proof -
  have "[Suc start..<Suc n] = [Suc start..<n] @ [n]" using assms by simp
  moreover have "filter (\<lambda>k. k mod sn_frame_interval sc = 0 \<or> k = n) [Suc start..<n] = filter (\<lambda>k. k mod sn_frame_interval sc = 0) [Suc start..<n]"
    by (rule filter_cong) auto
  ultimately show ?thesis by (simp add: due_frames_def frame_numbers_def)
qed

lemma frames_finished:
  assumes s: "run_ok start B sc s" "sn_instruction_limit sc \<le> instructions_done s" and sc: "scenario_sound sc"
  shows "has_frame (instructions_done s) (ms_frames s) \<Longrightarrow> run_finished start B sc s"
    "\<not> has_frame (instructions_done s) (ms_frames s) \<Longrightarrow> run_finished start B sc (with_frame sc s)"
proof -
  define n where "n = instructions_done s"
  define ks where "ks = map mf_instruction (ms_frames s)"
  have reads: "reads_ok sc s" "reads_ok sc (with_frame sc s)" using s(1) sc by (auto simp: run_ok_def intro!: mission_ok_reads)
  have f: "start \<le> n" "ks = due_frames sc start n \<or> ks = start # due_frames sc start n" "n = max start (sn_instruction_limit sc)"
    "has_frame n (ms_frames s) \<longrightarrow> last (ms_frames s) = frame_of sc s"
    using s by (auto simp: run_ok_def frames_ok_def n_def ks_def)
  have books: "start < sn_instruction_limit sc \<longrightarrow> applied_below B (sn_instruction_limit sc) s"
    using s by (auto simp: run_ok_def book_state_def)
  then have books': "start < sn_instruction_limit sc \<longrightarrow> applied_below B (sn_instruction_limit sc) (with_frame sc s)"
    by (simp add: applied_below_def faults_left_def faults_done_def with_frame_def the_campaign_def)
  define fs where "fs = frame_numbers sc start n"
  have early: "start = n \<Longrightarrow> due_frames sc start n = [] \<and> fs = []" by (simp add: due_frames_def fs_def frame_numbers_def)
  note late = due_frames_final [of start n sc, folded fs_def] and due = due_frames_last [of start n sc]
  show "run_finished start B sc s" if "has_frame (instructions_done s) (ms_frames s)"
  proof -
    have h: "ks \<noteq> []" "last ks = n" "ms_frames s \<noteq> []" using that by (auto simp: has_frame_map ks_def n_def)
    have "ks \<in> {fs, start # fs}"
    proof (cases "start = n")
      case True
      then show ?thesis using early f(2) by auto
    next
      case False
      then have "start < n" using f(1) by simp
      moreover have "n \<in> set ks" using h by (metis last_in_set)
      then have "n \<in> set (due_frames sc start n)" using f(2) \<open>start < n\<close> by auto
      then have "n mod sn_frame_interval sc = 0" by (simp add: due_frames_def)
      ultimately show ?thesis using late f(2) by auto
    qed
    then show ?thesis using reads f that h books by (simp add: run_finished_def ks_def fs_def n_def)
  qed
  show "run_finished start B sc (with_frame sc s)" if none: "\<not> has_frame (instructions_done s) (ms_frames s)"
  proof -
    have h: "\<not> (ks \<noteq> [] \<and> last ks = n)" using none by (auto simp: has_frame_map ks_def n_def)
    have "ks @ [n] \<in> {fs, start # fs}"
    proof (cases "start = n")
      case True
      then show ?thesis using early f(2) h by auto
    next
      case False
      then have "start < n" using f(1) by simp
      moreover have "n mod sn_frame_interval sc \<noteq> 0"
      proof
        assume "n mod sn_frame_interval sc = 0"
        then show False using due [OF \<open>start < n\<close>] h f(2) by auto
      qed
      ultimately show ?thesis using late f(2) by auto
    qed
    then show ?thesis using reads f books' by (simp add: run_finished_def ks_def fs_def n_def)
  qed
qed

definition keys_to_come :: "mission_scenario \<Rightarrow> nat" where
  "keys_to_come sc = (case sn_dsky_sequence sc of None \<Rightarrow> 0 | Some q \<Rightarrow> length (dk_keys q))"

definition mission_ready :: "mission_scenario \<Rightarrow> mission_controller \<Rightarrow> bool" where
  "mission_ready sc c \<longleftrightarrow> scenario_sound sc \<and> campaign_ok (length (sn_inputs sc) + keys_to_come sc) (mn_campaign c)
     \<and> (sn_initialization sc = [] \<or> sequence (rt_cpu (target (mn_campaign c))) = 0)"

definition book_of :: "campaign \<Rightarrow> fault_book" where
  "book_of c = (contents (plan_of c), map af_fault (applied (engine c)))"

lemma initial_start:
  assumes "mission_ready sc c"
  shows "initial_ok (sequence (rt_cpu (target (mn_campaign c)))) (book_of (mn_campaign c)) sc (set_runtime (set_observer (sn_observer sc) (the_runtime (mission_start sc c))) (mission_start sc c))"
proof -
  have c: "campaign_ok (length (sn_inputs sc) + keys_to_come sc) (mn_campaign c)" using assms by (simp add: mission_ready_def)
  have "protocol_ok sc (mission_start sc c)"
    by (auto simp: protocol_ok_def mission_start_def keys_in_step_def accepted_codes_def type_codes_def run_simps no_evidence_def
        split: option.splits if_splits)
  moreover have "keys_left sc (mission_start sc c) = keys_to_come sc"
    by (simp add: keys_left_def mission_start_def keys_to_come_def split: option.split)
  moreover have "book_ok (book_of (mn_campaign c))"
    using c sorted_contents by (auto simp: book_ok_def book_of_def campaign_ok_def numbered_def)
  moreover have "applied_below (book_of (mn_campaign c)) 0 (set_runtime r (mission_start sc c))" for r
    by (simp add: applied_below_def faults_left_def faults_done_def book_of_def) (simp add: mission_start_def the_campaign_def)
  moreover define t where "t = set_runtime (set_observer (sn_observer sc) (the_runtime (mission_start sc c))) (mission_start sc c)"
  ultimately have books: "book_ok (book_of (mn_campaign c))" "applied_below (book_of (mn_campaign c)) 0 t"
    and p: "protocol_ok sc (mission_start sc c)" and k: "keys_left sc (mission_start sc c) = keys_to_come sc"
    by simp_all
  have n: "instructions_done t = sequence (rt_cpu (target (mn_campaign c)))" "ms_frames t = []" "ms_inputs t = sn_inputs sc"
    "observer (the_runtime t) = sn_observer sc"
    by (simp_all add: t_def instructions_done_def set_observer_def set_runtime_def)
      (simp_all add: mission_start_def the_runtime_def the_campaign_def)
  have "campaign_ok (length (sn_inputs sc) + keys_to_come sc) (the_campaign t)"
    using c by (simp add: t_def set_observer_def set_runtime_def campaign_ok_def runtime_ok_def)
      (simp add: mission_start_def the_runtime_def the_campaign_def)
  then have "mission_ok sc t"
    using n p k by (simp add: mission_ok_def) (simp add: t_def set_runtime_def protocol_campaign)
  moreover have "frames_ok (sequence (rt_cpu (target (mn_campaign c)))) sc t"
    using n by (simp add: frames_ok_def due_frames_def has_frame_def)
  ultimately show ?thesis
    unfolding t_def [symmetric] initial_ok_def run_ok_def book_state_def using books n by auto
qed

lemma run_closing:
  assumes "run_finished start B sc s"
  shows "succeeds (seq (finish_changes sc) (seq finish_model (seq (change_evidence finish_verdicts) (gets (report_run sc))))) s
    (\<lambda>r t. ms_controller t = ms_controller s \<and> r = report_run sc t \<and> ms_frames t = ms_frames s)"
proof -
  have reads: "machine_ok s" "variables_sound (sn_guidance_variables sc)" using assms by (simp_all add: run_finished_def reads_ok_def)
  have model: "succeeds (seq finish_model (seq (change_evidence finish_verdicts) (gets (report_run sc)))) u
      (\<lambda>r t. ms_controller t = ms_controller s \<and> r = report_run sc t \<and> ms_frames t = ms_frames s)"
    if "ms_controller u = ms_controller s" "ms_frames u = ms_frames s" for u
  proof -
    have "machine_ok (u\<lparr>ms_evidence := e\<rparr>)" for e
      using reads that by (simp add: machine_ok_def the_runtime_def the_campaign_def)
    then show ?thesis
      using that by (auto simp: finish_model_def runs_change_evidence runs_modreg split: option.split)
  qed
  have "succeeds (finish_changes sc) s (\<lambda>_ u. ms_controller u = ms_controller s \<and> ms_frames u = ms_frames s)"
    using reads by (auto simp: finish_changes_def runs_guidance_values runs_change_evidence split: option.split)
  then show ?thesis
    unfolding runs_and_then [of "finish_changes sc"] by (rule succeeds_mono) (use model in blast)
qed

text \<open>Everything a run can end in.\<close>

lemma run_mission_body:
  assumes "mission_ready sc c" "start = sequence (rt_cpu (target (mn_campaign c)))" "B = book_of (mn_campaign c)"
  shows "runs (mission_body sc) (mission_start sc c)
    (\<lambda>r t. \<exists>s. run_finished start B sc s \<and> ms_controller t = ms_controller s \<and> r = report_run sc t \<and> ms_frames t = ms_frames s)
    (\<lambda>x _. rejects sc x)"
proof -
  define s where "s = set_runtime (set_observer (sn_observer sc) (the_runtime (mission_start sc c))) (mission_start sc c)"
  let ?Q = "\<lambda>r t. \<exists>s. run_finished start B sc s \<and> ms_controller t = ms_controller s \<and> r = report_run sc t \<and> ms_frames t = ms_frames s"
  let ?E = "\<lambda>x _. rejects sc x"
  have sc: "scenario_sound sc" "validate_scenario sc = Inr ()" using assms(1) by (simp_all add: mission_ready_def scenario_sound_def)
  have early: "\<not> (sn_initialization sc \<noteq> [] \<and> instructions_done (mission_start sc c) \<noteq> 0)"
    using assms(1) by (auto simp: mission_ready_def instructions_done_def the_runtime_def the_campaign_def mission_start_def)
  define close where "close = seq (finish_changes sc) (seq finish_model (seq (change_evidence finish_verdicts) (gets (report_run sc))))"
  have closing: "runs close t ?Q ?E" if "run_finished start B sc t" for t
    unfolding close_def by (rule succeeds_mono [OF run_closing [OF that]]) (use that in blast)
  have last: "runs (seq (final_frame sc) close) t ?Q ?E"
    if t: "run_ok start B sc t \<and> sn_instruction_limit sc \<le> instructions_done t" for t
  proof -
    have "reads_ok sc t" using t sc(1) by (auto simp: run_ok_def dest: mission_ok_reads)
    then show ?thesis
      using frames_finished [of start B sc t] t sc(1) closing
      by (simp add: final_frame_def when_do_def runs_push_frame)
  qed
  have rounds: "runs (seq (mission_rounds (2 * sn_instruction_limit sc + 2) sc) (seq (final_frame sc) close)) t ?Q ?E"
    if t: "initial_ok start B sc t" for t
    unfolding runs_and_then [of "mission_rounds n sc" for n]
    by (rule runs_mono [OF run_mission_rounds [OF sc(1), of start B]])
      (use t last in \<open>auto simp: initial_ok_def rounds_left_def\<close>)
  have "initial_ok start B sc s" using initial_start [OF assms(1)] by (simp add: s_def assms(2,3))
  then have "succeeds (for_each (sn_initialization sc) apply_initialization) s (\<lambda>_. initial_ok start B sc)"
    using sc(1) by (intro run_initialization) (simp_all add: scenario_sound_def)
  then have "runs (seq (for_each (sn_initialization sc) apply_initialization)
      (seq (mission_rounds (2 * sn_instruction_limit sc + 2) sc) (seq (final_frame sc) close))) s ?Q ?E"
    unfolding runs_and_then [of "for_each x f" for x f] by (rule succeeds_mono) (rule rounds)
  then show ?thesis
    unfolding mission_body_def close_def [symmetric]
    by (simp only: runs_and_then [of "of_result r" for r] runs_and_then [of "gets f" for f] runs_and_then [of "modify f" for f]
        runs_gets runs_modify runs_of_result sum.case early if_False sc(2) s_def [symmetric])
qed

section \<open>The landing scenario\<close>

lemma landing_words:
  "list_all (\<lambda>w. case padload_word w of None \<Rightarrow> False
     | Some i \<Rightarrow> unat (ei_bank i) < 8 \<and> unat (ei_offset i) < 256 \<and> word_ok (ei_value i)) PADLOAD"
  by (simp add: PADLOAD_def padload_word_def expect_word_def try_from_raw_def WORD_MASK_def word_ok_iff)

lemma those_map:
  "list_all (\<lambda>x. case f x of None \<Rightarrow> False | Some y \<Rightarrow> P y) xs \<Longrightarrow> \<exists>ys. those (map f xs) = Some ys \<and> list_all P ys"
  by (induction xs) (auto split: option.splits)

lemma landing_variables: "variables_sound luminary_p63_variables"
  by (simp add: variables_sound_def luminary_p63_variables_def P63_VARIABLES_def)

text \<open>The built-in scenario is sound for every limit, and it types by its key sequence alone.\<close>

lemma landing_sound:
  obtains sc where "luminary_p63_landing = Some sc" "operator_only sc"
    "\<And>n. 0 < n \<Longrightarrow> scenario_sound (sc\<lparr>sn_instruction_limit := n\<rparr>)" "sn_inputs sc = []" "keys_to_come sc = 7"
    "sn_instruction_limit sc = 1000000"
proof -
  obtain flag where flag: "flagword_initialization = Some flag" "unat (ei_bank flag) < 8" "unat (ei_offset flag) < 256" "word_ok (ei_value flag)"
    by (simp add: flagword_initialization_def expect_word_def try_from_raw_def WORD_MASK_def word_ok_iff)
  obtain ws where ws: "those (map padload_word PADLOAD) = Some ws"
    "list_all (\<lambda>i. unat (ei_bank i) < 8 \<and> unat (ei_offset i) < 256 \<and> word_ok (ei_value i)) ws"
    using those_map [OF landing_words] by blast
  have words: "apollo11_lm5_p63_initialization = Some (flag # ws)"
    unfolding apollo11_lm5_p63_initialization_def those.simps flag(1) option.case ws(1) by simp
  define sc where "sc =
     \<lparr>sn_name = ''apollo11-lm5-padload-p63-entry'', sn_instruction_limit = 1000000, sn_frame_interval = 5000,
      sn_inputs = [], sn_initialization = flag # ws,
      sn_dsky_sequence = Some \<lparr>dk_start_cycle = 40000, dk_minimum_gap_cycles = 32768, dk_keys = V37E63E\<rparr>,
      sn_guidance_variables = luminary_p63_variables,
      sn_observer = \<lparr>executive_slots = [], waitlist_slots = []\<rparr>\<rparr>"
  have sc: "luminary_p63_landing = Some sc" "sn_initialization sc = flag # ws" "sn_inputs sc = []"
    "sn_frame_interval sc = 5000" "sn_guidance_variables sc = luminary_p63_variables"
    "sn_observer sc = \<lparr>executive_slots = [], waitlist_slots = []\<rparr>"
    "sn_dsky_sequence sc = Some \<lparr>dk_start_cycle = 40000, dk_minimum_gap_cycles = 32768, dk_keys = V37E63E\<rparr>"
    "sn_instruction_limit sc = 1000000"
    by (unfold luminary_p63_landing_def words option.map sc_def) simp_all
  show thesis
  proof (rule that [OF sc(1)])
    show "operator_only sc" by (simp add: operator_only_def sc)
    show "scenario_sound (sc\<lparr>sn_instruction_limit := n\<rparr>)" if "0 < n" for n
      using that flag ws(2) landing_variables
      by (simp add: scenario_sound_def validate_scenario_def sc V37E63E_def observer_sound_def)
    show "keys_to_come sc = 7" by (simp add: keys_to_come_def sc V37E63E_def)
  qed (simp_all add: sc)
qed

lemma landing_ready:
  assumes "cpu_ok c" "sequence c = 0" "scenario_sound sc" "length (sn_inputs sc) + keys_to_come sc \<le> 65535"
  shows "mission_ready sc (controller_from_runtime (runtime_new c))"
proof -
  have "runtime_ok (length (sn_inputs sc) + keys_to_come sc) (runtime_new c)" by (rule runtime_ok_new [OF assms(1,4)])
  moreover have "rt_cpu (runtime_new c) = c" by (simp add: runtime_new_def)
  ultimately show ?thesis
    using assms by (simp add: mission_ready_def campaign_ok_def controller_from_runtime_def default_engine_def numbered_def)
qed



text \<open>A short landing: a pad load of one word, the keys of \<open>V37E63E\<close> and a pulse on the accelerometers.\<close>

definition short_landing :: mission_scenario where
  "short_landing =
     \<lparr>sn_name = ''short'', sn_instruction_limit = 5, sn_frame_interval = 2,
      sn_inputs = [\<lparr>mi_instruction = 1, mi_event = ImuPulses 1 2 3\<rparr>],
      sn_initialization = [\<lparr>ei_symbol = ''TLAND'', ei_bank = 5, ei_offset = 0, ei_value = AgcWord 0x8A7,
        ei_provenance = [], ei_rationale = []\<rparr>],
      sn_dsky_sequence = Some \<lparr>dk_start_cycle = 3, dk_minimum_gap_cycles = 2, dk_keys = V37E63E\<rparr>,
      sn_guidance_variables = [\<lparr>gv_name = ''TLAND'', gv_bank = 5, gv_offset = 0\<rparr>],
      sn_observer = \<lparr>executive_slots = [], waitlist_slots = []\<rparr>\<rparr>"

lemma short_landing_ready:
  assumes "cpu_ok c" "sequence c = 0"
  shows "mission_ready short_landing (controller_from_runtime (runtime_new c))" "operator_only short_landing"
proof -
  have "scenario_sound short_landing"
    by (simp add: scenario_sound_def short_landing_def validate_scenario_def V37E63E_def event_sound_def word_ok_iff
        variables_sound_def observer_sound_def)
  then show "mission_ready short_landing (controller_from_runtime (runtime_new c))"
    by (rule landing_ready [OF assms]) (simp add: short_landing_def keys_to_come_def V37E63E_def)
  show "operator_only short_landing" by (simp add: operator_only_def short_landing_def)
qed

text \<open>
  C36 The frames of a mission are samples of the machine at the multiples of the interval and at the
  end, in order and without repetition; a machine that enters an interrupt before its first
  instruction is also sampled then.  The last frame is the state the mission ends in.
\<close>

theorem mission_frames:
  assumes "mission_ready sc c" "mission_run sc c = Some (Inr r, c')" "start = sequence (rt_cpu (target (mn_campaign c)))"
  shows "mr_frames r \<noteq> [] \<and> last (mr_frames r) = frame_of sc (mission_start sc c')
    \<and> map mf_instruction (mr_frames r) \<in> {frame_numbers sc start (mr_instructions r), start # frame_numbers sc start (mr_instructions r)}"
proof -
  obtain s t where "run_finished start (book_of (mn_campaign c)) sc s" "ms_controller t = ms_controller s"
    "r = report_run sc t" "ms_frames t = ms_frames s" "c' = ms_controller t"
    using run_mission_body [OF assms(1,3) refl] assms(2) by (auto simp: runs_def mission_run_def split: option.splits)
  moreover have "frame_of sc s = frame_of sc (mission_start sc (ms_controller s))"
    by (rule frame_of_cong) (simp add: mission_start_def)
  moreover have "instructions_done t = instructions_done s" using calculation(2) by (simp add: instructions_done_def the_runtime_def the_campaign_def)
  ultimately show ?thesis by (auto simp: run_finished_def report_run_def)
qed

theorem mission_frames_witness:
  "\<exists>c r c'. mission_run short_landing (controller_from_runtime (runtime_new c)) = Some (Inr r, c')
     \<and> map mf_instruction (mr_frames r) \<in> {[2, 4, 5], [0, 2, 4, 5]}"
proof -
  obtain c where c: "cpu_ok c" "sequence c = 0"
    using cpu_ok_initial [OF mem_ok_blank] by (force simp: cpu_initial_def)
  have start: "0 = sequence (rt_cpu (target (mn_campaign (controller_from_runtime (runtime_new c)))))"
    using c(2) by (simp add: controller_from_runtime_def runtime_new_def)
  have limit: "sn_instruction_limit short_landing = 5" by (simp add: short_landing_def)
  have accepted: "\<not> rejects short_landing x" for x using short_landing_ready(2) [OF c] by (simp add: rejects_def)
  have "succeeds (mission_body short_landing) (mission_start short_landing (controller_from_runtime (runtime_new c)))
      (\<lambda>r t. \<exists>s. run_finished 0 (book_of (mn_campaign (controller_from_runtime (runtime_new c)))) short_landing s \<and> ms_controller t = ms_controller s \<and> r = report_run short_landing t \<and> ms_frames t = ms_frames s)"
    by (rule runs_mono [OF run_mission_body [OF short_landing_ready(1) [OF c] start refl]]) (simp_all add: accepted)
  then obtain r t s
    where body: "mission_body short_landing (mission_start short_landing (controller_from_runtime (runtime_new c))) = Some (Inr r, t)"
      and done_at: "run_finished 0 (book_of (mn_campaign (controller_from_runtime (runtime_new c)))) short_landing s" "ms_controller t = ms_controller s" "r = report_run short_landing t"
    unfolding succeeds_iff by blast
  have run: "mission_run short_landing (controller_from_runtime (runtime_new c)) = Some (Inr r, ms_controller t)" "mr_instructions r = 5"
    using body done_at
    by (simp_all add: mission_run_def run_finished_def report_run_def instructions_done_def the_runtime_def the_campaign_def limit)
  have "frame_numbers short_landing 0 5 = [2, 4, 5]"
    by (simp add: frame_numbers_def short_landing_def upt_conv_Cons)
  with mission_frames [OF short_landing_ready(1) [OF c] run(1) start]
  have "map mf_instruction (mr_frames r) \<in> {[2, 4, 5], [0, 2, 4, 5]}" unfolding run(2) by simp
  with run(1) show ?thesis by (intro exI conjI)
qed

section \<open>The landing words\<close>

definition first_write :: "guidance_write list \<Rightarrow> string \<Rightarrow> guidance_write option" where
  "first_write writes name = find (\<lambda>w. gw_name w = name) writes"

definition write_time :: "guidance_write \<Rightarrow> nat" where
  "write_time w = mm_trace_sequence (gw_milestone w)"

lemma writes_match_iff:
  "writes_match previous expected writes \<longleftrightarrow> (\<exists>ws. map (first_write writes) (map fst expected) = map Some ws
     \<and> map gw_value ws = map snd expected
     \<and> sorted_wrt (<) ((case previous of None \<Rightarrow> [] | Some p \<Rightarrow> [p]) @ map write_time ws))"
proof (induction expected arbitrary: previous)
  case (Cons e expected)
  obtain name v where e: "e = (name, v)" by force
  show ?case
  proof (cases "first_write writes name")
    case None
    then show ?thesis by (auto simp: e first_write_def)
  next
    case (Some w)
    have "(\<exists>ws. map (first_write writes) (map fst (e # expected)) = map Some ws \<and> map gw_value ws = map snd (e # expected)
         \<and> sorted_wrt (<) ((case previous of None \<Rightarrow> [] | Some p \<Rightarrow> [p]) @ map write_time ws))
       \<longleftrightarrow> (\<exists>ws. map (first_write writes) (map fst expected) = map Some ws \<and> gw_value w = v \<and> map gw_value ws = map snd expected
         \<and> sorted_wrt (<) ((case previous of None \<Rightarrow> [] | Some p \<Rightarrow> [p]) @ write_time w # map write_time ws))"
      using Some by (auto simp: e Cons_eq_map_conv)
    also have "\<dots> \<longleftrightarrow> gw_value w = v \<and> (case previous of None \<Rightarrow> True | Some p \<Rightarrow> p < write_time w) \<and> writes_match (Some (write_time w)) expected writes"
      unfolding Cons.IH by (cases previous) (auto intro: less_trans)
    finally show ?thesis
      using Some [unfolded first_write_def] by (auto simp: e Let_def split: option.split simp flip: write_time_def)
  qed
qed (auto split: option.split)

text \<open>
  C37 A run has started the landing guidance exactly when each of the five words of \<open>P63LM\<close> has been
  written, the first write of each put there the word of the rope, and these first writes follow one
  another in the order of the source.
\<close>

theorem landing_started_exactly:
  "me_landing_guidance_started (finish_verdicts e) \<longleftrightarrow>
     (\<exists>ws. map (first_write (me_guidance_writes e)) P63_INITIALIZATION_WORDS = map Some ws
       \<and> map (\<lambda>w. raw (gw_value w)) ws = [0x43E, 0x24, 4, 0x7FFE, 0]
       \<and> sorted_wrt (<) (map write_time ws))"
proof -
  have words: "map gw_value ws = [from_raw_truncate 0x43E, from_raw_truncate 0x24, from_raw_truncate 4, from_raw_truncate 0x7FFE, POSITIVE_ZERO]
      \<longleftrightarrow> map (\<lambda>w. raw (gw_value w)) ws = [0x43E, 0x24, 4, 0x7FFE, 0]" for ws
  proof -
    have "raw w = v \<longleftrightarrow> w = AgcWord v" for w v by (cases w) auto
    then show ?thesis by (auto simp: map_eq_Cons_conv from_raw_truncate_def POSITIVE_ZERO_def WORD_MASK_def)
  qed
  have all_written: "list_all (\<lambda>name. list_ex (\<lambda>w. gw_name w = name) writes) names" if "map (first_write writes) names = map Some ws" for writes names ws
  proof -
    have "\<exists>w \<in> set writes. gw_name w = n" if "n \<in> set names" for n
    proof -
      have "first_write writes n \<in> Some ` set ws"
        using \<open>map (first_write writes) names = map Some ws\<close> that by (metis image_eqI list.set_map)
      then show ?thesis by (auto simp: first_write_def find_Some_iff) (metis nth_mem)
    qed
    then show ?thesis by (auto simp: list_all_iff list_ex_iff)
  qed
  moreover have "me_landing_guidance_started (finish_verdicts e) \<longleftrightarrow> matches_rope_writes luminary099 (me_guidance_writes e)
      \<and> list_all (\<lambda>name. list_ex (\<lambda>w. gw_name w = name) (me_guidance_writes e)) P63_INITIALIZATION_WORDS"
    by (simp add: finish_verdicts_def Let_def)
  moreover have "matches_rope_writes luminary099 writes \<longleftrightarrow>
     (\<exists>ws. map (first_write writes) P63_INITIALIZATION_WORDS = map Some ws
       \<and> map (\<lambda>w. raw (gw_value w)) ws = [0x43E, 0x24, 4, 0x7FFE, 0] \<and> sorted_wrt (<) (map write_time ws))" for writes
    unfolding matches_rope_writes_def writes_match_iff
    by (simp add: luminary099_def phase_word_def words P63_INITIALIZATION_WORDS_def)
  ultimately show ?thesis by metis
qed

end
