(* ===== verification/Agc_Xref.thy ===== *)
theory Agc_Xref
  imports Agc_Symbols Rust_Collections
begin

text \<open>
  agc-xref (src/crates/agc-xref/src/lib.rs): include and call graphs of a program, their Graphviz text
  and the recursive groups of calls.  The strongly connected components come from petgraph and are
  an argument.
\<close>

section \<open>Graphs\<close>

record graph_artifact =
  ga_nodes :: "string list"
  ga_edges :: "(nat \<times> nat) list"

text \<open>\<open>sort\<close> and \<open>dedup\<close>.\<close>

definition sorted_dedup :: "'a::linorder list \<Rightarrow> 'a list" where
  "sorted_dedup xs = remdups_adj (sort xs)"

definition name_indices :: "string list \<Rightarrow> (string, nat) btree_map" where
  "name_indices names = fold (\<lambda>(i, name). btree_insert name i) (enumerate 0 names) []"

definition escape_char :: "char \<Rightarrow> string" where
  "escape_char c = (if c = CHR 0x5C then [CHR 0x5C, CHR 0x5C] else if c = CHR 0x22 then [CHR 0x5C, CHR 0x22] else [c])"

definition escape_label :: "string \<Rightarrow> string" where
  "escape_label input = concat (map escape_char input)"

definition quoted :: "string \<Rightarrow> string" where
  "quoted input = CHR 0x22 # escape_label input @ [CHR 0x22]"

definition node_line :: "nat \<Rightarrow> string \<Rightarrow> string" where
  "node_line index node = ''  n'' @ show_radix 10 index @ '' [label='' @ quoted node @ ''];'' @ [CHR 0x0A]"

definition edge_line :: "nat \<times> nat \<Rightarrow> string" where
  "edge_line e = ''  n'' @ show_radix 10 (fst e) @ '' -> n'' @ show_radix 10 (snd e) @ '';'' @ [CHR 0x0A]"

definition to_dot :: "graph_artifact \<Rightarrow> string \<Rightarrow> string" where
  "to_dot g name =
     ''digraph '' @ quoted name @ '' {'' @ [CHR 0x0A]
     @ concat (map (\<lambda>(i, node). node_line i node) (enumerate 0 (ga_nodes g)))
     @ concat (map edge_line (ga_edges g)) @ ''}'' @ [CHR 0x0A]"

section \<open>The include graph\<close>

definition include_names :: "source_unit list \<Rightarrow> string list" where
  "include_names units = sorted_dedup (map (\<lambda>u. relative_path (un_source u)) units
     @ concat (map (\<lambda>u. map (\<lambda>(l, path). sp_text path) (include_lines u)) units))"

text \<open>The outer \<open>None\<close> is the panic of a map that lacks a unit's own path.\<close>

definition unit_edges :: "(string, nat) btree_map \<Rightarrow> source_unit \<Rightarrow> (nat \<times> nat) list option" where
  "unit_edges indices u = map_option (\<lambda>start. List.map_filter (\<lambda>(l, path).
       map_option (\<lambda>end. (start, end)) (btree_get (sp_text path) indices)) (include_lines u))
     (btree_get (relative_path (un_source u)) indices)"

definition include_graph :: "source_unit list \<Rightarrow> graph_artifact option" where
  "include_graph units =
     (let names = include_names units; indices = name_indices names
      in map_option (\<lambda>edges. \<lparr>ga_nodes = names, ga_edges = sorted_dedup (concat edges)\<rparr>)
           (those (map (unit_edges indices) units)))"

section \<open>The call graph\<close>

definition CALL_OPERATIONS :: "string list" where
  "CALL_OPERATIONS = [''TC'', ''TCR'', ''CALL'', ''CCALL'']"

definition next_label :: "(string, nat) btree_map \<Rightarrow> string option \<Rightarrow> ir_record \<Rightarrow> string option" where
  "next_label indices current r = (case ir_label r of
       Some l \<Rightarrow> if btree_get l indices \<noteq> None then Some l else current
     | None \<Rightarrow> current)"

definition call_edge :: "(string, nat) btree_map \<Rightarrow> string option \<Rightarrow> ir_record \<Rightarrow> (nat \<times> nat) option" where
  "call_edge indices current r =
     (if ir_operation r \<in> set CALL_OPERATIONS
      then (case (current, ir_operand r) of
          (Some start, SymbolOperand name offset) \<Rightarrow>
            (case (btree_get start indices, btree_get name indices) of
               (Some i, Some j) \<Rightarrow> Some (i, j)
             | _ \<Rightarrow> None)
        | _ \<Rightarrow> None)
      else None)"

fun call_edges :: "(string, nat) btree_map \<Rightarrow> string option \<Rightarrow> ir_record list \<Rightarrow> (nat \<times> nat) list" where
  "call_edges indices current [] = []"
| "call_edges indices current (r # rs) =
     (let here = next_label indices current r
      in (case call_edge indices here r of None \<Rightarrow> [] | Some e \<Rightarrow> [e]) @ call_edges indices here rs)"

definition call_graph :: "program_ir \<Rightarrow> symbol_table \<Rightarrow> graph_artifact" where
  "call_graph ir symbols =
     (let names = sort (map fst symbols)
      in \<lparr>ga_nodes = names, ga_edges = sorted_dedup (call_edges (name_indices names) None (pi_records ir))\<rparr>)"

section \<open>Recursive groups\<close>

text \<open>The components of a graph of so many nodes with these edges.\<close>

type_synonym components = "nat \<Rightarrow> (nat \<times> nat) list \<Rightarrow> nat list list"

definition is_recursive :: "(nat \<times> nat) list \<Rightarrow> nat list \<Rightarrow> bool" where
  "is_recursive edges component \<longleftrightarrow> 1 < length component
     \<or> (case component of [] \<Rightarrow> False | node # _ \<Rightarrow> (node, node) \<in> set edges)"

text \<open>\<open>None\<close> is the panic on an edge that leaves the nodes.\<close>

definition recursive_components :: "components \<Rightarrow> graph_artifact \<Rightarrow> string list list option" where
  "recursive_components scc g =
     (if list_all (\<lambda>(i, j). i < length (ga_nodes g) \<and> j < length (ga_nodes g)) (ga_edges g)
      then Some (map (\<lambda>component. sort (map (\<lambda>i. ga_nodes g ! i) component))
             (filter (is_recursive (ga_edges g)) (scc (length (ga_nodes g)) (ga_edges g))))
      else None)"

end
