(* ===== verification/Agc_Xref_Laws.thy ===== *)
theory Agc_Xref_Laws
  imports Agc_Xref
begin

text \<open>
  Laws of the cross references: the indices of the nodes, the edges of the call graph, and the
  groups of calls that are reported as recursive.
\<close>

section \<open>Indices\<close>

lemma set_sorted_dedup [simp]: "set (sorted_dedup xs) = set xs"
  by (simp add: sorted_dedup_def)

lemma remdups_adj_increasing: "sorted xs \<Longrightarrow> sorted_wrt (<) (remdups_adj xs)" for xs :: "'a::linorder list"
  by (induction xs rule: remdups_adj.induct) (auto simp: less_le)

lemma sorted_dedup_increasing: "sorted_wrt (<) (sorted_dedup xs)"
  by (simp add: sorted_dedup_def remdups_adj_increasing)

lemma fold_indices:
  "btree_ok m \<Longrightarrow> distinct names \<Longrightarrow>
   btree_get x (fold (\<lambda>(i, name). btree_insert name i) (enumerate k names) m) = Some i \<longleftrightarrow>
     (k \<le> i \<and> i - k < length names \<and> names ! (i - k) = x) \<or> (x \<notin> set names \<and> btree_get x m = Some i)"
proof (induction names arbitrary: k m)
  case (Cons n ns)
  have IH: "btree_get x (fold (\<lambda>(i, name). btree_insert name i) (enumerate (Suc k) ns) (btree_insert n k m)) = Some i \<longleftrightarrow>
     (Suc k \<le> i \<and> i - Suc k < length ns \<and> ns ! (i - Suc k) = x) \<or> (x \<notin> set ns \<and> btree_get x (btree_insert n k m) = Some i)"
    using Cons.prems by (intro Cons.IH) simp_all
  have member: "Suc k \<le> i \<Longrightarrow> i - Suc k < length ns \<Longrightarrow> ns ! (i - Suc k) = x \<Longrightarrow> x \<in> set ns" by auto
  show ?case
    using Cons.prems member by (auto simp: IH nth_Cons' Suc_le_eq less_Suc_eq_le split: if_splits)
qed simp

lemma name_indices_iff:
  "distinct names \<Longrightarrow> btree_get x (name_indices names) = Some i \<longleftrightarrow> i < length names \<and> names ! i = x"
  unfolding name_indices_def by (subst fold_indices) (auto simp: btree_get_def)

section \<open>The call graph\<close>

text \<open>The label in force after some records: the last known one.\<close>

definition label_after :: "string set \<Rightarrow> ir_record list \<Rightarrow> string option \<Rightarrow> string option" where
  "label_after names rs current =
     (let ls = filter (\<lambda>l. l \<in> names) (List.map_filter ir_label rs) in if ls = [] then current else Some (last ls))"

lemma label_after_Nil [simp]: "label_after names [] current = current"
  by (simp add: label_after_def List.map_filter_def)

lemma label_after_Cons:
  assumes "\<And>x. btree_get x indices \<noteq> None \<longleftrightarrow> x \<in> names"
  shows "label_after names (r # rs) current = label_after names rs (next_label indices current r)"
  using assms by (auto simp: label_after_def next_label_def Let_def List.map_filter_def split: option.split)

lemma call_edges_iff:
  assumes "\<And>x. btree_get x indices \<noteq> None \<longleftrightarrow> x \<in> names"
  shows "e \<in> set (call_edges indices current rs) \<longleftrightarrow>
    (\<exists>before r later. rs = before @ r # later \<and> call_edge indices (label_after names (before @ [r]) current) r = Some e)"
proof (induction rs arbitrary: current)
  case (Cons x xs)
  have here: "label_after names [x] current = next_label indices current x"
    by (simp only: label_after_Cons [OF assms] label_after_Nil)
  have "(\<exists>before r later. x # xs = before @ r # later \<and> call_edge indices (label_after names (before @ [r]) current) r = Some e)
     \<longleftrightarrow> call_edge indices (next_label indices current x) x = Some e
       \<or> (\<exists>before r later. xs = before @ r # later
            \<and> call_edge indices (label_after names (before @ [r]) (next_label indices current x)) r = Some e)"
    (is "?L \<longleftrightarrow> ?R")
  proof
    assume ?L
    then obtain before r later where split: "x # xs = before @ r # later"
      and edge: "call_edge indices (label_after names (before @ [r]) current) r = Some e" by blast
    show ?R
    proof (cases before)
      case Nil
      then show ?thesis using split edge here by simp
    next
      case (Cons b bs)
      then have "xs = bs @ r # later" "call_edge indices (label_after names (bs @ [r]) (next_label indices current x)) r = Some e"
        using split edge by (simp_all add: label_after_Cons [OF assms])
      then show ?thesis by blast
    qed
  next
    assume ?R
    then show ?L
    proof
      assume "call_edge indices (next_label indices current x) x = Some e"
      then show ?L using here by (metis append_Nil)
    next
      assume "\<exists>before r later. xs = before @ r # later
            \<and> call_edge indices (label_after names (before @ [r]) (next_label indices current x)) r = Some e"
      then show ?L by (metis append_Cons label_after_Cons [OF assms])
    qed
  qed
  moreover have "e \<in> set (call_edges indices current (x # xs)) \<longleftrightarrow> call_edge indices (next_label indices current x) x = Some e
      \<or> e \<in> set (call_edges indices (next_label indices current x) xs)"
    by (cases "call_edge indices (next_label indices current x) x") (auto simp: Let_def)
  ultimately show ?case using Cons.IH by simp
qed simp

text \<open>
  C38 The nodes of the call graph are the symbols in order, and its edges, in order and each once, are
  exactly the transfers of control: an edge leads from the last known label at or before a record
  with one of the four call operations to the symbol the record names.
\<close>

theorem call_graph_exact:
  assumes "distinct (map fst symbols)" "nodes = ga_nodes (call_graph ir symbols)" "edges = ga_edges (call_graph ir symbols)"
  shows "nodes = sort (map fst symbols) \<and> sorted_wrt (<) edges
    \<and> ((i, j) \<in> set edges \<longleftrightarrow> i < length nodes \<and> j < length nodes
         \<and> (\<exists>before r later offset. pi_records ir = before @ r # later
             \<and> ir_operation r \<in> set CALL_OPERATIONS \<and> ir_operand r = SymbolOperand (nodes ! j) offset
             \<and> label_after (set nodes) (before @ [r]) None = Some (nodes ! i)))"
proof -
  have nodes: "nodes = sort (map fst symbols)" using assms(2) by (simp add: call_graph_def Let_def)
  then have distinct: "distinct nodes" using assms(1) by simp
  note get = name_indices_iff [OF distinct]
  have at: "k < length nodes \<Longrightarrow> btree_get (nodes ! k) (name_indices nodes) = Some k" for k
    using get by simp
  have known: "btree_get x (name_indices nodes) \<noteq> None \<longleftrightarrow> x \<in> set nodes" for x
    using get [of x] by (auto simp: in_set_conv_nth)
  have edges: "edges = sorted_dedup (call_edges (name_indices nodes) None (pi_records ir))"
    using assms(3) nodes by (simp add: call_graph_def Let_def)
  have edge: "call_edge (name_indices nodes) current r = Some (i, j) \<longleftrightarrow>
      ir_operation r \<in> set CALL_OPERATIONS \<and> i < length nodes \<and> j < length nodes
    \<and> current = Some (nodes ! i) \<and> (\<exists>offset. ir_operand r = SymbolOperand (nodes ! j) offset)" for current r
    by (auto simp: call_edge_def at get nth_eq_iff_index_eq [OF distinct] split: option.split operand.split)
  have "(i, j) \<in> set edges \<longleftrightarrow> i < length nodes \<and> j < length nodes
     \<and> (\<exists>before r later offset. pi_records ir = before @ r # later
         \<and> ir_operation r \<in> set CALL_OPERATIONS \<and> ir_operand r = SymbolOperand (nodes ! j) offset
         \<and> label_after (set nodes) (before @ [r]) None = Some (nodes ! i))"
    unfolding edges set_sorted_dedup call_edges_iff [OF known] edge by blast
  then show ?thesis using nodes edges sorted_dedup_increasing by metis
qed

theorem call_graph_exact_witness:
  "\<forall>loc a b. (0, 1) \<in> set (ga_edges (call_graph
     \<lparr>pi_program = ''P'', pi_records =
       [\<lparr>ir_location = loc, ir_label = Some ''A'', ir_operation = ''TC'', ir_operand = SymbolOperand ''B'' 0,
         ir_kind = InstructionKind, ir_bank = None, ir_offset = None, ir_word = None\<rparr>], pi_hashes = []\<rparr>
     [(''B'', b), (''A'', a)]))"
proof (intro allI)
  fix loc a b
  let ?p = "\<lparr>pi_program = ''P'', pi_records =
       [\<lparr>ir_location = loc, ir_label = Some ''A'', ir_operation = ''TC'', ir_operand = SymbolOperand ''B'' 0,
         ir_kind = InstructionKind, ir_bank = None, ir_offset = None, ir_word = None\<rparr>], pi_hashes = []\<rparr>"
  let ?g = "call_graph ?p [(''B'', b), (''A'', a)]"
  have nodes: "ga_nodes ?g = [''A'', ''B'']" by (simp add: call_graph_def Let_def)
  have "label_after {''A'', ''B''} (pi_records ?p) None = Some ''A''"
    by (simp add: label_after_def List.map_filter_def)
  moreover have "distinct (map fst [(''B'', b), (''A'', a)])" by simp
  ultimately show "(0, 1) \<in> set (ga_edges ?g)"
    using call_graph_exact [OF _ refl refl, of "[(''B'', b), (''A'', a)]" ?p 0 1] nodes
    by (auto simp: CALL_OPERATIONS_def intro!: exI [of _ "[]"])
qed

section \<open>Recursive groups\<close>

text \<open>
  What is relied on of petgraph: the components are non-empty, cover the nodes once and are the
  classes of mutual reachability.
\<close>

definition calls :: "(nat \<times> nat) list \<Rightarrow> nat rel" where
  "calls edges = set edges"

definition components_ok :: "nat \<Rightarrow> (nat \<times> nat) list \<Rightarrow> nat list list \<Rightarrow> bool" where
  "components_ok n edges cs \<longleftrightarrow> set (concat cs) = {..<n} \<and> distinct (concat cs) \<and> [] \<notin> set cs
     \<and> (\<forall>c \<in> set cs. \<forall>i \<in> set c. set c = {j. j < n \<and> (i, j) \<in> (calls edges)\<^sup>* \<and> (j, i) \<in> (calls edges)\<^sup>*})"

lemma distinct_concat_member: "distinct (concat cs) \<Longrightarrow> c \<in> set cs \<Longrightarrow> distinct c"
  by (induction cs) auto

lemma recursive_component:
  assumes ok: "components_ok n edges cs" and inside: "set edges \<subseteq> {..<n} \<times> {..<n}" and c: "c \<in> set cs" "i \<in> set c"
  shows "is_recursive edges c \<longleftrightarrow> (i, i) \<in> (calls edges)\<^sup>+"
proof -
  have members: "set c = {j. j < n \<and> (i, j) \<in> (calls edges)\<^sup>* \<and> (j, i) \<in> (calls edges)\<^sup>*}"
    using ok c by (auto simp: components_ok_def)
  have dist: "distinct c" using ok c(1) by (auto simp: components_ok_def intro: distinct_concat_member)
  show ?thesis
  proof (cases "length c = 1")
    case True
    then have single: "c = [i]" using c(2) by (cases c) auto
    have "(i, i) \<in> (calls edges)\<^sup>+ \<Longrightarrow> (i, i) \<in> set edges"
    proof -
      assume "(i, i) \<in> (calls edges)\<^sup>+"
      then obtain k where k: "(i, k) \<in> calls edges" "(k, i) \<in> (calls edges)\<^sup>*" by (auto dest: tranclD)
      then have "k \<in> set c" using inside unfolding members by (auto simp: calls_def)
      then show ?thesis using k(1) single by (simp add: calls_def)
    qed
    then show ?thesis using single by (auto simp: is_recursive_def calls_def)
  next
    case False
    then have long: "1 < length c" using c(2) by (cases c) auto
    then have "card (set c) \<noteq> 1" using dist by (simp add: distinct_card)
    then have "set c \<noteq> {i}" by auto
    then obtain j where j: "j \<in> set c" "j \<noteq> i" using c(2) by blast
    then have "(i, j) \<in> (calls edges)\<^sup>+" "(j, i) \<in> (calls edges)\<^sup>*" unfolding members by (auto simp: rtrancl_eq_or_trancl)
    then show ?thesis using long by (auto simp: is_recursive_def)
  qed
qed

text \<open>
  C39 Given the components of a graph, the recursive groups are exactly its cycles: a node appears in a
  group exactly when it leads back to itself, each group is sorted, and it holds the nodes that lead
  to each other.  A graph with an edge that leaves its nodes panics.
\<close>

theorem recursive_groups_exact:
  assumes "components_ok (length (ga_nodes g)) (ga_edges g) (scc (length (ga_nodes g)) (ga_edges g))"
    "distinct (ga_nodes g)" "i < length (ga_nodes g)"
  shows "case recursive_components scc g of
      None \<Rightarrow> \<not> set (ga_edges g) \<subseteq> {..<length (ga_nodes g)} \<times> {..<length (ga_nodes g)}
    | Some groups \<Rightarrow>
        (if (i, i) \<in> (calls (ga_edges g))\<^sup>+
         then sort (map ((!) (ga_nodes g)) (filter (\<lambda>j. (i, j) \<in> (calls (ga_edges g))\<^sup>+ \<and> (j, i) \<in> (calls (ga_edges g))\<^sup>+)
                [0..<length (ga_nodes g)])) \<in> set groups
         else ga_nodes g ! i \<notin> set (concat groups))"
proof -
  let ?n = "length (ga_nodes g)" and ?E = "calls (ga_edges g)" and ?cs = "scc (length (ga_nodes g)) (ga_edges g)"
  let ?names = "\<lambda>c. sort (map ((!) (ga_nodes g)) c)"
  have inside: "list_all (\<lambda>(i, j). i < ?n \<and> j < ?n) (ga_edges g) \<longleftrightarrow> set (ga_edges g) \<subseteq> {..<?n} \<times> {..<?n}"
    by (auto simp: list_all_iff)
  show ?thesis
  proof (cases "set (ga_edges g) \<subseteq> {..<?n} \<times> {..<?n}")
    case False
    then show ?thesis by (simp add: recursive_components_def inside)
  next
    case True
    then have groups: "recursive_components scc g = Some (map ?names (filter (is_recursive (ga_edges g)) ?cs))"
      by (simp add: recursive_components_def inside)
    have "i \<in> set (concat ?cs)" using assms(1,3) unfolding components_ok_def by blast
    then obtain c where c: "c \<in> set ?cs" "i \<in> set c" by auto
    note recursive = recursive_component [OF assms(1) True]
    have members: "set d = {j. j < ?n \<and> (k, j) \<in> ?E\<^sup>* \<and> (j, k) \<in> ?E\<^sup>*}" if "d \<in> set ?cs" "k \<in> set d" for d k
      using assms(1) that by (auto simp: components_ok_def)
    show ?thesis
    proof (cases "(i, i) \<in> ?E\<^sup>+")
      case cyclic: True
      let ?js = "filter (\<lambda>j. (i, j) \<in> ?E\<^sup>+ \<and> (j, i) \<in> ?E\<^sup>+) [0..<?n]"
      have "set c = set ?js"
        using cyclic unfolding members [OF c] by (auto simp: rtrancl_eq_or_trancl)
      moreover have "distinct c" using assms(1) c(1) by (auto simp: components_ok_def intro: distinct_concat_member)
      moreover have "distinct ?js" by simp
      ultimately have "mset c = mset ?js" using set_eq_iff_mset_eq_distinct by blast
      then have "mset (map ((!) (ga_nodes g)) c) = mset (map ((!) (ga_nodes g)) ?js)" by simp
      then have "?names c = ?names ?js" by (intro properties_for_sort) simp_all
      moreover have "is_recursive (ga_edges g) c" using recursive [OF c] cyclic by simp
      ultimately show ?thesis using groups cyclic c(1) by (auto intro!: image_eqI [of _ _ c])
    next
      case False
      have "ga_nodes g ! i \<notin> set (?names d)" if d: "d \<in> set ?cs" "is_recursive (ga_edges g) d" for d
      proof
        assume "ga_nodes g ! i \<in> set (?names d)"
        then obtain k where k: "k \<in> set d" "ga_nodes g ! i = ga_nodes g ! k" by auto
        then have "k < ?n" using members [OF d(1) k(1)] k(1) by auto
        then have "k = i" using k(2) assms(2,3) by (simp add: nth_eq_iff_index_eq)
        then show False using recursive [OF d(1)] k(1) d(2) False by auto
      qed
      then show ?thesis using groups False by auto
    qed
  qed
qed

theorem recursive_groups_exact_witness:
  "\<exists>groups. recursive_components (\<lambda>n edges. [[2], [1, 0]])
       \<lparr>ga_nodes = [''A'', ''B'', ''C''], ga_edges = [(0, 1), (1, 0), (1, 2)]\<rparr> = Some groups
     \<and> [''A'', ''B''] \<in> set groups"
proof -
  define es :: "(nat \<times> nat) list" where "es = [(0, 1), (1, 0), (1, 2)]"
  define g where "g = \<lparr>ga_nodes = [''A'', ''B'', ''C''], ga_edges = es\<rparr>"
  have steps: "(0, 1) \<in> calls es" "(1, 0) \<in> calls es" by (simp_all add: calls_def es_def)
  have stuck: "(2, j) \<in> (calls es)\<^sup>* \<longleftrightarrow> j = 2" for j
  proof
    assume "(2, j) \<in> (calls es)\<^sup>*"
    then show "j = 2" by (cases rule: converse_rtranclE) (simp_all add: calls_def es_def)
  qed simp
  have there: "(0, 1) \<in> (calls es)\<^sup>+" "(1, 0) \<in> (calls es)\<^sup>+" "(0, 0) \<in> (calls es)\<^sup>+"
    using steps by (auto intro: trancl_into_trancl)
  have around: "(0, 1) \<in> (calls es)\<^sup>*" "(1, 0) \<in> (calls es)\<^sup>*" using steps by auto
  have below: "{j. j < 3 \<and> P j} = {j \<in> {0, 1, 2}. P j}" for P :: "nat \<Rightarrow> bool" by auto
  have classes: "set [2] = {j. j < 3 \<and> (2, j) \<in> (calls es)\<^sup>* \<and> (j, 2) \<in> (calls es)\<^sup>*}"
    "set [1, 0] = {j. j < 3 \<and> (0, j) \<in> (calls es)\<^sup>* \<and> (j, 0) \<in> (calls es)\<^sup>*}"
    "set [1, 0] = {j. j < 3 \<and> (1, j) \<in> (calls es)\<^sup>* \<and> (j, 1) \<in> (calls es)\<^sup>*}"
    unfolding below using around by (auto simp: stuck)
  have "set c = {j. j < 3 \<and> (i, j) \<in> (calls es)\<^sup>* \<and> (j, i) \<in> (calls es)\<^sup>*}" if "c \<in> set [[2], [1, 0]]" "i \<in> set c" for c i
  proof -
    have "c = [2] \<and> i = 2 \<or> c = [1, 0] \<and> i = 0 \<or> c = [1, 0] \<and> i = 1" using that by auto
    then show ?thesis using classes by (elim disjE conjE) (simp_all only:)
  qed
  then have ok: "components_ok 3 es [[2], [1, 0]]"
    unfolding components_ok_def by (intro conjI ballI) auto
  have "(2, 0) \<notin> (calls es)\<^sup>+" using stuck by (metis trancl_into_rtrancl zero_neq_numeral)
  then have "filter (\<lambda>j. (0, j) \<in> (calls es)\<^sup>+ \<and> (j, 0) \<in> (calls es)\<^sup>+) [0, 1, 2] = [0, 1]"
    using there by simp
  moreover have "[0..<3] = [0, 1, 2 :: nat]" by (simp add: upt_conv_Cons)
  ultimately have cycle: "filter (\<lambda>j. (0, j) \<in> (calls es)\<^sup>+ \<and> (j, 0) \<in> (calls es)\<^sup>+) [0..<3] = [0, 1]"
    by (simp only:)
  have g: "length (ga_nodes g) = 3" "ga_edges g = es" "distinct (ga_nodes g)" by (simp_all add: g_def)
  obtain groups where groups: "recursive_components (\<lambda>n edges. [[2], [1, 0]]) g = Some groups"
    by (simp add: recursive_components_def g_def es_def)
  have "sort (map ((!) (ga_nodes g)) [0, 1]) \<in> set groups"
    using recursive_groups_exact [where g = g and i = 0 and scc = "\<lambda>n edges. [[2], [1, 0]]", unfolded g(1,2) groups option.case cycle]
      ok g(3) there(3) by simp
  then have "\<exists>groups. recursive_components (\<lambda>n edges. [[2], [1, 0]]) g = Some groups \<and> [''A'', ''B''] \<in> set groups"
    using groups by (simp add: g_def)
  then show ?thesis by (simp add: g_def es_def)
qed

end
