(* ===== verification/Agc_Experiments.thy ===== *)
theory Agc_Experiments
  imports Agc_Mission
begin

text \<open>
  agc-experiments (src/crates/agc-experiments/src/lib.rs): matrices of paired missions.  A baseline
  and one arm per declared fault run from the same controller; the injection points are resolved
  against the baseline's evidence, and each arm is compared with the baseline and classified.
\<close>

section \<open>Declarations\<close>

definition FAULT_MATRIX_SCHEMA_VERSION :: nat where "FAULT_MATRIX_SCHEMA_VERSION = 1"

datatype mission_anchor = FirstKeyRequest | FinalKeyRequest | Program63Selected | P63Entry

datatype injection_point =
    AtInstruction nat
  | AtAnchor mission_anchor int
  | AtGuidanceWrite string int

record fault_case_spec =
  cs_id :: string
  cs_injection :: injection_point
  cs_fault :: fault
  cs_question :: string
  cs_limitation :: string

record fault_matrix_spec =
  ms_schema :: nat
  ms_name :: string
  ms_limit :: nat
  ms_cases :: "fault_case_spec list"

text \<open>The messages, with their arguments.\<close>

datatype fault_problem = BadErasable | BadPhysicalErasable | BadRope | BadRegister | BadChannel | BadTimer

datatype spec_problem =
    UnsupportedSchema nat
  | MissingParts
  | BadIdentifier string
  | MissingTexts string
  | BadFault string fault_problem

datatype injection_problem =
    NoAnchor mission_anchor
  | NoGuidanceWrite string
  | OutsideLimit int nat

datatype experiment_error =
    ExperimentSpec spec_problem
  | Injection string injection_problem
  | ExperimentMission mission_error

definition validate_fault :: "fault \<Rightarrow> fault_problem option" where
  "validate_fault f = (case f of
       ErasableBitFlip address bits \<Rightarrow>
         if 0x3FF < address \<or> bits = 0 \<or> 0x7FFF < bits then Some BadErasable else None
     | PhysicalErasableBitFlip bank offset bits \<Rightarrow>
         if 8 \<le> bank \<or> 0x100 \<le> offset \<or> bits = 0 \<or> 0x7FFF < bits then Some BadPhysicalErasable else None
     | RopeBitFlip bank offset bits \<Rightarrow>
         if 0x24 \<le> bank \<or> 0x400 \<le> offset \<or> bits = 0 \<or> 0x7FFF < bits then Some BadRope else None
     | RegisterFault index bits \<Rightarrow> if 0x10 \<le> index \<or> bits = 0 then Some BadRegister else None
     | StuckChannel channel v instructions \<Rightarrow> if 0x1FF < channel \<or> instructions = 0 then Some BadChannel else None
     | TimerJump address delta \<Rightarrow>
         if \<not> (0x14 \<le> address \<and> address \<le> 0x19) \<or> \<not> (-16383 \<le> delta \<and> delta \<le> 16383) then Some BadTimer else None
     | DropInterrupt i \<Rightarrow> None
     | ImuBias x y z \<Rightarrow> None
     | RadarSample distance rate \<Rightarrow> None)"

text \<open>The loop over the cases, with the identifiers seen so far.\<close>

fun validate_cases :: "string list \<Rightarrow> fault_case_spec list \<Rightarrow> spec_problem option" where
  "validate_cases ids [] = None"
| "validate_cases ids (c # cs) =
     (if trim (cs_id c) = [] \<or> cs_id c \<in> set ids then Some (BadIdentifier (cs_id c))
      else if trim (cs_question c) = [] \<or> trim (cs_limitation c) = [] then Some (MissingTexts (cs_id c))
      else case validate_fault (cs_fault c) of
        Some p \<Rightarrow> Some (BadFault (cs_id c) p)
      | None \<Rightarrow> validate_cases (cs_id c # ids) cs)"

definition validate_matrix :: "fault_matrix_spec \<Rightarrow> spec_problem option" where
  "validate_matrix spec =
     (if ms_schema spec \<noteq> FAULT_MATRIX_SCHEMA_VERSION then Some (UnsupportedSchema (ms_schema spec))
      else if trim (ms_name spec) = [] \<or> ms_limit spec = 0 \<or> ms_cases spec = [] then Some MissingParts
      else validate_cases [] (ms_cases spec))"

section \<open>Results\<close>

datatype injection_basis =
    ExplicitInstruction nat
  | BaselineAnchor mission_anchor nat
  | FirstWriteTo string nat

record resolved_injection =
  rj_declared :: injection_point
  rj_instruction :: nat
  rj_basis :: injection_basis

record mission_acceptance =
  ma_instructions :: nat
  ma_cycles :: nat
  ma_final_pc :: u16
  ma_keyboard_sequence_verified :: bool
  ma_pinball_matches_rope :: bool
  ma_verified_p63_request :: bool
  ma_p63_initialization_matches_rope :: bool
  ma_landing_guidance_started :: bool
  ma_program_63_instruction :: "nat option"
  ma_p63_entry_instruction :: "nat option"
  ma_guidance_writes :: nat
  ma_guidance_changes :: nat

definition obligations :: "mission_acceptance \<Rightarrow> bool list" where
  "obligations a = [ma_keyboard_sequence_verified a, ma_pinball_matches_rope a, ma_verified_p63_request a,
     ma_p63_initialization_matches_rope a, ma_landing_guidance_started a]"

definition acceptance_score :: "mission_acceptance \<Rightarrow> nat" where
  "acceptance_score a = length (filter (\<lambda>v. v) (obligations a))"

text \<open>The values that the source formats.\<close>

datatype acceptance_value = BoolValue bool | InstructionValue "nat option" | CountValue nat

record acceptance_difference =
  ad_field :: string
  ad_baseline :: acceptance_value
  ad_faulted :: acceptance_value

datatype fault_outcome_class =
    NotActivated | Masked | Recovered | PersistentStateDivergence | MissionEvidenceChanged | MissionDegraded

fun outcome_rank :: "fault_outcome_class \<Rightarrow> nat" where
  "outcome_rank NotActivated = 0"
| "outcome_rank Masked = 1"
| "outcome_rank Recovered = 2"
| "outcome_rank PersistentStateDivergence = 3"
| "outcome_rank MissionEvidenceChanged = 4"
| "outcome_rank MissionDegraded = 5"

lemma outcome_rank_inject [simp]: "outcome_rank x = outcome_rank y \<longleftrightarrow> x = y"
  by (cases x; cases y) simp_all

instantiation fault_outcome_class :: linorder
begin

definition less_eq_fault_outcome_class :: "fault_outcome_class \<Rightarrow> fault_outcome_class \<Rightarrow> bool" where
  "less_eq_fault_outcome_class x y \<longleftrightarrow> outcome_rank x \<le> outcome_rank y"

definition less_fault_outcome_class :: "fault_outcome_class \<Rightarrow> fault_outcome_class \<Rightarrow> bool" where
  "less_fault_outcome_class x y \<longleftrightarrow> outcome_rank x < outcome_rank y"

instance
  by standard (auto simp: less_eq_fault_outcome_class_def less_fault_outcome_class_def)

end

record fault_case_result =
  cr_id :: string
  cr_injection :: resolved_injection
  cr_fault :: fault
  cr_question :: string
  cr_limitation :: string
  cr_applied :: "applied_fault list"
  cr_activated :: bool
  cr_faulted :: mission_acceptance
  cr_comparison :: validation_report
  cr_recovery :: recovery_comparison
  cr_first_divergence :: "nat option"
  cr_latency :: "nat option"
  cr_differences :: "acceptance_difference list"
  cr_outcome :: fault_outcome_class

record fault_matrix_aggregate =
  fa_cases :: nat
  fa_outcomes :: "(fault_outcome_class, nat) btree_map"
  fa_diverged :: nat
  fa_degraded :: nat
  fa_recovered :: nat

record fault_matrix_report =
  fr_schema :: nat
  fr_name :: string
  fr_scenario :: string
  fr_limit :: nat
  fr_baseline :: mission_acceptance
  fr_cases :: "fault_case_result list"
  fr_aggregate :: fault_matrix_aggregate

section \<open>Injection points\<close>

definition anchor_instruction :: "mission_anchor \<Rightarrow> mission_evidence \<Rightarrow> nat option" where
  "anchor_instruction a e = (case a of
       FirstKeyRequest \<Rightarrow> (case me_keys e of [] \<Rightarrow> None | k # _ \<Rightarrow> Some (ke_requested_instruction k))
     | FinalKeyRequest \<Rightarrow> (if me_keys e = [] then None else Some (ke_requested_instruction (last (me_keys e))))
     | Program63Selected \<Rightarrow> map_option mm_instruction (me_program_63_selected e)
     | P63Entry \<Rightarrow> map_option mm_instruction (me_p63lm_entry e))"

definition injection_base ::
  "injection_point \<Rightarrow> mission_evidence \<Rightarrow> injection_problem + nat \<times> injection_basis \<times> int" where
  "injection_base p e = (case p of
       AtInstruction n \<Rightarrow> Inr (n, ExplicitInstruction n, 0)
     | AtAnchor a offset \<Rightarrow> (case anchor_instruction a e of
           None \<Rightarrow> Inl (NoAnchor a)
         | Some n \<Rightarrow> Inr (n, BaselineAnchor a n, offset))
     | AtGuidanceWrite variable offset \<Rightarrow> (case find (\<lambda>w. gw_name w = variable) (me_guidance_writes e) of
           None \<Rightarrow> Inl (NoGuidanceWrite variable)
         | Some w \<Rightarrow> Inr (mm_instruction (gw_milestone w), FirstWriteTo variable (mm_instruction (gw_milestone w)), offset)))"

definition resolve_injection :: "fault_case_spec \<Rightarrow> mission_result \<Rightarrow> nat \<Rightarrow> experiment_error + resolved_injection" where
  "resolve_injection c baseline limit = (case injection_base (cs_injection c) (mr_evidence baseline) of
       Inl p \<Rightarrow> Inl (Injection (cs_id c) p)
     | Inr (base, basis, offset) \<Rightarrow>
         (let resolved = int base + offset
          in if resolved < 0 \<or> int limit \<le> resolved then Inl (Injection (cs_id c) (OutsideLimit resolved limit))
             else Inr \<lparr>rj_declared = cs_injection c, rj_instruction = nat resolved, rj_basis = basis\<rparr>))"

fun resolve_all :: "fault_case_spec list \<Rightarrow> mission_result \<Rightarrow> nat \<Rightarrow> experiment_error + resolved_injection list" where
  "resolve_all [] baseline limit = Inr []"
| "resolve_all (c # cs) baseline limit =
     bind_result (resolve_injection c baseline limit) (\<lambda>r.
     bind_result (resolve_all cs baseline limit) (\<lambda>rs. Inr (r # rs)))"

section \<open>Comparing an arm with the baseline\<close>

text \<open>\<open>None\<close> is the panic of the program counter.\<close>

definition acceptance :: "mission_result \<Rightarrow> mission_controller \<Rightarrow> mission_acceptance option" where
  "acceptance r c = map_option (\<lambda>pc.
     (let e = mr_evidence r
      in \<lparr>ma_instructions = mr_instructions r, ma_cycles = mr_cycles r, ma_final_pc = pc,
          ma_keyboard_sequence_verified = me_keyboard_sequence_verified e,
          ma_pinball_matches_rope = me_pinball_reconstruction_matches_rope e,
          ma_verified_p63_request = me_verified_p63_request e,
          ma_p63_initialization_matches_rope = me_p63_initialization_matches_rope e,
          ma_landing_guidance_started = me_landing_guidance_started e,
          ma_program_63_instruction = map_option mm_instruction (me_program_63_selected e),
          ma_p63_entry_instruction = map_option mm_instruction (me_p63lm_entry e),
          ma_guidance_writes = length (me_guidance_writes e), ma_guidance_changes = length (me_guidance_changes e)\<rparr>))
     (pc_of (rt_cpu (target (mn_campaign c))))"

definition fault_target_activated :: "applied_fault list \<Rightarrow> bool" where
  "fault_target_activated fs \<longleftrightarrow> fs \<noteq> [] \<and> list_ex (\<lambda>f.
     \<not> (case af_fault f of DropInterrupt i \<Rightarrow> af_resulting_word f = Some 0 | _ \<Rightarrow> False)) fs"

definition classify ::
  "bool \<Rightarrow> validation_report \<Rightarrow> recovery_comparison \<Rightarrow> mission_acceptance \<Rightarrow> mission_acceptance
    \<Rightarrow> acceptance_difference list \<Rightarrow> fault_outcome_class" where
  "classify activated comparison recovery baseline faulted differences =
     (if \<not> activated then NotActivated
      else if vr_equivalent comparison then Masked
      else if acceptance_score faulted < acceptance_score baseline then MissionDegraded
      else if differences \<noteq> [] then MissionEvidenceChanged
      else if registers_recovered recovery then Recovered
      else PersistentStateDivergence)"

definition instruction_boundary_at_event :: "trace_log \<Rightarrow> nat \<Rightarrow> nat" where
  "instruction_boundary_at_event t n = length (filter (\<lambda>e. te_kind e = InstructionEvent) (take n (events t)))"

definition compare_field ::
  "string \<Rightarrow> (mission_acceptance \<Rightarrow> acceptance_value) \<Rightarrow> mission_acceptance \<Rightarrow> mission_acceptance \<Rightarrow> acceptance_difference list" where
  "compare_field name field baseline faulted =
     (if field baseline \<noteq> field faulted
      then [\<lparr>ad_field = name, ad_baseline = field baseline, ad_faulted = field faulted\<rparr>] else [])"

definition COMPARED_FIELDS :: "(string \<times> (mission_acceptance \<Rightarrow> acceptance_value)) list" where
  "COMPARED_FIELDS =
     [(''keyboard_sequence_verified'', \<lambda>a. BoolValue (ma_keyboard_sequence_verified a)),
      (''pinball_reconstruction_matches_rope'', \<lambda>a. BoolValue (ma_pinball_matches_rope a)),
      (''verified_p63_request'', \<lambda>a. BoolValue (ma_verified_p63_request a)),
      (''p63_initialization_matches_rope'', \<lambda>a. BoolValue (ma_p63_initialization_matches_rope a)),
      (''landing_guidance_started'', \<lambda>a. BoolValue (ma_landing_guidance_started a)),
      (''program_63_selected_instruction'', \<lambda>a. InstructionValue (ma_program_63_instruction a)),
      (''p63_entry_instruction'', \<lambda>a. InstructionValue (ma_p63_entry_instruction a)),
      (''guidance_writes'', \<lambda>a. CountValue (ma_guidance_writes a)),
      (''guidance_changes'', \<lambda>a. CountValue (ma_guidance_changes a))]"

definition acceptance_differences :: "mission_acceptance \<Rightarrow> mission_acceptance \<Rightarrow> acceptance_difference list" where
  "acceptance_differences baseline faulted =
     concat (map (\<lambda>(name, field). compare_field name field baseline faulted) COMPARED_FIELDS)"

section \<open>The matrix\<close>

type_synonym 'a trial = "(unit, experiment_error, 'a) prog"

definition run_arm :: "mission_scenario \<Rightarrow> mission_controller \<Rightarrow> (mission_result \<times> mission_controller) trial" where
  "run_arm sc c = (\<lambda>u. case mission_run sc c of
       None \<Rightarrow> None
     | Some (Inl e, c') \<Rightarrow> Some (Inl (ExperimentMission e), u)
     | Some (Inr r, c') \<Rightarrow> Some (Inr (r, c'), u))"

definition with_fault :: "nat \<Rightarrow> fault \<Rightarrow> mission_controller \<Rightarrow> mission_controller trial" where
  "with_fault n f c = (\<lambda>u. case mission_schedule_fault n f c of
       None \<Rightarrow> None
     | Some (Inl e, c') \<Rightarrow> Some (Inl (ExperimentMission e), u)
     | Some (Inr x, c') \<Rightarrow> Some (Inr c', u))"

definition case_result ::
  "fault_case_spec \<Rightarrow> resolved_injection \<Rightarrow> mission_acceptance \<Rightarrow> mission_controller \<Rightarrow> mission_result \<Rightarrow> mission_controller
    \<Rightarrow> mission_acceptance \<Rightarrow> recovery_comparison \<Rightarrow> fault_case_result" where
  "case_result spec injection baseline baseline_controller arm controller faulted recovery =
     (let comparison = compare_missions baseline_controller controller;
          activated = fault_target_activated (mr_applied_faults arm);
          first = map_option (instruction_boundary_at_event (trace (rt_cpu (target (mn_campaign controller))))) (first_divergence recovery);
          differences = acceptance_differences baseline faulted
      in \<lparr>cr_id = cs_id spec, cr_injection = injection, cr_fault = cs_fault spec, cr_question = cs_question spec,
          cr_limitation = cs_limitation spec, cr_applied = mr_applied_faults arm, cr_activated = activated,
          cr_faulted = faulted, cr_comparison = comparison, cr_recovery = recovery, cr_first_divergence = first,
          cr_latency = map_option (\<lambda>n. n - rj_instruction injection) first, cr_differences = differences,
          cr_outcome = classify activated comparison recovery baseline faulted differences\<rparr>)"

definition run_case ::
  "mission_scenario \<Rightarrow> mission_controller \<Rightarrow> mission_acceptance \<Rightarrow> mission_controller
    \<Rightarrow> fault_case_spec \<times> resolved_injection \<Rightarrow> fault_case_result trial" where
  "run_case sc template baseline baseline_controller = (\<lambda>(spec, injection).
     and_then (with_fault (rj_instruction injection) (cs_fault spec) template) (\<lambda>c.
     and_then (run_arm sc c) (\<lambda>(arm, controller).
     and_then (of_option (acceptance arm controller)) (\<lambda>faulted.
     and_then (of_option (compare_recovery (target (mn_campaign baseline_controller)) (target (mn_campaign controller)))) (\<lambda>recovery.
     ok (case_result spec injection baseline baseline_controller arm controller faulted recovery))))))"

fun run_cases ::
  "mission_scenario \<Rightarrow> mission_controller \<Rightarrow> mission_acceptance \<Rightarrow> mission_controller
    \<Rightarrow> (fault_case_spec \<times> resolved_injection) list \<Rightarrow> fault_case_result list trial" where
  "run_cases sc template baseline baseline_controller [] = ok []"
| "run_cases sc template baseline baseline_controller (x # xs) =
     and_then (run_case sc template baseline baseline_controller x) (\<lambda>r.
     and_then (run_cases sc template baseline baseline_controller xs) (\<lambda>rs. ok (r # rs)))"

definition aggregate :: "fault_case_result list \<Rightarrow> fault_matrix_aggregate" where
  "aggregate rs =
     \<lparr>fa_cases = length rs,
      fa_outcomes = fold (\<lambda>r. btree_entry (cr_outcome r) 0 Suc) rs [],
      fa_diverged = length (filter (\<lambda>r. \<not> vr_equivalent (cr_comparison r)) rs),
      fa_degraded = length (filter (\<lambda>r. cr_outcome r = MissionDegraded) rs),
      fa_recovered = length (filter (\<lambda>r. cr_outcome r = Recovered) rs)\<rparr>"

definition template_from_rope :: "rope_image \<Rightarrow> mission_controller trial" where
  "template_from_rope rope = and_then (of_option (controller_from_rope rope)) (\<lambda>r. case r of
       Inl e \<Rightarrow> fail (ExperimentMission e)
     | Inr c \<Rightarrow> ok c)"

definition run_matrix :: "rope_image \<Rightarrow> fault_matrix_spec \<Rightarrow> fault_matrix_report trial" where
  "run_matrix rope spec =
     (case validate_matrix spec of
        Some p \<Rightarrow> fail (ExperimentSpec p)
      | None \<Rightarrow>
          and_then (of_option luminary_p63_landing) (\<lambda>landing.
          let sc = landing\<lparr>sn_instruction_limit := ms_limit spec\<rparr>
          in and_then (template_from_rope rope) (\<lambda>template.
             and_then (run_arm sc template) (\<lambda>(baseline_run, baseline_controller).
             and_then (of_option (acceptance baseline_run baseline_controller)) (\<lambda>baseline.
             and_then (of_result (resolve_all (ms_cases spec) baseline_run (ms_limit spec))) (\<lambda>resolved.
             and_then (run_cases sc template baseline baseline_controller (zip (ms_cases spec) resolved)) (\<lambda>results.
             ok \<lparr>fr_schema = FAULT_MATRIX_SCHEMA_VERSION, fr_name = ms_name spec, fr_scenario = sn_name sc,
                 fr_limit = ms_limit spec, fr_baseline = baseline, fr_cases = results,
                 fr_aggregate = aggregate results\<rparr>)))))))"

definition run_luminary_p63_fault_matrix :: "rope_image \<Rightarrow> fault_matrix_spec \<Rightarrow> (experiment_error + fault_matrix_report) option" where
  "run_luminary_p63_fault_matrix rope spec = map_option fst (run_matrix rope spec ())"

end
