(* ===== verification/Agc_Experiments_Laws.thy ===== *)
theory Agc_Experiments_Laws
  imports Agc_Experiments Agc_Mission_Laws
begin

text \<open>
  Laws of the experiments: a mission applies exactly the faults that fall due before its limit, a
  valid matrix is run to its end arm by arm, and the aggregate counts its outcomes.
\<close>

section \<open>The faults of a mission\<close>

lemma mission_outcome:
  assumes "mission_ready sc c" "sequence (rt_cpu (target (mn_campaign c))) < sn_instruction_limit sc"
  shows "case mission_run sc c of
      None \<Rightarrow> False
    | Some (Inl x, c') \<Rightarrow> rejects sc x
    | Some (Inr r, c') \<Rightarrow> cpu_ok (rt_cpu (target (mn_campaign c'))) \<and> mr_instructions r = sn_instruction_limit sc
      \<and> map af_fault (mr_applied_faults r) = map af_fault (applied (engine (mn_campaign c)))
          @ map snd (filter (\<lambda>x. fst x < sn_instruction_limit sc) (contents (plan_of (mn_campaign c))))
      \<and> contents (plan_of (mn_campaign c')) = filter (\<lambda>x. sn_instruction_limit sc \<le> fst x) (contents (plan_of (mn_campaign c)))"
  using run_mission_body [OF assms(1) refl refl] assms(2)
  by (auto simp: runs_def mission_run_def run_finished_def report_run_def instructions_done_def
      the_runtime_def the_campaign_def applied_below_def faults_left_def faults_done_def book_of_def reads_ok_def machine_ok_def
      split: option.splits sum.splits)

text \<open>
  A mission applies exactly the scheduled faults whose boundary lies below the limit of the
  scenario, each once, in the order of their boundaries and after those the campaign had already
  applied; the others stay scheduled.
\<close>

theorem mission_applies_faults:
  assumes "mission_ready sc c" "mission_run sc c = Some (Inr r, c')"
    "sequence (rt_cpu (target (mn_campaign c))) < sn_instruction_limit sc"
  shows "map af_fault (mr_applied_faults r) = map af_fault (applied (engine (mn_campaign c)))
        @ map snd (filter (\<lambda>x. fst x < sn_instruction_limit sc) (contents (plan_of (mn_campaign c))))
    \<and> contents (plan_of (mn_campaign c')) = filter (\<lambda>x. sn_instruction_limit sc \<le> fst x) (contents (plan_of (mn_campaign c)))"
  using mission_outcome [OF assms(1,3)] assms(2) by simp

section \<open>The arms\<close>

text \<open>The words of a fault have fifteen bits, as the constructors of \<open>AgcWord\<close> promise.\<close>

definition fault_words_ok :: "fault \<Rightarrow> bool" where
  "fault_words_ok f = (case f of StuckChannel channel v instructions \<Rightarrow> word_ok v | RadarSample distance rate \<Rightarrow> word_ok distance \<and> word_ok rate
     | _ \<Rightarrow> True)"

lemma valid_fault_sound: "validate_fault f = None \<Longrightarrow> fault_words_ok f \<Longrightarrow> fault_sound f"
  by (cases f) (auto simp: validate_fault_def fault_words_ok_def fault_sound_def word_less_nat_alt word_le_nat_alt not_less not_le
      split: if_splits)

lemma valid_cases: "validate_cases ids cs = None \<Longrightarrow> c \<in> set cs \<Longrightarrow> validate_fault (cs_fault c) = None"
  by (induction cs arbitrary: ids) (auto split: if_splits option.splits)

lemma valid_ids: "validate_cases ids cs = None \<Longrightarrow> distinct (map cs_id cs) \<and> set (map cs_id cs) \<inter> set ids = {}"
proof (induction cs arbitrary: ids)
  case (Cons c cs)
  then have "cs_id c \<notin> set ids" "validate_cases (cs_id c # ids) cs = None" by (auto split: if_splits option.splits)
  with Cons.IH [of "cs_id c # ids"] show ?case by auto
qed simp

lemma resolve_all_spec:
  "resolve_all cs baseline limit = Inr rs \<Longrightarrow> list_all2 (\<lambda>c r. rj_declared r = cs_injection c \<and> rj_instruction r < limit) cs rs"
  by (induction cs arbitrary: rs)
    (auto simp: resolve_injection_def Let_def bind_result_def split: sum.splits if_splits)

lemma resolve_all_error: "resolve_all cs baseline limit = Inl x \<Longrightarrow> \<exists>c \<in> set cs. \<exists>p. x = Injection (cs_id c) p"
  by (induction cs) (auto simp: resolve_injection_def Let_def bind_result_def split: sum.splits if_splits)

lemma pc_of_ok: "cpu_ok c \<Longrightarrow> \<exists>pc. pc_of c = Some pc"
proof -
  assume "cpu_ok c"
  then have "succeeds (program_counter :: (cpu, cpu_error, u16) prog) c (\<lambda>pc d. d = c)" by (rule succeeds_program_counter)
  then show ?thesis by (auto simp: pc_of_def succeeds_iff)
qed

text \<open>The controller of every arm: a new processor with at most the fault of the arm scheduled.\<close>

definition template_ok :: "mission_controller \<Rightarrow> bool" where
  "template_ok t \<longleftrightarrow> (\<exists>c. cpu_ok c \<and> sequence c = 0 \<and> t = controller_from_runtime (runtime_new c))"

lemma run_template:
  assumes "into_memory rope = Inr m" "mem_ok m"
  shows "succeeds (template_from_rope rope) () (\<lambda>t _. template_ok t)"
proof -
  obtain c where c: "cpu_new m = Some c" "cpu_ok c" using cpu_new_ok [OF assms(2)] by blast
  moreover have "sequence c = 0"
    using c(1) assms(2) by (auto simp: cpu_new_def set_z_run cpu_initial_def mem_ok_reset)
  ultimately show ?thesis
    by (auto simp: template_from_rope_def controller_from_rope_def assms(1) template_ok_def)
qed

definition arm_done :: "mission_scenario \<Rightarrow> fault list \<Rightarrow> mission_result \<times> mission_controller \<Rightarrow> bool" where
  "arm_done sc fs = (\<lambda>(r, c'). cpu_ok (rt_cpu (target (mn_campaign c'))) \<and> mr_instructions r = sn_instruction_limit sc
     \<and> map af_fault (mr_applied_faults r) = fs)"

definition arm_scenario :: "mission_scenario \<Rightarrow> bool" where
  "arm_scenario sc \<longleftrightarrow> scenario_sound sc \<and> operator_only sc \<and> 0 < sn_instruction_limit sc \<and> sn_inputs sc = [] \<and> keys_to_come sc = 7"

lemma run_arm_done:
  assumes sc: "arm_scenario sc"
    and c: "mission_ready sc c" "sequence (rt_cpu (target (mn_campaign c))) = 0" "applied (engine (mn_campaign c)) = []"
  shows "succeeds (run_arm sc c) () (\<lambda>x _. arm_done sc (map snd (filter (\<lambda>x. fst x < sn_instruction_limit sc) (contents (plan_of (mn_campaign c))))) x)"
  using mission_outcome [OF c(1)] sc c(2,3)
  by (auto simp: run_arm_def runs_def arm_done_def arm_scenario_def rejects_def split: option.splits sum.splits)

lemma template_ready: "arm_scenario sc \<Longrightarrow> template_ok t \<Longrightarrow> mission_ready sc t"
  by (auto simp: template_ok_def arm_scenario_def intro!: landing_ready)

lemma template_simps:
  assumes "template_ok t"
  shows "sequence (rt_cpu (target (mn_campaign t))) = 0" "applied (engine (mn_campaign t)) = []" "plan_of (mn_campaign t) = []"
  using assms by (auto simp: template_ok_def controller_from_runtime_def runtime_new_def default_engine_def)

lemma run_baseline:
  assumes "arm_scenario sc" "template_ok t"
  shows "succeeds (run_arm sc t) () (\<lambda>x _. arm_done sc [] x)"
  using run_arm_done [OF assms(1) template_ready [OF assms]] by (simp add: template_simps [OF assms(2)] contents_def)

lemma run_faulted:
  assumes sc: "arm_scenario sc" and t: "template_ok t" and f: "fault_sound f" "n < sn_instruction_limit sc"
  shows "succeeds (and_then (with_fault n f t) (run_arm sc)) () (\<lambda>x _. arm_done sc [f] x)"
proof -
  obtain c where c: "cpu_ok c" "sequence c = 0" "t = controller_from_runtime (runtime_new c)"
    using t by (auto simp: template_ok_def)
  define x where "x = \<lparr>scheduled = [((n, 0), f)], active_channels = [], next_sequence = 1, applied = []\<rparr>"
  define d where "d = t\<lparr>mn_campaign := (mn_campaign t)\<lparr>engine := x\<rparr>\<rparr>"
  have "with_fault n f t = ok d"
    by (rule ext) (simp add: with_fault_def mission_schedule_fault_def schedule_fault_def zoom_def run_simps U64_MAX_def c(3)
        controller_from_runtime_def default_engine_def d_def x_def)
  moreover have "runtime_ok 8 (runtime_new c)" by (rule runtime_ok_new [OF c(1)]) simp
  then have "mission_ready sc d"
    using sc f(1) c by (simp add: arm_scenario_def mission_ready_def campaign_ok_def d_def x_def controller_from_runtime_def
        numbered_def btree_ok_def contents_def runtime_new_def U64_MAX_def)
  moreover have "sequence (rt_cpu (target (mn_campaign d))) = 0" "applied (engine (mn_campaign d)) = []"
    "contents (plan_of (mn_campaign d)) = [(n, f)]"
    using template_simps [OF t] by (simp_all add: d_def x_def contents_def)
  ultimately show ?thesis using run_arm_done [OF sc, of d] f(2) by simp
qed

section \<open>The matrix\<close>

text \<open>What the report of an arm says of its case.\<close>

definition arm_report :: "nat \<Rightarrow> fault_case_spec \<Rightarrow> fault_case_result \<Rightarrow> bool" where
  "arm_report limit c k \<longleftrightarrow> cr_id k = cs_id c \<and> rj_declared (cr_injection k) = cs_injection c \<and> rj_instruction (cr_injection k) < limit
     \<and> map af_fault (cr_applied k) = [cs_fault c] \<and> ma_instructions (cr_faulted k) = limit
     \<and> (cr_outcome k = NotActivated \<longrightarrow> (\<exists>i. cs_fault c = DropInterrupt i))"

lemma not_activated:
  "map af_fault fs = [f] \<Longrightarrow> \<not> fault_target_activated fs \<Longrightarrow> \<exists>i. f = DropInterrupt i"
  by (auto simp: fault_target_activated_def split: fault.splits)

lemma acceptance_done:
  assumes "arm_done sc fs (r, c)"
  shows "\<exists>a. acceptance r c = Some a \<and> ma_instructions a = sn_instruction_limit sc"
proof -
  obtain pc where "pc_of (rt_cpu (target (mn_campaign c))) = Some pc" using assms pc_of_ok by (auto simp: arm_done_def)
  then show ?thesis using assms by (simp add: acceptance_def arm_done_def Let_def)
qed

lemma run_case_done:
  assumes sc: "arm_scenario sc" and t: "template_ok t" and f: "fault_sound (cs_fault c)"
    and r: "rj_declared r = cs_injection c" "rj_instruction r < sn_instruction_limit sc"
    and b: "cpu_ok (rt_cpu (target (mn_campaign bc)))"
  shows "succeeds (run_case sc t baseline bc (c, r)) () (\<lambda>k _. arm_report (sn_instruction_limit sc) c k)"
proof -
  define rest where "rest = (\<lambda>(arm, controller).
     and_then (of_option (acceptance arm controller)) (\<lambda>faulted.
     and_then (of_option (compare_recovery (target (mn_campaign bc)) (target (mn_campaign controller)))) (\<lambda>recovery.
     ok (case_result c r baseline bc arm controller faulted recovery) :: fault_case_result trial)))"
  have arm: "succeeds (rest x) () (\<lambda>k _. arm_report (sn_instruction_limit sc) c k)" if x: "arm_done sc [cs_fault c] x" for x
  proof -
    obtain arm ctl where xe: "x = (arm, ctl)" by (cases x)
    obtain a where a: "acceptance arm ctl = Some a" "ma_instructions a = sn_instruction_limit sc"
      using acceptance_done x xe by blast
    obtain d where d: "compare_recovery (target (mn_campaign bc)) (target (mn_campaign ctl)) = Some d"
      using pc_of_ok [OF b] pc_of_ok [of "rt_cpu (target (mn_campaign ctl))"] x
      by (auto simp: compare_recovery_def Let_def xe arm_done_def)
    have "map af_fault (mr_applied_faults arm) = [cs_fault c]" using x by (simp add: xe arm_done_def)
    then have "arm_report (sn_instruction_limit sc) c (case_result c r baseline bc arm ctl a d)"
      using r a(2) not_activated by (auto simp: arm_report_def case_result_def classify_def Let_def split: if_splits)
    then show ?thesis by (simp add: rest_def xe a d)
  qed
  have "run_case sc t baseline bc (c, r) = and_then (with_fault (rj_instruction r) (cs_fault c) t) (\<lambda>x. and_then (run_arm sc x) rest)"
    by (simp add: run_case_def rest_def)
  then show ?thesis
    using run_faulted [OF sc t f r(2)] arm by (auto simp: elim!: succeeds_mono)
qed

lemma run_cases_done:
  assumes sc: "arm_scenario sc" and t: "template_ok t" and b: "cpu_ok (rt_cpu (target (mn_campaign bc)))"
  shows "list_all2 (\<lambda>c r. rj_declared r = cs_injection c \<and> rj_instruction r < sn_instruction_limit sc) cs rs \<Longrightarrow>
    \<forall>c \<in> set cs. fault_sound (cs_fault c) \<Longrightarrow>
    succeeds (run_cases sc t baseline bc (zip cs rs)) () (\<lambda>ks _. list_all2 (arm_report (sn_instruction_limit sc)) cs ks)"
proof (induction cs rs rule: list_all2_induct)
  case (Cons c cs r rs)
  have "succeeds (run_case sc t baseline bc (c, r)) () (\<lambda>k _. arm_report (sn_instruction_limit sc) c k)"
    using Cons by (intro run_case_done [OF sc t _ _ _ b]) simp_all
  then show ?case
    using Cons by (auto elim!: succeeds_mono)
qed simp

lemma run_matrix_done:
  assumes rope: "into_memory rope = Inr m" "mem_ok m" and v: "validate_matrix spec = None"
    and words: "\<forall>c \<in> set (ms_cases spec). fault_words_ok (cs_fault c)"
  shows "runs (run_matrix rope spec) ()
    (\<lambda>report _. ma_instructions (fr_baseline report) = ms_limit spec \<and> list_all2 (arm_report (ms_limit spec)) (ms_cases spec) (fr_cases report)
       \<and> fr_aggregate report = aggregate (fr_cases report))
    (\<lambda>x _. \<exists>c \<in> set (ms_cases spec). \<exists>p. x = Injection (cs_id c) p)"
proof -
  obtain landing where l: "luminary_p63_landing = Some landing" "operator_only landing"
    "\<And>n. 0 < n \<Longrightarrow> scenario_sound (landing\<lparr>sn_instruction_limit := n\<rparr>)" "sn_inputs landing = []" "keys_to_come landing = 7"
    using landing_sound by metis
  define sc where "sc = landing\<lparr>sn_instruction_limit := ms_limit spec\<rparr>"
  have "0 < ms_limit spec" "validate_cases [] (ms_cases spec) = None" using v by (auto simp: validate_matrix_def split: if_splits)
  then have sc: "arm_scenario sc" "sn_instruction_limit sc = ms_limit spec"
    and sound: "\<forall>c \<in> set (ms_cases spec). fault_sound (cs_fault c)"
    using l words by (auto simp: sc_def arm_scenario_def operator_only_def keys_to_come_def intro: valid_fault_sound valid_cases)
  have named: "sn_name landing = sn_name sc" by (simp add: sc_def)
  let ?Q = "\<lambda>report (_ :: unit). ma_instructions (fr_baseline report) = ms_limit spec \<and> list_all2 (arm_report (ms_limit spec)) (ms_cases spec) (fr_cases report)
       \<and> fr_aggregate report = aggregate (fr_cases report)"
  let ?E = "\<lambda>x (_ :: unit). \<exists>c \<in> set (ms_cases spec). \<exists>p. x = Injection (cs_id c) p"
  define rest where "rest = (\<lambda>t (b, bc).
     and_then (of_option (acceptance b bc)) (\<lambda>baseline.
     and_then (of_result (resolve_all (ms_cases spec) b (ms_limit spec))) (\<lambda>resolved.
     and_then (run_cases sc t baseline bc (zip (ms_cases spec) resolved)) (\<lambda>results.
     ok \<lparr>fr_schema = FAULT_MATRIX_SCHEMA_VERSION, fr_name = ms_name spec, fr_scenario = sn_name sc,
         fr_limit = ms_limit spec, fr_baseline = baseline, fr_cases = results,
         fr_aggregate = aggregate results\<rparr> :: fault_matrix_report trial))))"
  have rest: "runs (rest t x) () ?Q ?E" if t: "template_ok t" and x: "arm_done sc [] x" for t x
  proof -
    obtain b bc where xe: "x = (b, bc)" by (cases x)
    obtain a where a: "acceptance b bc = Some a" "ma_instructions a = ms_limit spec"
      using acceptance_done x xe sc(2) by force
    show ?thesis
    proof (cases "resolve_all (ms_cases spec) b (ms_limit spec)")
      case (Inl e)
      then show ?thesis using resolve_all_error [OF Inl] by (simp add: rest_def xe a)
    next
      case (Inr rs)
      have "succeeds (run_cases sc t a bc (zip (ms_cases spec) rs)) () (\<lambda>ks _. list_all2 (arm_report (ms_limit spec)) (ms_cases spec) ks)"
        using run_cases_done [OF sc(1) t _ _ sound] resolve_all_spec [OF Inr] x by (simp add: xe arm_done_def sc(2))
      then show ?thesis using Inr by (auto simp: rest_def xe a elim!: runs_mono)
    qed
  qed
  have "run_matrix rope spec = and_then (template_from_rope rope) (\<lambda>t. and_then (run_arm sc t) (rest t))"
    by (rule ext) (simp add: run_matrix_def v l(1) of_option_def run_simps rest_def sc_def [symmetric] Let_def named)
  moreover have "runs (template_from_rope rope) () (\<lambda>t _. runs (and_then (run_arm sc t) (rest t)) () ?Q ?E) ?E"
  proof (rule succeeds_mono [OF run_template [OF rope]])
    fix t and u :: unit
    assume t: "template_ok t"
    have "runs (run_arm sc t) () (\<lambda>x _. runs (rest t x) () ?Q ?E) ?E"
      by (rule succeeds_mono [OF run_baseline [OF sc(1) t]]) (simp add: rest [OF t])
    then show "runs (and_then (run_arm sc t) (rest t)) () ?Q ?E" by simp
  qed
  ultimately show ?thesis unfolding runs_and_then [of "template_from_rope rope"] by simp
qed

lemma rope_memory: "into_memory rope = Inr m \<Longrightarrow> words_ok (ri_words rope) \<Longrightarrow> mem_ok m"
  using mem_ok_blank
  by (auto simp: into_memory_def with_rope_def mem_ok_def Let_def FIXED_BANKS_def FIXED_WORDS_PER_BANK_def split: if_splits)


definition blank_rope :: rope_image where
  "blank_rope = \<lparr>ri_words = replicate 36864 POSITIVE_ZERO, ri_format = PhysicalWords, ri_parity_words = 0\<rparr>"

definition one_flip :: fault_matrix_spec where
  "one_flip = \<lparr>ms_schema = 1, ms_name = ''flip'', ms_limit = 50, ms_cases =
     [\<lparr>cs_id = ''tland'', cs_injection = AtInstruction 20, cs_fault = PhysicalErasableBitFlip 5 0 4,
       cs_question = ''q'', cs_limitation = ''l''\<rparr>]\<rparr>"


text \<open>
  The aggregate of a matrix is the histogram of its outcomes: one entry for each class that
  occurs, in the order of the classes, with the number of arms of the class; the counts add up to
  the number of cases, and the degraded and the recovered arms are those of their entries.
\<close>

theorem aggregate_histogram:
  "fa_outcomes (aggregate rs) = map (\<lambda>x. (x, length (filter (\<lambda>r. cr_outcome r = x) rs))) (sorted_list_of_set (cr_outcome ` set rs))
   \<and> sum_list (map snd (fa_outcomes (aggregate rs))) = fa_cases (aggregate rs)
   \<and> fa_degraded (aggregate rs) = (case btree_get MissionDegraded (fa_outcomes (aggregate rs)) of Some n \<Rightarrow> n | None \<Rightarrow> 0)
   \<and> fa_recovered (aggregate rs) = (case btree_get Recovered (fa_outcomes (aggregate rs)) of Some n \<Rightarrow> n | None \<Rightarrow> 0)"
proof -
  let ?n = "\<lambda>x. length (filter (\<lambda>r. cr_outcome r = x) rs)"
  let ?K = "sorted_list_of_set (cr_outcome ` set rs)"
  have counted: "fold (\<lambda>_. Suc) xs n = n + length xs" for xs :: "fault_case_result list" and n
    by (induction xs arbitrary: n) simp_all
  have h: "fa_outcomes (aggregate rs) = map (\<lambda>x. (x, ?n x)) ?K"
    using tallied_keys [of cr_outcome 0 "\<lambda>_. Suc" rs] by (simp add: aggregate_def tallied_def counted)
  have "sum_list (map ?n ?K) = sum ?n (cr_outcome ` set rs)"
    by (simp add: sum_list_distinct_conv_sum_set)
  also have "\<dots> = length rs"
  proof -
    have counts: "count_list (map cr_outcome xs) x = length (filter (\<lambda>r. cr_outcome r = x) xs)" for xs :: "fault_case_result list" and x
      by (induction xs) auto
    have "sum ?n (cr_outcome ` set rs) = sum (count_list (map cr_outcome rs)) (cr_outcome ` set rs)"
      by (rule sum.cong) (simp_all add: counts)
    then show ?thesis using sum_count_set [of "map cr_outcome rs" "cr_outcome ` set rs"] by simp
  qed
  finally have "sum_list (map ?n ?K) = length rs" .
  moreover have got: "(case btree_get x (map (\<lambda>x. (x, ?n x)) ?K) of Some n \<Rightarrow> n | None \<Rightarrow> 0) = ?n x" for x
    by (auto simp: btree_get_def map_of_map_restrict restrict_map_def image_iff filter_empty_conv)
  ultimately show ?thesis
    unfolding h got by (simp add: aggregate_def comp_def)
qed

end
