(* ===== verification/Spec2Isabelle.thy ===== *)
theory Spec2Isabelle
  imports Agc_Fixed Agc_Cpu_Function Agc_Loader_Laws Agc_Faults_Laws Agc_Interpreter_Laws Agc_Dsky_Laws Agc_Parser_Laws Agc_Assembly_Laws
    Agc_Expansion_Laws Agc_Reference_Laws Agc_Coverage_Laws Agc_Validation_Laws Agc_Mission_Laws Agc_Xref_Laws
    Agc_Experiments_Laws
begin

text \<open>
  Verification of ApolloRS, an instruction-level model of the Block II Apollo Guidance Computer
  written in Rust (src/crates).

  The program

  A rope file is decoded (agc-loader) into the fixed memory of a machine (agc-memory).  A processor
  (agc-cpu) executes the instructions it decodes (agc-isa) on one's-complement words (agc-word) and
  records every step in a trace (agc-trace).  A runtime (agc-runtime) delivers queued events before
  each step, watches the flight software and collects the hardware's output; a fault engine
  (agc-faults) injects faults at instruction boundaries around it; a display and keyboard
  (agc-dsky) are driven by the trace.  A mission (agc-mission) ties these together: a scenario of
  inputs, typed keys and a pad load, frames sampled from the machine and evidence taken from the
  trace.  Traces are compared with each other and with a reference (agc-validation) and summarised
  (agc-coverage); matrices of missions with one fault each (agc-experiments) measure what a fault
  does.  On the other side, source text (agc-source) is parsed (agc-ast, agc-parser),
  patched by overlays (agc-overlay), expanded and assembled (agc-ir, agc-symbols, agc-assembler)
  into an image that the loader reads again; its graphs are drawn by agc-xref.  The interpretive language has a model of its own
  (agc-interpreter, agc-fixed).

  How the code is modelled

  The definitions follow the code operation by operation and keep its names.  A struct is a record,
  an enum a datatype, a sized integer a word of that width; u64 and usize counters are naturals,
  with the checks of the source where it makes them, and an i128 or an i64 whose overflow the
  source checks is an integer.  A Result is a sum with the error on the left.  A method on
  \<open>&mut self\<close> is a program of the type \<open>prog\<close> of Prelude: a function of the state that returns
  \<open>None\<close> for a panic, or an error or a value together with the new state, so that an error keeps the
  changes made before it.  A component inside another is reached by \<open>zoom\<close>.  BTreeMap and BTreeSet
  are sorted lists, a HashMap or an insertion-ordered map the list of its entries.  Texts are lists
  of characters, and ASCII where the source depends on byte positions.  Error and diagnostic
  messages are kept as their format with the arguments.  What the sources do not contain is an
  argument of the definitions that use it: the file system, processes, SHA-256, the state of the
  working tree, the parser of JSON lines, the connected components of petgraph.

  The theories

  Prelude: machine integers, the programs with their weakest preconditions (\<open>runs\<close>, \<open>succeeds\<close>) and
    the combinators \<open>keeps\<close> (an invariant), \<open>leaves\<close> and \<open>steady\<close> (a relation between the states
    before and after) that most laws are composed with.
  Word_Facts, Rust_Std, Rust_Text, Rust_Collections: facts on words; formatting and parsing of
    numbers; slices, splitting, trimming and paths; ordered maps, sets, tallies and the queue of
    things due at a boundary.
  Agc_Word, Agc_Fixed (agc-word, agc-fixed): words, registers, double words and fixed-point values.
    Agc_Word_Laws: the represented integers; addition with end-around carry is addition modulo
    2^15 - 1 and modulo 2^16 - 1.
  Agc_Isa (agc-isa), Agc_Isa_Laws: decoding and encoding and their inverse relation.
  Agc_Memory (agc-memory), Agc_Memory_Laws: the address map, reads and writes with their side
    effects, channels; the invariant \<open>mem_ok\<close> and what a read sees after a write.
  Agc_Trace (agc-trace), Agc_Trace_Laws: the log and its lines; the order of the events and the round
    trip of the text.
  Agc_Cpu, Agc_Cpu_Exec (agc-cpu): state, accesses, the routine of each instruction, timers,
    interrupts, steps and runs.  Agc_Cpu_Arith: division by conditional subtraction.  Agc_Cpu_Laws:
    every instruction is total on well-formed machines.  Agc_Cpu_Steps: timing, steps, runs and the
    reachable processors.  Agc_Cpu_Function: what MP, DV, CCS and the interrupt sequence compute.
  Agc_Loader (agc-loader), Agc_Loader_Laws: rope formats, bank order, parity; decoding inverts
    encoding and parity refuses a flipped bit.
  Agc_Runtime (agc-runtime), Agc_Runtime_Laws: the event queue, its delivery and the step; the queue
    refines the list of pending events, steps are total and runs end.
  Agc_Faults (agc-faults), Agc_Faults_Laws: the faults, stuck channels and the audit; sound faults
    never fail, are applied in order and leave the observer alone.
  Agc_Dsky (agc-dsky), Agc_Dsky_Laws: the keyboard codes, the V37 protocol and the display.
  Agc_Interpreter (agc-interpreter), Agc_Interpreter_Laws: the interpretive language and its ranges.
  Agc_Mission (agc-mission): scenarios, controller, run and evidence.  Agc_Mission_Steps: the reads of
    a round as functions of the state, keys in step with the reconstruction of V37, delivery.
    Agc_Mission_Laws: rounds and frames; that a mission ends and what its verdict means.
  Agc_Experiments (agc-experiments), Agc_Experiments_Laws: matrices of missions with one fault each;
    a mission applies exactly the faults below its limit, a valid matrix is run to its end and its
    aggregate is the histogram of the outcomes.
  Agc_Validation (agc-validation), Agc_Validation_Laws: comparison of traces, the reference rows, the
    determinism check.
  Agc_Coverage (agc-coverage), Agc_Coverage_Laws: the counts of a trace, streamed or in one batch.
  Agc_Source, Agc_Parser, Agc_Symbols (agc-source, agc-ast and agc-parser, agc-ir and agc-symbols):
    source files, the syntax tree and its parser, records, operands and symbols.  Agc_Parser_Laws:
    the parse keeps the text and every span.
  Agc_Overlay (agc-overlay), Agc_Overlay_Laws: overlays, edits and the resolution of includes.
  Agc_Assembler, Agc_Expansion, Agc_Reference (agc-assembler): the two passes, the expansion of
    includes, the reference assembler and the import of listings.  Agc_Assembler_Laws,
    Agc_Assembly_Laws, Agc_Expansion_Laws, Agc_Reference_Laws: what a successful assembly says of
    labels, cells and the rope, that the expansion ends, and what an import returns.
  Agc_Xref (agc-xref), Agc_Xref_Laws: include and call graphs and their recursive groups.

  Interfaces

  \<open>end_around\<close> and its extension \<open>end_around_complement\<close> (addition with end-around carry) are
  interpreted on the addition of words and of registers; \<open>event_sink\<close> (an append-only ordered log) on
  the trace log and its reader; \<open>word_store\<close> (reads and writes of cells under an invariant) on the
  memory's logical, operand, channel and traced accesses; \<open>due_queue\<close> (delivery of what is due) on
  the runtime's events and the engine's faults.  The types of interrupts, source identities and
  traced addresses are linear orders, so that the ordered maps apply to them.

  Loops and fuel

  Loops over data are structural.  Division runs one subtraction per quotient bit.  A scaler
  service takes 80 off a sixteen-bit count, so that 820 ticks are enough; the wait for a ready
  memory cycle ends within \<open>ADVANCE_FUEL\<close> = 16 rounds on a well-formed processor.  A run of the processor, the runtime, a campaign or a
  mission to a limit of n instructions has fuel 2 n + 2: a step that enters an interrupt commits
  nothing and is followed by one that does.  The expansion of includes has as fuel more than the
  number of distinct readable files, which its cycle check never lets it exceed.  For each of these
  a theorem shows that the fuel is not used up.

  Not modelled

  serde, Display and Debug code and the tests.  Of agc-overlay and agc-assembler the operations on
  directory trees (loading JSON, verify_against, materialize, copy_tree, copy_reference_tree).
  agc-transpiler (the text of generated Rust sources), agc-conformance (the vectors of a generated
  test rope and their reports), agc-reports (HTML and Markdown) and the command line (apollors-cli).
\<close>

end
